(* ===== verification/OuroPrelude.thy ===== *)
theory OuroPrelude
  imports Main "HOL-Library.Word"
begin

unbundle bit_operations_syntax

text \<open>
  Shared vocabulary of the development: the instants and durations of Go's
  \<open>time\<close> package, byte strings, the error values of the issuer service, and the
  list lemmas that every table of the store uses.

  \<^item> An instant (\<open>time.Time\<close>) is the number of nanoseconds since the Unix epoch;
    a \<open>time.Duration\<close> is a number of nanoseconds.
  \<^item> A Go string is a \<open>string\<close> (one \<open>char\<close> per byte), a \<open>[]byte\<close> a list of
    \<open>8 word\<close>.
  \<^item> A nullable column or a pointer is an \<open>option\<close>.
  \<^item> A Go pair \<open>(T, error)\<close> is the sum \<open>err + 'a\<close>, \<open>Inl\<close> for the error.
\<close>

named_theorems io_simps \<open>running the state-and-error operations\<close>
named_theorems table_simps \<open>rows of a table after an insert, update or delete\<close>

type_synonym instant = int
type_synonym duration = int
type_synonym byte = "8 word"
type_synonym bytes = "8 word list"

definition nanosecond :: duration where "nanosecond = 1"
definition millisecond :: duration where "millisecond = 1000000"
definition second :: duration where "second = 1000000000"
definition minute :: duration where "minute = 60 * second"
definition hour :: duration where "hour = 60 * minute"

lemmas duration_defs = nanosecond_def millisecond_def second_def minute_def hour_def

text \<open>\<open>t.After(u)\<close>, \<open>t.Before(u)\<close>, \<open>t.Add(d)\<close> and \<open>t.Unix()\<close> of Go's \<open>time\<close>.\<close>

abbreviation after :: "instant \<Rightarrow> instant \<Rightarrow> bool" where "after t u \<equiv> u < t"
abbreviation before :: "instant \<Rightarrow> instant \<Rightarrow> bool" where "before t u \<equiv> t < u"

definition unix_sec :: "instant \<Rightarrow> int" where
  "unix_sec t = t div second"

section \<open>Error values\<close>

text \<open>
  The sentinel errors of \<open>internal/domain/errors.go\<close>, of \<open>core/oauth\<close>, \<open>core/keys\<close>
  and \<open>core/admin\<close>, of the COSE code, an error of the database driver (\<open>ErrDB\<close>, which
  also stands for a violated uniqueness constraint) and the errors made by
  \<open>fmt.Errorf\<close> and \<open>errors.New\<close> on the spot (\<open>ErrMsg\<close>).
\<close>

datatype err =
    ErrNotFound | ErrConsumed | ErrExpired | ErrPurpose | ErrConflict
  | ErrInvalidClient | ErrInvalidRequest | ErrNotEligible | ErrAccessDenied
  | ErrInvalidGrant | ErrUnsupportedGrant | ErrInvalidClientCreds
  | ErrUnauthorized | ErrForbidden
  | ErrNotRotating | ErrNoActiveKey
  | ErrNotImplemented
  | ErrCOSEMalformed | ErrCOSEAlg | ErrCOSEPayload | ErrCOSESignature | ErrCOSENoPayload
  | ErrCOSEKeyMalformed | ErrCOSEKeyType
  | ErrDB
  | ErrMsg string

section \<open>Generic lemmas\<close>

lemma filter_map_inv:
  assumes "\<And>x. P (f x) = P x"
  shows "filter P (map f xs) = map f (filter P xs)"
  using assms by (induction xs) auto

lemma find_Some_mem: "find P xs = Some x \<Longrightarrow> x \<in> set xs \<and> P x"
  by (auto simp: find_Some_iff)

lemma find_None_all: "find P xs = None \<longleftrightarrow> (\<forall>x \<in> set xs. \<not> P x)"
  by (auto simp: find_None_iff)

lemma find_append:
  "find P (xs @ ys) = (case find P xs of Some x \<Rightarrow> Some x | None \<Rightarrow> find P ys)"
  by (induction xs) auto

lemma find_map_key:
  assumes "\<And>x. k (f x) = k x"
  shows "find (\<lambda>x. k x = a) (map f xs) = map_option f (find (\<lambda>x. k x = a) xs)"
  using assms by (induction xs) auto

lemma find_distinct_key:
  assumes "distinct (map k xs)" "x \<in> set xs"
  shows "find (\<lambda>y. k y = k x) xs = Some x"
  using assms by (induction xs) (auto simp: image_iff)

lemma sum_case_Inr: "(case x of Inl e \<Rightarrow> Inl e | Inr y \<Rightarrow> f y) = Inr z
    \<longleftrightarrow> (\<exists>y. x = Inr y \<and> f y = Inr z)"
  by (cases x) auto

end
