(* ===== verification/GoText.thy ===== *)
theory GoText
  imports OuroPrelude
begin

text \<open>
  The functions of Go's \<open>strings\<close>, \<open>strconv\<close>, \<open>encoding/hex\<close> and \<open>math/big\<close> that
  the service calls, on byte strings: trimming, case folding, splitting, prefixes and
  suffixes, hexadecimal, and decimal numerals. Case folding and white space are those
  of ASCII (the service applies them to identifiers, addresses and commands).
  The lemmas are the round trips \<open>decode (encode x) = x\<close> and the laws of splitting
  that the components use.
\<close>

section \<open>strings\<close>

definition is_space :: "char \<Rightarrow> bool" where
  "is_space c \<longleftrightarrow> (let n = of_char c :: nat in n = 32 \<or> (9 \<le> n \<and> n \<le> 13))"

definition trim_left :: "string \<Rightarrow> string" where
  "trim_left s = dropWhile is_space s"

definition trim_space :: "string \<Rightarrow> string" where
  "trim_space s = rev (trim_left (rev (trim_left s)))"

definition char_lower :: "char \<Rightarrow> char" where
  "char_lower c = (let n = of_char c :: nat in if 65 \<le> n \<and> n \<le> 90 then char_of (n + 32) else c)"

definition char_upper :: "char \<Rightarrow> char" where
  "char_upper c = (let n = of_char c :: nat in if 97 \<le> n \<and> n \<le> 122 then char_of (n - 32) else c)"

definition to_lower :: "string \<Rightarrow> string" where
  "to_lower s = map char_lower s"

definition to_upper :: "string \<Rightarrow> string" where
  "to_upper s = map char_upper s"

definition has_prefix :: "string \<Rightarrow> string \<Rightarrow> bool" where
  "has_prefix s p \<longleftrightarrow> take (length p) s = p"

definition has_suffix :: "string \<Rightarrow> string \<Rightarrow> bool" where
  "has_suffix s p \<longleftrightarrow> length p \<le> length s \<and> drop (length s - length p) s = p"

text \<open>\<open>strings.Split(s, sep)\<close> for a one-byte separator: always at least one piece.\<close>

fun split_on :: "char \<Rightarrow> string \<Rightarrow> string list" where
  "split_on c [] = [[]]"
| "split_on c (x # xs) =
     (if x = c then [] # split_on c xs
      else (case split_on c xs of [] \<Rightarrow> [[x]] | p # ps \<Rightarrow> (x # p) # ps))"

fun join_on :: "char \<Rightarrow> string list \<Rightarrow> string" where
  "join_on c [] = []"
| "join_on c [p] = p"
| "join_on c (p # ps) = p @ c # join_on c ps"

text \<open>\<open>strings.SplitN(s, sep, 2)\<close>: the text before the first separator, and the rest if any.\<close>

definition split2 :: "char \<Rightarrow> string \<Rightarrow> string \<times> string option" where
  "split2 c s = (let a = takeWhile (\<lambda>x. x \<noteq> c) s; r = dropWhile (\<lambda>x. x \<noteq> c) s
     in (a, (case r of [] \<Rightarrow> None | _ # b \<Rightarrow> Some b)))"

text \<open>\<open>strings.Count(s, sep)\<close> for a one-byte separator.\<close>

definition count_char :: "char \<Rightarrow> string \<Rightarrow> nat" where
  "count_char c s = length (filter (\<lambda>x. x = c) s)"

definition bytes_of :: "string \<Rightarrow> bytes" where
  "bytes_of s = map of_char s"

definition string_of :: "bytes \<Rightarrow> string" where
  "string_of bs = map (\<lambda>b. char_of (unat b)) bs"

lemma split_on_nonempty [simp]: "split_on c s \<noteq> []"
  by (induction s) (auto split: list.splits)

lemma join_split: "join_on c (split_on c s) = s"
proof (induction s)
  case Nil
  show ?case by simp
next
  case (Cons x xs)
  obtain p ps where *: "split_on c xs = p # ps"
    by (cases "split_on c xs") auto
  then show ?case using Cons.IH by (cases ps) auto
qed

lemma split_on_no_sep: "p \<in> set (split_on c s) \<Longrightarrow> c \<notin> set p"
  by (induction s arbitrary: p) (auto split: list.splits if_splits)

lemma length_split_on: "length (split_on c s) = Suc (count_char c s)"
  by (induction s) (auto simp: count_char_def split: list.splits)

lemma split2_join: "split2 c s = (a, Some b) \<Longrightarrow> s = a @ c # b"
proof -
  assume "split2 c s = (a, Some b)"
  then obtain y where a: "a = takeWhile (\<lambda>x. x \<noteq> c) s" and r: "dropWhile (\<lambda>x. x \<noteq> c) s = y # b"
    by (auto simp: split2_def Let_def split: list.splits)
  have "y = c" using r hd_dropWhile[of "\<lambda>x. x \<noteq> c" s] by auto
  then show ?thesis using a r takeWhile_dropWhile_id[of "\<lambda>x. x \<noteq> c" s] by simp
qed

lemma trim_left_idem [simp]: "trim_left (trim_left s) = trim_left s"
  by (simp add: trim_left_def dropWhile_idem)

lemma trim_left_eq: "trim_left s = s \<longleftrightarrow> s = [] \<or> \<not> is_space (hd s)"
proof (cases s)
  case (Cons a list)
  have "length (dropWhile is_space list) \<noteq> length (a # list)"
    using length_dropWhile_le[of is_space list] by simp
  then have "dropWhile is_space list \<noteq> a # list" by metis
  then show ?thesis using Cons by (simp add: trim_left_def)
qed (simp add: trim_left_def)

lemma hd_rev_trim_left: "trim_left s \<noteq> [] \<Longrightarrow> hd (rev (trim_left s)) = hd (rev s)"
proof -
  assume ne: "trim_left s \<noteq> []"
  have "s = takeWhile is_space s @ trim_left s"
    by (simp add: trim_left_def)
  then have "last s = last (trim_left s)" using ne by (metis last_append)
  moreover have "s \<noteq> []" using ne by (auto simp: trim_left_def)
  ultimately show ?thesis using ne by (simp add: hd_rev)
qed

lemma trim_space_blank: "trim_space s = [] \<longleftrightarrow> (\<forall>c \<in> set s. is_space c)"
proof
  assume blank: "trim_space s = []"
  have "trim_left s = []"
  proof (rule ccontr)
    assume ne: "trim_left s \<noteq> []"
    then have "\<not> is_space (hd (trim_left s))" by (simp add: trim_left_def hd_dropWhile)
    moreover have "\<forall>c \<in> set (trim_left s). is_space c"
      using blank by (auto simp: trim_space_def trim_left_def[of "rev _"])
    ultimately show False using ne by simp
  qed
  then show "\<forall>c \<in> set s. is_space c" by (simp add: trim_left_def)
qed (simp add: trim_space_def trim_left_def dropWhile_eq_Nil_conv[THEN iffD2])

lemma trim_space_id:
  assumes "s \<noteq> []" "\<not> is_space (hd s)" "\<not> is_space (last s)"
  shows "trim_space s = s"
proof -
  have "trim_left s = s" using assms by (simp add: trim_left_eq)
  moreover have "trim_left (rev s) = rev s" using assms by (simp add: trim_left_eq hd_rev)
  ultimately show ?thesis by (simp add: trim_space_def)
qed

lemma char_lower_idem [simp]: "char_lower (char_lower c) = char_lower c"
  by (auto simp: char_lower_def Let_def of_char_of)

lemma to_lower_idem [simp]: "to_lower (to_lower s) = to_lower s"
  by (simp add: to_lower_def)

lemma length_to_lower [simp]: "length (to_lower s) = length s"
  by (simp add: to_lower_def)

lemma has_prefix_append [simp]: "has_prefix (p @ s) p"
  by (simp add: has_prefix_def)

lemma has_suffix_append [simp]: "has_suffix (s @ p) p"
  by (simp add: has_suffix_def)

lemma has_suffix_iff: "has_suffix s p \<longleftrightarrow> (\<exists>t. s = t @ p)"
proof
  assume "has_suffix s p"
  then have "s = take (length s - length p) s @ p"
    by (metis append_take_drop_id has_suffix_def)
  then show "\<exists>t. s = t @ p" by blast
qed auto

lemma string_of_bytes_of [simp]: "string_of (bytes_of s) = s"
proof -
  have "char_of (unat (of_char c :: byte)) = c" for c
  proof -
    have "(of_char c :: nat) < 256" by simp
    then have "unat (word_of_nat (of_char c) :: byte) = (of_char c :: nat)"
      by (simp add: unat_of_nat)
    then show ?thesis by (simp add: of_nat_of_char)
  qed
  then show ?thesis by (simp add: string_of_def bytes_of_def map_idI)
qed

section \<open>encoding/hex\<close>

definition hex_digit :: "nat \<Rightarrow> char" where
  "hex_digit n = char_of (if n < 10 then n + 48 else n + 87)"

definition hex_val :: "char \<Rightarrow> nat option" where
  "hex_val c = (let n = of_char c :: nat in
     if 48 \<le> n \<and> n \<le> 57 then Some (n - 48)
     else if 97 \<le> n \<and> n \<le> 102 then Some (n - 87)
     else if 65 \<le> n \<and> n \<le> 70 then Some (n - 55)
     else None)"

fun hex_decode :: "string \<Rightarrow> bytes option" where
  "hex_decode [] = Some []"
| "hex_decode [_] = None"
| "hex_decode (a # b # s) =
     (case (hex_val a, hex_val b) of
        (Some x, Some y) \<Rightarrow> map_option (\<lambda>bs. word_of_nat (16 * x + y) # bs) (hex_decode s)
      | _ \<Rightarrow> None)"

fun hex_encode :: "bytes \<Rightarrow> string" where
  "hex_encode [] = []"
| "hex_encode (b # bs) = hex_digit (unat b div 16) # hex_digit (unat b mod 16) # hex_encode bs"

lemma hex_val_digit: "n < 16 \<Longrightarrow> hex_val (hex_digit n) = Some n"
  by (auto simp: hex_val_def hex_digit_def of_char_of)

lemma unat_byte_less [simp]: "unat (b :: byte) < 256"
  using unsigned_less[of b] by simp

lemma hex_decode_encode [simp]: "hex_decode (hex_encode bs) = Some bs"
proof (induction bs)
  case Nil
  show ?case by simp
next
  case (Cons b bs)
  have "unat b div 16 < 16"
    using unat_byte_less[of b] by (simp only: div_less_iff_less_mult)
  then show ?case using Cons.IH
    by (simp add: hex_val_digit)
qed

lemma length_hex_encode [simp]: "length (hex_encode bs) = 2 * length bs"
  by (induction bs) auto

lemma hex_decode_length: "hex_decode s = Some bs \<Longrightarrow> length s = 2 * length bs"
  by (induction s arbitrary: bs rule: hex_decode.induct) (auto split: option.splits)

lemma hex_val_less: "hex_val c = Some n \<Longrightarrow> n < 16"
  by (auto simp: hex_val_def Let_def split: if_splits)

section \<open>Decimal numerals: \<open>strconv.Itoa\<close>, \<open>big.Int.SetString(s, 10)\<close>, \<open>big.Int.String\<close>\<close>

definition digit_char :: "nat \<Rightarrow> char" where
  "digit_char n = char_of (n + 48)"

definition digit_val :: "char \<Rightarrow> nat option" where
  "digit_val c = (let n = of_char c :: nat in if 48 \<le> n \<and> n \<le> 57 then Some (n - 48) else None)"

fun nat_string :: "nat \<Rightarrow> string" where
  "nat_string n = (if n < 10 then [digit_char n] else nat_string (n div 10) @ [digit_char (n mod 10)])"

declare nat_string.simps [simp del]

fun digits_val :: "nat \<Rightarrow> string \<Rightarrow> nat option" where
  "digits_val acc [] = Some acc"
| "digits_val acc (c # cs) =
     (case digit_val c of None \<Rightarrow> None | Some d \<Rightarrow> digits_val (10 * acc + d) cs)"

definition nat_parse :: "string \<Rightarrow> nat option" where
  "nat_parse s = (if s = [] then None else digits_val 0 s)"

definition big_string :: "int \<Rightarrow> string" where
  "big_string i = (if i < 0 then CHR ''-'' # nat_string (nat (- i)) else nat_string (nat i))"

definition big_parse :: "string \<Rightarrow> int option" where
  "big_parse s = (case s of
       [] \<Rightarrow> None
     | c # cs \<Rightarrow>
         if c = CHR ''-'' then map_option (\<lambda>n. - int n) (nat_parse cs)
         else if c = CHR ''+'' then map_option int (nat_parse cs)
         else map_option int (nat_parse s))"

lemma digit_val_char: "n < 10 \<Longrightarrow> digit_val (digit_char n) = Some n"
  by (auto simp: digit_val_def digit_char_def of_char_of)

lemma digits_val_append:
  "digits_val acc (s @ t) = (case digits_val acc s of None \<Rightarrow> None | Some a \<Rightarrow> digits_val a t)"
  by (induction acc s rule: digits_val.induct) (auto split: option.splits)

lemma nat_string_nonempty [simp]: "nat_string n \<noteq> []"
  by (subst nat_string.simps) simp

lemma digits_val_nat_string: "digits_val 0 (nat_string n) = Some n"
proof (induction n rule: nat_string.induct)
  case (1 n)
  show ?case
  proof (cases "n < 10")
    case True
    then show ?thesis by (subst nat_string.simps) (simp add: digit_val_char)
  next
    case False
    with "1.IH" show ?thesis
      by (subst nat_string.simps) (simp add: digits_val_append digit_val_char)
  qed
qed

lemma nat_parse_string [simp]: "nat_parse (nat_string n) = Some n"
  by (simp add: nat_parse_def digits_val_nat_string)

lemma nat_string_digits: "c \<in> set (nat_string n) \<Longrightarrow> \<exists>d < 10. c = digit_char d"
proof (induction n rule: nat_string.induct)
  case (1 n)
  then show ?case
  proof (cases "n < 10")
    case True
    with "1.prems" show ?thesis by (auto simp: nat_string.simps[of n])
  next
    case False
    have "\<exists>d < 10. digit_char (n mod 10) = digit_char d"
      by (rule exI[of _ "n mod 10"]) simp
    with False 1 show ?thesis by (auto simp: nat_string.simps[of n])
  qed
qed

lemma digit_char_neq: "d < 10 \<Longrightarrow> digit_char d \<noteq> CHR ''-'' \<and> digit_char d \<noteq> CHR ''+''"
proof -
  assume "d < 10"
  then have "(of_char (digit_char d) :: nat) = d + 48"
    by (simp add: digit_char_def of_char_of)
  moreover have "(of_char CHR ''-'' :: nat) = 45" "(of_char CHR ''+'' :: nat) = 43" by simp_all
  ultimately show ?thesis by (auto dest!: arg_cong[where f = "of_char :: char \<Rightarrow> nat"])
qed

lemma big_parse_string [simp]: "big_parse (big_string i) = Some i"
proof -
  have hd: "hd (nat_string n) \<noteq> CHR ''-'' \<and> hd (nat_string n) \<noteq> CHR ''+''" for n
    using nat_string_digits[of "hd (nat_string n)" n] digit_char_neq by (metis hd_in_set nat_string_nonempty)
  show ?thesis
  proof (cases "i < 0")
    case True
    then show ?thesis by (simp add: big_string_def big_parse_def)
  next
    case False
    obtain c cs where c: "nat_string (nat i) = c # cs"
      by (cases "nat_string (nat i)") auto
    with hd[of "nat i"] False show ?thesis
      using nat_parse_string[of "nat i"]
      by (simp add: big_string_def big_parse_def del: nat_parse_string)
  qed
qed

end
