(* ===== verification/Bech32.thy ===== *)
theory Bech32
  imports GoText
begin

unbundle bit_operations_syntax

text \<open>
  \<open>utils/chain/stakeaddr.go\<close>, \<open>rewardaddr.go\<close> and \<open>poolid.go\<close>: the bech32 encoder and
  decoder, bit regrouping, the CIP-19 reward address of a stake credential, its inverse,
  and the canonical form of a pool id. Byte and word arithmetic is kept at Go's widths
  (\<open>byte\<close>: 8 bits, \<open>uint32\<close>: 32 bits, so the accumulator of \<open>convertBits\<close> wraps).
  Lemmas: the checksum is a linear code over XOR, hence every encoded string passes the
  decoder's check; regrouping 8 to 5 to 8 bits is the identity; together the address of
  a credential parses back to that credential.
\<close>

section \<open>The checksum\<close>

definition bech32Charset :: string where
  "bech32Charset = ''qpzry9x8gf2tvdw0s3jn54khce6mua7l''"

definition bech32_gen :: "32 word list" where
  "bech32_gen = [0x3b6a57b2, 0x26508e6d, 0x1ea119fa, 0x3d4233dd, 0x2a1462b3]"

text \<open>The inner loop \<open>for i := 0; i < 5; i++\<close>.\<close>

fun polymod_taps :: "32 word \<Rightarrow> nat \<Rightarrow> 32 word list \<Rightarrow> 32 word \<Rightarrow> 32 word" where
  "polymod_taps hi i [] chk = chk"
| "polymod_taps hi i (g # gs) chk =
     polymod_taps hi (Suc i) gs (if drop_bit i hi AND 1 = 1 then chk XOR g else chk)"

definition polymod_step :: "32 word \<Rightarrow> byte \<Rightarrow> 32 word" where
  "polymod_step chk v =
     polymod_taps (drop_bit 25 chk) 0 bech32_gen (push_bit 5 (chk AND 0x1ffffff) XOR ucast v)"

definition bech32Polymod :: "bytes \<Rightarrow> 32 word" where
  "bech32Polymod values = foldl polymod_step 1 values"

definition bech32HrpExpand :: "string \<Rightarrow> bytes" where
  "bech32HrpExpand hrp = map (\<lambda>c. drop_bit 5 (of_char c)) hrp @ [0] @ map (\<lambda>c. of_char c AND 31) hrp"

definition bech32Checksum :: "string \<Rightarrow> bytes \<Rightarrow> bytes" where
  "bech32Checksum hrp data =
     (let polymod = bech32Polymod (bech32HrpExpand hrp @ data @ replicate 6 0) XOR 1
      in map (\<lambda>i. ucast (drop_bit (5 * (5 - i)) polymod AND 31)) [0 ..< 6])"

text \<open>\<open>bech32Charset[v]\<close> panics for \<open>v > 31\<close>; the callers pass 5-bit values.\<close>

definition charset_char :: "byte \<Rightarrow> char option" where
  "charset_char v = (if unat v < 32 then Some (bech32Charset ! unat v) else None)"

definition bech32Encode :: "string \<Rightarrow> bytes \<Rightarrow> string option" where
  "bech32Encode hrp data =
     map_option (\<lambda>cs. hrp @ CHR ''1'' # cs)
       (those (map charset_char (data @ bech32Checksum hrp data)))"

section \<open>Regrouping bits\<close>

text \<open>The inner loop of \<open>convertBits\<close>: emit groups while at least \<open>toBits\<close> bits are held.\<close>

fun emit_groups :: "nat \<Rightarrow> 32 word \<Rightarrow> 32 word \<Rightarrow> nat \<Rightarrow> bytes \<times> nat" where
  "emit_groups toBits maxv acc bits =
     (if 0 < toBits \<and> toBits \<le> bits then
        let bits' = bits - toBits; (out, b) = emit_groups toBits maxv acc bits'
        in (ucast (drop_bit bits' acc AND maxv) # out, b)
      else ([], bits))"

declare emit_groups.simps [simp del]

fun convert_loop :: "nat \<Rightarrow> nat \<Rightarrow> 32 word \<Rightarrow> bytes \<Rightarrow> 32 word \<Rightarrow> nat \<Rightarrow> bytes \<times> 32 word \<times> nat" where
  "convert_loop fromBits toBits maxv [] acc bits = ([], acc, bits)"
| "convert_loop fromBits toBits maxv (b # data) acc bits =
     (let acc' = push_bit fromBits acc OR ucast b;
          (out, bits') = emit_groups toBits maxv acc' (bits + fromBits);
          (outs, acc'', bits'') = convert_loop fromBits toBits maxv data acc' bits'
      in (out @ outs, acc'', bits''))"

definition convertBits :: "bytes \<Rightarrow> nat \<Rightarrow> nat \<Rightarrow> bool \<Rightarrow> bytes option" where
  "convertBits data fromBits toBits pad =
     (let maxv = push_bit toBits 1 - 1;
          (out, acc, bits) = convert_loop fromBits toBits maxv data 0 0
      in if pad then
           (if 0 < bits then Some (out @ [ucast (push_bit (toBits - bits) acc AND maxv)]) else Some out)
         else if fromBits \<le> bits \<or> push_bit (toBits - bits) acc AND maxv \<noteq> 0 then None
         else Some out)"

section \<open>Decoding\<close>

text \<open>\<open>strings.IndexByte\<close> and \<open>strings.LastIndexByte\<close>.\<close>

fun index_byte :: "char \<Rightarrow> string \<Rightarrow> nat option" where
  "index_byte c [] = None"
| "index_byte c (x # xs) = (if x = c then Some 0 else map_option Suc (index_byte c xs))"

definition last_index_byte :: "char \<Rightarrow> string \<Rightarrow> nat option" where
  "last_index_byte c s = map_option (\<lambda>i. length s - 1 - i) (index_byte c (rev s))"

definition charset_index :: "char \<Rightarrow> byte option" where
  "charset_index c = map_option word_of_nat (index_byte c bech32Charset)"

definition bech32Decode :: "string \<Rightarrow> (string \<times> bytes) option" where
  "bech32Decode s0 =
     (if s0 \<noteq> to_lower s0 \<and> s0 \<noteq> to_upper s0 then None
      else let s = to_lower s0 in
        (case last_index_byte CHR ''1'' s of
           None \<Rightarrow> None
         | Some pos \<Rightarrow>
             if pos < 1 \<or> pos + 7 > length s then None
             else let hrp = take pos s in
               (case those (map charset_index (drop (pos + 1) s)) of
                  None \<Rightarrow> None
                | Some data \<Rightarrow>
                    if bech32Polymod (bech32HrpExpand hrp @ data) \<noteq> 1 then None
                    else Some (hrp, take (length data - 6) data))))"

definition unwrapCBORBytes :: "bytes \<Rightarrow> bytes" where
  "unwrapCBORBytes b =
     (case b of
        [] \<Rightarrow> b
      | b0 # r \<Rightarrow>
          if drop_bit 5 b0 \<noteq> 2 then b
          else let info = unat (b0 AND 0x1f) in
            if info < 24 then (if length b = 1 + info then r else b)
            else if info = 24 then
              (case r of n # r' \<Rightarrow> if length b = 2 + unat n then r' else b | [] \<Rightarrow> b)
            else if info = 25 then
              (case r of n1 # n2 # r' \<Rightarrow>
                  if length b = 3 + (256 * unat n1 + unat n2) then r' else b
                | _ \<Rightarrow> b)
            else b)"

text \<open>The errors of \<open>StakeHashFromRewardAddress\<close> are kept apart by what was wrong.\<close>

datatype addr_error =
    AE_Empty | AE_Bech32 | AE_Hrp string | AE_Bits | AE_NotHex | AE_Length nat | AE_Header

definition reward_raw :: "string \<Rightarrow> addr_error + bytes" where
  "reward_raw addr =
     (if has_prefix (to_lower addr) ''stake'' then
        (case bech32Decode addr of
           None \<Rightarrow> Inl AE_Bech32
         | Some (hrp, data) \<Rightarrow>
             if hrp \<noteq> ''stake'' \<and> hrp \<noteq> ''stake_test'' then Inl (AE_Hrp hrp)
             else (case convertBits data 5 8 False of None \<Rightarrow> Inl AE_Bits | Some raw \<Rightarrow> Inr raw))
      else (case hex_decode addr of None \<Rightarrow> Inl AE_NotHex | Some b \<Rightarrow> Inr b))"

definition StakeHashFromRewardAddress :: "string \<Rightarrow> addr_error + string" where
  "StakeHashFromRewardAddress addr0 =
     (let addr = trim_space addr0 in
      if addr = [] then Inl AE_Empty
      else (case reward_raw addr of
          Inl e \<Rightarrow> Inl e
        | Inr raw0 \<Rightarrow>
            let raw = unwrapCBORBytes raw0 in
            if length raw \<noteq> 29 then Inl (AE_Length (length raw))
            else let t = drop_bit 4 (hd raw) in
              if t \<noteq> 0xe \<and> t \<noteq> 0xf then Inl AE_Header
              else Inr (hex_encode (tl raw))))"

definition stakeAddressFromCredential :: "string \<Rightarrow> string \<Rightarrow> addr_error + string" where
  "stakeAddressFromCredential credentialHashHex network =
     (case hex_decode credentialHashHex of
        None \<Rightarrow> Inl AE_NotHex
      | Some cred \<Rightarrow>
          if length cred \<noteq> 28 then Inl (AE_Length (length cred))
          else let netID = (if network = ''mainnet'' then 1 else 0);
                   hrp = (if network = ''mainnet'' then ''stake'' else ''stake_test'');
                   payload = (0xe0 OR netID) # cred
               in (case convertBits payload 8 5 True of
                     None \<Rightarrow> Inl AE_Bits
                   | Some conv \<Rightarrow>
                       (case bech32Encode hrp conv of None \<Rightarrow> Inl AE_Bech32 | Some a \<Rightarrow> Inr a)))"

definition CanonicalPoolID :: "string \<Rightarrow> string" where
  "CanonicalPoolID s0 =
     (let s = trim_space s0 in
      if s = [] then []
      else (case hex_decode s of
          Some h \<Rightarrow>
            if length h = 28 then
              (case convertBits h 8 5 True of
                 Some conv \<Rightarrow> (case bech32Encode ''pool'' conv of Some p \<Rightarrow> p | None \<Rightarrow> to_lower s)
               | None \<Rightarrow> to_lower s)
            else to_lower s
        | None \<Rightarrow> to_lower s))"

section \<open>The checksum is linear\<close>

lemma polymod_taps_xor:
  "polymod_taps (h XOR h') i gs (c XOR c') = polymod_taps h i gs c XOR polymod_taps h' i gs c'"
proof (induction gs arbitrary: i c c')
  case Nil
  show ?case by simp
next
  case (Cons g gs)
  have bit1: "drop_bit i w AND 1 = 1 \<longleftrightarrow> bit w i" for w :: "32 word"
    by (simp add: and_one_eq bit_iff_odd_drop_bit mod_2_eq_odd)
  have eq: "(if bit (h XOR h') i then (c XOR c') XOR g else c XOR c')
      = (if bit h i then c XOR g else c) XOR (if bit h' i then c' XOR g else c')"
    by (simp add: bit_xor_iff ac_simps)
  show ?case by (simp only: polymod_taps.simps bit1 eq Cons.IH)
qed

lemma polymod_step_xor:
  "polymod_step (c XOR c') (v XOR v') = polymod_step c v XOR polymod_step c' v'"
proof -
  have "push_bit 5 ((c XOR c') AND 0x1ffffff) XOR ucast (v XOR v')
      = (push_bit 5 (c AND 0x1ffffff) XOR ucast v) XOR (push_bit 5 (c' AND 0x1ffffff) XOR ucast v')"
    by (simp add: bit.conj_xor_distrib2 push_bit_xor unsigned_xor_eq ac_simps)
  then show ?thesis
    by (simp add: polymod_step_def polymod_taps_xor drop_bit_xor)
qed

lemma foldl_step_xor:
  "length us = length vs \<Longrightarrow>
   foldl polymod_step (c XOR c') (map2 (XOR) us vs)
     = foldl polymod_step c us XOR foldl polymod_step c' vs"
proof (induction us vs arbitrary: c c' rule: list_induct2)
  case Nil
  show ?case by simp
next
  case (Cons u us v vs)
  then show ?case by (simp add: polymod_step_xor)
qed

lemma polymod_taps_zero: "polymod_taps 0 i gs c = c"
  by (induction gs arbitrary: i c) simp_all

lemma polymod_step_small:
  assumes "take_bit 25 c = c"
  shows "polymod_step c v = push_bit 5 c XOR ucast v"
proof -
  have "drop_bit 25 c = 0"
    using assms by (simp add: take_bit_eq_self_iff_drop_bit_eq_0)
  moreover have "c AND 0x1ffffff = c"
    using assms by (simp add: take_bit_eq_mask mask_eq_exp_minus_1)
  ultimately show ?thesis by (simp add: polymod_step_def polymod_taps_zero)
qed

lemma polymod_taps_bound:
  "take_bit 30 c = c \<Longrightarrow> \<forall>g \<in> set gs. take_bit 30 g = g \<Longrightarrow>
   take_bit 30 (polymod_taps h i gs c) = polymod_taps h i gs c"
  by (induction gs arbitrary: i c) (simp_all add: take_bit_xor)

lemma polymod_step_bound: "take_bit 30 (polymod_step c v) = polymod_step c v"
proof -
  have "take_bit 30 (push_bit 5 (c AND 0x1ffffff)) = push_bit 5 (c AND 0x1ffffff)"
  proof -
    have "c AND 0x1ffffff = take_bit 25 c"
      by (simp add: take_bit_eq_mask mask_eq_exp_minus_1)
    then show ?thesis by (simp add: take_bit_push_bit)
  qed
  moreover have "take_bit 30 (ucast v :: 32 word) = ucast v"
    by (rule bit_word_eqI) (auto simp: bit_take_bit_iff bit_unsigned_iff dest: bit_imp_le_length)
  moreover have "\<forall>g \<in> set bech32_gen. take_bit 30 g = g"
    by (simp add: bech32_gen_def)
  ultimately show ?thesis
    unfolding polymod_step_def by (intro polymod_taps_bound) (simp_all add: take_bit_xor)
qed

text \<open>Five bits of \<open>p\<close>, fed after the bits above them, rebuild \<open>p\<close>.\<close>

lemma polymod_step_chunk:
  assumes "take_bit 30 p = p" "5 \<le> 30 - n" "n \<le> 20"
  shows "polymod_step (drop_bit (n + 5) p) (ucast (drop_bit n p AND 31)) = drop_bit n p"
proof -
  have pb: "bit p i \<Longrightarrow> i < 30" for i
    using assms(1) by (metis bit_take_bit_iff)
  have "take_bit 25 (drop_bit (n + 5) p) = drop_bit (n + 5) p"
    by (rule bit_word_eqI) (auto simp: bit_take_bit_iff bit_drop_bit_eq dest: pb)
  moreover have "push_bit 5 (drop_bit (n + 5) p) XOR ucast (ucast (drop_bit n p AND 31) :: byte)
      = drop_bit n p"
  proof (rule bit_word_eqI)
    fix i assume "i < LENGTH(32)"
    have m: "(31 :: 32 word) = mask 5" by (simp add: mask_eq_exp_minus_1)
    show "bit (push_bit 5 (drop_bit (n + 5) p) XOR ucast (ucast (drop_bit n p AND 31) :: byte)) i
        = bit (drop_bit n p) i"
      using \<open>i < LENGTH(32)\<close>
      by (cases "i < 5")
         (auto simp: m bit_xor_iff bit_push_bit_iff bit_drop_bit_eq bit_unsigned_iff bit_and_iff
           bit_mask_iff algebra_simps)
  qed
  ultimately show ?thesis by (simp add: polymod_step_small)
qed

lemma foldl_step_checksum:
  assumes "take_bit 30 p = p"
  shows "foldl polymod_step 0 (map (\<lambda>i. ucast (drop_bit (5 * (5 - i)) p AND 31)) [0 ..< 6]) = p"
proof -
  have d30: "drop_bit 30 p = 0"
    using assms by (simp add: take_bit_eq_self_iff_drop_bit_eq_0)
  have l: "[0 ..< 6] = [0, 1, 2, 3, 4, 5 :: nat]" by (simp add: upt_rec)
  have "polymod_step 0 (ucast (drop_bit 25 p AND 31)) = drop_bit 25 p"
  proof -
    have "drop_bit 25 p AND 31 = drop_bit 25 p"
    proof (rule bit_word_eqI)
      fix i assume "i < LENGTH(32)"
      have pb: "bit p j \<Longrightarrow> j < 30" for j
        using assms by (metis bit_take_bit_iff)
      have m: "(31 :: 32 word) = mask 5" by (simp add: mask_eq_exp_minus_1)
      show "bit (drop_bit 25 p AND 31) i = bit (drop_bit 25 p) i"
        by (auto simp: m bit_and_iff bit_mask_iff bit_drop_bit_eq dest: pb)
    qed
    moreover have "ucast (ucast (drop_bit 25 p) :: byte) = drop_bit 25 p"
      by (rule bit_word_eqI)
         (auto simp: bit_unsigned_iff bit_drop_bit_eq dest: bit_imp_le_length)
    ultimately show ?thesis by (simp add: polymod_step_small)
  qed
  moreover have "polymod_step (drop_bit 25 p) (ucast (drop_bit 20 p AND 31)) = drop_bit 20 p"
    using polymod_step_chunk[OF assms, of 20] by simp
  moreover have "polymod_step (drop_bit 20 p) (ucast (drop_bit 15 p AND 31)) = drop_bit 15 p"
    using polymod_step_chunk[OF assms, of 15] by simp
  moreover have "polymod_step (drop_bit 15 p) (ucast (drop_bit 10 p AND 31)) = drop_bit 10 p"
    using polymod_step_chunk[OF assms, of 10] by simp
  moreover have "polymod_step (drop_bit 10 p) (ucast (drop_bit 5 p AND 31)) = drop_bit 5 p"
    using polymod_step_chunk[OF assms, of 5] by simp
  moreover have "polymod_step (drop_bit 5 p) (ucast (p AND 31)) = p"
    using polymod_step_chunk[OF assms, of 0] by simp
  ultimately show ?thesis unfolding l by simp
qed

lemma bech32Polymod_bound: "take_bit 30 (bech32Polymod vs) = bech32Polymod vs"
  by (cases vs rule: rev_cases) (simp_all add: bech32Polymod_def polymod_step_bound)

lemma polymod_checksum:
  "bech32Polymod (bech32HrpExpand hrp @ data @ bech32Checksum hrp data) = 1"
proof -
  define C where "C = foldl polymod_step 1 (bech32HrpExpand hrp @ data)"
  define P where "P = foldl polymod_step C (replicate 6 0)"
  have PP: "P = bech32Polymod (bech32HrpExpand hrp @ data @ replicate 6 0)"
    by (simp add: P_def C_def bech32Polymod_def)
  have b: "take_bit 30 (P XOR 1) = P XOR 1"
    by (simp add: PP bech32Polymod_bound take_bit_xor)
  have cs: "bech32Checksum hrp data = map (\<lambda>i. ucast (drop_bit (5 * (5 - i)) (P XOR 1) AND 31)) [0 ..< 6]"
    by (simp add: bech32Checksum_def PP)
  have z: "map2 (XOR) (replicate 6 0) ds = ds" if "length ds = 6" for ds :: bytes
    using that by (intro nth_equalityI) auto
  have len: "length (bech32Checksum hrp data) = 6" by (simp add: cs)
  have "foldl polymod_step C (bech32Checksum hrp data)
      = foldl polymod_step (C XOR 0) (map2 (XOR) (replicate 6 0) (bech32Checksum hrp data))"
    by (simp add: z len)
  also have "\<dots> = P XOR foldl polymod_step 0 (bech32Checksum hrp data)"
    unfolding P_def by (rule foldl_step_xor) (simp add: len)
  also have "foldl polymod_step 0 (bech32Checksum hrp data) = P XOR 1"
    unfolding cs by (rule foldl_step_checksum[OF b])
  also have "P XOR (P XOR 1) = 1"
    by (simp flip: xor.assoc)
  finally show ?thesis by (simp add: bech32Polymod_def C_def)
qed

section \<open>Decoding an encoded string\<close>

lemma charset_round:
  "n < 32 \<Longrightarrow> index_byte (bech32Charset ! n) bech32Charset = Some n"
proof -
  have "\<forall>n \<in> set [0 ..< 32]. index_byte (bech32Charset ! n) bech32Charset = Some n"
    by code_simp
  then show "n < 32 \<Longrightarrow> ?thesis" by simp
qed

lemma charset_plain:
  "n < 32 \<Longrightarrow> bech32Charset ! n \<noteq> CHR ''1'' \<and> char_lower (bech32Charset ! n) = bech32Charset ! n"
proof -
  have "\<forall>n \<in> set [0 ..< 32]. bech32Charset ! n \<noteq> CHR ''1'' \<and> char_lower (bech32Charset ! n) = bech32Charset ! n"
    by code_simp
  then show "n < 32 \<Longrightarrow> ?thesis" by simp
qed

definition five_bit :: "bytes \<Rightarrow> bool" where
  "five_bit data \<longleftrightarrow> (\<forall>v \<in> set data. unat v < 32)"

lemma five_bit_append [simp]: "five_bit (a @ b) \<longleftrightarrow> five_bit a \<and> five_bit b"
  by (auto simp: five_bit_def)

lemma five_bit_Cons [simp]: "five_bit (v # b) \<longleftrightarrow> unat v < 32 \<and> five_bit b"
  by (auto simp: five_bit_def)

lemma five_bit_Nil [simp]: "five_bit []"
  by (simp add: five_bit_def)

definition charset_string :: "bytes \<Rightarrow> string" where
  "charset_string data = map (\<lambda>v. bech32Charset ! unat v) data"

lemma those_charset: "five_bit data \<Longrightarrow> those (map charset_char data) = Some (charset_string data)"
  by (induction data) (auto simp: charset_char_def charset_string_def)

lemma those_index: "five_bit data \<Longrightarrow> those (map charset_index (charset_string data)) = Some data"
  by (induction data) (auto simp: charset_string_def charset_index_def charset_round)

lemma charset_string_no_one: "five_bit data \<Longrightarrow> CHR ''1'' \<notin> set (charset_string data)"
  using charset_plain by (fastforce simp: charset_string_def five_bit_def)

lemma charset_string_lower: "five_bit data \<Longrightarrow> to_lower (charset_string data) = charset_string data"
  using charset_plain by (auto simp: charset_string_def five_bit_def to_lower_def)

lemma and31_less: "unat (x AND 31 :: 'a::len word) < 32"
proof -
  have "x AND 31 = take_bit 5 x"
    by (simp add: take_bit_eq_mask mask_eq_exp_minus_1)
  then have "unat (x AND 31) = take_bit 5 (unat x)"
    by (simp add: unsigned_take_bit_eq)
  then show ?thesis using take_bit_nat_less_exp[of 5 "unat x"] by simp
qed

lemma five_bit_checksum: "five_bit (bech32Checksum hrp data)"
proof -
  have "unat (ucast (x AND 31 :: 32 word) :: byte) < 32" for x
    using and31_less[of x] by (simp add: unsigned_ucast_eq take_bit_nat_eq_self)
  then show ?thesis by (auto simp: five_bit_def bech32Checksum_def Let_def)
qed

lemma length_checksum [simp]: "length (bech32Checksum hrp data) = 6"
  by (simp add: bech32Checksum_def Let_def)

lemma bech32Encode_eq:
  "five_bit data \<Longrightarrow> bech32Encode hrp data =
     Some (hrp @ CHR ''1'' # charset_string (data @ bech32Checksum hrp data))"
  using those_charset[of "data @ bech32Checksum hrp data"]
  by (simp add: bech32Encode_def five_bit_checksum)

lemma index_byte_append: "c \<notin> set xs \<Longrightarrow> index_byte c (xs @ c # ys) = Some (length xs)"
  by (induction xs) auto

lemma last_index_byte_sep:
  "c \<notin> set ys \<Longrightarrow> last_index_byte c (xs @ c # ys) = Some (length xs)"
  using index_byte_append[of c "rev ys" "rev xs"] by (simp add: last_index_byte_def)

lemma bech32Decode_Encode:
  assumes "five_bit data" "hrp \<noteq> []" "to_lower hrp = hrp"
  shows "\<exists>a. bech32Encode hrp data = Some a \<and> to_lower a = a
      \<and> has_prefix a hrp \<and> bech32Decode a = Some (hrp, data)"
proof -
  define cs where "cs = data @ bech32Checksum hrp data"
  define a where "a = hrp @ CHR ''1'' # charset_string cs"
  have fb: "five_bit cs" using assms(1) by (simp add: cs_def five_bit_checksum)
  have low: "to_lower a = a"
    using assms(3) charset_string_lower[OF fb] by (simp add: a_def to_lower_def char_lower_def)
  have sep: "last_index_byte CHR ''1'' a = Some (length hrp)"
    unfolding a_def by (rule last_index_byte_sep) (rule charset_string_no_one[OF fb])
  have len: "length (charset_string cs) = length data + 6"
    by (simp add: charset_string_def cs_def)
  have parts: "take (length hrp) a = hrp" "drop (length hrp + 1) a = charset_string cs"
      "length a = length hrp + length data + 7"
    using len by (simp_all add: a_def)
  have pm: "bech32Polymod (bech32HrpExpand hrp @ cs) = 1" "take (length cs - 6) cs = data"
    by (simp_all add: cs_def polymod_checksum)
  have "bech32Decode a = Some (hrp, data)"
    unfolding bech32Decode_def Let_def low sep option.case parts(1,2) those_index[OF fb] pm
    using assms(2) parts(3) by (auto simp: Suc_le_eq)
  moreover have "bech32Encode hrp data = Some a"
    using bech32Encode_eq[OF assms(1)] by (simp add: a_def cs_def)
  ultimately show ?thesis using low by (auto simp: a_def)
qed

section \<open>Regrouping preserves the bit stream\<close>

text \<open>The low \<open>n\<close> bits of a word, most significant first.\<close>

definition low_bits :: "nat \<Rightarrow> 'a::len word \<Rightarrow> bool list" where
  "low_bits n w = map (bit w) (rev [0 ..< n])"

definition stream :: "nat \<Rightarrow> bytes \<Rightarrow> bool list" where
  "stream n bs = concat (map (low_bits n) bs)"

lemma length_low_bits [simp]: "length (low_bits n w) = n"
  by (simp add: low_bits_def)

lemma length_stream [simp]: "length (stream n bs) = n * length bs"
  by (induction bs) (auto simp: stream_def)

lemma stream_simps [simp]:
  "stream n [] = []" "stream n (b # bs) = low_bits n b @ stream n bs"
  "stream n (as @ bs) = stream n as @ stream n bs"
  by (simp_all add: stream_def)

lemma low_bits_add: "low_bits (m + n) w = map (bit w) (rev [n ..< m + n]) @ low_bits n w"
proof -
  have "[0 ..< m + n] = [0 ..< n] @ [n ..< m + n]"
    by (metis add.commute le_add2 upt_add_eq_append zero_le)
  then show ?thesis by (simp add: low_bits_def)
qed

lemma map_shift_rev: "map f (rev [n ..< m + n]) = map (\<lambda>i. f (n + i)) (rev [0 ..< m])"
proof -
  have "[n ..< m + n] = map (\<lambda>i. n + i) [0 ..< m]"
    by (simp add: map_add_upt add.commute)
  then show ?thesis by (simp add: rev_map o_def)
qed

lemma low_bits_eqI:
  "(\<And>i. i < n \<Longrightarrow> bit w i = bit w' i) \<Longrightarrow> low_bits n w = low_bits n w'"
  by (simp add: low_bits_def)

lemma emit_groups_step:
  assumes "0 < t" "emit_groups t m acc n = (out, b)"
  shows "emit_groups t m acc (t + n) = (ucast (drop_bit n acc AND m) # out, b)"
  using assms by (subst emit_groups.simps) (simp add: Let_def)

lemma emit_groups_stop: "n < t \<Longrightarrow> emit_groups t m acc n = ([], n)"
  by (subst emit_groups.simps) simp

lemma low_bits_group:
  fixes acc :: "32 word"
  assumes "t \<le> 8"
  shows "low_bits t (ucast (drop_bit n acc AND mask t) :: byte) = map (\<lambda>i. bit acc (n + i)) (rev [0 ..< t])"
  using assms
  by (auto simp: low_bits_def bit_unsigned_iff bit_and_iff bit_mask_iff bit_drop_bit_eq
      dest: bit_imp_le_length)

lemma emit_groups_spec:
  assumes "0 < t" "t \<le> 8"
  shows "emit_groups t (mask t) acc bits = (out, b) \<Longrightarrow>
    stream t out @ low_bits b acc = low_bits bits acc \<and> b < t
    \<and> (\<forall>v \<in> set out. take_bit t v = v)"
proof (induction bits arbitrary: out b rule: less_induct)
  case (less bits)
  show ?case
  proof (cases "t \<le> bits")
    case True
    then obtain n where n: "bits = t + n" using le_Suc_ex by blast
    obtain out' b' where e: "emit_groups t (mask t) acc n = (out', b')" by fastforce
    define v :: byte where "v = ucast (drop_bit n acc AND mask t)"
    have ob: "out = v # out'" "b = b'"
      using emit_groups_step[OF assms(1) e] less.prems by (auto simp: n v_def)
    have IH: "stream t out' @ low_bits b acc = low_bits n acc \<and> b < t
        \<and> (\<forall>v \<in> set out'. take_bit t v = v)"
      using less.IH[of n out' b] e ob assms(1) n by simp
    have "take_bit t v = v"
      by (rule bit_word_eqI)
         (auto simp: v_def bit_take_bit_iff bit_unsigned_iff bit_and_iff bit_mask_iff)
    moreover have "low_bits t v = map (\<lambda>i. bit acc (n + i)) (rev [0 ..< t])"
      unfolding v_def by (rule low_bits_group[OF assms(2)])
    ultimately show ?thesis
      using IH by (simp add: ob n low_bits_add map_shift_rev)
  next
    case False
    then show ?thesis using less.prems by (auto simp: emit_groups_stop)
  qed
qed

lemma low_bits_push:
  fixes acc :: "32 word"
  assumes "take_bit f b = b" "n + f \<le> 32"
  shows "low_bits (n + f) (push_bit f acc OR ucast (b :: byte)) = low_bits n acc @ low_bits f b"
proof -
  have b: "bit b i \<Longrightarrow> i < f" for i
    using assms(1) by (metis bit_take_bit_iff)
  have "map (bit (push_bit f acc OR ucast b)) (rev [f ..< n + f]) = low_bits n acc"
    unfolding map_shift_rev low_bits_def using assms(2)
    by (auto simp: bit_or_iff bit_push_bit_iff bit_unsigned_iff dest: b)
  moreover have "low_bits f (push_bit f acc OR ucast b) = low_bits f b"
    using assms(2) by (auto simp: low_bits_def bit_or_iff bit_push_bit_iff bit_unsigned_iff
        dest: bit_imp_le_length)
  ultimately show ?thesis by (simp add: low_bits_add)
qed

lemma convert_loop_spec:
  assumes t: "0 < t" "t \<le> 8" and f: "f \<le> 8"
  shows "convert_loop f t (mask t) data acc bits = (outs, acc', bits') \<Longrightarrow> bits < t \<Longrightarrow>
    \<forall>b \<in> set data. take_bit f b = b \<Longrightarrow>
    stream t outs @ low_bits bits' acc' = low_bits bits acc @ stream f data \<and> bits' < t
    \<and> (\<forall>v \<in> set outs. take_bit t v = v)"
proof (induction data arbitrary: acc bits outs acc' bits')
  case Nil
  then show ?case by simp
next
  case (Cons b data)
  let ?acc = "push_bit f acc OR ucast b"
  obtain o1 n1 where e1: "emit_groups t (mask t) ?acc (bits + f) = (o1, n1)" by fastforce
  obtain o2 acc2 n2 where e2: "convert_loop f t (mask t) data ?acc n1 = (o2, acc2, n2)"
    by (metis prod_cases3)
  have eqs: "outs = o1 @ o2" "acc' = acc2" "bits' = n2"
    using Cons.prems(1) by (simp_all add: e1 e2 Let_def)
  have s1: "stream t o1 @ low_bits n1 ?acc = low_bits (bits + f) ?acc \<and> n1 < t
      \<and> (\<forall>v \<in> set o1. take_bit t v = v)"
    by (rule emit_groups_spec[OF t e1])
  have s2: "stream t o2 @ low_bits n2 acc2 = low_bits n1 ?acc @ stream f data \<and> n2 < t
      \<and> (\<forall>v \<in> set o2. take_bit t v = v)"
    using Cons.IH[OF e2] s1 Cons.prems(3) by auto
  have "low_bits (bits + f) ?acc = low_bits bits acc @ low_bits f b"
    using Cons.prems(2,3) t f by (intro low_bits_push) auto
  with s1 s2 show ?case unfolding eqs by auto
qed

lemma maxv_mask: "push_bit t 1 - 1 = (mask t :: 32 word)"
  by (simp add: mask_eq_exp_minus_1 push_bit_eq_mult)

text \<open>Encoding direction: the stream of the groups is the input stream, padded with zeros.\<close>

lemma convertBits_pad:
  assumes "0 < t" "t \<le> 8" "f \<le> 8" "\<forall>b \<in> set data. take_bit f b = b"
  shows "\<exists>outs k. convertBits data f t True = Some outs
    \<and> stream t outs = stream f data @ replicate k False \<and> k < t
    \<and> (\<forall>v \<in> set outs. take_bit t v = v)"
proof -
  obtain outs acc bits where e: "convert_loop f t (mask t) data 0 0 = (outs, acc, bits)"
    by (metis prod_cases3)
  have s: "stream t outs @ low_bits bits acc = stream f data \<and> bits < t
      \<and> (\<forall>v \<in> set outs. take_bit t v = v)"
    using convert_loop_spec[OF assms(1-3) e] assms(1,4) by (simp add: low_bits_def)
  show ?thesis
  proof (cases "0 < bits")
    case True
    define v :: byte where "v = ucast (push_bit (t - bits) acc AND mask t)"
    have "take_bit t v = v"
      by (rule bit_word_eqI)
         (auto simp: v_def bit_take_bit_iff bit_unsigned_iff bit_and_iff bit_mask_iff)
    moreover have "low_bits t v = low_bits bits acc @ replicate (t - bits) False"
    proof -
      have t: "t = bits + (t - bits)" using s by simp
      have lo: "low_bits (t - bits) v = replicate (t - bits) False"
      proof -
        have "low_bits (t - bits) v = map (\<lambda>_. False) (rev [0 ..< t - bits])"
          unfolding low_bits_def
          by (auto simp: v_def bit_unsigned_iff bit_and_iff bit_push_bit_iff)
        then show ?thesis by (simp add: map_replicate_const)
      qed
      have hi: "map (bit v) (rev [t - bits ..< bits + (t - bits)]) = low_bits bits acc"
        unfolding map_shift_rev low_bits_def using s \<open>t \<le> 8\<close>
        by (auto simp: v_def bit_unsigned_iff bit_and_iff bit_push_bit_iff bit_mask_iff
            dest: bit_imp_le_length)
      show ?thesis using low_bits_add[of bits "t - bits" v] lo hi t by simp
    qed
    moreover have "convertBits data f t True = Some (outs @ [v])"
      using True by (simp only: convertBits_def maxv_mask e Let_def prod.case if_True v_def)
    ultimately show ?thesis using s
      by (intro exI[of _ "outs @ [v]"] exI[of _ "t - bits"]) (use True in auto)
  next
    case False
    then have "convertBits data f t True = Some outs"
      by (simp only: convertBits_def maxv_mask e Let_def prod.case if_True) simp
    then show ?thesis using s False assms(1)
      by (intro exI[of _ outs] exI[of _ 0]) (auto simp: low_bits_def)
  qed
qed

lemma stream8_inj: "stream 8 as @ xs = stream 8 bs @ ys \<Longrightarrow> length as = length bs \<Longrightarrow> as = bs \<and> xs = ys"
proof (induction as arbitrary: bs)
  case Nil
  then show ?case by simp
next
  case (Cons a as)
  then obtain b bs' where bs: "bs = b # bs'" by (cases bs) auto
  with Cons.prems have "low_bits 8 a = low_bits 8 b" and r: "stream 8 as @ xs = stream 8 bs' @ ys"
    by simp_all
  then have "a = b"
    by (intro bit_word_eqI) (auto simp: low_bits_def)
  with Cons.IH[OF r] Cons.prems bs show ?case by simp
qed

text \<open>Decoding direction, on a stream that is whole bytes followed by a few zeros.\<close>

lemma convertBits_unpad:
  assumes "\<forall>v \<in> set conv. take_bit 5 v = v"
    and "stream 5 conv = stream 8 data @ replicate k False" and "k < 5"
  shows "convertBits conv 5 8 False = Some data"
proof -
  obtain outs acc bits where e: "convert_loop 5 8 (mask 8) conv 0 0 = (outs, acc, bits)"
    by (metis prod_cases3)
  have s: "stream 8 outs @ low_bits bits acc = stream 8 data @ replicate k False" "bits < 8"
    using convert_loop_spec[OF _ _ _ e] assms by (auto simp: low_bits_def)
  from arg_cong[OF s(1), of length] have "8 * length outs + bits = 8 * length data + k"
    by simp
  with s(2) \<open>k < 5\<close> have len: "length outs = length data" and bk: "bits = k"
    by presburger+
  from stream8_inj[OF s(1) len] have o: "outs = data" and z: "low_bits bits acc = replicate k False"
    by auto
  have "\<not> bit acc i" if "i < bits" for i
  proof -
    have "i \<in> set (rev [0 ..< bits])" using that by simp
    then have "bit acc i \<in> set (low_bits bits acc)" unfolding low_bits_def by (simp only: set_map) blast
    then show ?thesis unfolding z by auto
  qed
  then have "push_bit (8 - bits) acc AND mask 8 = 0"
    using s(2) by (intro bit_word_eqI) (auto simp: bit_and_iff bit_mask_iff bit_push_bit_iff)
  moreover have e': "convert_loop 5 8 (mask 8) conv 0 0 = (data, acc, bits)"
    using e o by simp
  ultimately show ?thesis using \<open>k < 5\<close>
    by (simp only: convertBits_def maxv_mask e' Let_def prod.case if_False) (simp add: bk)
qed

lemma convertBits_roundtrip:
  "\<exists>conv. convertBits data 8 5 True = Some conv \<and> five_bit conv
     \<and> convertBits conv 5 8 False = Some data"
proof -
  have tb: "take_bit 8 b = b" for b :: byte
    by (rule bit_word_eqI) (auto simp: bit_take_bit_iff)
  obtain conv k where c: "convertBits data 8 5 True = Some conv"
      "stream 5 conv = stream 8 data @ replicate k False" "k < 5" "\<forall>v \<in> set conv. take_bit 5 v = v"
    using convertBits_pad[of 5 8 data] tb by auto
  have "unat v < 32" if "v \<in> set conv" for v
  proof -
    have "unat v = take_bit 5 (unat v)"
      using c(4) that unsigned_take_bit_eq[of 5 v, where 'a = nat] by simp
    then show ?thesis using take_bit_nat_less_exp[of 5 "unat v"] by simp
  qed
  then have "five_bit conv" by (simp add: five_bit_def)
  with c convertBits_unpad[OF c(4,2,3)] show ?thesis by blast
qed

section \<open>Addresses\<close>

lemma charset_not_space: "n < 32 \<Longrightarrow> \<not> is_space (bech32Charset ! n)"
proof -
  have "\<forall>n \<in> set [0 ..< 32]. \<not> is_space (bech32Charset ! n)" by code_simp
  then show "n < 32 \<Longrightarrow> ?thesis" by simp
qed

lemma encoded_last: 
  assumes "five_bit data" "bech32Encode hrp data = Some a"
  shows "\<not> is_space (last a)"
proof -
  let ?cs = "data @ bech32Checksum hrp data"
  have ne: "bech32Checksum hrp data \<noteq> []" by (metis length_checksum length_0_conv zero_neq_numeral)
  have "a = hrp @ CHR ''1'' # charset_string ?cs"
    using bech32Encode_eq[OF assms(1), of hrp] assms(2) by simp
  then have "last a = bech32Charset ! unat (last ?cs)"
    using ne by (simp add: charset_string_def last_map)
  moreover have "unat (last ?cs) < 32"
    using ne five_bit_checksum[of hrp data] by (auto simp: five_bit_def)
  ultimately show ?thesis using charset_not_space by simp
qed

lemma unwrap_reward: "drop_bit 5 b0 \<noteq> 2 \<Longrightarrow> unwrapCBORBytes (b0 # r) = b0 # r"
  by (simp add: unwrapCBORBytes_def)

lemma stake_roundtrip:
  assumes "hex_decode h = Some cred" "length cred = 28"
  shows "\<exists>a. stakeAddressFromCredential h network = Inr a
     \<and> StakeHashFromRewardAddress a = Inr (hex_encode cred)"
proof -
  define hrp where "hrp = (if network = ''mainnet'' then ''stake'' else ''stake_test'')"
  define hd0 :: byte where "hd0 = 0xe0 OR (if network = ''mainnet'' then 1 else 0)"
  have hd: "drop_bit 5 hd0 \<noteq> 2" "drop_bit 4 hd0 = 0xe"
    by (simp_all add: hd0_def)
  have hrp: "hrp \<noteq> []" "to_lower hrp = hrp" "hrp = ''stake'' \<or> hrp = ''stake_test''"
      "has_prefix hrp ''stake''" "\<not> is_space (hd hrp)"
    unfolding hrp_def
    by (simp_all add: to_lower_def char_lower_def has_prefix_def is_space_def)
  obtain conv where conv: "convertBits (hd0 # cred) 8 5 True = Some conv" "five_bit conv"
      "convertBits conv 5 8 False = Some (hd0 # cred)"
    using convertBits_roundtrip by blast
  obtain a where a: "bech32Encode hrp conv = Some a" "to_lower a = a" "has_prefix a hrp"
      "bech32Decode a = Some (hrp, conv)"
    using bech32Decode_Encode[OF conv(2) hrp(1,2)] by blast
  have "\<exists>r. a = hrp @ r" using a(3) unfolding has_prefix_def by (metis append_take_drop_id)
  then obtain r where r: "a = hrp @ r" by blast
  have ne: "a \<noteq> []" and nsp: "\<not> is_space (hd a)" using r hrp(1,5) by auto
  have trim: "trim_space a = a"
    by (rule trim_space_id[OF ne nsp encoded_last[OF conv(2) a(1)]])
  have pre: "has_prefix a ''stake''"
    using hrp(3) r by (auto simp: has_prefix_def)
  have "reward_raw a = Inr (hd0 # cred)"
    using hrp(3) by (auto simp: reward_raw_def a conv pre)
  then have "StakeHashFromRewardAddress a = Inr (hex_encode cred)"
    using ne assms(2) hd by (simp add: StakeHashFromRewardAddress_def trim unwrap_reward)
  moreover have "stakeAddressFromCredential h network = Inr a"
    using assms conv(1) a(1)
    by (simp add: stakeAddressFromCredential_def hrp_def hd0_def split: if_splits)
  ultimately show ?thesis by blast
qed

section \<open>Canonical pool ids\<close>

lemma char_lower_cases:
  "(65 \<le> (of_char c :: nat) \<and> (of_char c :: nat) \<le> 90 \<and> (of_char (char_lower c) :: nat) = of_char c + 32)
   \<or> (\<not> (65 \<le> (of_char c :: nat) \<and> (of_char c :: nat) \<le> 90) \<and> char_lower c = c)"
  by (auto simp: char_lower_def Let_def of_char_of)

lemma hex_val_lower [simp]: "hex_val (char_lower c) = hex_val c"
  using char_lower_cases[of c] by (auto simp: hex_val_def Let_def)

lemma is_space_lower [simp]: "is_space (char_lower c) = is_space c"
  using char_lower_cases[of c] by (auto simp: is_space_def Let_def)

lemma hex_decode_lower [simp]: "hex_decode (to_lower s) = hex_decode s"
  by (induction s rule: hex_decode.induct) (auto simp: to_lower_def split: option.splits)

lemma trim_left_lower: "trim_left (to_lower s) = to_lower (trim_left s)"
  by (induction s) (auto simp: trim_left_def to_lower_def)

lemma trim_space_lower: "trim_space (to_lower s) = to_lower (trim_space s)"
proof -
  have "rev (to_lower s) = to_lower (rev s)" for s by (simp add: to_lower_def rev_map)
  then show ?thesis by (simp add: trim_space_def trim_left_lower)
qed

lemma trim_space_trimmed:
  "trim_space s = [] \<or> (\<not> is_space (hd (trim_space s)) \<and> \<not> is_space (last (trim_space s)))"
proof (cases "trim_space s = []")
  case False
  define u where "u = trim_left s"
  define v where "v = trim_left (rev u)"
  have tv: "trim_space s = rev v" by (simp add: trim_space_def u_def v_def)
  have vne: "v \<noteq> []" using False tv by simp
  then have une: "u \<noteq> []" by (auto simp: v_def trim_left_def)
  have "\<not> is_space (hd v)" using vne unfolding v_def trim_left_def by (metis hd_dropWhile)
  moreover have "\<not> is_space (hd u)" using une unfolding u_def trim_left_def by (metis hd_dropWhile)
  moreover have "hd (rev v) = hd u"
    using hd_rev_trim_left[of "rev u"] vne by (simp add: v_def)
  ultimately show ?thesis using vne by (simp add: tv last_rev)
qed simp

lemma trim_space_idem [simp]: "trim_space (trim_space s) = trim_space s"
proof (cases "trim_space s = []")
  case True
  have "trim_space [] = []" by (simp add: trim_space_def trim_left_def)
  then show ?thesis using True by simp
next
  case False
  then show ?thesis using trim_space_trimmed[of s] by (intro trim_space_id) auto
qed

lemma hex_decode_not: "c \<in> set s \<Longrightarrow> hex_val c = None \<Longrightarrow> hex_decode s = None"
  by (induction s rule: hex_decode.induct) (auto split: option.splits)

lemma pool_encode:
  "\<exists>p. convertBits h 8 5 True \<noteq> None \<and> bech32Encode ''pool'' (the (convertBits h 8 5 True)) = Some p
     \<and> CanonicalPoolID p = p \<and> p \<noteq> []"
proof -
  obtain conv where conv: "convertBits h 8 5 True = Some conv" "five_bit conv"
    using convertBits_roundtrip[of h] by blast
  have pl: "to_lower ''pool'' = ''pool''" by (simp add: to_lower_def char_lower_def)
  obtain p where p: "bech32Encode ''pool'' conv = Some p" "to_lower p = p" "has_prefix p ''pool''"
    using bech32Decode_Encode[OF conv(2) _ pl] by auto
  have tk: "take 4 p = ''pool''" using p(3) by (simp add: has_prefix_def eval_nat_numeral)
  have pfx: "p = ''pool'' @ drop 4 p" using append_take_drop_id[of 4 p] tk by simp
  have ne: "p \<noteq> []" using tk by auto
  have hd: "hd p = CHR ''p''" by (subst pfx) simp
  have "trim_space p = p"
    using ne hd encoded_last[OF conv(2) p(1)] by (intro trim_space_id) (auto simp: is_space_def)
  moreover have "hex_decode p = None"
    by (rule hex_decode_not[OF hd_in_set[OF ne]]) (simp add: hd hex_val_def)
  ultimately have "CanonicalPoolID p = p" using ne p(2) by (simp add: CanonicalPoolID_def)
  then show ?thesis using conv(1) p(1) ne by auto
qed

lemma CanonicalPoolID_idem: "CanonicalPoolID (CanonicalPoolID s) = CanonicalPoolID s"
proof -
  let ?s = "trim_space s"
  have low: "CanonicalPoolID (to_lower ?s) = to_lower ?s"
    if "\<forall>h. hex_decode ?s = Some h \<longrightarrow> length h \<noteq> 28"
    using that by (auto simp: CanonicalPoolID_def Let_def trim_space_lower split: option.splits)
  show ?thesis
  proof (cases "?s = []")
    case True
    then show ?thesis by (simp add: CanonicalPoolID_def trim_space_def trim_left_def)
  next
    case ne: False
    show ?thesis
    proof (cases "\<exists>h. hex_decode ?s = Some h \<and> length h = 28")
      case True
      then obtain h where h: "hex_decode ?s = Some h" "length h = 28" by blast
      obtain p where p: "convertBits h 8 5 True \<noteq> None"
          "bech32Encode ''pool'' (the (convertBits h 8 5 True)) = Some p" "CanonicalPoolID p = p"
        using pool_encode[of h] by blast
      then have "CanonicalPoolID s = p" using ne h by (auto simp: CanonicalPoolID_def)
      then show ?thesis using p(3) by simp
    next
      case False
      then have "CanonicalPoolID s = to_lower ?s"
        using ne by (auto simp: CanonicalPoolID_def Let_def split: option.splits)
      then show ?thesis using low False by auto
    qed
  qed
qed

section \<open>Errors in one symbol\<close>

lemma taps_low_bits: "list_all (\<lambda>n. take_bit 5 (polymod_taps (word_of_nat n) 0 bech32_gen 0) = 0 \<longrightarrow> n = 0) [0 ..< 32]"
  by code_simp

lemma take_bit_push_5: "take_bit 5 (push_bit 5 x :: 32 word) = 0"
  by (rule bit_word_eqI) (auto simp: bit_take_bit_iff bit_push_bit_iff)

lemma polymod_step_kernel:
  assumes z: "polymod_step c 0 = 0" and c: "take_bit 30 c = c"
  shows "c = 0"
proof -
  let ?h = "drop_bit 25 c" and ?l = "push_bit 5 (c AND 0x1ffffff)"
  have split: "polymod_step c 0 = polymod_taps ?h 0 bech32_gen 0 XOR ?l"
    using polymod_taps_xor[of ?h 0 0 bech32_gen 0 ?l] by (simp add: polymod_step_def polymod_taps_zero)
  have "take_bit 5 (polymod_taps ?h 0 bech32_gen 0) = take_bit 5 (polymod_step c 0) XOR take_bit 5 ?l"
    unfolding split by (simp add: take_bit_xor take_bit_push_5)
  then have low: "take_bit 5 (polymod_taps ?h 0 bech32_gen 0) = 0" using z take_bit_push_5 by simp
  have "unat ?h < 32"
  proof -
    have "bit c i \<Longrightarrow> i < 30" for i using c by (metis bit_take_bit_iff)
    then have "take_bit 5 ?h = ?h" by (intro bit_word_eqI) (force simp: bit_take_bit_iff bit_drop_bit_eq)
    then have "unat ?h = take_bit 5 (unat ?h)" using unsigned_take_bit_eq[of 5 ?h, where 'a = nat] by simp
    then show ?thesis using take_bit_nat_less_exp[of 5 "unat ?h"] by simp
  qed
  then have "take_bit 5 (polymod_taps (word_of_nat (unat ?h)) 0 bech32_gen 0) = 0 \<longrightarrow> unat ?h = 0"
    using taps_low_bits unfolding list_all_iff by (metis atLeastLessThan_upt atLeastLessThan_iff le0)
  then have h: "?h = 0" using low by (simp add: unat_eq_zero)
  have "take_bit 25 c = c" using h by (simp add: take_bit_eq_self_iff_drop_bit_eq_0)
  then have p: "push_bit 5 c = 0" using z polymod_step_small[of c 0] by simp
  show ?thesis
  proof (rule bit_word_eqI)
    fix n assume n: "n < LENGTH(32)"
    have "bit (push_bit 5 c) (n + 5) \<longleftrightarrow> n + 5 < 32 \<and> bit c n" by (auto simp: bit_push_bit_iff)
    moreover have "bit c n \<Longrightarrow> n < 25" using \<open>take_bit 25 c = c\<close> by (metis bit_take_bit_iff)
    ultimately show "bit c n \<longleftrightarrow> bit 0 n" using p by auto
  qed
qed

lemma foldl_step_kernel:
  "take_bit 30 c = c \<Longrightarrow> foldl polymod_step c (replicate n 0) = 0 \<Longrightarrow> c = 0"
proof (induction n arbitrary: c)
  case (Suc n)
  then have "polymod_step c 0 = 0" using polymod_step_bound by simp
  then show ?case using polymod_step_kernel Suc.prems(1) by blast
qed simp

lemma xor_self_map: "map2 (XOR) ys ys = replicate (length ys) (0 :: byte)"
  by (induction ys) simp_all

text \<open>Two words that differ in one symbol have different checksums.\<close>

lemma polymod_one_symbol:
  assumes "bech32Polymod (xs @ v # ys) = bech32Polymod (xs @ v' # ys)"
  shows "v = v'"
proof -
  let ?s = "foldl polymod_step 1 xs"
  let ?d = "polymod_step 0 (v XOR v')"
  have "polymod_step ?s v XOR polymod_step ?s v' = ?d"
    using polymod_step_xor[of ?s ?s v v'] by simp
  then have "foldl polymod_step ?d (replicate (length ys) 0) = 0"
    using foldl_step_xor[of ys ys "polymod_step ?s v" "polymod_step ?s v'"] assms
    by (simp add: xor_self_map bech32Polymod_def)
  then have "?d = 0" using foldl_step_kernel polymod_step_bound by blast
  moreover have "?d = ucast (v XOR v')" using polymod_step_small[of 0 "v XOR v'"] by simp
  ultimately have z: "(ucast (v XOR v') :: 32 word) = 0" by simp
  show "v = v'"
  proof (rule bit_word_eqI)
    fix n assume "n < LENGTH(8)"
    then have "bit (ucast (v XOR v') :: 32 word) n \<longleftrightarrow> bit v n \<noteq> bit v' n"
      by (auto simp: bit_unsigned_iff bit_xor_iff)
    then show "bit v n = bit v' n" using z by simp
  qed
qed

section \<open>Guarantees\<close>

text \<open>C40: The two directions of the address conversion fit together: the reward address built from
  any stake credential, on any network, is read back as that credential.\<close>

theorem reward_address_roundtrip:
  assumes "length cred = 28"
  shows "\<exists>a. stakeAddressFromCredential (hex_encode cred) network = Inr a
    \<and> StakeHashFromRewardAddress a = Inr (hex_encode cred)"
  using stake_roundtrip[of "hex_encode cred" cred network] assms by simp

lemma reward_address_roundtrip_witness:
  "\<exists>a. stakeAddressFromCredential (hex_encode (replicate 28 7)) ''mainnet'' = Inr a
     \<and> StakeHashFromRewardAddress a = Inr (hex_encode (replicate 28 7))"
  by (rule reward_address_roundtrip) simp

text \<open>A bech32 string is decoded to the prefix and the symbols it was encoded from.\<close>

theorem bech32_roundtrip:
  assumes "\<forall>v \<in> set data. unat v < 32" "hrp \<noteq> []" "to_lower hrp = hrp"
  shows "\<exists>a. bech32Encode hrp data = Some a \<and> bech32Decode a = Some (hrp, data)"
  using bech32Decode_Encode[of data hrp] assms by (auto simp: five_bit_def)

lemma bech32_roundtrip_witness:
  "\<exists>a. bech32Encode ''stake'' [1, 31, 0] = Some a \<and> bech32Decode a = Some (''stake'', [1, 31, 0])"
  by (rule bech32_roundtrip) (simp_all add: to_lower_def char_lower_def)

text \<open>The checksum catches every error in a single symbol: a word with a valid checksum stops
  being valid when any one of its symbols is replaced by another.\<close>

theorem single_symbol_error_detected:
  assumes "bech32Polymod (bech32HrpExpand hrp @ xs @ v # ys) = 1" "v' \<noteq> v"
  shows "bech32Polymod (bech32HrpExpand hrp @ xs @ v' # ys) \<noteq> 1"
  using polymod_one_symbol[of "bech32HrpExpand hrp @ xs" v ys v'] assms by auto

lemma single_symbol_error_detected_witness:
  "\<exists>v ys. bech32Polymod (bech32HrpExpand ''a'' @ [] @ v # ys) = 1
     \<and> bech32Polymod (bech32HrpExpand ''a'' @ [] @ (v + 1) # ys) \<noteq> 1"
proof -
  obtain v ys where d: "bech32Checksum ''a'' [] = v # ys"
    using length_checksum[of "''a''" "[]"] by (cases "bech32Checksum ''a'' []") auto
  have "bech32Polymod (bech32HrpExpand ''a'' @ [] @ v # ys) = 1"
    using polymod_checksum[of "''a''" "[]"] d by simp
  moreover have "v + 1 \<noteq> v" by simp
  ultimately show ?thesis using single_symbol_error_detected by blast
qed

lemma hex_digit_not_space: "n < 16 \<Longrightarrow> \<not> is_space (hex_digit n)"
  by (auto simp: is_space_def hex_digit_def Let_def of_char_of)

lemma hex_encode_no_space: "c \<in> set (hex_encode h) \<Longrightarrow> \<not> is_space c"
proof (induction h)
  case (Cons b h)
  have "unat b < 256" using unsigned_less[of b] by simp
  then have "unat b div 16 < 16" by (intro less_mult_imp_div_less) simp
  then show ?case using Cons hex_digit_not_space by auto
qed simp

lemma trim_hex_encode: "trim_space (hex_encode h) = hex_encode h"
proof (cases "hex_encode h = []")
  case False
  then show ?thesis using hex_encode_no_space hd_in_set last_in_set by (intro trim_space_id) blast+
qed (simp add: trim_space_def trim_left_def)

text \<open>The canonical form of a pool id is one normal form for both spellings: the bech32 id of a
  28-byte hash is the canonical form of its hex spelling, and canonicalising again changes
  nothing.\<close>

theorem CanonicalPoolID_normal:
  assumes "length h = 28"
  shows "\<exists>conv p. convertBits h 8 5 True = Some conv \<and> bech32Encode ''pool'' conv = Some p
    \<and> CanonicalPoolID (hex_encode h) = p \<and> CanonicalPoolID p = p
    \<and> CanonicalPoolID (CanonicalPoolID s) = CanonicalPoolID s"
proof -
  obtain conv p where c: "convertBits h 8 5 True = Some conv" "bech32Encode ''pool'' conv = Some p" "CanonicalPoolID p = p"
    using pool_encode[of h] by auto
  have "hex_encode h \<noteq> []" using assms by (cases h) auto
  moreover have "trim_space (hex_encode h) = hex_encode h" by (rule trim_hex_encode)
  ultimately have "CanonicalPoolID (hex_encode h) = p" using assms c by (simp add: CanonicalPoolID_def)
  then show ?thesis using c CanonicalPoolID_idem by blast
qed

lemma CanonicalPoolID_normal_witness:
  "\<exists>p. bech32Encode ''pool'' (the (convertBits (replicate 28 7) 8 5 True)) = Some p
     \<and> CanonicalPoolID (hex_encode (replicate 28 7)) = p"
proof -
  have "length (replicate 28 7 :: bytes) = 28" by simp
  from CanonicalPoolID_normal[OF this, of "''''"] show ?thesis by auto
qed

end
