(* ===== verification/GoJson.thy ===== *)
theory GoJson
  imports GoText
begin

text \<open>
  What the service uses of Go's \<open>encoding/json\<close>. A \<open>json.RawMessage\<close> is either empty,
  or text that is not JSON, or text that denotes a JSON value; the value is a tree.
  Decoding into a struct follows Go's rules: a key matches a field name up to ASCII
  case, a later key wins over an earlier one, an unknown key is ignored, \<open>null\<close> leaves
  the field at its zero value, and a value of the wrong kind is an error. Of an object that
  repeats a key only the last occurrence is read here; Go reads all of them, which differs
  when an earlier one has the wrong kind or a later one is \<open>null\<close> or an object to be merged.
\<close>

datatype json =
    JNull | JBool bool | JNum string | JStr string
  | JArr "json list" | JObj "(string \<times> json) list"

datatype raw_message = RawEmpty | RawBad | RawDoc json

fun raw_is_empty :: "raw_message \<Rightarrow> bool" where
  "raw_is_empty RawEmpty = True"
| "raw_is_empty _ = False"

text \<open>The last entry whose key matches the field name.\<close>

definition json_field :: "string \<Rightarrow> (string \<times> json) list \<Rightarrow> json option" where
  "json_field name kvs =
     map_option snd (find (\<lambda>kv. to_lower (fst kv) = to_lower name) (rev kvs))"

lemma json_field_mem: "json_field name kvs = Some v \<Longrightarrow> \<exists>k. (k, v) \<in> set kvs"
  unfolding json_field_def by (auto dest!: find_Some_mem)

text \<open>Decoding a field of type \<open>string\<close> (\<open>None\<close>: Go's UnmarshalTypeError).\<close>

definition json_string :: "json option \<Rightarrow> string option" where
  "json_string j = (case j of None \<Rightarrow> Some '''' | Some JNull \<Rightarrow> Some ''''
     | Some (JStr s) \<Rightarrow> Some s | _ \<Rightarrow> None)"

text \<open>A field of type \<open>[]string\<close>; \<open>null\<close> elements decode to the empty string.\<close>

fun json_string_list :: "json list \<Rightarrow> string list option" where
  "json_string_list [] = Some []"
| "json_string_list (j # js) =
     (case (json_string (Some j), json_string_list js) of
        (Some s, Some ss) \<Rightarrow> Some (s # ss) | _ \<Rightarrow> None)"

definition json_strings :: "json option \<Rightarrow> string list option" where
  "json_strings j = (case j of None \<Rightarrow> Some [] | Some JNull \<Rightarrow> Some []
     | Some (JArr js) \<Rightarrow> json_string_list js | _ \<Rightarrow> None)"

text \<open>Fields of struct type, of type \<open>bool\<close>, of type \<open>json.RawMessage\<close> (kept as it is) and of
  type \<open>*string\<close> (\<open>Some None\<close>: a nil pointer).\<close>

definition json_struct :: "json option \<Rightarrow> (string \<times> json) list option" where
  "json_struct j = (case j of None \<Rightarrow> Some [] | Some JNull \<Rightarrow> Some [] | Some (JObj kvs) \<Rightarrow> Some kvs | _ \<Rightarrow> None)"

definition json_flag :: "json option \<Rightarrow> bool option" where
  "json_flag j = (case j of None \<Rightarrow> Some False | Some JNull \<Rightarrow> Some False | Some (JBool b) \<Rightarrow> Some b | _ \<Rightarrow> None)"

definition json_raw :: "json option \<Rightarrow> raw_message" where
  "json_raw j = (case j of None \<Rightarrow> RawEmpty | Some v \<Rightarrow> RawDoc v)"

definition json_opt_string :: "json option \<Rightarrow> string option option" where
  "json_opt_string j = (case j of None \<Rightarrow> Some None | Some JNull \<Rightarrow> Some None
     | Some (JStr s) \<Rightarrow> Some (Some s) | _ \<Rightarrow> None)"

text \<open>A request body decoded into a struct: its fields.\<close>

definition body_struct :: "raw_message \<Rightarrow> (string \<times> json) list option" where
  "body_struct raw = (case raw of RawDoc doc \<Rightarrow> json_struct (Some doc) | _ \<Rightarrow> None)"

definition body_string :: "string \<Rightarrow> (string \<times> json) list \<Rightarrow> string option" where
  "body_string name kvs = json_string (json_field name kvs)"

lemma json_string_list_map: "json_string_list (map JStr ss) = Some ss"
  by (induction ss) (auto simp: json_string_def)

lemma size_json_field: "json_field name kvs = Some v \<Longrightarrow> size v < size (JObj kvs)"
proof -
  assume "json_field name kvs = Some v"
  then obtain k where "(k, v) \<in> set kvs" using json_field_mem by blast
  then have "size v < size_list (size_prod (\<lambda>_. 0) size) kvs + 1"
    by (induction kvs) auto
  then show ?thesis by simp
qed

end
