(* ===== verification/Domain.thy ===== *)
theory Domain
  imports GoJson
begin

text \<open>
  The persisted entities of \<open>internal/domain\<close>, one record per Go struct in the order of
  its fields, and the enumerations that go with them. A Go string type with named
  constants (\<open>GrantStatus\<close>, \<open>TokenStatus\<close>, ...) is a datatype with one constructor per
  constant: the store only ever writes those constants.
\<close>

section \<open>One-time credentials\<close>

datatype nonce_purpose = NonceIssue | NonceActivation | NonceAdminLogin | NonceStepUp

record auth_nonce =
  n_nonce :: string
  n_purpose :: nonce_purpose
  n_bound :: "string option"
  n_expires :: instant
  n_consumed :: "instant option"
  n_created :: instant

record auth_code =
  c_code :: string
  c_client :: string
  c_sch :: string
  c_aud :: string
  c_scope :: "string list"
  c_redirect :: string
  c_challenge :: "string option"
  c_expires :: instant
  c_consumed :: "instant option"
  c_created :: instant

datatype activation_status = ActivationActive | ActivationConsumed | ActivationExpired

record activation_code =
  a_code :: string
  a_sch :: string
  a_channel :: string
  a_ctype :: string
  a_status :: activation_status
  a_expires :: instant
  a_consumed :: "instant option"
  a_created :: instant

section \<open>Clients, grants, tokens, keys\<close>

datatype client_type = ClientPublic | ClientConfidential

record oauth_client =
  cl_id :: string
  cl_name :: string
  cl_type :: client_type
  cl_secret :: "string option"
  cl_redirects :: "string list"
  cl_audiences :: "string list"
  cl_status :: string
  cl_created :: instant

datatype grant_status = GrantActive | GrantRotated | GrantRevoked | GrantExpired

record refresh_grant =
  g_id :: string
  g_sch :: string
  g_aud :: string
  g_ctype :: client_type
  g_device :: bytes
  g_client :: "string option"
  g_status :: grant_status
  g_from :: "string option"
  g_created :: instant
  g_expires :: "instant option"
  g_lastused :: "instant option"

datatype token_kind = TokenAccess | TokenActivation
datatype token_status = TokenActive | TokenExpired | TokenRevoked

record issued_token =
  t_jti :: string
  t_sch :: string
  t_kind :: token_kind
  t_aud :: string
  t_kid :: string
  t_client :: "string option"
  t_status :: token_status
  t_issued :: instant
  t_expires :: instant
  t_redeemed :: "instant option"
  t_revoked :: "instant option"

datatype key_status = KeyPending | KeyActive | KeyRotating | KeyRetired | KeyRevoked

record issuer_key =
  k_kid :: string
  k_public :: bytes
  k_private :: bytes
  k_status :: key_status
  k_from :: "instant option"
  k_until :: "instant option"
  k_created :: instant
  k_retired :: "instant option"

section \<open>Members\<close>

record blacklisted =
  b_sch :: string
  b_reason :: "string option"
  b_created :: instant

definition SubscriptionTTL :: duration where "SubscriptionTTL = 30 * 24 * hour"
definition SubscriptionGrace :: duration where "SubscriptionGrace = 5 * 24 * hour"

datatype sub_status = SubActive | SubDowngraded | SubCancelled | SubExpired

record subscription =
  s_id :: string
  s_pool :: string
  s_sch :: string
  s_channel :: string
  s_ctype :: string
  s_user :: string
  s_account :: "string option"
  s_status :: sub_status
  s_tier :: string
  s_topics :: "string list"
  s_ents :: "string list"
  s_created :: instant
  s_verified :: instant
  s_expires :: instant
  s_grace :: "instant option"
  s_cancelled :: "instant option"

record stake_cache =
  sc_sch :: string
  sc_network :: string
  sc_epoch :: int
  sc_pool :: "string option"
  sc_stake :: "string option"
  sc_rewards :: "string option"
  sc_epochs :: int
  sc_source :: string
  sc_fetched :: instant

section \<open>Configuration and administration\<close>

record attestor_config =
  ac_id :: string
  ac_kind :: string
  ac_label :: string
  ac_params :: raw_message
  ac_status :: string
  ac_created :: instant
  ac_updated :: instant

record channel_config =
  ch_id :: string
  ch_pool :: string
  ch_type :: string
  ch_name :: string
  ch_config :: raw_message
  ch_status :: string
  ch_created :: instant
  ch_updated :: instant

definition ValidChannelType :: "string \<Rightarrow> bool" where
  "ValidChannelType s \<longleftrightarrow> s = ''telegram'' \<or> s = ''discord'' \<or> s = ''email'' \<or> s = ''webhook''"

datatype admin_role = RoleOwner | RoleOperator | RoleViewer

record admin_user =
  u_id :: string
  u_pool :: string
  u_key :: string
  u_role :: admin_role
  u_lastlogin :: "instant option"
  u_created :: instant

record admin_session =
  as_token :: string
  as_admin :: string
  as_expires :: instant
  as_ip :: "string option"
  as_created :: instant

record audit_log =
  au_id :: string
  au_actor :: string
  au_action :: string
  au_target :: string
  au_before :: "string option"
  au_after :: "string option"
  au_ip :: "string option"
  au_created :: instant

section \<open>Push\<close>

datatype push_status = PushDraft | PushScheduled | PushRunning | PushDone | PushCancelled | PushFailed

record push_job =
  j_id :: string
  j_pool :: string
  j_title :: string
  j_content :: string
  j_channel :: "string option"
  j_ctype :: string
  j_topic :: "string option"
  j_ent :: "string option"
  j_tier :: "string option"
  j_status :: push_status
  j_scheduled :: "instant option"
  j_by :: string
  j_created :: instant

datatype delivery_status = DeliverySent | DeliveryFailed | DeliverySkipped

record delivery =
  d_id :: string
  d_job :: string
  d_session :: string
  d_ctype :: string
  d_user :: string
  d_status :: delivery_status
  d_retry :: int
  d_error :: "string option"
  d_sent :: "instant option"

end
