(* ===== verification/Chain.thy ===== *)
theory Chain
  imports Bech32 Domain
begin

text \<open>
  \<open>internal/utils/chain\<close>: the view of on-chain stake. \<open>chain.go\<close> (the snapshot and the
  in-memory source), \<open>epoch.go\<close> (the epoch clock) and \<open>koios.go\<close> (the Koios client). The
  HTTP round trip is the parameter \<open>http\<close>, from a request to a transport error or a status
  and a body; everything the client does with the body is modelled.
  Epochs are \<open>uint64\<close> values, \<open>64 word\<close>.
\<close>

section \<open>Snapshots\<close>

record snapshot =
  sn_sch :: string
  sn_epoch :: "64 word"
  sn_delegated :: string
  sn_active :: string
  sn_stake :: string
  sn_rewards :: string
  sn_epochs :: int
  sn_status :: string
  sn_source :: string
  sn_fetched :: instant

definition zero_time :: instant where
  "zero_time = - 62135596800 * second"

definition empty_snapshot :: snapshot where
  "empty_snapshot = \<lparr>sn_sch = '''', sn_epoch = 0, sn_delegated = '''', sn_active = '''',
     sn_stake = '''', sn_rewards = '''', sn_epochs = 0, sn_status = '''', sn_source = '''',
     sn_fetched = zero_time\<rparr>"

record mock_source =
  m_epoch :: "64 word"
  m_snapshots :: "string \<rightharpoonup> snapshot"
  m_delegators :: "string \<rightharpoonup> string list"

definition NewMockSource :: "64 word \<Rightarrow> mock_source" where
  "NewMockSource e = \<lparr>m_epoch = e, m_snapshots = Map.empty, m_delegators = Map.empty\<rparr>"

definition Mock_Put :: "snapshot \<Rightarrow> mock_source \<Rightarrow> mock_source" where
  "Mock_Put s m = m\<lparr>m_snapshots := (m_snapshots m)(sn_sch s \<mapsto> s)\<rparr>"

definition Mock_Snapshot :: "mock_source \<Rightarrow> string \<Rightarrow> err + snapshot" where
  "Mock_Snapshot m h = (case m_snapshots m h of
       Some s \<Rightarrow> Inr s
     | None \<Rightarrow> Inr (empty_snapshot\<lparr>sn_sch := h, sn_epoch := m_epoch m, sn_source := ''mock''\<rparr>))"

definition Mock_Delegators :: "mock_source \<Rightarrow> string \<Rightarrow> int \<Rightarrow> err + string list" where
  "Mock_Delegators m poolID page =
     (if page > 0 then Inr []
      else Inr (case m_delegators m poolID of None \<Rightarrow> [] | Some ds \<Rightarrow> ds))"

section \<open>The epoch clock\<close>

record epoch_params =
  ep_genesis :: int
  ep_length :: int

definition epochByNetwork :: "string \<Rightarrow> epoch_params option" where
  "epochByNetwork net =
     (if net = ''mainnet'' then Some \<lparr>ep_genesis = 1506203091, ep_length = 432000\<rparr>
      else if net = ''preprod'' then Some \<lparr>ep_genesis = 1654041600, ep_length = 432000\<rparr>
      else if net = ''preview'' then Some \<lparr>ep_genesis = 1666656000, ep_length = 86400\<rparr>
      else None)"

definition CurrentEpoch :: "string \<Rightarrow> instant \<Rightarrow> 64 word option" where
  "CurrentEpoch net now = (case epochByNetwork net of
       None \<Rightarrow> None
     | Some p \<Rightarrow>
         let t = unix_sec now in
         if t < ep_genesis p then None
         else Some (word_of_int ((t - ep_genesis p) div ep_length p)))"

text \<open>The start is computed in \<open>int64\<close>, with its wrap-around.\<close>

definition EpochStart :: "string \<Rightarrow> 64 word \<Rightarrow> instant option" where
  "EpochStart net epoch = (case epochByNetwork net of
       None \<Rightarrow> None
     | Some p \<Rightarrow>
         Some (sint (word_of_int (ep_genesis p) + epoch * word_of_int (ep_length p)) * second))"

section \<open>Koios\<close>

record koios_account =
  ka_address :: string
  ka_status :: string
  ka_pool :: string
  ka_rewards :: string

record koios_history =
  kh_pool :: string
  kh_epoch :: "64 word"
  kh_stake :: string

text \<open>The highest-epoch row; of equal epochs the first.\<close>

fun latest_from :: "koios_history \<Rightarrow> koios_history list \<Rightarrow> koios_history" where
  "latest_from l [] = l"
| "latest_from l (h # hs) = latest_from (if kh_epoch h > kh_epoch l then h else l) hs"

definition latestStakeEntry :: "koios_history list \<Rightarrow> koios_history option" where
  "latestStakeEntry hist = (case hist of [] \<Rightarrow> None | h # hs \<Rightarrow> Some (latest_from h hs))"

text \<open>\<open>byEpoch\<close>: a later row overwrites an earlier one, an absent key reads as \<open>""\<close>.\<close>

definition by_epoch :: "koios_history list \<Rightarrow> 64 word \<Rightarrow> string" where
  "by_epoch hist e = (case find (\<lambda>h. kh_epoch h = e) (rev hist) of
       None \<Rightarrow> '''' | Some h \<Rightarrow> kh_pool h)"

definition top_epoch :: "koios_history list \<Rightarrow> 64 word" where
  "top_epoch hist = foldl (\<lambda>m h. if kh_epoch h > m then kh_epoch h else m) 0 hist"

text \<open>The walk downwards from epoch \<open>e\<close>, given as a natural number.\<close>

fun trailing_from :: "(64 word \<Rightarrow> string) \<Rightarrow> string \<Rightarrow> nat \<Rightarrow> int" where
  "trailing_from by pool 0 = (if by 0 \<noteq> pool then 0 else 1)"
| "trailing_from by pool (Suc e) =
     (if by (of_nat (Suc e)) \<noteq> pool then 0 else 1 + trailing_from by pool e)"

definition trailingActiveEpochs :: "koios_history list \<Rightarrow> string \<Rightarrow> int" where
  "trailingActiveEpochs hist pool =
     trailing_from (by_epoch hist) pool (unat (top_epoch hist))"

definition koiosToSnapshot :: "instant \<Rightarrow> string \<Rightarrow> 64 word \<Rightarrow> koios_account \<Rightarrow> koios_history list
    \<Rightarrow> snapshot" where
  "koiosToSnapshot now hash epoch acc hist =
     (let live = (if ka_status acc \<noteq> ''registered'' then '''' else ka_pool acc);
          s = \<lparr>sn_sch = hash, sn_epoch = epoch, sn_delegated = live, sn_active = '''',
               sn_stake = '''', sn_rewards = ka_rewards acc, sn_epochs = 0,
               sn_status = ka_status acc, sn_source = ''koios'', sn_fetched = now\<rparr>
      in case latestStakeEntry hist of
           None \<Rightarrow> s
         | Some l \<Rightarrow> s\<lparr>sn_active := kh_pool l, sn_stake := kh_stake l,
                       sn_epochs := trailingActiveEpochs hist (kh_pool l)\<rparr>)"

section \<open>The Koios client\<close>

record http_request =
  hr_method :: string
  hr_url :: string
  hr_auth :: "string option"
  hr_body :: "json option"

type_synonym http = "http_request \<Rightarrow> err + (nat \<times> raw_message)"

record koios_source =
  ks_base :: string
  ks_key :: string
  ks_network :: string

definition trim_right_slash :: "string \<Rightarrow> string" where
  "trim_right_slash s = rev (dropWhile (\<lambda>c. c = CHR ''/'') (rev s))"

definition NewKoiosSource :: "string \<Rightarrow> string \<Rightarrow> string \<Rightarrow> koios_source" where
  "NewKoiosSource baseURL apiKey network =
     (let base = trim_right_slash (trim_space baseURL) in
      \<lparr>ks_base = (if base = '''' then ''https://api.koios.rest/api/v1'' else base),
       ks_key = apiKey, ks_network = network\<rparr>)"

definition koios_do :: "http \<Rightarrow> koios_source \<Rightarrow> http_request \<Rightarrow> (raw_message \<Rightarrow> 'a option)
    \<Rightarrow> err + 'a" where
  "koios_do http k req decode =
     (let req' = (if ks_key k \<noteq> '''' then req\<lparr>hr_auth := Some (''Bearer '' @ ks_key k)\<rparr> else req)
      in case http req' of
           Inl e \<Rightarrow> Inl e
         | Inr (status, data) \<Rightarrow>
             if status \<noteq> 200 then Inl (ErrMsg ''koios status'')
             else (case decode data of None \<Rightarrow> Inl (ErrMsg ''json'') | Some x \<Rightarrow> Inr x))"

definition koios_get :: "http \<Rightarrow> koios_source \<Rightarrow> string \<Rightarrow> (raw_message \<Rightarrow> 'a option) \<Rightarrow> err + 'a" where
  "koios_get http k path decode = koios_do http k
     \<lparr>hr_method = ''GET'', hr_url = ks_base k @ path, hr_auth = None, hr_body = None\<rparr> decode"

definition koios_post :: "http \<Rightarrow> koios_source \<Rightarrow> string \<Rightarrow> json \<Rightarrow> (raw_message \<Rightarrow> 'a option)
    \<Rightarrow> err + 'a" where
  "koios_post http k path body decode = koios_do http k
     \<lparr>hr_method = ''POST'', hr_url = ks_base k @ path, hr_auth = None, hr_body = Some body\<rparr> decode"

text \<open>Decoding an array of structs; \<open>null\<close> is the empty slice, a \<open>null\<close> row the zero struct.\<close>

fun decode_rows :: "((string \<times> json) list \<Rightarrow> 'a option) \<Rightarrow> json list \<Rightarrow> 'a list option" where
  "decode_rows dec [] = Some []"
| "decode_rows dec (j # js) =
     (case (case j of JNull \<Rightarrow> dec [] | JObj kvs \<Rightarrow> dec kvs | _ \<Rightarrow> None) of
        None \<Rightarrow> None
      | Some x \<Rightarrow> map_option (\<lambda>xs. x # xs) (decode_rows dec js))"

definition decode_array :: "((string \<times> json) list \<Rightarrow> 'a option) \<Rightarrow> raw_message \<Rightarrow> 'a list option" where
  "decode_array dec m = (case m of
       RawDoc JNull \<Rightarrow> Some []
     | RawDoc (JArr js) \<Rightarrow> decode_rows dec js
     | _ \<Rightarrow> None)"

text \<open>A JSON number into a \<open>uint64\<close>: decimal digits only, in range.\<close>

definition json_uint64 :: "json option \<Rightarrow> 64 word option" where
  "json_uint64 j = (case j of None \<Rightarrow> Some 0 | Some JNull \<Rightarrow> Some 0
     | Some (JNum s) \<Rightarrow> (case nat_parse s of
           Some n \<Rightarrow> if n < 2 ^ 64 then Some (of_nat n) else None
         | None \<Rightarrow> None)
     | _ \<Rightarrow> None)"

definition decode_account :: "(string \<times> json) list \<Rightarrow> koios_account option" where
  "decode_account kvs =
     (case (json_string (json_field ''stake_address'' kvs), json_string (json_field ''status'' kvs),
            json_string (json_field ''delegated_pool'' kvs), json_string (json_field ''rewards_available'' kvs)) of
        (Some a, Some st, Some p, Some r) \<Rightarrow> Some \<lparr>ka_address = a, ka_status = st, ka_pool = p, ka_rewards = r\<rparr>
      | _ \<Rightarrow> None)"

definition decode_history :: "(string \<times> json) list \<Rightarrow> koios_history option" where
  "decode_history kvs =
     (case (json_string (json_field ''pool_id_bech32'' kvs), json_uint64 (json_field ''epoch_no'' kvs),
            json_string (json_field ''active_stake'' kvs)) of
        (Some p, Some e, Some a) \<Rightarrow> Some \<lparr>kh_pool = p, kh_epoch = e, kh_stake = a\<rparr>
      | _ \<Rightarrow> None)"

definition decode_tip :: "(string \<times> json) list \<Rightarrow> 64 word option" where
  "decode_tip kvs = json_uint64 (json_field ''epoch_no'' kvs)"

definition decode_delegator :: "(string \<times> json) list \<Rightarrow> string option" where
  "decode_delegator kvs = json_string (json_field ''stake_address'' kvs)"

definition Koios_Epoch :: "http \<Rightarrow> koios_source \<Rightarrow> err + 64 word" where
  "Koios_Epoch http k = (case koios_get http k ''/tip'' (decode_array decode_tip) of
       Inl e \<Rightarrow> Inl e
     | Inr [] \<Rightarrow> Inl (ErrMsg ''koios: empty /tip'')
     | Inr (t # _) \<Rightarrow> Inr t)"

definition Koios_Snapshot :: "http \<Rightarrow> instant \<Rightarrow> koios_source \<Rightarrow> string \<Rightarrow> err + snapshot" where
  "Koios_Snapshot http now k sch =
     (case stakeAddressFromCredential sch (ks_network k) of
        Inl _ \<Rightarrow> Inl (ErrMsg ''stake credential'')
      | Inr stakeAddr \<Rightarrow>
          let body = JObj [(''_stake_addresses'', JArr [JStr stakeAddr])] in
          (case koios_post http k ''/account_info'' body (decode_array decode_account) of
             Inl e \<Rightarrow> Inl e
           | Inr infos \<Rightarrow>
               let epoch = (case Koios_Epoch http k of Inl _ \<Rightarrow> 0 | Inr e \<Rightarrow> e) in
               (case infos of
                  [] \<Rightarrow> Inr (empty_snapshot\<lparr>sn_sch := sch, sn_epoch := epoch, sn_epochs := -1,
                          sn_status := ''not_registered'', sn_source := ''koios'', sn_fetched := now\<rparr>)
                | info # _ \<Rightarrow>
                    (case koios_post http k ''/account_stake_history'' body (decode_array decode_history) of
                       Inl e \<Rightarrow> Inl e
                     | Inr hist \<Rightarrow> Inr (koiosToSnapshot now sch epoch info hist)))))"

definition delegatorPageSize :: int where "delegatorPageSize = 1000"

fun hash_all :: "string list \<Rightarrow> err + string list" where
  "hash_all [] = Inr []"
| "hash_all (a # as) = (case StakeHashFromRewardAddress a of
       Inl _ \<Rightarrow> Inl (ErrMsg ''reward address'')
     | Inr h \<Rightarrow> (case hash_all as of Inl e \<Rightarrow> Inl e | Inr hs \<Rightarrow> Inr (h # hs)))"

definition Koios_Delegators :: "http \<Rightarrow> koios_source \<Rightarrow> string \<Rightarrow> int \<Rightarrow> err + string list" where
  "Koios_Delegators http k poolID page0 =
     (let page = (if page0 < 0 then 0 else page0);
          path = ''/pool_delegators?_pool_bech32='' @ poolID @ ''&offset=''
                 @ big_string (page * delegatorPageSize) @ ''&limit='' @ big_string delegatorPageSize
      in case koios_get http k path (decode_array decode_delegator) of
           Inl e \<Rightarrow> Inl e
         | Inr rows \<Rightarrow> hash_all rows)"

section \<open>The contract of a source\<close>

text \<open>
  What the callers of \<open>chain.Source\<close> rely on: the snapshot is about the credential that
  was asked for. The membership cache files a snapshot under the credential it names, so a
  source that broke this would have its answers stored under another member.
\<close>

locale stake_source =
  fixes snap :: "string \<Rightarrow> err + snapshot"
  assumes about: "snap h = Inr s \<Longrightarrow> sn_sch s = h"
begin

lemma apart: "snap h = Inr s \<Longrightarrow> snap h' = Inr s' \<Longrightarrow> h \<noteq> h' \<Longrightarrow> sn_sch s \<noteq> sn_sch s'"
  using about by metis

end

lemma koiosToSnapshot_sch [simp]: "sn_sch (koiosToSnapshot now hash epoch acc hist) = hash"
  by (simp add: koiosToSnapshot_def Let_def split: option.splits)

interpretation koios: stake_source "Koios_Snapshot http now k" for http now k
proof
  fix h s assume "Koios_Snapshot http now k h = Inr s"
  then show "sn_sch s = h"
    by (auto simp: Koios_Snapshot_def Let_def split: sum.splits list.splits)
qed

locale mock_registry =
  fixes m :: mock_source
  assumes filed: "m_snapshots m h = Some s \<Longrightarrow> sn_sch s = h"

sublocale mock_registry \<subseteq> stake_source "Mock_Snapshot m"
  by unfold_locales (auto simp: Mock_Snapshot_def dest: filed split: option.splits)

lemma fold_Mock_Put_filed:
  "m_snapshots (fold Mock_Put ss m) h = Some s \<Longrightarrow>
     (\<And>h s. m_snapshots m h = Some s \<Longrightarrow> sn_sch s = h) \<Longrightarrow> sn_sch s = h"
proof (induction ss arbitrary: m)
  case (Cons a ss)
  have "sn_sch s = h" if "m_snapshots (Mock_Put a m) h = Some s" for h s
    using that Cons.prems(2)[of h s] by (auto simp: Mock_Put_def split: if_splits)
  then show ?case using Cons.IH[of "Mock_Put a m"] Cons.prems(1) by simp
qed simp

interpretation mock: mock_registry "fold Mock_Put ss (NewMockSource e)" for ss e
  by unfold_locales (auto simp: NewMockSource_def dest: fold_Mock_Put_filed)

section \<open>Stake history\<close>

lemma latest_from_max:
  "latest_from l hs \<in> insert l (set hs) \<and>
   (\<forall>h \<in> insert l (set hs). kh_epoch h \<le> kh_epoch (latest_from l hs))"
proof (induction hs arbitrary: l)
  case (Cons a hs)
  show ?case using Cons.IH[of a] Cons.IH[of l] by (auto simp: not_less intro: order_trans)
qed simp

lemma latestStakeEntry_max:
  "latestStakeEntry hist = Some l \<Longrightarrow> l \<in> set hist \<and> (\<forall>h \<in> set hist. kh_epoch h \<le> kh_epoch l)"
  using latest_from_max by (cases hist) (fastforce simp: latestStakeEntry_def)+

lemma top_epoch_max_gen:
  "foldl (\<lambda>m h. if kh_epoch h > m then kh_epoch h else m) t hist = fold (\<lambda>h m. max m (kh_epoch h)) hist t"
  by (induction hist arbitrary: t) (auto simp: max_def)

lemma fold_max_le:
  fixes e :: "64 word"
  shows "\<forall>h \<in> set hist. kh_epoch h \<le> e \<Longrightarrow> t \<le> e \<Longrightarrow> e \<in> insert t (kh_epoch ` set hist)
    \<Longrightarrow> fold (\<lambda>h m. max m (kh_epoch h)) hist t = e"
proof (induction hist arbitrary: t)
  case (Cons a hist)
  then show ?case by (auto simp: max_def)
qed auto

lemma top_epoch_latest: "latestStakeEntry hist = Some l \<Longrightarrow> top_epoch hist = kh_epoch l"
  unfolding top_epoch_def top_epoch_max_gen
  by (rule fold_max_le) (auto dest: latestStakeEntry_max)

lemma trailing_from_run:
  defines "n by pool e \<equiv> nat (trailing_from by pool e)"
  shows "0 \<le> trailing_from by pool e \<and> n by pool e \<le> Suc e
    \<and> (\<forall>i < n by pool e. by (of_nat (e - i)) = pool)
    \<and> (n by pool e \<le> e \<longrightarrow> by (of_nat (e - n by pool e)) \<noteq> pool)"
proof (induction e)
  case 0
  then show ?case by (simp add: n_def)
next
  case (Suc e)
  show ?case
  proof (cases "by (of_nat (Suc e)) = pool")
    case True
    then have eq: "n by pool (Suc e) = Suc (n by pool e)"
      using Suc by (simp add: n_def nat_add_distrib)
    have "by (of_nat (Suc e - i)) = pool" if "i < Suc (n by pool e)" for i
      using that True Suc by (cases i) auto
    then show ?thesis using Suc eq True by auto
  qed (simp add: n_def)
qed

lemma by_epoch_mem:
  assumes "by_epoch hist e = pool" "pool \<noteq> ''''"
  shows "\<exists>h \<in> set hist. kh_epoch h = e \<and> kh_pool h = pool"
  using assms find_Some_mem by (fastforce simp: by_epoch_def split: option.splits)

lemma by_epoch_distinct:
  assumes "distinct (map kh_epoch hist)" "h \<in> set hist"
  shows "by_epoch hist (kh_epoch h) = kh_pool h"
proof -
  have "find (\<lambda>h'. kh_epoch h' = kh_epoch h) (rev hist) = Some h"
    using assms by (intro find_distinct_key) (auto simp: rev_map[symmetric])
  then show ?thesis by (simp add: by_epoch_def)
qed

lemma trailing_from_pos: "by (of_nat e) = pool \<Longrightarrow> trailing_from by pool e \<ge> 1"
proof (cases e)
  case (Suc d)
  assume "by (of_nat e) = pool"
  then show ?thesis using Suc trailing_from_run[of "by" pool d] by simp
qed simp

text \<open>The trailing count of a pool is the length of the longest run of consecutive
  epochs, ending at the newest epoch of the history, for each of which the history has a
  row crediting that pool; the epoch just before the run, if there is one, is credited
  otherwise.\<close>

theorem trailingActiveEpochs_run:
  assumes "pool \<noteq> ''''"
  shows "\<exists>n. trailingActiveEpochs hist pool = int n \<and> n \<le> Suc (unat (top_epoch hist))
    \<and> (\<forall>i < n. \<exists>h \<in> set hist. unat (kh_epoch h) + i = unat (top_epoch hist) \<and> kh_pool h = pool)
    \<and> (n \<le> unat (top_epoch hist) \<longrightarrow>
        by_epoch hist (of_nat (unat (top_epoch hist) - n)) \<noteq> pool)"
proof -
  let ?e = "unat (top_epoch hist)" and ?by = "by_epoch hist"
  let ?n = "nat (trailing_from ?by pool ?e)"
  note run = trailing_from_run[of ?by pool ?e]
  have "\<exists>h \<in> set hist. unat (kh_epoch h) + i = ?e \<and> kh_pool h = pool" if "i < ?n" for i
  proof -
    have "?by (of_nat (?e - i)) = pool" using run that by blast
    then obtain h where h: "h \<in> set hist" "kh_epoch h = of_nat (?e - i)" "kh_pool h = pool"
      using by_epoch_mem assms by blast
    have "?e - i < 2 ^ LENGTH(64)" 
      using unsigned_less[of "top_epoch hist", where ?'a = nat] by simp
    then have "unat (kh_epoch h) = ?e - i" using h(2)
      by (simp add: unsigned_of_nat take_bit_nat_eq_self)
    moreover have "i \<le> ?e" using that run by simp
    ultimately have "unat (kh_epoch h) + i = ?e" by linarith
    then show ?thesis using h(1,3) by blast
  qed
  then show ?thesis using run by (intro exI[of _ ?n]) (auto simp: trailingActiveEpochs_def)
qed

definition sample_history :: "koios_history list" where
  "sample_history = [\<lparr>kh_pool = ''A'', kh_epoch = 5, kh_stake = ''10''\<rparr>,
     \<lparr>kh_pool = ''A'', kh_epoch = 7, kh_stake = ''30''\<rparr>, \<lparr>kh_pool = ''A'', kh_epoch = 6, kh_stake = ''20''\<rparr>,
     \<lparr>kh_pool = ''B'', kh_epoch = 4, kh_stake = ''9''\<rparr>]"

lemma trailingActiveEpochs_run_witness:
  "\<exists>n. trailingActiveEpochs sample_history ''A'' = int n \<and> n = 3
     \<and> (\<exists>h \<in> set sample_history. unat (kh_epoch h) + 2 = 7 \<and> kh_pool h = ''A'')"
proof -
  have top: "top_epoch sample_history = 7" by (simp add: top_epoch_def sample_history_def)
  have "trailingActiveEpochs sample_history ''A'' = 3"
  proof -
    have "trailing_from (by_epoch sample_history) ''A'' (Suc (Suc (Suc (Suc (Suc (Suc (Suc 0))))))) = 3"
      by (simp add: by_epoch_def sample_history_def)
    moreover have "unat (7 :: 64 word) = Suc (Suc (Suc (Suc (Suc (Suc (Suc 0))))))" by simp
    ultimately show ?thesis by (simp only: trailingActiveEpochs_def top)
  qed
  moreover obtain n where n: "trailingActiveEpochs sample_history ''A'' = int n"
      "\<forall>i < n. \<exists>h \<in> set sample_history. unat (kh_epoch h) + i = 7 \<and> kh_pool h = ''A''"
    using trailingActiveEpochs_run[of "''A''" sample_history] by (auto simp: top)
  ultimately have "\<exists>h \<in> set sample_history. unat (kh_epoch h) + 2 = 7 \<and> kh_pool h = ''A''"
    using n(2)[rule_format, of 2] by simp
  then show ?thesis using \<open>trailingActiveEpochs sample_history ''A'' = 3\<close> by (intro exI[of _ 3]) auto
qed

text \<open>A snapshot built from a history with one row per epoch credits the pool and the
  stake of the row with the highest epoch, in whatever order the rows arrive, and counts at
  least that epoch; without rows it credits no pool. An account that is not registered has
  no live delegation.\<close>

theorem koiosToSnapshot_latest:
  assumes "distinct (map kh_epoch hist)"
  shows "(hist = [] \<longrightarrow> sn_active (koiosToSnapshot now h e acc hist) = ''''
            \<and> sn_epochs (koiosToSnapshot now h e acc hist) = 0)
    \<and> (\<forall>l \<in> set hist. (\<forall>r \<in> set hist. kh_epoch r \<le> kh_epoch l) \<longrightarrow>
          sn_active (koiosToSnapshot now h e acc hist) = kh_pool l
          \<and> sn_stake (koiosToSnapshot now h e acc hist) = kh_stake l
          \<and> sn_epochs (koiosToSnapshot now h e acc hist) \<ge> 1)
    \<and> sn_delegated (koiosToSnapshot now h e acc hist)
        = (if ka_status acc = ''registered'' then ka_pool acc else '''')"
proof -
  have "latestStakeEntry hist = Some l"
    if l: "l \<in> set hist" "\<forall>r \<in> set hist. kh_epoch r \<le> kh_epoch l" for l
  proof -
    obtain l' where l': "latestStakeEntry hist = Some l'"
      using l(1) by (cases hist) (auto simp: latestStakeEntry_def)
    then have "kh_epoch l' = kh_epoch l" using latestStakeEntry_max l by (metis order_antisym)
    then have "l' = l" using assms l(1) latestStakeEntry_max[OF l']
      by (auto simp: distinct_map inj_on_def)
    then show ?thesis using l' by simp
  qed
  moreover have "trailingActiveEpochs hist (kh_pool l) \<ge> 1"
    if "latestStakeEntry hist = Some l" for l
    unfolding trailingActiveEpochs_def top_epoch_latest[OF that]
    by (rule trailing_from_pos) (simp add: by_epoch_distinct assms latestStakeEntry_max[OF that])
  ultimately show ?thesis
    by (auto simp: koiosToSnapshot_def Let_def latestStakeEntry_def[of "[]"] split: option.splits)
qed

lemma koiosToSnapshot_latest_witness:
  "sn_active (koiosToSnapshot 0 ''h'' 7 \<lparr>ka_address = ''s'', ka_status = ''registered'', ka_pool = ''C'',
      ka_rewards = ''1''\<rparr> sample_history) = ''A''"
  using koiosToSnapshot_latest[of sample_history 0 "''h''" 7 "\<lparr>ka_address = ''s'', ka_status = ''registered'',
      ka_pool = ''C'', ka_rewards = ''1''\<rparr>"]
  by (simp add: sample_history_def)

section \<open>The epoch clock\<close>

lemma epoch_params_cases:
  assumes "epochByNetwork net = Some p"
  shows "0 < ep_genesis p \<and> ep_genesis p < 2 ^ 31 \<and> 0 < ep_length p \<and> ep_length p < 2 ^ 20"
  using assms by (auto simp: epochByNetwork_def split: if_splits)

lemma EpochStart_exact:
  assumes p: "epochByNetwork net = Some p" and e: "unat e < 2 ^ 40"
  shows "EpochStart net e = Some ((ep_genesis p + int (unat e) * ep_length p) * second)"
proof -
  note b = epoch_params_cases[OF p]
  let ?v = "ep_genesis p + int (unat e) * ep_length p"
  have "int (unat e) * ep_length p < 2 ^ 40 * 2 ^ 20"
  proof (rule mult_strict_mono')
    show "int (unat e) < 2 ^ 40" using e by (metis of_nat_less_iff of_nat_numeral of_nat_power)
  qed (use b in auto)
  then have r: "0 \<le> ?v" "?v < 2 ^ 62" using b by auto
  have "word_of_int (ep_genesis p) + e * word_of_int (ep_length p) = (word_of_int ?v :: 64 word)"
    by simp
  then have "sint (word_of_int (ep_genesis p) + e * word_of_int (ep_length p) :: 64 word)
      = sint (word_of_int ?v :: 64 word)" by simp
  also have "\<dots> = ?v" using r by (simp only: sint_sbintrunc') (simp add: signed_take_bit_int_eq_self)
  finally show ?thesis by (simp only: EpochStart_def p option.simps)
qed

text \<open>The epoch clock at whole seconds, at the start of an epoch and just before it, and the
  bounds of an instant within its epoch.\<close>

lemma unix_sec_second: "unix_sec (k * second) = k" "unix_sec (k * second - 1) = k - 1"
  by (simp_all add: unix_sec_def second_def)

lemma CurrentEpoch_start:
  assumes p: "epochByNetwork net = Some p"
  shows "CurrentEpoch net ((ep_genesis p + int (unat e) * ep_length p) * second) = Some e"
proof -
  note b = epoch_params_cases[OF p]
  let ?n = "int (unat e)"
  have we: "word_of_int ?n = e" by simp
  have cur: "CurrentEpoch net (k * second) = (if k < ep_genesis p then None
      else Some (word_of_int ((k - ep_genesis p) div ep_length p)))" for k
    by (simp add: CurrentEpoch_def p unix_sec_second)
  have "0 \<le> ?n * ep_length p" using b by simp
  then have "\<not> ep_genesis p + ?n * ep_length p < ep_genesis p" by linarith
  moreover have "?n * ep_length p div ep_length p = ?n" using b by simp
  ultimately show ?thesis unfolding cur using we by (simp del: of_nat_unat)
qed

lemma CurrentEpoch_before:
  assumes p: "epochByNetwork net = Some p"
  shows "CurrentEpoch net ((ep_genesis p + int (unat e) * ep_length p) * second - 1) \<noteq> Some e"
proof (cases "int (unat e) = 0")
  case True
  then show ?thesis by (simp add: CurrentEpoch_def p unix_sec_second)
next
  case False
  note b = epoch_params_cases[OF p]
  let ?n = "int (unat e)"
  have d: "(?n * ep_length p - 1) div ep_length p = ?n - 1"
    using b div_pos_pos_trivial[of "ep_length p - 1" "ep_length p"]
      div_mult_self3[of "ep_length p" "?n - 1" "ep_length p - 1"]
    by (simp add: algebra_simps)
  have "word_of_int (?n - 1) \<noteq> e"
  proof
    assume "word_of_int (?n - 1) = e"
    then have "word_of_int (?n - 1) = (word_of_int ?n :: 64 word)" by simp
    then show False by simp
  qed
  moreover have "1 \<le> ?n * ep_length p"
  proof -
    have "1 \<le> ?n" using False by linarith
    then show ?thesis using b mult_mono[of 1 ?n 1 "ep_length p"] by linarith
  qed
  moreover have "ep_genesis p + ?n * ep_length p - 1 - ep_genesis p = ?n * ep_length p - 1" by simp
  moreover have "CurrentEpoch net (k * second - 1) = (if k - 1 < ep_genesis p then None
    else Some (word_of_int ((k - 1 - ep_genesis p) div ep_length p)))" for k
    by (simp add: CurrentEpoch_def p unix_sec_second)
  ultimately show ?thesis by (simp only: d) auto
qed

lemma CurrentEpoch_bounds:
  assumes p: "epochByNetwork net = Some p" and now: "CurrentEpoch net now = Some e" "unix_sec now < 2 ^ 59"
  shows "(ep_genesis p + int (unat e) * ep_length p) * second \<le> now
    \<and> now < (ep_genesis p + (int (unat e) + 1) * ep_length p) * second"
proof -
  note b = epoch_params_cases[OF p]
  let ?n = "int (unat e)"
  define q where "q = (unix_sec now - ep_genesis p) div ep_length p"
  have ge: "ep_genesis p \<le> unix_sec now" and eq: "e = word_of_int q"
    using now by (auto simp: CurrentEpoch_def p Let_def q_def split: if_splits)
  have q0: "0 \<le> q" using ge b by (simp add: q_def pos_imp_zdiv_nonneg_iff)
  have "q \<le> unix_sec now - ep_genesis p" unfolding q_def
    using ge b zdiv_mono2[of "unix_sec now - ep_genesis p" 1 "ep_length p"] by simp
  then have "q < 2 ^ 64" using now b by simp
  then have nq: "?n = q" using q0 by (simp add: eq unsigned_of_int take_bit_int_eq_self)
  define x where "x = unix_sec now - ep_genesis p"
  have split: "x = q * ep_length p + x mod ep_length p" by (simp add: q_def x_def)
  have "0 \<le> x mod ep_length p" "x mod ep_length p < ep_length p" using b by simp_all
  then have lo: "?n * ep_length p \<le> x" and hi: "x < (?n + 1) * ep_length p"
    unfolding nq using split by (simp_all add: distrib_right)
  have sec: "unix_sec now * second \<le> now" "now < (unix_sec now + 1) * second"
    by (simp_all add: unix_sec_def second_def)
  have "(ep_genesis p + ?n * ep_length p) * second \<le> unix_sec now * second"
    using lo by (intro mult_right_mono) (auto simp: second_def x_def)
  moreover have "(unix_sec now + 1) * second \<le> (ep_genesis p + (?n + 1) * ep_length p) * second"
    using hi by (intro mult_right_mono) (auto simp: second_def x_def)
  ultimately show ?thesis using sec by linarith
qed

text \<open>On the three known networks the epoch clock inverts itself: the instant at which
  an epoch starts is in that epoch, one nanosecond earlier is not, and every instant of the
  epoch lies before the start of the next one. Elsewhere there is no epoch.\<close>

theorem epoch_clock_inverse:
  assumes p: "epochByNetwork net = Some p" and e: "unat e < 2 ^ 40 - 1"
    and now: "CurrentEpoch net now = Some e \<and> unix_sec now < 2 ^ 59"
  shows "\<exists>start next. EpochStart net e = Some start \<and> EpochStart net (e + 1) = Some next
    \<and> CurrentEpoch net start = Some e \<and> CurrentEpoch net (start - 1) \<noteq> Some e
    \<and> start \<le> now \<and> now < next"
proof -
  have unat1: "unat (e + 1) = unat e + 1"
    using e by (subst unat_plus_simple[THEN iffD1]) (auto simp: word_le_nat_alt unat_word_ariths)
  have "EpochStart net e = Some ((ep_genesis p + int (unat e) * ep_length p) * second)"
    by (rule EpochStart_exact[OF p]) (use e in simp)
  moreover have "EpochStart net (e + 1) = Some ((ep_genesis p + (int (unat e) + 1) * ep_length p) * second)"
    using EpochStart_exact[OF p, of "e + 1"] e unat1 by simp
  ultimately show ?thesis
    using CurrentEpoch_start[OF p, of e] CurrentEpoch_before[OF p, of e] CurrentEpoch_bounds[OF p, of now e] now by auto
qed

lemma epoch_clock_inverse_witness:
  "\<exists>start next. EpochStart ''preview'' 100 = Some start \<and> EpochStart ''preview'' 101 = Some next
    \<and> start \<le> 1675300000 * second \<and> 1675300000 * second < next"
proof -
  have "epochByNetwork ''preview'' = Some \<lparr>ep_genesis = 1666656000, ep_length = 86400\<rparr>"
    by (simp add: epochByNetwork_def)
  moreover have "CurrentEpoch ''preview'' (1675300000 * second) = Some 100
      \<and> unix_sec (1675300000 * second) < 2 ^ 59"
    by (simp add: CurrentEpoch_def epochByNetwork_def unix_sec_def second_def)
  ultimately show ?thesis using epoch_clock_inverse[of "''preview''" _ 100] by fastforce
qed

end
