(* ===== verification/World.thy ===== *)
theory World
  imports Domain "HOL-Library.List_Lexorder" "HOL-Library.Char_ord" "HOL-Library.Product_Lexorder"
begin

text \<open>
  The state of the service and the sequencing of its operations.

  \<^item> \<open>world\<close> holds one list of rows per table of the database (\<open>internal/store\<close>), in
    insertion order, the clock (\<open>time.Now\<close>, constant during one request), the source of
    random bytes, and a schedule of faults: every SQL statement, every \<open>BEGIN\<close> and every
    \<open>COMMIT\<close> takes the next entry and fails with a driver error when it is \<open>True\<close>. A
    theorem about all worlds therefore covers every pattern of database failures.
  \<^item> \<open>outbox\<close> is no state of the program: it records every message that was handed to a
    messaging transport, with the chat, the text and what the transport answered, so that
    theorems can speak of what is sent. No transaction sends anything.
  \<^item> An operation is a function \<open>'a io\<close> from a world to a result and a world; \<open>bindE\<close> is
    Go's \<open>if err != nil { return err }\<close>, \<open>tryE\<close> hands the error to the caller,
    \<open>with_tx\<close> is \<open>Store.WithTx\<close>.
  \<^item> A column of type time is kept as the instant it denotes; where SQL compares two such
    columns as text (\<open>ts\<close> writes RFC3339Nano), the comparison is on \<open>ts_key\<close>.
  \<^item> The locale \<open>io_rel\<close> collects the rules by which a relation between the world before
    and after goes through the combinators.
\<close>

section \<open>The world\<close>

record world =
  clock :: instant
  entropy :: "nat \<Rightarrow> byte"
  draws :: nat
  faults :: "bool list"
  nonces :: "auth_nonce list"
  codes :: "auth_code list"
  activations :: "activation_code list"
  clients :: "oauth_client list"
  grants :: "refresh_grant list"
  tokens :: "issued_token list"
  ikeys :: "issuer_key list"
  banned :: "blacklisted list"
  subs :: "subscription list"
  scache :: "stake_cache list"
  attestors :: "attestor_config list"
  tier_rules :: "raw_message option"
  channels :: "channel_config list"
  admins :: "admin_user list"
  asessions :: "admin_session list"
  audits :: "audit_log list"
  jobs :: "push_job list"
  deliveries :: "delivery list"
  outbox :: "(string \<times> string \<times> string option) list"

type_synonym 'a result = "err + 'a"
type_synonym 'a io = "world \<Rightarrow> 'a result \<times> world"

section \<open>Sequencing\<close>

definition returnE :: "'a \<Rightarrow> 'a io" where "returnE x w = (Inr x, w)"
definition failE :: "err \<Rightarrow> 'a io" where "failE e w = (Inl e, w)"

definition bindE :: "'a io \<Rightarrow> ('a \<Rightarrow> 'b io) \<Rightarrow> 'b io" where
  "bindE m f w = (case m w of (Inl e, w') \<Rightarrow> (Inl e, w') | (Inr x, w') \<Rightarrow> f x w')"

definition tryE :: "'a io \<Rightarrow> ('a result \<Rightarrow> 'b io) \<Rightarrow> 'b io" where
  "tryE m f w = (case m w of (r, w') \<Rightarrow> f r w')"

definition getE :: "(world \<Rightarrow> 'a) \<Rightarrow> 'a io" where "getE f w = (Inr (f w), w)"

definition liftE :: "'a result \<Rightarrow> 'a io" where "liftE r w = (r, w)"

definition guardE :: "bool \<Rightarrow> err \<Rightarrow> unit io" where
  "guardE b e w = (if b then (Inr (), w) else (Inl e, w))"

fun forE :: "('a \<Rightarrow> unit io) \<Rightarrow> 'a list \<Rightarrow> unit io" where
  "forE f [] = returnE ()"
| "forE f (x # xs) = bindE (f x) (\<lambda>_. forE f xs)"

text \<open>\<open>now\<close> reads the injected clock.\<close>

definition nowE :: "instant io" where "nowE = getE clock"

text \<open>\<open>_ = op()\<close>: the error of an operation is dropped.\<close>

definition ignoreE :: "'a io \<Rightarrow> unit io" where
  "ignoreE m = tryE m (\<lambda>_. returnE ())"

section \<open>Statements and transactions\<close>

definition faulty :: "world \<Rightarrow> bool" where
  "faulty w \<longleftrightarrow> faults w \<noteq> [] \<and> hd (faults w)"

definition skip :: "world \<Rightarrow> world" where
  "skip w = w\<lparr>faults := tl (faults w)\<rparr>"

text \<open>One SQL statement: \<open>f\<close> is its effect when the driver does not fail.\<close>

definition exec :: "'a io \<Rightarrow> 'a io" where
  "exec f w = (if faulty w then (Inl ErrDB, skip w) else f (skip w))"

definition query :: "(world \<Rightarrow> 'a) \<Rightarrow> 'a io" where
  "query f = exec (getE f)"

definition modify :: "(world \<Rightarrow> world) \<Rightarrow> unit io" where
  "modify f = exec (\<lambda>w. (Inr (), f w))"

text \<open>A \<open>SELECT\<close> of one row: \<open>sql.ErrNoRows\<close> becomes \<open>ErrNotFound\<close>.\<close>

definition query_row :: "(world \<Rightarrow> 'a option) \<Rightarrow> 'a io" where
  "query_row f = exec (\<lambda>w. (case f w of None \<Rightarrow> Inl ErrNotFound | Some x \<Rightarrow> Inr x, w))"

text \<open>The world after a rollback: only the schedule and the randomness have moved on.\<close>

definition rollback :: "world \<Rightarrow> world \<Rightarrow> world" where
  "rollback w w' = w\<lparr>faults := faults w', draws := draws w'\<rparr>"

text \<open>\<open>Store.WithTx\<close>: begin, run, commit; any error rolls back.\<close>

definition with_tx :: "'a io \<Rightarrow> 'a io" where
  "with_tx m w =
     (if faulty w then (Inl ErrDB, skip w)
      else (case m (skip w) of
          (Inl e, w') \<Rightarrow> (Inl e, rollback w w')
        | (Inr x, w') \<Rightarrow> if faulty w' then (Inl ErrDB, rollback w (skip w'))
                        else (Inr x, skip w')))"

section \<open>Statements over one table\<close>

text \<open>
  \<open>get\<close> and \<open>upd\<close> are the selector and the update function of the table's field. An
  \<open>INSERT\<close> that violates the primary key is a driver error; \<open>update_count\<close> also returns
  \<open>RowsAffected\<close>.
\<close>

definition insert_row :: "(world \<Rightarrow> 'r list) \<Rightarrow> (('r list \<Rightarrow> 'r list) \<Rightarrow> world \<Rightarrow> world)
    \<Rightarrow> ('r \<Rightarrow> 'k) \<Rightarrow> 'r \<Rightarrow> unit io" where
  "insert_row get upd key r = exec (\<lambda>w.
     if key r \<in> key ` set (get w) then (Inl ErrDB, w) else (Inr (), upd (\<lambda>rs. rs @ [r]) w))"

text \<open>\<open>INSERT ... ON CONFLICT (key) DO UPDATE SET ...\<close>: \<open>merge old new\<close> is the updated row.\<close>

definition upsert_row :: "(('r list \<Rightarrow> 'r list) \<Rightarrow> world \<Rightarrow> world)
    \<Rightarrow> ('r \<Rightarrow> 'k) \<Rightarrow> ('r \<Rightarrow> 'r \<Rightarrow> 'r) \<Rightarrow> 'r \<Rightarrow> unit io" where
  "upsert_row upd key merge r = modify (upd (\<lambda>rs.
     if key r \<in> key ` set rs then map (\<lambda>x. if key x = key r then merge x r else x) rs
     else rs @ [r]))"

definition set_where :: "('r \<Rightarrow> bool) \<Rightarrow> ('r \<Rightarrow> 'r) \<Rightarrow> 'r list \<Rightarrow> 'r list" where
  "set_where P f = map (\<lambda>r. if P r then f r else r)"

definition update_rows :: "(('r list \<Rightarrow> 'r list) \<Rightarrow> world \<Rightarrow> world)
    \<Rightarrow> ('r \<Rightarrow> bool) \<Rightarrow> ('r \<Rightarrow> 'r) \<Rightarrow> unit io" where
  "update_rows upd P f = modify (upd (set_where P f))"

definition update_count :: "(world \<Rightarrow> 'r list) \<Rightarrow> (('r list \<Rightarrow> 'r list) \<Rightarrow> world \<Rightarrow> world)
    \<Rightarrow> ('r \<Rightarrow> bool) \<Rightarrow> ('r \<Rightarrow> 'r) \<Rightarrow> nat io" where
  "update_count get upd P f = exec (\<lambda>w.
     (Inr (length (filter P (get w))), upd (set_where P f) w))"

definition delete_rows :: "(world \<Rightarrow> 'r list) \<Rightarrow> (('r list \<Rightarrow> 'r list) \<Rightarrow> world \<Rightarrow> world)
    \<Rightarrow> ('r \<Rightarrow> bool) \<Rightarrow> nat io" where
  "delete_rows get upd P = exec (\<lambda>w.
     (Inr (length (filter P (get w))), upd (filter (\<lambda>r. \<not> P r)) w))"

lemma set_where_id [simp]: "(\<And>r. r \<in> set rs \<Longrightarrow> \<not> P r) \<Longrightarrow> set_where P f rs = rs"
  unfolding set_where_def by (induction rs) auto

lemma length_set_where [simp]: "length (set_where P f rs) = length rs"
  by (simp add: set_where_def)

lemma set_where_key:
  assumes "\<And>r. key (f r) = key r"
  shows "map key (set_where P f rs) = map key rs"
  using assms by (simp add: set_where_def)

lemma mem_set_where: "r \<in> set (set_where P f rs) \<longleftrightarrow>
    (r \<in> set rs \<and> \<not> P r) \<or> (\<exists>x \<in> set rs. P x \<and> r = f x)"
  unfolding set_where_def by auto

section \<open>Randomness and base64url\<close>

definition random_bytes :: "nat \<Rightarrow> bytes io" where
  "random_bytes n w =
     (Inr (map (entropy w) [draws w ..< draws w + n]), w\<lparr>draws := draws w + n\<rparr>)"

definition b64url_alphabet :: string where
  "b64url_alphabet = ''ABCDEFGHIJKLMNOPQRSTUVWXYZabcdefghijklmnopqrstuvwxyz0123456789-_''"

definition b64url_char :: "nat \<Rightarrow> char" where
  "b64url_char i = b64url_alphabet ! (i mod 64)"

text \<open>\<open>base64.RawURLEncoding\<close>: groups of three bytes, no padding.\<close>

fun b64url :: "bytes \<Rightarrow> string" where
  "b64url [] = []"
| "b64url [a] = map b64url_char [unat a div 4, (unat a mod 4) * 16]"
| "b64url [a, b] = map b64url_char
     [unat a div 4, (unat a mod 4) * 16 + unat b div 16, (unat b mod 16) * 4]"
| "b64url (a # b # c # rest) = map b64url_char
     [unat a div 4, (unat a mod 4) * 16 + unat b div 16,
      (unat b mod 16) * 4 + unat c div 64, unat c mod 64] @ b64url rest"

definition RandomToken :: "nat \<Rightarrow> string io" where
  "RandomToken n = bindE (random_bytes n) (\<lambda>b. returnE (b64url b))"

definition RandomID :: "string io" where
  "RandomID = bindE (random_bytes 16) (\<lambda>b. returnE (hex_encode b))"

section \<open>Time columns compared as text\<close>

text \<open>
  \<open>ts\<close> writes \<open>t.UTC().Format(time.RFC3339Nano)\<close>: nineteen characters of fixed width for
  the whole seconds (years 0 to 9999), which sort as the seconds do, then the fraction
  with its trailing zeros removed (and no point when it is zero), then \<open>Z\<close>.
\<close>

definition frac_digits :: "nat \<Rightarrow> string" where
  "frac_digits n = map (\<lambda>i. digit_char (n div 10 ^ (8 - i) mod 10)) [0 ..< 9]"

definition frac_text :: "nat \<Rightarrow> string" where
  "frac_text n =
     (if n = 0 then ''Z''
      else CHR ''.'' # rev (dropWhile (\<lambda>c. c = CHR ''0'') (rev (frac_digits n))) @ ''Z'')"

definition ts_key :: "instant \<Rightarrow> int \<times> string" where
  "ts_key t = (unix_sec t, frac_text (nat (t mod second)))"

definition ts_less :: "instant \<Rightarrow> instant \<Rightarrow> bool" where
  "ts_less a b \<longleftrightarrow> ts_key a < ts_key b"

definition ts_le :: "instant \<Rightarrow> instant \<Rightarrow> bool" where
  "ts_le a b \<longleftrightarrow> ts_key a \<le> ts_key b"

text \<open>\<open>ORDER BY col\<close> over a text column (ties in insertion order).\<close>

definition order_by :: "('a \<Rightarrow> instant) \<Rightarrow> 'a list \<Rightarrow> 'a list" where
  "order_by f = sort_key (\<lambda>x. ts_key (f x))"

lemma ts_less_seconds: "unix_sec a < unix_sec b \<Longrightarrow> ts_less a b"
  by (simp add: ts_less_def ts_key_def)

lemma ts_less_not_later: "ts_less a b \<Longrightarrow> unix_sec a \<le> unix_sec b"
  by (auto simp: ts_less_def ts_key_def less_prod_def)

lemma ts_less_irrefl [simp]: "\<not> ts_less a a"
  by (simp add: ts_less_def)

lemma ts_less_trans: "ts_less a b \<Longrightarrow> ts_less b c \<Longrightarrow> ts_less a c"
  by (simp add: ts_less_def)

lemma set_order_by [simp]: "set (order_by f xs) = set xs"
  by (simp add: order_by_def)

lemma length_order_by [simp]: "length (order_by f xs) = length xs"
  by (simp add: order_by_def)

section \<open>Rules of the combinators\<close>

lemma skip_tables [simp]:
  "clock (skip w) = clock w" "entropy (skip w) = entropy w" "draws (skip w) = draws w"
  "nonces (skip w) = nonces w" "codes (skip w) = codes w" "activations (skip w) = activations w"
  "clients (skip w) = clients w" "grants (skip w) = grants w" "tokens (skip w) = tokens w"
  "ikeys (skip w) = ikeys w" "banned (skip w) = banned w" "subs (skip w) = subs w"
  "scache (skip w) = scache w" "attestors (skip w) = attestors w"
  "tier_rules (skip w) = tier_rules w" "channels (skip w) = channels w"
  "admins (skip w) = admins w" "asessions (skip w) = asessions w" "audits (skip w) = audits w"
  "jobs (skip w) = jobs w" "deliveries (skip w) = deliveries w" "outbox (skip w) = outbox w"
  "faults (skip w) = tl (faults w)"
  by (simp_all add: skip_def)

lemma rollback_tables [simp]:
  "clock (rollback w w') = clock w" "entropy (rollback w w') = entropy w"
  "draws (rollback w w') = draws w'" "faults (rollback w w') = faults w'"
  "nonces (rollback w w') = nonces w" "codes (rollback w w') = codes w"
  "activations (rollback w w') = activations w"
  "clients (rollback w w') = clients w" "grants (rollback w w') = grants w"
  "tokens (rollback w w') = tokens w" "ikeys (rollback w w') = ikeys w"
  "banned (rollback w w') = banned w" "subs (rollback w w') = subs w"
  "scache (rollback w w') = scache w" "attestors (rollback w w') = attestors w"
  "tier_rules (rollback w w') = tier_rules w" "channels (rollback w w') = channels w"
  "admins (rollback w w') = admins w" "asessions (rollback w w') = asessions w"
  "audits (rollback w w') = audits w" "jobs (rollback w w') = jobs w"
  "deliveries (rollback w w') = deliveries w" "outbox (rollback w w') = outbox w"
  by (simp_all add: rollback_def)

lemma io_run [io_simps]:
  "returnE x w = (Inr x, w)" "failE e w = (Inl e, w)" "getE f w = (Inr (f w), w)"
  "liftE r w = (r, w)" "nowE w = (Inr (clock w), w)"
  by (simp_all add: returnE_def failE_def getE_def liftE_def nowE_def)

text \<open>An operation that succeeds: every step of it has.\<close>

lemma bindE_Inr: "bindE m f w = (Inr y, w') \<longleftrightarrow> (\<exists>x v. m w = (Inr x, v) \<and> f x v = (Inr y, w'))"
  by (auto simp: bindE_def split: prod.splits sum.splits)

lemma bindE_Inl: "bindE m f w = (Inl e, w') \<longleftrightarrow>
    m w = (Inl e, w') \<or> (\<exists>x v. m w = (Inr x, v) \<and> f x v = (Inl e, w'))"
  by (auto simp: bindE_def split: prod.splits sum.splits)

lemma guardE_Inr: "guardE b e w = (Inr u, w') \<longleftrightarrow> b \<and> w' = w"
  by (auto simp: guardE_def)

lemma returnE_Inr: "returnE x w = (Inr y, w') \<longleftrightarrow> y = x \<and> w' = w"
  by (auto simp: returnE_def)

lemma failE_Inr: "\<not> failE e w = (Inr y, w')"
  by (simp add: failE_def)

lemma liftE_Inr: "liftE r w = (Inr y, w') \<longleftrightarrow> r = Inr y \<and> w' = w"
  by (auto simp: liftE_def)

lemma getE_Inr: "getE f w = (Inr y, w') \<longleftrightarrow> y = f w \<and> w' = w"
  by (auto simp: getE_def)

lemma nowE_Inr: "nowE w = (Inr y, w') \<longleftrightarrow> y = clock w \<and> w' = w"
  by (auto simp: nowE_def getE_def)

lemma exec_Inr: "exec f w = (Inr y, w') \<longleftrightarrow> \<not> faulty w \<and> f (skip w) = (Inr y, w')"
  by (simp add: exec_def)

lemma query_Inr: "query f w = (Inr y, w') \<longleftrightarrow> \<not> faulty w \<and> y = f (skip w) \<and> w' = skip w"
  by (auto simp: query_def exec_Inr getE_def)

lemma modify_Inr: "modify f w = (Inr y, w') \<longleftrightarrow> \<not> faulty w \<and> w' = f (skip w)"
  by (auto simp: modify_def exec_Inr)

lemma query_row_Inr:
  "query_row f w = (Inr y, w') \<longleftrightarrow> \<not> faulty w \<and> f (skip w) = Some y \<and> w' = skip w"
  by (auto simp: query_row_def exec_Inr split: option.splits)

lemma with_tx_Inr: "with_tx m w = (Inr y, w') \<longleftrightarrow>
    \<not> faulty w \<and> (\<exists>v. m (skip w) = (Inr y, v) \<and> \<not> faulty v \<and> w' = skip v)"
  by (auto simp: with_tx_def split: prod.splits sum.splits)

lemma ignoreE_run: "ignoreE m w = (Inr (), snd (m w))"
  by (simp add: ignoreE_def tryE_def returnE_def split: prod.splits)

lemma tryE_run: "tryE m f w = f (fst (m w)) (snd (m w))"
  by (simp add: tryE_def split: prod.splits)

lemma insert_row_Inr: "insert_row get upd key r w = (Inr u, w') \<longleftrightarrow>
    \<not> faulty w \<and> key r \<notin> key ` set (get (skip w)) \<and> w' = upd (\<lambda>rs. rs @ [r]) (skip w)"
  by (auto simp: insert_row_def exec_Inr)

lemma update_count_Inr: "update_count get upd P f w = (Inr n, w') \<longleftrightarrow>
    \<not> faulty w \<and> n = length (filter P (get (skip w))) \<and> w' = upd (set_where P f) (skip w)"
  by (auto simp: update_count_def exec_Inr)

lemma delete_rows_Inr: "delete_rows get upd P w = (Inr n, w') \<longleftrightarrow>
    \<not> faulty w \<and> n = length (filter P (get (skip w))) \<and> w' = upd (filter (\<lambda>r. \<not> P r)) (skip w)"
  by (auto simp: delete_rows_def exec_Inr)

lemma update_rows_Inr: "update_rows upd P f w = (Inr u, w') \<longleftrightarrow>
    \<not> faulty w \<and> w' = upd (set_where P f) (skip w)"
  by (auto simp: update_rows_def modify_Inr)

lemmas io_success = insert_row_Inr update_count_Inr delete_rows_Inr update_rows_Inr bindE_Inr guardE_Inr returnE_Inr failE_Inr liftE_Inr getE_Inr nowE_Inr
  query_Inr modify_Inr query_row_Inr with_tx_Inr exec_Inr

text \<open>A failed transaction leaves every table as it was.\<close>

lemma with_tx_Inl: "with_tx m w = (Inl e, w') \<Longrightarrow> \<exists>v. w' = rollback w v"
proof -
  assume "with_tx m w = (Inl e, w')"
  moreover have "\<exists>v. skip w = rollback w v"
    by (rule exI[of _ "skip w"]) (simp add: skip_def rollback_def)
  ultimately show ?thesis
    unfolding with_tx_def by (simp split: prod.splits sum.splits if_splits) metis+
qed

section \<open>Relations that go through the combinators\<close>

definition moves :: "(world \<Rightarrow> world \<Rightarrow> bool) \<Rightarrow> 'a io \<Rightarrow> bool" where
  "moves R m \<longleftrightarrow> (\<forall>w. R w (snd (m w)))"

lemma movesD: "moves R m \<Longrightarrow> m w = (r, w') \<Longrightarrow> R w w'"
  by (auto simp: moves_def dest: spec[of _ w])

lemma moves_when: "(b \<Longrightarrow> moves R m) \<Longrightarrow> (\<not> b \<Longrightarrow> moves R m') \<Longrightarrow> moves R (if b then m else m')"
  by simp

locale io_rel =
  fixes R :: "world \<Rightarrow> world \<Rightarrow> bool"
  assumes refl: "R w w"
    and trans: "R w v \<Longrightarrow> R v u \<Longrightarrow> R w u"
    and env: "R w (w\<lparr>faults := fs, draws := d\<rparr>)"
begin

lemma skip: "R w (skip w)"
  using env[where w = w and fs = "tl (faults w)" and d = "draws w"] by (simp add: skip_def)

lemma rollback: "R w (rollback w v)"
  unfolding rollback_def by (rule env)

lemma bind: "moves R m \<Longrightarrow> (\<And>x. moves R (f x)) \<Longrightarrow> moves R (bindE m f)"
  unfolding moves_def bindE_def
  by (auto split: prod.splits sum.splits intro: refl) (metis snd_conv trans)+

lemma try_: "moves R m \<Longrightarrow> (\<And>x. moves R (f x)) \<Longrightarrow> moves R (tryE m f)"
  unfolding moves_def tryE_def by (auto split: prod.splits) (metis snd_conv trans)

lemma pure_steps:
  "moves R (returnE x)" "moves R (failE e)" "moves R (getE g)" "moves R (liftE r)"
  "moves R nowE" "moves R (guardE b e)"
  by (auto simp: moves_def io_simps guardE_def intro: refl)

lemma exec: "(\<And>w. R w (snd (f w))) \<Longrightarrow> moves R (exec f)"
  unfolding moves_def exec_def by (auto intro: skip trans[OF skip])

lemma query: "moves R (query f)"
  unfolding query_def by (rule exec) (simp add: getE_def refl)

lemma query_row: "moves R (query_row f)"
  unfolding query_row_def by (rule exec) (simp add: refl split: option.splits)

lemma modify: "(\<And>w. R w (f w)) \<Longrightarrow> moves R (modify f)"
  unfolding modify_def by (rule exec) simp

lemma insert_row: "(\<And>w. R w (upd (\<lambda>rs. rs @ [r]) w)) \<Longrightarrow> moves R (insert_row get upd key r)"
  unfolding insert_row_def by (rule exec) (simp add: refl)

lemma update_rows: "(\<And>w. R w (upd (set_where P f) w)) \<Longrightarrow> moves R (update_rows upd P f)"
  unfolding update_rows_def by (rule modify)

lemma update_count: "(\<And>w. R w (upd (set_where P f) w)) \<Longrightarrow> moves R (update_count get upd P f)"
  unfolding update_count_def by (rule exec) simp

lemma delete_rows: "(\<And>w. R w (upd (filter (\<lambda>r. \<not> P r)) w)) \<Longrightarrow> moves R (delete_rows get upd P)"
  unfolding delete_rows_def by (rule exec) simp

lemma tx: "moves R m \<Longrightarrow> moves R (with_tx m)"
  unfolding moves_def with_tx_def
  by (auto split: prod.splits sum.splits intro: skip rollback) (metis skip snd_conv trans)

lemma ignore: "moves R m \<Longrightarrow> moves R (ignoreE m)"
  by (simp add: moves_def ignoreE_run)

lemma for_loop: "(\<And>x. moves R (f x)) \<Longrightarrow> moves R (forE f xs)"
  by (induction xs) (auto intro: bind pure_steps)

lemma random: "moves R (random_bytes n)"
proof -
  have "R w (w\<lparr>draws := d\<rparr>)" for w d
    using env[where w = w and fs = "faults w" and d = d] by simp
  then show ?thesis by (simp add: moves_def random_bytes_def)
qed

lemma RandomToken: "moves R (RandomToken n)"
  unfolding RandomToken_def by (intro bind random pure_steps)

lemma RandomID: "moves R RandomID"
  unfolding RandomID_def by (intro bind random pure_steps)

lemmas steps = bind try_ pure_steps query query_row tx ignore for_loop RandomToken RandomID

end

text \<open>A relation that does not look at what was sent.\<close>

locale unheard = io_rel +
  assumes sent: "R w (w\<lparr>outbox := ms\<rparr>)"

section \<open>The empty database\<close>

lemma no_fault [simp]: "faults w = [] \<Longrightarrow> \<not> faulty w" "faults w = [] \<Longrightarrow> skip w = w"
  by (simp_all add: faulty_def skip_def)

definition empty_world :: world where
  "empty_world = \<lparr>clock = 0, entropy = (\<lambda>i. of_nat i), draws = 0, faults = [], nonces = [], codes = [],
     activations = [], clients = [], grants = [], tokens = [], ikeys = [], banned = [], subs = [],
     scache = [], attestors = [], tier_rules = None, channels = [], admins = [], asessions = [],
     audits = [], jobs = [], deliveries = [], outbox = []\<rparr>"

end
