(* ===== verification/Membership.thy ===== *)
theory Membership
  imports Chain World
begin

text \<open>
  \<open>core/membership\<close>: \<open>state.go\<close> (the membership state derived from a snapshot) and
  \<open>cachedsource.go\<close> (the active-only cache), with \<open>store/repo_stakesnapshotcache.go\<close>.
  The wrapped source is the argument \<open>inner\<close>; its answers do not change during one
  request. \<open>singleflight\<close> collapses concurrent fetches and is transparent to one request.
  \<open>state\<close> is ordered none, pending, active.
\<close>

section \<open>Membership state\<close>

datatype state = StateNone | StatePending | StateActive

fun state_string :: "state \<Rightarrow> string" where
  "state_string StateNone = ''none''"
| "state_string StatePending = ''pending''"
| "state_string StateActive = ''active''"

definition State_Valid :: "string \<Rightarrow> bool" where
  "State_Valid s \<longleftrightarrow> s = ''none'' \<or> s = ''pending'' \<or> s = ''active''"

fun state_rank :: "state \<Rightarrow> nat" where
  "state_rank StateNone = 0" | "state_rank StatePending = 1" | "state_rank StateActive = 2"

lemma state_rank_inj [simp]: "state_rank a = state_rank b \<longleftrightarrow> a = b"
  by (cases a; cases b) auto

instantiation state :: linorder
begin

definition less_eq_state :: "state \<Rightarrow> state \<Rightarrow> bool" where
  "less_eq_state a b \<longleftrightarrow> state_rank a \<le> state_rank b"

definition less_state :: "state \<Rightarrow> state \<Rightarrow> bool" where
  "less_state a b \<longleftrightarrow> state_rank a < state_rank b"

instance
  by standard (auto simp: less_eq_state_def less_state_def)

end

lemma StateNone_least [simp]: "StateNone \<le> s"
  by (cases s) (auto simp: less_eq_state_def)

lemma StateActive_greatest [simp]: "s \<le> StateActive"
  by (cases s) (auto simp: less_eq_state_def)

lemma state_string_inj [simp]: "state_string a = state_string b \<longleftrightarrow> a = b"
  by (cases a; cases b) auto

definition DeriveState :: "snapshot option \<Rightarrow> string \<Rightarrow> state" where
  "DeriveState snap poolID =
     (case snap of
        None \<Rightarrow> StateNone
      | Some s \<Rightarrow>
          if poolID = '''' then StateNone
          else let want = CanonicalPoolID poolID in
            if want = '''' then StateNone
            else if CanonicalPoolID (sn_active s) = want then StateActive
            else if sn_status s = ''registered'' \<and> CanonicalPoolID (sn_delegated s) = want
              then StatePending
            else StateNone)"

section \<open>The snapshot cache table\<close>

definition Cache_Upsert :: "stake_cache \<Rightarrow> unit io" where
  "Cache_Upsert c = upsert_row scache_update (\<lambda>r. (sc_sch r, sc_network r)) (\<lambda>old new. new) c"

definition Cache_Get :: "string \<Rightarrow> string \<Rightarrow> stake_cache io" where
  "Cache_Get sch network =
     query_row (\<lambda>w. find (\<lambda>r. sc_sch r = sch \<and> sc_network r = network) (scache w))"

definition Cache_Delete :: "string \<Rightarrow> string \<Rightarrow> nat io" where
  "Cache_Delete sch network =
     delete_rows scache scache_update (\<lambda>r. sc_sch r = sch \<and> sc_network r = network)"

section \<open>The cached source\<close>

type_synonym source = "string \<Rightarrow> err + snapshot"

definition derefStr :: "string option \<Rightarrow> string" where
  "derefStr p = (case p of None \<Rightarrow> '''' | Some s \<Rightarrow> s)"

definition strPtrOrNil :: "string \<Rightarrow> string option" where
  "strPtrOrNil s = (if s = '''' then None else Some s)"

lemma derefStr_strPtrOrNil [simp]: "derefStr (strPtrOrNil s) = s"
  by (simp add: derefStr_def strPtrOrNil_def)

definition cachedToSnapshot :: "string \<Rightarrow> 64 word \<Rightarrow> stake_cache \<Rightarrow> snapshot" where
  "cachedToSnapshot sch epoch row =
     \<lparr>sn_sch = sch, sn_epoch = epoch, sn_delegated = derefStr (sc_pool row),
      sn_active = derefStr (sc_pool row), sn_stake = derefStr (sc_stake row),
      sn_rewards = derefStr (sc_rewards row), sn_epochs = sc_epochs row,
      sn_status = ''registered'', sn_source = sc_source row @ ''+cache'',
      sn_fetched = sc_fetched row\<rparr>"

definition snapshotToCache :: "snapshot \<Rightarrow> string \<Rightarrow> int \<Rightarrow> stake_cache" where
  "snapshotToCache snap network epoch =
     \<lparr>sc_sch = sn_sch snap, sc_network = network, sc_epoch = epoch,
      sc_pool = strPtrOrNil (sn_active snap), sc_stake = strPtrOrNil (sn_stake snap),
      sc_rewards = strPtrOrNil (sn_rewards snap), sc_epochs = sn_epochs snap,
      sc_source = sn_source snap, sc_fetched = sn_fetched snap\<rparr>"

definition Cached_fetch :: "source \<Rightarrow> string \<Rightarrow> 64 word option \<Rightarrow> string \<Rightarrow> snapshot io" where
  "Cached_fetch inner network e sch =
     bindE (liftE (inner sch)) (\<lambda>snap.
     bindE (if sn_active snap \<noteq> ''''
            then ignoreE (Cache_Upsert (snapshotToCache snap network
                   (sint (case e of Some e' \<Rightarrow> e' | None \<Rightarrow> sn_epoch snap))))
            else ignoreE (Cache_Delete sch network)) (\<lambda>_.
     returnE snap))"

definition Cached_Snapshot :: "source \<Rightarrow> string \<Rightarrow> string \<Rightarrow> snapshot io" where
  "Cached_Snapshot inner network sch =
     bindE nowE (\<lambda>now.
     case CurrentEpoch network now of
       None \<Rightarrow> Cached_fetch inner network None sch
     | Some e \<Rightarrow> tryE (Cache_Get sch network) (\<lambda>r. case r of
           Inr row \<Rightarrow> if sc_epoch row = sint e then returnE (cachedToSnapshot sch e row)
                      else Cached_fetch inner network (Some e) sch
         | Inl _ \<Rightarrow> Cached_fetch inner network (Some e) sch))"

definition Cached_Delegators :: "(string \<Rightarrow> int \<Rightarrow> err + string list) option \<Rightarrow> string \<Rightarrow> int
    \<Rightarrow> err + string list" where
  "Cached_Delegators inner_lister poolID page =
     (case inner_lister of None \<Rightarrow> Inl ErrNotImplemented | Some dl \<Rightarrow> dl poolID page)"

section \<open>State facts\<close>

lemma DeriveState_active: "DeriveState (Some s) pool = StateActive \<longleftrightarrow>
    pool \<noteq> '''' \<and> CanonicalPoolID pool \<noteq> '''' \<and> CanonicalPoolID (sn_active s) = CanonicalPoolID pool"
  by (auto simp: DeriveState_def Let_def)

lemma CanonicalPoolID_empty [simp]: "CanonicalPoolID '''' = ''''"
  by (simp add: CanonicalPoolID_def trim_space_def trim_left_def Let_def)

text \<open>The state of a credential relative to a pool: active if the active stake credits the
  pool, else pending if the account is registered and delegates to the pool, else none;
  pool ids are compared in canonical form, so hex and bech32 spellings agree, and a blank
  pool id has no members.\<close>

theorem DeriveState_spec:
  "DeriveState (Some s) pool =
     (if CanonicalPoolID pool = '''' then StateNone
      else max (if CanonicalPoolID (sn_active s) = CanonicalPoolID pool then StateActive else StateNone)
               (if sn_status s = ''registered'' \<and> CanonicalPoolID (sn_delegated s) = CanonicalPoolID pool
                then StatePending else StateNone))
   \<and> DeriveState (Some s) (CanonicalPoolID pool) = DeriveState (Some s) pool
   \<and> DeriveState None pool = StateNone"
  by (auto simp: DeriveState_def Let_def CanonicalPoolID_idem max_def less_eq_state_def)

section \<open>What the cache keeps\<close>

text \<open>
  A row is faithful to the source when it is what \<open>snapshotToCache\<close> would make of the
  source's present answer, apart from its epoch label.
\<close>

definition row_faithful :: "source \<Rightarrow> stake_cache \<Rightarrow> bool" where
  "row_faithful inner r \<longleftrightarrow> (\<exists>snap. inner (sc_sch r) = Inr snap \<and> sn_active snap \<noteq> ''''
     \<and> r = snapshotToCache snap (sc_network r) (sc_epoch r))"

definition cache_faithful :: "source \<Rightarrow> string \<Rightarrow> world \<Rightarrow> bool" where
  "cache_faithful inner network w \<longleftrightarrow>
     (\<forall>r \<in> set (scache w). sc_network r = network \<longrightarrow> row_faithful inner r)"

definition keeps_faithful :: "source \<Rightarrow> string \<Rightarrow> world \<Rightarrow> world \<Rightarrow> bool" where
  "keeps_faithful inner network w w' \<longleftrightarrow>
     (cache_faithful inner network w \<longrightarrow> cache_faithful inner network w')"

interpretation faithful: io_rel "keeps_faithful inner network" for inner network
  by unfold_locales (auto simp: keeps_faithful_def cache_faithful_def)

lemma snapshotToCache_sel [simp]:
  "sc_sch (snapshotToCache s n e) = sn_sch s" "sc_network (snapshotToCache s n e) = n"
  "sc_epoch (snapshotToCache s n e) = e"
  by (simp_all add: snapshotToCache_def)

lemma Cache_Upsert_faithful:
  assumes "inner (sn_sch snap) = Inr snap" "sn_active snap \<noteq> ''''"
  shows "moves (keeps_faithful inner network) (Cache_Upsert (snapshotToCache snap network e))"
  unfolding Cache_Upsert_def upsert_row_def
  by (rule faithful.modify)
     (use assms in \<open>auto simp: keeps_faithful_def cache_faithful_def row_faithful_def split: if_splits\<close>)

lemma Cache_Delete_faithful: "moves (keeps_faithful inner network) (Cache_Delete sch n)"
  unfolding Cache_Delete_def
  by (rule faithful.delete_rows) (auto simp: keeps_faithful_def cache_faithful_def)

lemma moves_liftE_bind:
  assumes "\<And>x. r = Inr x \<Longrightarrow> moves R (f x)" "\<And>w. R w w"
  shows "moves R (bindE (liftE r) f)"
  using assms by (auto simp: moves_def bindE_def liftE_def split: sum.splits)

lemma Cached_fetch_faithful:
  assumes "stake_source inner"
  shows "moves (keeps_faithful inner network) (Cached_fetch inner network e sch)"
proof -
  have "inner (sn_sch s) = Inr s" if "inner sch = Inr s" for s
    using that stake_source.about[OF assms] by auto
  then show ?thesis unfolding Cached_fetch_def
    by (intro moves_liftE_bind faithful.bind moves_when faithful.ignore faithful.pure_steps
        Cache_Upsert_faithful Cache_Delete_faithful) (auto simp: faithful.refl)
qed

lemma Cached_Snapshot_faithful:
  assumes "stake_source inner"
  shows "moves (keeps_faithful inner network) (Cached_Snapshot inner network sch)"
  unfolding Cached_Snapshot_def Cache_Get_def
  by (auto intro!: faithful.bind faithful.pure_steps faithful.try_ faithful.query_row
      Cached_fetch_faithful assms split: option.splits sum.splits)

text \<open>A success of the cached source is a same-epoch row or the source's own answer.\<close>

lemma Cached_fetch_Inr: "Cached_fetch inner network e sch w = (Inr s, w') \<Longrightarrow> inner sch = Inr s"
  by (auto simp: Cached_fetch_def io_success)

lemma Cached_Snapshot_Inr:
  assumes "Cached_Snapshot inner network sch w = (Inr s, w')"
  shows "inner sch = Inr s \<or>
    (\<exists>e row. CurrentEpoch network (clock w) = Some e \<and> row \<in> set (scache w) \<and> sc_sch row = sch
       \<and> sc_network row = network \<and> sc_epoch row = sint e \<and> s = cachedToSnapshot sch e row)"
proof (cases "CurrentEpoch network (clock w)")
  case None
  then show ?thesis using assms
    by (auto simp: Cached_Snapshot_def bindE_def io_run dest: Cached_fetch_Inr)
next
  case (Some e)
  obtain r v where get: "Cache_Get sch network w = (r, v)" by force
  show ?thesis
  proof (cases r)
    case (Inl err)
    then show ?thesis using assms Some get
      by (auto simp: Cached_Snapshot_def bindE_def io_run tryE_def dest: Cached_fetch_Inr)
  next
    case (Inr row)
    then have "row \<in> set (scache w) \<and> sc_sch row = sch \<and> sc_network row = network"
      using get by (auto simp: Cache_Get_def query_row_Inr dest!: find_Some_mem)
    then show ?thesis using assms Some get Inr
      by (auto simp: Cached_Snapshot_def bindE_def io_run tryE_def split: if_splits
          dest: Cached_fetch_Inr)
  qed
qed

context stake_source
begin

lemma cached_about: "fst (Cached_Snapshot snap network h w) = Inr s \<Longrightarrow> sn_sch s = h"
proof -
  assume "fst (Cached_Snapshot snap network h w) = Inr s"
  then obtain w' where "Cached_Snapshot snap network h w = (Inr s, w')" by (metis prod.collapse)
  then show ?thesis using about by (auto dest!: Cached_Snapshot_Inr simp: cachedToSnapshot_def)
qed

lemma cached_agrees:
  assumes run: "Cached_Snapshot snap network sch w = (Inr s, w')"
    and faithful: "cache_faithful snap network w"
  shows "\<exists>live. snap sch = Inr live \<and> sn_active s = sn_active live \<and> sn_stake s = sn_stake live
    \<and> sn_epochs s = sn_epochs live \<and> (sn_active live = '''' \<longrightarrow> s = live)"
proof -
  consider (live) "snap sch = Inr s"
    | (hit) e row where "row \<in> set (scache w)" "sc_sch row = sch" "sc_network row = network"
        "s = cachedToSnapshot sch e row"
    using Cached_Snapshot_Inr[OF run] by blast
  then show ?thesis
  proof cases
    case hit
    then obtain live where live: "snap sch = Inr live" "sn_active live \<noteq> ''''"
        "row = snapshotToCache live network (sc_epoch row)"
      using faithful by (auto simp: cache_faithful_def row_faithful_def)
    then have "sc_pool row = strPtrOrNil (sn_active live)" "sc_stake row = strPtrOrNil (sn_stake live)"
        "sc_epochs row = sn_epochs live"
      by (metis snapshotToCache_def stake_cache.select_convs)+
    then show ?thesis using live hit by (simp add: cachedToSnapshot_def)
  qed simp
qed

end

interpretation koios_cached: stake_source "\<lambda>h. fst (Cached_Snapshot (Koios_Snapshot http now k) network h w)"
  for http now k network w
  by unfold_locales (rule koios.cached_about)

text \<open>C38: The membership cache never changes whether a credential is active: over a Koios
  source whose answers hold still, and a cache whose rows were filled from it, a cached
  lookup that succeeds gives, for every pool, the state active exactly when the chain does,
  with the same stake and epoch count, and it is the chain's own answer for a credential
  that is active nowhere; afterwards the cache is still filled from the source.\<close>

theorem Cached_Snapshot_active:
  assumes "Cached_Snapshot (Koios_Snapshot http t k) network sch w = (Inr s, w')"
    and "cache_faithful (Koios_Snapshot http t k) network w"
  shows "\<exists>live. Koios_Snapshot http t k sch = Inr live
    \<and> (\<forall>pool. DeriveState (Some s) pool = StateActive \<longleftrightarrow> DeriveState (Some live) pool = StateActive)
    \<and> sn_stake s = sn_stake live \<and> sn_epochs s = sn_epochs live
    \<and> (sn_active live = '''' \<longrightarrow> s = live)
    \<and> cache_faithful (Koios_Snapshot http t k) network w'"
proof -
  have "stake_source (Koios_Snapshot http t k)" by (rule koios.stake_source_axioms)
  from Cached_Snapshot_faithful[OF this, of network sch] assms
  have "cache_faithful (Koios_Snapshot http t k) network w'"
    by (auto simp: moves_def keeps_faithful_def dest: spec[of _ w])
  then show ?thesis using koios.cached_agrees[OF assms] by (auto simp: DeriveState_active)
qed

text \<open>A cached row is served only in the epoch it was stored for: when the lookup answers
  without the chain's answer, the row's epoch is the network's current epoch.\<close>

theorem Cached_Snapshot_epoch:
  assumes "Cached_Snapshot inner network sch w = (Inr s, w')" "inner sch \<noteq> Inr s"
  shows "\<exists>e row. CurrentEpoch network (clock w) = Some e \<and> row \<in> set (scache w)
    \<and> sc_sch row = sch \<and> sc_network row = network \<and> sc_epoch row = sint e
    \<and> s = cachedToSnapshot sch e row"
  using Cached_Snapshot_Inr[OF assms(1)] assms(2) by blast

lemma Cached_miss_then_hit:
  assumes live: "inner sch = Inr live" "sn_sch live = sch" "sn_active live \<noteq> ''''"
    and w: "faults w = []" "CurrentEpoch network (clock w) = Some e"
    and miss: "\<forall>r \<in> set (scache w). \<not> (sc_sch r = sch \<and> sc_network r = network)"
  defines "row \<equiv> snapshotToCache live network (sint e)"
  shows "Cached_Snapshot inner network sch w = (Inr live, w\<lparr>scache := scache w @ [row]\<rparr>)"
    and "Cached_Snapshot inner network sch (w\<lparr>scache := scache w @ [row]\<rparr>)
       = (Inr (cachedToSnapshot sch e row), w\<lparr>scache := scache w @ [row]\<rparr>)"
proof -
  have ok: "\<not> faulty v" "skip v = v" if "faults v = []" for v
    using that by (simp_all add: faulty_def skip_def)
  have none: "find (\<lambda>r. sc_sch r = sch \<and> sc_network r = network) (scache w) = None"
    using miss by (simp add: find_None_all)
  have "(sch, network) \<notin> (\<lambda>r. (sc_sch r, sc_network r)) ` set (scache w)" using miss by auto
  then show "Cached_Snapshot inner network sch w = (Inr live, w\<lparr>scache := scache w @ [row]\<rparr>)"
    using live w none ok
    by (simp add: Cached_Snapshot_def bindE_def io_run tryE_def Cache_Get_def query_row_def exec_def
        Cached_fetch_def ignoreE_run Cache_Upsert_def upsert_row_def modify_def row_def)
  show "Cached_Snapshot inner network sch (w\<lparr>scache := scache w @ [row]\<rparr>)
       = (Inr (cachedToSnapshot sch e row), w\<lparr>scache := scache w @ [row]\<rparr>)"
    using live w none ok
    by (simp add: Cached_Snapshot_def bindE_def io_run tryE_def Cache_Get_def query_row_def exec_def
        find_append row_def)
qed

text \<open>The cache does hide a pending membership: when the stake of a credential still
  counts for one pool and its live delegation has moved to another, the first lookup of an
  epoch reports it pending with the new pool, and the next lookup, answered from the row
  the first one stored, reports it as no member of that pool.\<close>

theorem cache_hides_pending:
  assumes "inner sch = Inr live" "sn_sch live = sch" "sn_active live \<noteq> ''''"
    and "faults w = []" "CurrentEpoch network (clock w) = Some e"
    and "\<forall>r \<in> set (scache w). \<not> (sc_sch r = sch \<and> sc_network r = network)"
    and "DeriveState (Some live) pool = StatePending"
  shows "\<exists>w1 s2 w2. Cached_Snapshot inner network sch w = (Inr live, w1)
    \<and> Cached_Snapshot inner network sch w1 = (Inr s2, w2)
    \<and> DeriveState (Some s2) pool = StateNone"
proof -
  let ?row = "snapshotToCache live network (sint e)"
  have "DeriveState (Some (cachedToSnapshot sch e ?row)) pool = StateNone"
    using assms(7) by (auto simp: DeriveState_def Let_def cachedToSnapshot_def snapshotToCache_def
        split: if_splits)
  then show ?thesis using Cached_miss_then_hit[of inner sch live w network e] assms(1-6) by blast
qed

definition sample_http :: http where
  "sample_http req = Inr (200, RawDoc (JArr [JObj (
     if has_suffix (hr_url req) ''/tip'' then [(''epoch_no'', JNum ''500'')]
     else if has_suffix (hr_url req) ''/account_info'' then
       [(''status'', JStr ''registered''), (''delegated_pool'', JStr ''poolb'')]
     else [(''pool_id_bech32'', JStr ''poola''), (''epoch_no'', JNum ''1''), (''active_stake'', JStr ''7'')])]))"

definition sample_koios :: koios_source where
  "sample_koios = NewKoiosSource ''https://k'' '''' ''mainnet''"

definition sample_sch :: string where
  "sample_sch = hex_encode (replicate 28 7)"

definition sample_live :: snapshot where
  "sample_live = \<lparr>sn_sch = sample_sch, sn_epoch = 500, sn_delegated = ''poolb'', sn_active = ''poola'',
     sn_stake = ''7'', sn_rewards = '''', sn_epochs = 1, sn_status = ''registered'',
     sn_source = ''koios'', sn_fetched = 0\<rparr>"

lemma sample_koios_live: "Koios_Snapshot sample_http 0 sample_koios sample_sch = Inr sample_live"
proof -
  obtain a where a: "stakeAddressFromCredential sample_sch ''mainnet'' = Inr a"
    using stake_roundtrip[of sample_sch "replicate 28 7" "''mainnet''"] by (auto simp: sample_sch_def)
  have base: "sample_koios = \<lparr>ks_base = ''https://k'', ks_key = '''', ks_network = ''mainnet''\<rparr>"
    by (simp add: sample_koios_def NewKoiosSource_def trim_space_def trim_left_def is_space_def
        trim_right_slash_def)
  note post = koios_post_def koios_do_def sample_http_def has_suffix_def decode_array_def
    json_field_def json_string_def to_lower_def char_lower_def Let_def
  have tip: "Koios_Epoch sample_http sample_koios = Inr 500"
    by (simp add: Koios_Epoch_def koios_get_def base post decode_tip_def json_uint64_def nat_parse_def
        digit_val_def)
  have info: "koios_post sample_http sample_koios ''/account_info'' body (decode_array decode_account)
      = Inr [\<lparr>ka_address = '''', ka_status = ''registered'', ka_pool = ''poolb'', ka_rewards = ''''\<rparr>]" for body
    by (simp add: base post decode_account_def)
  let ?h = "\<lparr>kh_pool = ''poola'', kh_epoch = 1, kh_stake = ''7''\<rparr>"
  have hist: "koios_post sample_http sample_koios ''/account_stake_history'' body (decode_array decode_history)
      = Inr [?h]" for body
    by (simp add: base post decode_history_def json_uint64_def nat_parse_def digit_val_def)
  have "trailingActiveEpochs [?h] ''poola'' = 1"
    by (simp add: trailingActiveEpochs_def top_epoch_def by_epoch_def)
  then have "koiosToSnapshot 0 sample_sch 500
      \<lparr>ka_address = '''', ka_status = ''registered'', ka_pool = ''poolb'', ka_rewards = ''''\<rparr> [?h] = sample_live"
    by (simp add: koiosToSnapshot_def sample_live_def latestStakeEntry_def)
  moreover have "ks_network sample_koios = ''mainnet''" by (simp add: base)
  ultimately show ?thesis using a tip info hist by (simp add: Koios_Snapshot_def)
qed

definition sample_world :: world where
  "sample_world = empty_world\<lparr>clock := 1700000000 * second\<rparr>"

lemma sample_world_simps [simp]:
  "faults sample_world = []" "scache sample_world = []" "clock sample_world = 1700000000 * second"
  by (simp_all add: sample_world_def empty_world_def)

lemma sample_epoch: "CurrentEpoch ''mainnet'' (1700000000 * second) = Some 448"
  by (simp add: CurrentEpoch_def epochByNetwork_def unix_sec_def second_def)

lemma sample_pools [simp]: "CanonicalPoolID ''poola'' = ''poola''" "CanonicalPoolID ''poolb'' = ''poolb''"
  by (simp_all add: CanonicalPoolID_def trim_space_def trim_left_def is_space_def hex_val_def
      to_lower_def char_lower_def Let_def)

lemma cache_hides_pending_witness:
  "DeriveState (Some sample_live) ''poolb'' = StatePending \<and>
   (\<exists>w1 s2 w2. Cached_Snapshot (Koios_Snapshot sample_http 0 sample_koios) ''mainnet'' sample_sch sample_world
       = (Inr sample_live, w1)
    \<and> Cached_Snapshot (Koios_Snapshot sample_http 0 sample_koios) ''mainnet'' sample_sch w1 = (Inr s2, w2)
    \<and> DeriveState (Some s2) ''poolb'' = StateNone)"
proof -
  have "DeriveState (Some sample_live) ''poolb'' = StatePending"
    by (simp add: DeriveState_def Let_def sample_live_def)
  then show ?thesis
    using cache_hides_pending[of "Koios_Snapshot sample_http 0 sample_koios" sample_sch sample_live
        sample_world "''mainnet''" 448 "''poolb''"]
    by (simp add: sample_koios_live sample_epoch sample_live_def)
qed

lemma Cached_Snapshot_active_witness:
  "\<exists>s w'. Cached_Snapshot (Koios_Snapshot sample_http 0 sample_koios) ''mainnet'' sample_sch sample_world = (Inr s, w')
    \<and> DeriveState (Some s) ''poola'' = StateActive
    \<and> cache_faithful (Koios_Snapshot sample_http 0 sample_koios) ''mainnet'' w'"
proof -
  let ?src = "Koios_Snapshot sample_http 0 sample_koios"
  obtain w1 where run: "Cached_Snapshot ?src ''mainnet'' sample_sch sample_world = (Inr sample_live, w1)"
    using Cached_miss_then_hit(1)[of ?src sample_sch sample_live sample_world "''mainnet''" 448]
    by (simp add: sample_koios_live sample_epoch sample_live_def)
  have "cache_faithful ?src ''mainnet'' sample_world" by (simp add: cache_faithful_def)
  moreover have "DeriveState (Some sample_live) ''poola'' = StateActive"
    by (simp add: DeriveState_active sample_live_def)
  ultimately show ?thesis using Cached_Snapshot_active[OF run] run by blast
qed

lemma Cached_Snapshot_epoch_witness:
  "\<exists>w s w' row. Cached_Snapshot (\<lambda>_. Inl ErrDB) ''mainnet'' sample_sch w = (Inr s, w')
     \<and> row \<in> set (scache w) \<and> sc_epoch row = sint (448 :: 64 word)"
proof -
  let ?row = "snapshotToCache sample_live ''mainnet'' (sint (448 :: 64 word))"
  let ?w = "sample_world\<lparr>scache := [?row]\<rparr>"
  have run: "Cached_Snapshot (\<lambda>_. Inl ErrDB) ''mainnet'' sample_sch ?w
      = (Inr (cachedToSnapshot sample_sch 448 ?row), ?w)"
    by (simp add: Cached_Snapshot_def bindE_def io_run tryE_def Cache_Get_def query_row_def exec_def
        sample_epoch sample_live_def faulty_def skip_def)
  from Cached_Snapshot_epoch[OF this] have "\<exists>row \<in> set (scache ?w). sc_epoch row = sint (448 :: 64 word)"
    by (auto simp: sample_epoch)
  then show ?thesis using run by blast
qed

end
