(* ===== verification/Reconcile.thy ===== *)
theory Reconcile
  imports Membership
begin

text \<open>
  \<open>store/repo_subscriptionsession.go\<close> and \<open>worker/reconciliation\<close>: the subscriptions of the
  channels, and the pass that re-derives the membership of every active one.
  The evaluator is a parameter, as in the code (\<open>StateEvaluator\<close>): an \<open>io\<close> that may fail and
  may let other requests run. The theorems compare a pass with the row-wise policy
  \<open>reconciled\<close>, bound when a session may expire, and say what the poll loop commits.
\<close>

section \<open>Subscriptions\<close>

definition same_instance_user :: "subscription \<Rightarrow> subscription \<Rightarrow> bool" where
  "same_instance_user x r \<longleftrightarrow> s_channel r = s_channel x \<and> s_user r = s_user x"

definition merge_sub :: "subscription \<Rightarrow> subscription \<Rightarrow> subscription" where
  "merge_sub new old = old\<lparr>s_sch := s_sch new, s_status := s_status new, s_tier := s_tier new,
     s_topics := s_topics new, s_ents := s_ents new, s_verified := s_verified new,
     s_expires := s_expires new, s_grace := s_grace new, s_cancelled := s_cancelled new\<rparr>"

text \<open>The unique key is \<open>(channel_id, channel_user_id)\<close>; the primary key is the session id.\<close>

definition Sub_Upsert :: "subscription \<Rightarrow> unit io" where
  "Sub_Upsert x = exec (\<lambda>w.
     if (\<exists>r \<in> set (subs w). same_instance_user x r)
     then (Inr (), subs_update (set_where (same_instance_user x) (merge_sub x)) w)
     else if s_id x \<in> s_id ` set (subs w) then (Inl ErrDB, w)
     else (Inr (), subs_update (\<lambda>rs. rs @ [x]) w))"

definition Sub_GetByChannelUser :: "string \<Rightarrow> string \<Rightarrow> string \<Rightarrow> subscription io" where
  "Sub_GetByChannelUser pool ctype user = query_row (\<lambda>w.
     find (\<lambda>x. s_pool x = pool \<and> s_ctype x = ctype \<and> s_user x = user) (subs w))"

definition Sub_GetByInstanceUser :: "string \<Rightarrow> string \<Rightarrow> subscription io" where
  "Sub_GetByInstanceUser channel user = query_row (\<lambda>w.
     find (\<lambda>x. s_channel x = channel \<and> s_user x = user) (subs w))"

definition Sub_ListActiveByInstance :: "string \<Rightarrow> subscription list io" where
  "Sub_ListActiveByInstance channel =
     query (\<lambda>w. filter (\<lambda>x. s_channel x = channel \<and> s_status x = SubActive) (subs w))"

definition cancel_sub :: "subscription \<Rightarrow> subscription" where
  "cancel_sub x = x\<lparr>s_status := SubCancelled\<rparr>"

definition Sub_CancelByChannelID :: "string \<Rightarrow> nat io" where
  "Sub_CancelByChannelID channel =
     update_count subs subs_update (\<lambda>x. s_channel x = channel \<and> s_status x = SubActive) cancel_sub"

definition Sub_ListActiveByChannel :: "string \<Rightarrow> string \<Rightarrow> subscription list io" where
  "Sub_ListActiveByChannel pool ctype =
     query (\<lambda>w. filter (\<lambda>x. s_pool x = pool \<and> s_ctype x = ctype \<and> s_status x = SubActive) (subs w))"

definition live_in :: "string \<Rightarrow> subscription \<Rightarrow> bool" where
  "live_in pool x \<longleftrightarrow> s_pool x = pool \<and> s_status x = SubActive"

definition Sub_ListActive :: "string \<Rightarrow> subscription list io" where
  "Sub_ListActive pool = query (\<lambda>w. filter (live_in pool) (subs w))"

definition Sub_SetStatus :: "string \<Rightarrow> sub_status \<Rightarrow> unit io" where
  "Sub_SetStatus i st = update_rows subs_update (\<lambda>x. s_id x = i) (\<lambda>x. x\<lparr>s_status := st\<rparr>)"

definition Sub_CancelByStakeCredential :: "string \<Rightarrow> nat io" where
  "Sub_CancelByStakeCredential sch =
     update_count subs subs_update (\<lambda>x. s_sch x = sch \<and> s_status x = SubActive) cancel_sub"

section \<open>The reconciler\<close>

record recon_result =
  rr_checked :: nat
  rr_expired :: nat
  rr_grace :: nat
  rr_unchanged :: nat
  rr_failed :: nat

definition no_result :: recon_result where
  "no_result = \<lparr>rr_checked = 0, rr_expired = 0, rr_grace = 0, rr_unchanged = 0, rr_failed = 0\<rparr>"

type_synonym evaluator = "string \<Rightarrow> (state \<times> string) io"
type_synonym notifier = "subscription \<Rightarrow> string \<Rightarrow> unit io"

record reconciler =
  rc_pool :: string
  rc_elig :: evaluator
  rc_notifier :: "notifier option"

definition graceMessage :: string where
  "graceMessage = ''Your subscription is expiring: we no longer see an active delegation for this account. Re-delegate to your pool to keep your membership.''"

definition notifyGrace :: "reconciler \<Rightarrow> subscription \<Rightarrow> unit io" where
  "notifyGrace R sess = (case rc_notifier R of
       None \<Rightarrow> returnE ()
     | Some notify \<Rightarrow> ignoreE (notify sess graceMessage))"

definition refreshed :: "instant \<Rightarrow> string \<Rightarrow> subscription \<Rightarrow> subscription" where
  "refreshed now tier x = x\<lparr>s_verified := now, s_tier := tier, s_expires := now + SubscriptionTTL, s_grace := None\<rparr>"

definition in_grace :: "instant \<Rightarrow> subscription \<Rightarrow> subscription" where
  "in_grace now x = x\<lparr>s_grace := Some (now + SubscriptionGrace)\<rparr>"

definition or_failed :: "unit io \<Rightarrow> recon_result \<Rightarrow> recon_result io \<Rightarrow> recon_result io" where
  "or_failed m res k = tryE m (\<lambda>r. case r of
       Inl _ \<Rightarrow> returnE (res\<lparr>rr_failed := rr_failed res + 1\<rparr>)
     | Inr _ \<Rightarrow> k)"

text \<open>The body of the loop of \<open>Reconcile\<close>, after the evaluation and around it.\<close>

definition settle :: "reconciler \<Rightarrow> recon_result \<Rightarrow> state \<Rightarrow> string \<Rightarrow> subscription \<Rightarrow> recon_result io" where
  "settle R res st tier sess =
     bindE nowE (\<lambda>now.
     if st \<noteq> StateNone then
       or_failed (Sub_Upsert (refreshed now tier sess)) res
         (returnE (res\<lparr>rr_unchanged := rr_unchanged res + 1\<rparr>))
     else (case s_grace sess of
         None \<Rightarrow>
           or_failed (Sub_Upsert (in_grace now sess)) res
             (bindE (notifyGrace R (in_grace now sess)) (\<lambda>_.
              returnE (res\<lparr>rr_grace := rr_grace res + 1\<rparr>)))
       | Some deadline \<Rightarrow>
           if before now deadline then returnE (res\<lparr>rr_unchanged := rr_unchanged res + 1\<rparr>)
           else or_failed (Sub_SetStatus (s_id sess) SubExpired) res
                  (returnE (res\<lparr>rr_expired := rr_expired res + 1\<rparr>))))"

definition reconcile_one :: "reconciler \<Rightarrow> recon_result \<Rightarrow> subscription \<Rightarrow> recon_result io" where
  "reconcile_one R res0 sess =
     (let res = res0\<lparr>rr_checked := rr_checked res0 + 1\<rparr> in
     tryE (rc_elig R (s_sch sess)) (\<lambda>r. case r of
         Inl _ \<Rightarrow> returnE (res\<lparr>rr_failed := rr_failed res + 1\<rparr>)
       | Inr (st, tier) \<Rightarrow> settle R res st tier sess))"

fun reconcile_loop :: "reconciler \<Rightarrow> recon_result \<Rightarrow> subscription list \<Rightarrow> recon_result io" where
  "reconcile_loop R res [] = returnE res"
| "reconcile_loop R res (x # xs) = bindE (reconcile_one R res x) (\<lambda>res'. reconcile_loop R res' xs)"

definition Reconcile :: "reconciler \<Rightarrow> recon_result io" where
  "Reconcile R = bindE (Sub_ListActive (rc_pool R)) (reconcile_loop R no_result)"

section \<open>The poll loop\<close>

text \<open>
  One turn of \<open>Run\<close>: \<open>nets\<close> is the outcome of the network query, \<open>epoch\<close> that of resolving
  a network's source and asking its epoch. The cursor is a Go map, 0 where absent.
\<close>

type_synonym cursor = "string \<rightharpoonup> 64 word"

definition cursor_at :: "cursor \<Rightarrow> string \<Rightarrow> 64 word" where
  "cursor_at c n = (case c n of None \<Rightarrow> 0 | Some e \<Rightarrow> e)"

fun probe :: "(string \<Rightarrow> 64 word result) \<Rightarrow> cursor \<Rightarrow> string list \<Rightarrow> (string \<times> 64 word) list \<times> bool" where
  "probe epoch c [] = ([], False)"
| "probe epoch c (n # ns) = (case epoch n of
       Inl _ \<Rightarrow> probe epoch c ns
     | Inr e \<Rightarrow> (let (cur, adv) = probe epoch c ns in ((n, e) # cur, e > cursor_at c n \<or> adv)))"

definition poll :: "reconciler \<Rightarrow> string list io \<Rightarrow> (string \<Rightarrow> 64 word result) \<Rightarrow> cursor \<Rightarrow> cursor io" where
  "poll R networks epoch c = tryE networks (\<lambda>r. case r of
       Inl _ \<Rightarrow> returnE c
     | Inr nets \<Rightarrow>
         let (cur, advanced) = probe epoch c nets in
         if advanced then tryE (Reconcile R) (\<lambda>q. case q of
             Inl _ \<Rightarrow> returnE c
           | Inr _ \<Rightarrow> returnE (c ++ map_of (rev cur)))
         else returnE c)"

section \<open>One session\<close>

definition sub_key :: "subscription \<Rightarrow> string \<times> string" where
  "sub_key x = (s_channel x, s_user x)"

definition subs_keyed :: "subscription list \<Rightarrow> bool" where
  "subs_keyed rs \<longleftrightarrow> distinct (map sub_key rs) \<and> distinct (map s_id rs)"

definition put_sub :: "subscription \<Rightarrow> subscription \<Rightarrow> subscription list \<Rightarrow> subscription list" where
  "put_sub x y = set_where (\<lambda>r. r = x) (\<lambda>_. y)"

lemma put_sub_same [simp]: "put_sub x x rs = rs"
  by (simp add: put_sub_def set_where_def map_idI)

lemma sub_update_sel [simp]:
  "sub_key (refreshed now tier x) = sub_key x" "s_id (refreshed now tier x) = s_id x"
  "sub_key (in_grace now x) = sub_key x" "s_id (in_grace now x) = s_id x"
  "sub_key (x\<lparr>s_status := st\<rparr>) = sub_key x"
  by (simp_all add: sub_key_def refreshed_def in_grace_def)

lemma upsert_row_of:
  assumes "subs_keyed rs" "x \<in> set rs" "sub_key y = sub_key x" "merge_sub y x = y"
  shows "set_where (same_instance_user y) (merge_sub y) rs = put_sub x y rs"
proof -
  have "same_instance_user y r \<longleftrightarrow> r = x" if "r \<in> set rs" for r
    using assms that by (auto simp: same_instance_user_def subs_keyed_def sub_key_def distinct_map inj_on_def)
  then show ?thesis using assms(4) by (auto simp: set_where_def put_sub_def)
qed

lemma merge_own [simp]:
  "merge_sub (refreshed now tier x) x = refreshed now tier x"
  "merge_sub (in_grace now x) x = in_grace now x"
  by (simp_all add: merge_sub_def refreshed_def in_grace_def)

lemma Sub_Upsert_run:
  assumes "subs_keyed (subs w)" "x \<in> set (subs w)" "sub_key y = sub_key x" "merge_sub y x = y"
  shows "Sub_Upsert y w = (if faulty w then (Inl ErrDB, skip w)
     else (Inr (), subs_update (put_sub x y) (skip w)))"
proof -
  have "\<exists>r \<in> set (subs w). same_instance_user y r"
    using assms(2,3) by (auto simp: same_instance_user_def sub_key_def)
  moreover have "subs_update (set_where (same_instance_user y) (merge_sub y)) (skip w)
      = subs_update (put_sub x y) (skip w)"
    using upsert_row_of[OF assms] by (auto intro!: world.equality)
  ultimately show ?thesis by (simp add: Sub_Upsert_def exec_def)
qed

lemma Sub_SetStatus_run:
  assumes "subs_keyed (subs w)" "x \<in> set (subs w)"
  shows "Sub_SetStatus (s_id x) st w = (if faulty w then (Inl ErrDB, skip w)
     else (Inr (), subs_update (put_sub x (x\<lparr>s_status := st\<rparr>)) (skip w)))"
proof -
  have "s_id r = s_id x \<longleftrightarrow> r = x" if "r \<in> set (subs w)" for r
    using assms that by (auto simp: subs_keyed_def distinct_map inj_on_def)
  then have "set_where (\<lambda>r. s_id r = s_id x) (\<lambda>x. x\<lparr>s_status := st\<rparr>) (subs w)
      = put_sub x (x\<lparr>s_status := st\<rparr>) (subs w)"
    by (auto simp: set_where_def put_sub_def)
  then have "subs_update (set_where (\<lambda>r. s_id r = s_id x) (\<lambda>x. x\<lparr>s_status := st\<rparr>)) (skip w)
      = subs_update (put_sub x (x\<lparr>s_status := st\<rparr>)) (skip w)"
    by (auto intro!: world.equality)
  then show ?thesis by (simp add: Sub_SetStatus_def update_rows_def modify_def exec_def)
qed

text \<open>What a pass may do to one session, for an evaluator that answered \<open>(st, tier)\<close>.\<close>

definition allowed_change :: "evaluator \<Rightarrow> instant \<Rightarrow> subscription \<Rightarrow> subscription \<Rightarrow> bool" where
  "allowed_change elig now x y \<longleftrightarrow> y = x \<or> (\<exists>v st tier v'. elig (s_sch x) v = (Inr (st, tier), v')
     \<and> (if st \<noteq> StateNone then y = refreshed now tier x
        else case s_grace x of None \<Rightarrow> y = in_grace now x
           | Some d \<Rightarrow> d \<le> now \<and> y = x\<lparr>s_status := SubExpired\<rparr>))"

definition keeps_subs :: "world \<Rightarrow> world \<Rightarrow> bool" where
  "keeps_subs w w' \<longleftrightarrow> subs w' = subs w \<and> clock w' = clock w"

interpretation keeps_subs: io_rel keeps_subs
  by unfold_locales (simp_all add: keeps_subs_def)

definition quiet :: "reconciler \<Rightarrow> bool" where
  "quiet R \<longleftrightarrow> (\<forall>h. moves keeps_subs (rc_elig R h))
     \<and> (\<forall>f x m. rc_notifier R = Some f \<longrightarrow> moves keeps_subs (f x m))"

lemma notifyGrace_quiet: "quiet R \<Longrightarrow> moves keeps_subs (notifyGrace R x)"
  by (auto simp: notifyGrace_def quiet_def intro: keeps_subs.pure_steps keeps_subs.ignore split: option.splits)

text \<open>One write to the row of \<open>x\<close>: it happens, or nothing does.\<close>

definition writes_row :: "subscription \<Rightarrow> subscription \<Rightarrow> 'a io \<Rightarrow> world \<Rightarrow> bool" where
  "writes_row x y m w \<longleftrightarrow> (subs (snd (m w)) = subs w \<or> subs (snd (m w)) = put_sub x y (subs w))
     \<and> clock (snd (m w)) = clock w"

lemma or_failed_writes:
  assumes "writes_row x y m w" "moves keeps_subs k"
  shows "writes_row x y (or_failed m res k) w"
proof -
  obtain r v where m: "m w = (r, v)" by force
  have "keeps_subs v (snd (k v))" using assms(2) by (simp add: moves_def)
  then show ?thesis using assms(1) m
    by (auto simp: writes_row_def or_failed_def tryE_def returnE_def keeps_subs_def split: sum.splits)
qed

lemma settle_writes:
  assumes quiet: "quiet R" and keyed: "subs_keyed (subs w)" and x: "x \<in> set (subs w)"
  shows "\<exists>y. sub_key y = sub_key x \<and> s_id y = s_id x \<and> writes_row x y (settle R res st tier x) w
    \<and> (if st \<noteq> StateNone then y = refreshed (clock w) tier x
       else case s_grace x of None \<Rightarrow> y = in_grace (clock w) x
          | Some d \<Rightarrow> y = (if d \<le> clock w then x\<lparr>s_status := SubExpired\<rparr> else x))"
proof -
  have upsert: "writes_row x y (Sub_Upsert y) w" if "sub_key y = sub_key x" "merge_sub y x = y" for y
    using Sub_Upsert_run[OF keyed x that] by (simp add: writes_row_def)
  have expire: "writes_row x (x\<lparr>s_status := SubExpired\<rparr>) (Sub_SetStatus (s_id x) SubExpired) w"
    using Sub_SetStatus_run[OF keyed x] by (simp add: writes_row_def)
  have tell: "moves keeps_subs (bindE (notifyGrace R y) (\<lambda>_. returnE res'))" for y res'
    by (intro keeps_subs.bind notifyGrace_quiet quiet keeps_subs.pure_steps)
  have now: "bindE nowE f w = f (clock w) w" for f :: "instant \<Rightarrow> 'b io"
    by (simp add: bindE_def nowE_def getE_def)
  show ?thesis
  proof (cases "st = StateNone")
    case False
    then show ?thesis
      by (intro exI[of _ "refreshed (clock w) tier x"])
         (simp add: settle_def writes_row_def now or_failed_writes[OF upsert, unfolded writes_row_def] keeps_subs.pure_steps)
  next
    case none: True
    show ?thesis
    proof (cases "s_grace x")
      case None
      then show ?thesis using none
        by (intro exI[of _ "in_grace (clock w) x"])
           (simp add: settle_def writes_row_def now or_failed_writes[OF upsert tell, unfolded writes_row_def])
    next
      case (Some d)
      then show ?thesis using none
        by (intro exI[of _ "if d \<le> clock w then x\<lparr>s_status := SubExpired\<rparr> else x"])
           (simp add: settle_def writes_row_def now returnE_def keeps_subs.pure_steps
             or_failed_writes[OF expire, unfolded writes_row_def])
    qed
  qed
qed

lemma reconcile_one_change:
  assumes quiet: "quiet R" and keyed: "subs_keyed (subs w)" and x: "x \<in> set (subs w)"
    and run: "reconcile_one R res x w = (r, w')"
  shows "\<exists>y. allowed_change (rc_elig R) (clock w) x y \<and> sub_key y = sub_key x \<and> s_id y = s_id x
    \<and> subs w' = put_sub x y (subs w) \<and> clock w' = clock w"
proof -
  obtain q v where e: "rc_elig R (s_sch x) w = (q, v)" by force
  have v: "subs v = subs w" "clock v = clock w"
    using movesD[of keeps_subs "rc_elig R (s_sch x)" w q v] quiet e by (auto simp: quiet_def keeps_subs_def)
  show ?thesis
  proof (cases q)
    case (Inl e')
    then show ?thesis using run e v
      by (intro exI[of _ x]) (auto simp: reconcile_one_def Let_def tryE_def returnE_def allowed_change_def)
  next
    case (Inr p)
    obtain st tier where p: "p = (st, tier)" by force
    let ?res = "res\<lparr>rr_checked := rr_checked res + 1\<rparr>"
    have w': "w' = snd (settle R ?res st tier x v)"
      using run e Inr p by (simp add: reconcile_one_def Let_def tryE_def)
    obtain y where y: "sub_key y = sub_key x" "s_id y = s_id x" "writes_row x y (settle R ?res st tier x) v"
      and what: "if st \<noteq> StateNone then y = refreshed (clock v) tier x
       else case s_grace x of None \<Rightarrow> y = in_grace (clock v) x
          | Some d \<Rightarrow> y = (if d \<le> clock v then x\<lparr>s_status := SubExpired\<rparr> else x)"
      using settle_writes[OF quiet, of v x ?res st tier] keyed x v by auto
    have "allowed_change (rc_elig R) (clock w) x y"
      using what e Inr p v unfolding allowed_change_def
      by (cases "s_grace x") (auto split: if_splits intro!: exI[of _ w] exI[of _ st])
    moreover have "allowed_change (rc_elig R) (clock w) x x" by (simp add: allowed_change_def)
    ultimately show ?thesis using y v w' put_sub_same by (auto simp: writes_row_def)
  qed
qed

section \<open>A whole pass\<close>

lemma put_sub_keyed:
  assumes "subs_keyed rs" "sub_key y = sub_key x" "s_id y = s_id x"
  shows "subs_keyed (put_sub x y rs)"
proof -
  have "map sub_key (put_sub x y rs) = map sub_key rs" "map s_id (put_sub x y rs) = map s_id rs"
    using assms(2,3) by (auto simp: put_sub_def set_where_def)
  then show ?thesis using assms(1) by (simp add: subs_keyed_def)
qed

lemma put_sub_others: "z \<in> set rs \<Longrightarrow> z \<noteq> x \<Longrightarrow> z \<in> set (put_sub x y rs)"
  by (force simp: put_sub_def set_where_def)

lemma key_determines: "subs_keyed rs \<Longrightarrow> a \<in> set rs \<Longrightarrow> b \<in> set rs \<Longrightarrow> sub_key a = sub_key b \<Longrightarrow> a = b"
  by (auto simp: subs_keyed_def distinct_map inj_on_def)

lemma reconcile_one_Inr: "\<exists>res'. fst (reconcile_one R res x w) = Inr res'
    \<and> rr_checked res' = rr_checked res + 1
    \<and> rr_expired res' + rr_grace res' + rr_unchanged res' + rr_failed res'
      = rr_expired res + rr_grace res + rr_unchanged res + rr_failed res + 1"
proof -
  have tell: "notifyGrace R y v \<noteq> (Inl e, u)" for y v e u
    by (auto simp: notifyGrace_def ignoreE_run returnE_def split: option.splits)
  show ?thesis
    by (auto simp: reconcile_one_def settle_def Let_def tryE_def bindE_def nowE_def getE_def returnE_def
        or_failed_def tell split: prod.splits sum.splits option.splits)
qed

lemma reconcile_loop_change:
  assumes "quiet R" "subs_keyed (subs w)" "set xs \<subseteq> set (subs w)" "distinct xs"
    and "reconcile_loop R res xs w = (r, w')"
  shows "clock w' = clock w \<and> list_all2 (\<lambda>x y. if x \<in> set xs then allowed_change (rc_elig R) (clock w) x y else y = x)
      (subs w) (subs w')"
  using assms(2-)
proof (induction xs arbitrary: res w)
  case Nil
  then show ?case by (simp add: returnE_def list.rel_refl)
next
  case (Cons x xs)
  obtain q w1 where one: "reconcile_one R res x w = (q, w1)" by force
  obtain res' where q: "q = Inr res'" using reconcile_one_Inr[of R res x w] one by auto
  obtain y where y: "allowed_change (rc_elig R) (clock w) x y" "sub_key y = sub_key x" "s_id y = s_id x"
      "subs w1 = put_sub x y (subs w)" "clock w1 = clock w"
    using reconcile_one_change[OF assms(1) Cons.prems(1) _ one] Cons.prems(2) by auto
  have fresh: "y \<notin> set xs"
    using key_determines[OF Cons.prems(1), of y x] y(2) Cons.prems(2,3) by auto
  have rest: "reconcile_loop R res' xs w1 = (r, w')"
    using Cons.prems(4) one q by (simp add: bindE_def)
  have "set xs \<subseteq> set (subs w1)" using Cons.prems(2,3) put_sub_others y(4) by (metis distinct.simps(2) list.set_intros(2) subset_code(1))
  from Cons.IH[OF _ this _ rest] Cons.prems(1,3) put_sub_keyed[of "subs w" y x] y
  have ih: "clock w' = clock w"
    "list_all2 (\<lambda>x y. if x \<in> set xs then allowed_change (rc_elig R) (clock w) x y else y = x) (put_sub x y (subs w)) (subs w')"
    by (simp_all cong: if_cong)
  have "list_all2 (\<lambda>a c. if a \<in> set (x # xs) then allowed_change (rc_elig R) (clock w) a c else c = a) (subs w) (subs w')"
    using ih(2) fresh y(1) Cons.prems(3) unfolding put_sub_def set_where_def list_all2_map1
    by (elim list_all2_mono) (auto split: if_splits)
  then show ?case using ih(1) by simp
qed

section \<open>The policy\<close>

text \<open>A pass as a function on rows, for an evaluator that always answers \<open>f\<close>.\<close>

definition reconciled :: "string \<Rightarrow> instant \<Rightarrow> (string \<Rightarrow> (state \<times> string) option) \<Rightarrow> subscription \<Rightarrow> subscription" where
  "reconciled pool now f x =
     (if \<not> live_in pool x then x
      else case f (s_sch x) of
          None \<Rightarrow> x
        | Some (st, tier) \<Rightarrow>
            if st \<noteq> StateNone then refreshed now tier x
            else (case s_grace x of
                None \<Rightarrow> in_grace now x
              | Some d \<Rightarrow> if now < d then x else x\<lparr>s_status := SubExpired\<rparr>))"

definition answers :: "(string \<Rightarrow> (state \<times> string) option) \<Rightarrow> evaluator" where
  "answers f h = (case f h of None \<Rightarrow> failE ErrDB | Some a \<Rightarrow> returnE a)"

lemma reconcile_one_run:
  assumes "faults w = []" "subs_keyed (subs w)" "x \<in> set (subs w)" "live_in (rc_pool R) x"
    and "rc_elig R = answers f" "rc_notifier R = None"
  shows "snd (reconcile_one R res x w)
    = w\<lparr>subs := put_sub x (reconciled (rc_pool R) (clock w) f x) (subs w)\<rparr>"
proof -
  let ?now = "clock w"
  have upsert: "Sub_Upsert y w = (Inr (), w\<lparr>subs := put_sub x y (subs w)\<rparr>)"
    if "sub_key y = sub_key x" "merge_sub y x = y" for y
    using Sub_Upsert_run[OF assms(2,3) that] assms(1) by (auto intro!: world.equality)
  have expire: "Sub_SetStatus (s_id x) SubExpired w
      = (Inr (), w\<lparr>subs := put_sub x (x\<lparr>s_status := SubExpired\<rparr>) (subs w)\<rparr>)"
    using Sub_SetStatus_run[OF assms(2,3)] assms(1) by (auto intro!: world.equality)
  have settle: "snd (settle R res' st tier x w) = w\<lparr>subs := put_sub x
      (if st \<noteq> StateNone then refreshed ?now tier x
       else case s_grace x of None \<Rightarrow> in_grace ?now x
          | Some d \<Rightarrow> if ?now < d then x else x\<lparr>s_status := SubExpired\<rparr>) (subs w)\<rparr>" for res' st tier
    using assms(6)
    by (cases "s_grace x")
       (simp_all add: settle_def bindE_def nowE_def getE_def or_failed_def tryE_def returnE_def notifyGrace_def upsert expire)
  show ?thesis
  proof (cases "f (s_sch x)")
    case None
    then show ?thesis using assms(4,5)
      by (simp add: reconcile_one_def answers_def Let_def tryE_def failE_def returnE_def reconciled_def)
  next
    case (Some a)
    then show ?thesis using assms(4,5) settle[of _ "fst a" "snd a"]
      by (cases a) (simp add: reconcile_one_def answers_def Let_def tryE_def returnE_def reconciled_def)
  qed
qed

lemma reconcile_loop_run:
  assumes "rc_elig R = answers f" "rc_notifier R = None"
    and "faults w = []" "subs_keyed (subs w)" "set xs \<subseteq> set (subs w)" "distinct xs" "list_all (live_in (rc_pool R)) xs"
  shows "snd (reconcile_loop R res xs w)
    = w\<lparr>subs := map (\<lambda>a. if a \<in> set xs then reconciled (rc_pool R) (clock w) f a else a) (subs w)\<rparr>"
  using assms(3-)
proof (induction xs arbitrary: res w)
  case (Cons x xs)
  let ?y = "reconciled (rc_pool R) (clock w) f x"
  let ?w1 = "w\<lparr>subs := put_sub x ?y (subs w)\<rparr>"
  have y: "sub_key ?y = sub_key x" "s_id ?y = s_id x"
    by (auto simp: reconciled_def split: option.splits)
  obtain res' where one: "reconcile_one R res x w = (Inr res', ?w1)"
    using reconcile_one_run[of w x R f res] reconcile_one_Inr[of R res x w] Cons.prems assms(1,2)
    by (auto simp: prod_eq_iff)
  have fresh: "?y \<notin> set xs"
    using key_determines[OF Cons.prems(2), of ?y x] y(1) Cons.prems(3,4) by auto
  have sub: "set xs \<subseteq> set (subs ?w1)"
    using Cons.prems(3,4) put_sub_others[of _ "subs w" x ?y] by auto
  have "snd (reconcile_loop R res' xs ?w1) = ?w1\<lparr>subs := map (\<lambda>a. if a \<in> set xs
      then reconciled (rc_pool R) (clock ?w1) f a else a) (subs ?w1)\<rparr>"
    using Cons.prems put_sub_keyed[OF Cons.prems(2) y] sub by (intro Cons.IH) simp_all
  also have "\<dots> = w\<lparr>subs := map (\<lambda>a. if a \<in> set (x # xs) then reconciled (rc_pool R) (clock w) f a else a) (subs w)\<rparr>"
    using fresh Cons.prems(4) by (auto simp: put_sub_def set_where_def)
  finally show ?case using one by (simp add: bindE_def)
qed (simp add: returnE_def)

lemma Reconcile_run:
  assumes "rc_elig R = answers f" "rc_notifier R = None" "faults w = []" "subs_keyed (subs w)"
  shows "snd (Reconcile R w) = w\<lparr>subs := map (reconciled (rc_pool R) (clock w) f) (subs w)\<rparr>"
proof -
  let ?xs = "filter (live_in (rc_pool R)) (subs w)"
  have d: "distinct ?xs" using assms(4) by (simp add: subs_keyed_def distinct_map)
  have "snd (Reconcile R w) = snd (reconcile_loop R no_result ?xs w)"
    using assms(3) by (simp add: Reconcile_def Sub_ListActive_def bindE_def query_def exec_def getE_def)
  also have "\<dots> = w\<lparr>subs := map (\<lambda>a. if a \<in> set ?xs then reconciled (rc_pool R) (clock w) f a else a) (subs w)\<rparr>"
    using d by (intro reconcile_loop_run assms) (auto simp: list_all_iff)
  also have "map (\<lambda>a. if a \<in> set ?xs then reconciled (rc_pool R) (clock w) f a else a) (subs w)
      = map (reconciled (rc_pool R) (clock w) f) (subs w)"
    by (auto simp: reconciled_def)
  finally show ?thesis .
qed

lemma reconciled_keys [simp]:
  "sub_key (reconciled pool now f x) = sub_key x" "s_id (reconciled pool now f x) = s_id x"
  "s_sch (reconciled pool now f x) = s_sch x" "s_pool (reconciled pool now f x) = s_pool x"
  by (auto simp: reconciled_def refreshed_def in_grace_def sub_key_def split: option.splits)

lemma subs_keyed_reconciled: "subs_keyed rs \<Longrightarrow> subs_keyed (map (reconciled pool now f) rs)"
  by (simp add: subs_keyed_def comp_def)

lemma reconcile_loop_Inr: "\<exists>res'. fst (reconcile_loop R res xs w) = Inr res'
    \<and> rr_checked res' = rr_checked res + length xs
    \<and> rr_expired res' + rr_grace res' + rr_unchanged res' + rr_failed res'
      = rr_expired res + rr_grace res + rr_unchanged res + rr_failed res + length xs"
proof (induction xs arbitrary: res w)
  case (Cons x xs)
  obtain q v where one: "reconcile_one R res x w = (q, v)" by force
  then obtain res1 where q: "q = Inr res1" "rr_checked res1 = rr_checked res + 1"
      "rr_expired res1 + rr_grace res1 + rr_unchanged res1 + rr_failed res1
        = rr_expired res + rr_grace res + rr_unchanged res + rr_failed res + 1"
    using reconcile_one_Inr[of R res x w] by auto
  show ?case using Cons.IH[of res1 v] one q by (simp add: bindE_def)
qed (simp add: returnE_def)

section \<open>Guarantees\<close>

text \<open>A reconciliation pass, under any pattern of database failures and with any evaluator
  that does not itself write subscriptions, leaves every row that is not an active session of
  the pool alone, and does to an active one either nothing or what the evaluation of its
  holder warrants: a member is refreshed, a lost member enters a grace period of five days,
  and a session expires only when its holder is not a member and its deadline has passed.\<close>

theorem Reconcile_policy:
  assumes "quiet R" "subs_keyed (subs w)" "Reconcile R w = (r, w')"
  shows "list_all2 (\<lambda>x y. y = x \<or> (live_in (rc_pool R) x
      \<and> (\<exists>v st tier v'. rc_elig R (s_sch x) v = (Inr (st, tier), v')
        \<and> (if st \<noteq> StateNone then y = refreshed (clock w) tier x
           else case s_grace x of None \<Rightarrow> y = in_grace (clock w) x
              | Some d \<Rightarrow> d \<le> clock w \<and> y = x\<lparr>s_status := SubExpired\<rparr>)))) (subs w) (subs w')"
proof (cases "faulty w")
  case True
  then have same: "subs w' = subs w" using assms(3)
    by (auto simp: Reconcile_def Sub_ListActive_def bindE_def query_def exec_def)
  show ?thesis unfolding same by (rule list.rel_refl) (rule disjI1, rule HOL.refl)
next
  case False
  let ?xs = "filter (live_in (rc_pool R)) (subs w)"
  have run: "reconcile_loop R no_result ?xs (skip w) = (r, w')"
    using assms(3) False by (simp add: Reconcile_def Sub_ListActive_def bindE_def query_def exec_def getE_def)
  have "distinct ?xs" using assms(2) by (simp add: subs_keyed_def distinct_map)
  then have "list_all2 (\<lambda>x y. if x \<in> set ?xs then allowed_change (rc_elig R) (clock w) x y else y = x)
      (subs w) (subs w')"
    using reconcile_loop_change[OF assms(1) _ _ _ run] assms(2) by (simp cong: if_cong)
  then show ?thesis
  proof (rule list_all2_mono)
    fix x y assume a: "if x \<in> set ?xs then allowed_change (rc_elig R) (clock w) x y else y = x"
    show "y = x \<or> (live_in (rc_pool R) x
      \<and> (\<exists>v st tier v'. rc_elig R (s_sch x) v = (Inr (st, tier), v')
        \<and> (if st \<noteq> StateNone then y = refreshed (clock w) tier x
           else case s_grace x of None \<Rightarrow> y = in_grace (clock w) x
              | Some d \<Rightarrow> d \<le> clock w \<and> y = x\<lparr>s_status := SubExpired\<rparr>)))"
    proof (cases "x \<in> set ?xs")
      case True
      then have "live_in (rc_pool R) x" by simp
      then show ?thesis using a True unfolding allowed_change_def by presburger
    qed (use a in simp)
  qed
qed

definition sample_sub :: subscription where
  "sample_sub = \<lparr>s_id = ''s1'', s_pool = ''p'', s_sch = ''aa'', s_channel = ''c1'', s_ctype = ''telegram'',
     s_user = ''u1'', s_account = None, s_status = SubActive, s_tier = ''gold'', s_topics = [], s_ents = [],
     s_created = 0, s_verified = 0, s_expires = 0, s_grace = None, s_cancelled = None\<rparr>"

definition sample_reconciler :: "(string \<Rightarrow> (state \<times> string) option) \<Rightarrow> reconciler" where
  "sample_reconciler f = \<lparr>rc_pool = ''p'', rc_elig = answers f, rc_notifier = None\<rparr>"

lemma sample_reconciler_quiet: "quiet (sample_reconciler f)"
  by (auto simp: quiet_def sample_reconciler_def answers_def intro: keeps_subs.pure_steps split: option.splits)

lemma sample_subs_keyed [simp]: "subs_keyed [sample_sub]"
  by (simp add: subs_keyed_def)

lemma sample_live_in [simp]: "live_in ''p'' sample_sub"
  by (simp add: live_in_def sample_sub_def)

lemma Reconcile_policy_witness:
  "\<exists>r w'. Reconcile (sample_reconciler (\<lambda>_. Some (StateNone, ''''))) (empty_world\<lparr>subs := [sample_sub]\<rparr>) = (r, w')
     \<and> subs w' \<noteq> [sample_sub] \<and> list_all (\<lambda>y. s_status y = SubActive) (subs w')"
proof -
  let ?R = "sample_reconciler (\<lambda>_. Some (StateNone, ''''))" and ?w = "empty_world\<lparr>subs := [sample_sub]\<rparr>"
  obtain r w' where run: "Reconcile ?R ?w = (r, w')" by force
  have "snd (Reconcile ?R ?w) = ?w\<lparr>subs := [in_grace (clock ?w) sample_sub]\<rparr>"
    by (subst Reconcile_run[of _ "\<lambda>_. Some (StateNone, '''')"])
       (simp_all add: sample_reconciler_def reconciled_def, simp_all add: empty_world_def sample_sub_def)
  then have ne: "subs w' \<noteq> [sample_sub]" using run by (simp add: in_grace_def sample_sub_def)
  have k: "subs_keyed (subs ?w)" by simp
  have "list_all (\<lambda>y. s_status y = SubActive) (subs w')"
    using Reconcile_policy[OF sample_reconciler_quiet k run]
    by (auto simp: list_all2_Cons1 in_grace_def refreshed_def sample_sub_def sample_reconciler_def answers_def
        returnE_def split: if_splits)
  then show ?thesis using run ne by blast
qed

text \<open>C37: Refinement: when the database does not fail and the evaluator answers \<open>f\<close>, a pass
  rewrites every row by the policy function and touches nothing else.\<close>

theorem Reconcile_refines:
  assumes "rc_elig R = answers f" "rc_notifier R = None" "faults w = []" "subs_keyed (subs w)"
  shows "snd (Reconcile R w) = w\<lparr>subs := map (\<lambda>x.
      if s_pool x \<noteq> rc_pool R \<or> s_status x \<noteq> SubActive then x
      else case f (s_sch x) of
          None \<Rightarrow> x
        | Some (st, tier) \<Rightarrow>
            if st \<noteq> StateNone then x\<lparr>s_verified := clock w, s_tier := tier,
                s_expires := clock w + SubscriptionTTL, s_grace := None\<rparr>
            else (case s_grace x of
                None \<Rightarrow> x\<lparr>s_grace := Some (clock w + SubscriptionGrace)\<rparr>
              | Some d \<Rightarrow> if clock w < d then x else x\<lparr>s_status := SubExpired\<rparr>)) (subs w)\<rparr>"
proof -
  have pf: "reconciled (rc_pool R) (clock w) f x = (if s_pool x \<noteq> rc_pool R \<or> s_status x \<noteq> SubActive then x
      else case f (s_sch x) of
          None \<Rightarrow> x
        | Some (st, tier) \<Rightarrow>
            if st \<noteq> StateNone then x\<lparr>s_verified := clock w, s_tier := tier,
                s_expires := clock w + SubscriptionTTL, s_grace := None\<rparr>
            else (case s_grace x of
                None \<Rightarrow> x\<lparr>s_grace := Some (clock w + SubscriptionGrace)\<rparr>
              | Some d \<Rightarrow> if clock w < d then x else x\<lparr>s_status := SubExpired\<rparr>))" for x
    by (auto simp: reconciled_def live_in_def refreshed_def in_grace_def split: option.splits)
  show ?thesis unfolding Reconcile_run[OF assms] map_cong[OF HOL.refl pf] ..
qed

lemma Reconcile_refines_witness:
  "subs (snd (Reconcile (sample_reconciler (\<lambda>_. Some (StateActive, ''silver''))) (empty_world\<lparr>subs := [sample_sub]\<rparr>)))
     = [sample_sub\<lparr>s_verified := 0, s_tier := ''silver'', s_expires := SubscriptionTTL, s_grace := None\<rparr>]"
  by (subst Reconcile_refines[of _ "\<lambda>_. Some (StateActive, ''silver'')"])
     (simp_all add: sample_reconciler_def, simp_all add: empty_world_def sample_sub_def)

text \<open>Every session a pass looks at is counted in exactly one of the outcomes.\<close>

theorem Reconcile_counts:
  assumes "Reconcile R w = (Inr res, w')"
  shows "rr_checked res = length (filter (live_in (rc_pool R)) (subs w))
    \<and> rr_expired res + rr_grace res + rr_unchanged res + rr_failed res = rr_checked res"
  using assms reconcile_loop_Inr[of R no_result "filter (live_in (rc_pool R)) (subs w)" "skip w"]
  by (auto simp: Reconcile_def Sub_ListActive_def bindE_Inr query_Inr no_result_def)

lemma Reconcile_counts_witness:
  "\<exists>res w'. Reconcile (sample_reconciler (\<lambda>_. None)) (empty_world\<lparr>subs := [sample_sub]\<rparr>) = (Inr res, w')
     \<and> rr_checked res = 1"
proof -
  let ?R = "sample_reconciler (\<lambda>_. None)" and ?w = "empty_world\<lparr>subs := [sample_sub]\<rparr>"
  have "faults ?w = []" by (simp add: empty_world_def)
  then obtain res w' where run: "Reconcile ?R ?w = (Inr res, w')"
    using reconcile_loop_Inr[of ?R no_result "filter (live_in (rc_pool ?R)) (subs ?w)" ?w]
    by (auto simp: Reconcile_def Sub_ListActive_def bindE_def query_def exec_def getE_def prod_eq_iff)
  show ?thesis using Reconcile_counts[OF run] run by (simp add: sample_reconciler_def)
qed

text \<open>The grace period is exactly five days: a session that is not in grace when its holder is
  found not to be a member survives that pass, and a later pass that finds the same expires
  it if and only if five days have gone by, however often passes run in between.\<close>

theorem grace_period:
  assumes R: "rc_elig R = answers f" "rc_notifier R = None" and w: "faults w = []" "subs_keyed (subs w)"
    and x: "x \<in> set (subs w)" "s_pool x = rc_pool R" "s_status x = SubActive" "s_grace x = None"
    and lost: "f (s_sch x) = Some (StateNone, tier)"
    and w1: "w1 = snd (Reconcile R w)" and w2: "w2 = snd (Reconcile R (w1\<lparr>clock := t\<rparr>))"
  shows "\<exists>y \<in> set (subs w2). s_id y = s_id x
    \<and> s_status y = (if clock w + 5 * 24 * 3600 * second \<le> t then SubExpired else SubActive)"
proof -
  have live: "live_in (rc_pool R) x" using x by (simp add: live_in_def)
  have e1: "subs w1 = map (reconciled (rc_pool R) (clock w) f) (subs w)" "faults w1 = []"
    using Reconcile_run[OF R w] w1 w by simp_all
  have e2: "subs w2 = map (reconciled (rc_pool R) t f) (subs w1)"
    unfolding w2 by (subst Reconcile_run[OF R]) (simp_all add: e1 subs_keyed_reconciled w)
  have x1: "reconciled (rc_pool R) (clock w) f x = in_grace (clock w) x"
    using live lost x by (simp add: reconciled_def)
  have "live_in (rc_pool R) (in_grace (clock w) x)" using live by (simp add: live_in_def in_grace_def)
  then have x2: "reconciled (rc_pool R) t f (in_grace (clock w) x)
      = (if t < clock w + SubscriptionGrace then in_grace (clock w) x
         else (in_grace (clock w) x)\<lparr>s_status := SubExpired\<rparr>)"
    using lost by (simp add: reconciled_def in_grace_def)
  have "reconciled (rc_pool R) t f (in_grace (clock w) x) \<in> set (subs w2)"
    using x(1) x1 unfolding e2 e1 by force
  then show ?thesis
    by (rule bexI[rotated], subst (1 2) x2)
       (simp add: in_grace_def x(3) SubscriptionGrace_def hour_def minute_def not_less)
qed

lemma grace_period_witness:
  "let R = sample_reconciler (\<lambda>_. Some (StateNone, ''''));
       w1 = snd (Reconcile R (empty_world\<lparr>subs := [sample_sub]\<rparr>))
   in \<exists>y \<in> set (subs (snd (Reconcile R (w1\<lparr>clock := 6 * 24 * 3600 * second\<rparr>)))). s_status y = SubExpired"
proof -
  let ?R = "sample_reconciler (\<lambda>_. Some (StateNone, ''''))"
  have "\<exists>y \<in> set (subs (snd (Reconcile ?R ((snd (Reconcile ?R (empty_world\<lparr>subs := [sample_sub]\<rparr>)))\<lparr>clock := 6 * 24 * 3600 * second\<rparr>)))).
      s_id y = s_id sample_sub \<and> s_status y = (if clock (empty_world\<lparr>subs := [sample_sub]\<rparr>) + 5 * 24 * 3600 * second
        \<le> 6 * 24 * 3600 * second then SubExpired else SubActive)"
    by (rule grace_period[of ?R "\<lambda>_. Some (StateNone, '''')"])
       (simp_all add: sample_reconciler_def, simp_all add: empty_world_def sample_sub_def)
  then show ?thesis by (auto simp: Let_def empty_world_def second_def)
qed

text \<open>The poll loop moves its cursor only after a pass that succeeded and was due because
  the epoch of some network had advanced; it then records exactly the epochs it had read.\<close>

theorem poll_commits:
  assumes "poll R networks epoch c w = (Inr c', w')" "c' \<noteq> c"
  shows "\<exists>nets v res. networks w = (Inr nets, v) \<and> Reconcile R v = (Inr res, w')
    \<and> (\<exists>n \<in> set nets. \<exists>e. epoch n = Inr e \<and> cursor_at c n < e)
    \<and> (\<forall>n. cursor_at c' n = (if n \<in> set nets then (case epoch n of Inl _ \<Rightarrow> cursor_at c n | Inr e \<Rightarrow> e)
                             else cursor_at c n))"
proof -
  obtain q v where net: "networks w = (q, v)" by force
  have "\<exists>nets. q = Inr nets" using assms net
    by (cases q) (auto simp: poll_def tryE_def returnE_def)
  then obtain nets where q: "q = Inr nets" ..
  obtain cur adv where pr: "probe epoch c nets = (cur, adv)" by force
  have adv: adv using assms net q pr by (cases adv) (auto simp: poll_def tryE_def returnE_def Let_def)
  obtain res where res: "Reconcile R v = (Inr res, w')" "c' = c ++ map_of (rev cur)"
    using assms net q pr adv
    by (cases "Reconcile R v") (auto simp: poll_def tryE_def returnE_def Let_def split: sum.splits)
  have cur: "cur = concat (map (\<lambda>n. case epoch n of Inl _ \<Rightarrow> [] | Inr e \<Rightarrow> [(n, e)]) nets)"
      "adv \<longleftrightarrow> (\<exists>n \<in> set nets. \<exists>e. epoch n = Inr e \<and> cursor_at c n < e)"
    using pr by (induction nets arbitrary: cur adv) (auto simp: Let_def split: sum.splits prod.splits)
  have mem: "(n, e) \<in> set (rev cur) \<longleftrightarrow> n \<in> set nets \<and> epoch n = Inr e" for n e
    unfolding cur by (auto split: sum.splits)
  have at: "map_of (rev cur) n = (if n \<in> set nets then (case epoch n of Inl _ \<Rightarrow> None | Inr e \<Rightarrow> Some e) else None)" for n
  proof (cases "map_of (rev cur) n")
    case None
    then have "(n, e) \<notin> set (rev cur)" for e by (auto simp: map_of_eq_None_iff image_iff)
    then show ?thesis using mem[of n] None by (auto split: sum.splits)
  next
    case (Some e)
    then show ?thesis using mem[of n e] map_of_SomeD by fastforce
  qed
  have "cursor_at c' n = (if n \<in> set nets then (case epoch n of Inl _ \<Rightarrow> cursor_at c n | Inr e \<Rightarrow> e) else cursor_at c n)" for n
    by (auto simp: res(2) cursor_at_def map_add_def at split: sum.splits)
  then show ?thesis using net q res(1) adv cur(2) by blast
qed

lemma poll_commits_witness:
  "\<exists>c' w'. poll (sample_reconciler (\<lambda>_. None)) (returnE [''mainnet'']) (\<lambda>_. Inr 500) Map.empty empty_world = (Inr c', w')
     \<and> cursor_at c' ''mainnet'' = 500"
proof -
  let ?R = "sample_reconciler (\<lambda>_. None)"
  obtain c' w' where run: "poll ?R (returnE [''mainnet'']) (\<lambda>_. Inr 500) Map.empty empty_world = (Inr c', w')"
      and c': "c' \<noteq> Map.empty"
    by (simp add: poll_def tryE_def returnE_def Reconcile_def Sub_ListActive_def bindE_def query_def exec_def getE_def
        cursor_at_def sample_reconciler_def empty_world_def faulty_def)
  from poll_commits[OF run c'] have "cursor_at c' ''mainnet'' = 500" by (auto simp: returnE_def)
  then show ?thesis using run by blast
qed

text \<open>A pass writes back the row it read when it began. If the member cancels while the
  chain is being queried, the pass revives the subscription.\<close>

theorem pass_revives_cancelled:
  "let elig = (\<lambda>h. bindE (Sub_SetStatus ''s1'' SubCancelled) (\<lambda>_. returnE (StateActive, ''gold'')));
       R = \<lparr>rc_pool = ''p'', rc_elig = elig, rc_notifier = None\<rparr>;
       w = empty_world\<lparr>subs := [sample_sub]\<rparr>
   in map s_status (subs (snd (elig ''aa'' w))) = [SubCancelled]
      \<and> map s_status (subs (snd (Reconcile R w))) = [SubActive]"
  by (simp add: Let_def Sub_SetStatus_def update_rows_def modify_def exec_def bindE_def returnE_def empty_world_def
      faulty_def skip_def set_where_def sample_sub_def Reconcile_def Sub_ListActive_def query_def getE_def live_in_def
      reconcile_one_def tryE_def settle_def nowE_def or_failed_def Sub_Upsert_def same_instance_user_def refreshed_def
      merge_sub_def)

end
