(* ===== verification/Keys.thy ===== *)
theory Keys
  imports World
begin

text \<open>
  \<open>core/keys/keys.go\<close> with \<open>store/repo_issuerkey.go\<close> and \<open>utils/crypto/fieldcipher.go\<close>: the
  life cycle of the token-signing keys. AES-GCM and the Ed25519 key generator are the
  fields of \<open>key_env\<close>; a law about them (\<open>Open\<close> inverts \<open>Seal\<close>) is a named hypothesis where a
  lemma needs it. The theorems: what a rotation does, that retirement never takes the
  active key, that the signing key is always among the published ones.
\<close>

record key_env =
  aead_seal :: "bytes \<Rightarrow> bytes \<Rightarrow> bytes"
  aead_open :: "bytes \<Rightarrow> bytes \<Rightarrow> bytes option"
  keygen :: "bytes \<Rightarrow> bytes \<times> bytes"

section \<open>Field encryption\<close>

definition nonce_size :: nat where "nonce_size = 12"

definition Cipher_Encrypt :: "key_env \<Rightarrow> bytes \<Rightarrow> bytes io" where
  "Cipher_Encrypt E plaintext =
     bindE (random_bytes nonce_size) (\<lambda>nonce. returnE (nonce @ aead_seal E nonce plaintext))"

definition Cipher_Decrypt :: "key_env \<Rightarrow> bytes \<Rightarrow> bytes result" where
  "Cipher_Decrypt E blob =
     (if length blob < nonce_size then Inl (ErrMsg ''ciphertext too short'')
      else case aead_open E (take nonce_size blob) (drop nonce_size blob) of
          None \<Rightarrow> Inl (ErrMsg ''cipher: message authentication failed'')
        | Some p \<Rightarrow> Inr p)"

section \<open>The key table\<close>

definition IssuerKey_Create :: "issuer_key \<Rightarrow> unit io" where
  "IssuerKey_Create k = insert_row ikeys ikeys_update k_kid k"

definition set_key_status :: "key_status \<Rightarrow> instant option \<Rightarrow> issuer_key \<Rightarrow> issuer_key" where
  "set_key_status st at k = k\<lparr>k_status := st, k_retired := at\<rparr>"

definition IssuerKey_SetStatus :: "string \<Rightarrow> key_status \<Rightarrow> instant option \<Rightarrow> unit io" where
  "IssuerKey_SetStatus kid st at =
     update_rows ikeys_update (\<lambda>k. k_kid k = kid) (set_key_status st at)"

definition IssuerKey_Get :: "string \<Rightarrow> issuer_key io" where
  "IssuerKey_Get kid = query_row (\<lambda>w. find (\<lambda>k. k_kid k = kid) (ikeys w))"

definition keys_with :: "key_status \<Rightarrow> issuer_key list \<Rightarrow> issuer_key list" where
  "keys_with st ks = order_by k_created (filter (\<lambda>k. k_status k = st) ks)"

definition IssuerKey_ListByStatus :: "key_status \<Rightarrow> issuer_key list io" where
  "IssuerKey_ListByStatus st = query (\<lambda>w. keys_with st (ikeys w))"

section \<open>The service\<close>

record signer =
  sg_kid :: string
  sg_priv :: bytes

text \<open>\<open>defaultKID\<close>: the month of issue, of the \<open>RFC3339\<close> text, is the argument \<open>month\<close>.\<close>

definition defaultKID :: "(instant \<Rightarrow> string) \<Rightarrow> instant \<Rightarrow> string io" where
  "defaultKID month now =
     bindE (RandomToken 3) (\<lambda>r. returnE (''op-issuer-'' @ month now @ ''-'' @ r))"

definition Keys_Rotate :: "key_env \<Rightarrow> (instant \<Rightarrow> string) \<Rightarrow> string io" where
  "Keys_Rotate E month =
     bindE nowE (\<lambda>now.
     bindE (random_bytes 32) (\<lambda>seed.
     let kp = keygen E seed in
     bindE (Cipher_Encrypt E (snd kp)) (\<lambda>encPriv.
     bindE (IssuerKey_ListByStatus KeyActive) (\<lambda>actives.
     bindE (forE (\<lambda>k. IssuerKey_SetStatus (k_kid k) KeyRotating None) actives) (\<lambda>_.
     bindE (defaultKID month now) (\<lambda>kid.
     bindE (IssuerKey_Create \<lparr>k_kid = kid, k_public = fst kp, k_private = encPriv, k_status = KeyActive,
              k_from = Some now, k_until = None, k_created = now, k_retired = None\<rparr>) (\<lambda>_.
     returnE kid)))))))"

definition Keys_ActiveSigner :: "key_env \<Rightarrow> signer io" where
  "Keys_ActiveSigner E =
     bindE (IssuerKey_ListByStatus KeyActive) (\<lambda>actives.
     if actives = [] then failE ErrNoActiveKey
     else let k = last actives in
       bindE (liftE (Cipher_Decrypt E (k_private k))) (\<lambda>priv.
       returnE \<lparr>sg_kid = k_kid k, sg_priv = priv\<rparr>))"

record public_key =
  pk_kid :: string
  pk_public :: bytes
  pk_status :: key_status

definition publish :: "issuer_key \<Rightarrow> public_key" where
  "publish k = \<lparr>pk_kid = k_kid k, pk_public = k_public k, pk_status = k_status k\<rparr>"

definition Keys_PublicJWKSKeys :: "public_key list io" where
  "Keys_PublicJWKSKeys =
     bindE (IssuerKey_ListByStatus KeyActive) (\<lambda>a.
     bindE (IssuerKey_ListByStatus KeyRotating) (\<lambda>r.
     returnE (map publish a @ map publish r)))"

text \<open>What that publishes of a world: active and rotating keys, each group in the order of creation.\<close>

definition published_keys :: "world \<Rightarrow> public_key list" where
  "published_keys w = map publish (keys_with KeyActive (ikeys w)) @ map publish (keys_with KeyRotating (ikeys w))"

definition Keys_Retire :: "string \<Rightarrow> unit io" where
  "Keys_Retire kid =
     bindE (IssuerKey_Get kid) (\<lambda>k.
     if k_status k \<noteq> KeyRotating then failE ErrNotRotating
     else bindE nowE (\<lambda>now. IssuerKey_SetStatus kid KeyRetired (Some now)))"

definition still_young :: "instant \<Rightarrow> issuer_key \<Rightarrow> bool" where
  "still_young olderThan k = (case k_from k of None \<Rightarrow> False | Some f \<Rightarrow> after f olderThan)"

definition Keys_RetireRotating :: "instant \<Rightarrow> string list io" where
  "Keys_RetireRotating olderThan =
     bindE (IssuerKey_ListByStatus KeyRotating) (\<lambda>rotating.
     bindE nowE (\<lambda>now.
     let due = filter (\<lambda>k. \<not> still_young olderThan k) rotating in
     bindE (forE (\<lambda>k. IssuerKey_SetStatus (k_kid k) KeyRetired (Some now)) due) (\<lambda>_.
     returnE (map k_kid due))))"

definition Keys_Revoke :: "string \<Rightarrow> unit io" where
  "Keys_Revoke kid = bindE nowE (\<lambda>now. IssuerKey_SetStatus kid KeyRevoked (Some now))"

section \<open>Lemmas\<close>

lemma Cipher_roundtrip:
  assumes "\<And>n p. aead_open E n (aead_seal E n p) = Some p" "Cipher_Encrypt E p w = (Inr blob, w')"
  shows "Cipher_Decrypt E blob = Inr p"
  using assms by (auto simp: Cipher_Encrypt_def Cipher_Decrypt_def bindE_Inr returnE_Inr
      random_bytes_def nonce_size_def)

lemma keys_with_set [simp]: "set (keys_with st ks) = {k \<in> set ks. k_status k = st}"
  by (auto simp: keys_with_def)

lemma set_key_status_sel [simp]:
  "k_kid (set_key_status st at k) = k_kid k" "k_status (set_key_status st at k) = st"
  "k_public (set_key_status st at k) = k_public k" "k_private (set_key_status st at k) = k_private k"
  by (simp_all add: set_key_status_def)

lemma SetStatus_loop:
  assumes "forE (\<lambda>k. IssuerKey_SetStatus (k_kid k) st at) ks w = (Inr u, w')"
  shows "ikeys w' = map (\<lambda>r. if k_kid r \<in> k_kid ` set ks then set_key_status st at r else r) (ikeys w)
    \<and> clock w' = clock w"
  using assms
proof (induction ks arbitrary: w)
  case (Cons k ks)
  then obtain v where v: "v = ikeys_update (set_where (\<lambda>r. k_kid r = k_kid k) (set_key_status st at)) (skip w)"
      "forE (\<lambda>k. IssuerKey_SetStatus (k_kid k) st at) ks v = (Inr u, w')"
    by (auto simp: io_success IssuerKey_SetStatus_def)
  have "set_key_status st at (set_key_status st at r) = set_key_status st at r" for r
    by (simp add: set_key_status_def)
  then show ?case using Cons.IH[OF v(2)] v(1) by (auto simp: set_where_def)
qed (simp add: returnE_Inr)

lemma random_bytes_Inr: "random_bytes n w = (Inr b, w') \<longleftrightarrow>
    b = map (entropy w) [draws w ..< draws w + n] \<and> w' = w\<lparr>draws := draws w + n\<rparr>"
  by (auto simp: random_bytes_def)

lemma RandomToken_Inr: "RandomToken n w = (Inr s, w') \<longleftrightarrow>
    s = b64url (map (entropy w) [draws w ..< draws w + n]) \<and> w' = w\<lparr>draws := draws w + n\<rparr>"
  by (auto simp: RandomToken_def bindE_Inr returnE_Inr random_bytes_Inr)

lemma Rotate_Inr:
  assumes "Keys_Rotate E month w = (Inr kid, w')"
  shows "\<exists>new ks. ikeys w' = ks @ [new] \<and> k_kid new = kid \<and> k_status new = KeyActive
    \<and> kid \<notin> k_kid ` set (ikeys w)
    \<and> ks = map (\<lambda>r. if k_kid r \<in> k_kid ` {k \<in> set (ikeys w). k_status k = KeyActive}
                     then set_key_status KeyRotating None r else r) (ikeys w)"
proof -
  obtain seed v1 enc v2 as v3 v4 v5 where
    s1: "random_bytes 32 w = (Inr seed, v1)"
    and s2: "Cipher_Encrypt E (snd (keygen E seed)) v1 = (Inr enc, v2)"
    and s3: "IssuerKey_ListByStatus KeyActive v2 = (Inr as, v3)"
    and s4: "forE (\<lambda>k. IssuerKey_SetStatus (k_kid k) KeyRotating None) as v3 = (Inr (), v4)"
    and s5: "defaultKID month (clock w) v4 = (Inr kid, v5)"
    and s6: "IssuerKey_Create \<lparr>k_kid = kid, k_public = fst (keygen E seed), k_private = enc, k_status = KeyActive,
              k_from = Some (clock w), k_until = None, k_created = clock w, k_retired = None\<rparr> v5 = (Inr (), w')"
    using assms by (auto simp: Keys_Rotate_def bindE_Inr nowE_Inr returnE_Inr Let_def)
  have k2: "ikeys v2 = ikeys w"
    using s1 s2 by (auto simp: random_bytes_Inr Cipher_Encrypt_def bindE_Inr returnE_Inr)
  have k3: "ikeys v3 = ikeys w" "set as = {k \<in> set (ikeys w). k_status k = KeyActive}"
    using s3 k2 by (auto simp: IssuerKey_ListByStatus_def query_Inr)
  have k4: "ikeys v4 = map (\<lambda>r. if k_kid r \<in> k_kid ` set as then set_key_status KeyRotating None r else r) (ikeys w)"
    using SetStatus_loop[OF s4] k3 by simp
  have k5: "ikeys v5 = ikeys v4"
    using s5 by (auto simp: defaultKID_def bindE_Inr returnE_Inr RandomToken_Inr)
  have "map k_kid (ikeys v4) = map k_kid (ikeys w)" unfolding k4 by simp
  then have "k_kid ` set (ikeys v4) = k_kid ` set (ikeys w)" by (metis set_map)
  then show ?thesis using s6 k5 k4 k3 by (auto simp: IssuerKey_Create_def insert_row_Inr)
qed

section \<open>Guarantees\<close>

definition active_keys :: "world \<Rightarrow> issuer_key list" where
  "active_keys w = filter (\<lambda>k. k_status k = KeyActive) (ikeys w)"

definition published :: "world \<Rightarrow> string set" where
  "published w = {k_kid k | k. k \<in> set (ikeys w) \<and> k_status k \<in> {KeyActive, KeyRotating}}"

text \<open>A rotation that succeeds leaves exactly one active key, the new one, whose id was not
  in use; every key that was active is now rotating, every other key is as it was, and no
  published key has been withdrawn.\<close>

theorem Rotate_spec:
  assumes "Keys_Rotate E month w = (Inr kid, w')"
  shows "map k_kid (active_keys w') = [kid] \<and> kid \<notin> k_kid ` set (ikeys w)
    \<and> (\<forall>k \<in> set (ikeys w). k_status k = KeyActive \<longrightarrow>
          (\<exists>k' \<in> set (ikeys w'). k_kid k' = k_kid k \<and> k_status k' = KeyRotating \<and> k_public k' = k_public k))
    \<and> (\<forall>k \<in> set (ikeys w). (\<forall>a \<in> set (active_keys w). k_kid a \<noteq> k_kid k) \<longrightarrow> k \<in> set (ikeys w'))
    \<and> published w \<subseteq> published w'"
proof -
  obtain new where new: "k_kid new = kid" "k_status new = KeyActive" "kid \<notin> k_kid ` set (ikeys w)"
    and tab: "ikeys w' = map (\<lambda>r. if k_kid r \<in> k_kid ` {k \<in> set (ikeys w). k_status k = KeyActive}
                     then set_key_status KeyRotating None r else r) (ikeys w) @ [new]"
    using Rotate_Inr[OF assms] by blast
  have "filter (\<lambda>k. k_status k = KeyActive) (map (\<lambda>r. if k_kid r \<in> k_kid ` {k \<in> set (ikeys w). k_status k = KeyActive}
                     then set_key_status KeyRotating None r else r) (ikeys w)) = []"
    by (auto simp: filter_empty_conv)
  then have one: "active_keys w' = [new]" by (simp add: active_keys_def tab new)
  have "published w \<subseteq> published w'"
  proof
    fix i assume "i \<in> published w"
    then obtain k where k: "k \<in> set (ikeys w)" "k_kid k = i" "k_status k \<in> {KeyActive, KeyRotating}"
      by (auto simp: published_def)
    let ?k = "if k_kid k \<in> k_kid ` {k \<in> set (ikeys w). k_status k = KeyActive}
        then set_key_status KeyRotating None k else k"
    have "?k \<in> set (ikeys w')" using k(1) by (auto simp: tab)
    moreover have "k_kid ?k = i" "k_status ?k \<in> {KeyActive, KeyRotating}" using k by auto
    ultimately show "i \<in> published w'" unfolding published_def by blast
  qed
  moreover have "\<forall>k \<in> set (ikeys w). k_status k = KeyActive \<longrightarrow>
      (\<exists>k' \<in> set (ikeys w'). k_kid k' = k_kid k \<and> k_status k' = KeyRotating \<and> k_public k' = k_public k)"
  proof (intro ballI impI)
    fix k assume k: "k \<in> set (ikeys w)" "k_status k = KeyActive"
    then have "set_key_status KeyRotating None k \<in> set (ikeys w')" by (auto simp: tab image_iff)
    then show "\<exists>k' \<in> set (ikeys w'). k_kid k' = k_kid k \<and> k_status k' = KeyRotating \<and> k_public k' = k_public k"
      by (intro bexI[of _ "set_key_status KeyRotating None k"]) auto
  qed
  moreover have "k \<in> set (ikeys w')" if "k \<in> set (ikeys w)" "\<forall>a \<in> set (active_keys w). k_kid a \<noteq> k_kid k" for k
  proof -
    have "k_kid k \<notin> k_kid ` {k \<in> set (ikeys w). k_status k = KeyActive}"
      using that(2) by (auto simp: active_keys_def image_iff)
    then show ?thesis using that(1) by (auto simp: tab)
  qed
  ultimately show ?thesis using one new by simp
qed

text \<open>No active key is ever retired: manual retirement succeeds only for a rotating key,
  the sweep touches rotating keys only, and both leave the set of active keys as it was
  when key ids are unique.\<close>

theorem retirement_spares_active:
  assumes "distinct (map k_kid (ikeys w))"
  shows "(\<forall>u w'. Keys_Retire kid w = (Inr u, w') \<longrightarrow> active_keys w' = active_keys w
            \<and> (\<exists>k \<in> set (ikeys w). k_kid k = kid \<and> k_status k = KeyRotating))
    \<and> (\<forall>ids w'. Keys_RetireRotating t w = (Inr ids, w') \<longrightarrow> active_keys w' = active_keys w
            \<and> set ids = {k_kid k | k. k \<in> set (ikeys w) \<and> k_status k = KeyRotating \<and> \<not> still_young t k})"
proof -
  have keep: "filter (\<lambda>k. k_status k = KeyActive) (map (\<lambda>r. if Q r then set_key_status KeyRetired at r else r) ks)
      = filter (\<lambda>k. k_status k = KeyActive) ks"
    if "\<forall>r \<in> set ks. Q r \<longrightarrow> k_status r \<noteq> KeyActive" for Q at ks
    using that by (induction ks) auto
  have uniq: "k = k'" if "k \<in> set (ikeys w)" "k' \<in> set (ikeys w)" "k_kid k = k_kid k'" for k k'
    using assms that by (auto simp: distinct_map inj_on_def)
  have "active_keys w' = active_keys w \<and> (\<exists>k \<in> set (ikeys w). k_kid k = kid \<and> k_status k = KeyRotating)"
    if retire: "Keys_Retire kid w = (Inr u, w')" for u w'
  proof -
    obtain k where k: "find (\<lambda>k. k_kid k = kid) (ikeys w) = Some k" "k_status k = KeyRotating"
      and tab: "ikeys w' = set_where (\<lambda>k. k_kid k = kid) (set_key_status KeyRetired (Some (clock w))) (ikeys w)"
      using retire by (auto simp: Keys_Retire_def bindE_Inr IssuerKey_Get_def query_row_Inr nowE_Inr failE_Inr
          IssuerKey_SetStatus_def update_rows_Inr split: if_splits)
    have mem: "k \<in> set (ikeys w)" "k_kid k = kid" using find_Some_mem[OF k(1)] by auto
    have "\<forall>r \<in> set (ikeys w). k_kid r = kid \<longrightarrow> k_status r \<noteq> KeyActive"
      using uniq[OF mem(1)] mem k(2) by (metis key_status.distinct(9))
    then show ?thesis unfolding active_keys_def tab set_where_def using keep mem k(2) by auto
  qed
  moreover have "active_keys w' = active_keys w
      \<and> set ids = {k_kid k | k. k \<in> set (ikeys w) \<and> k_status k = KeyRotating \<and> \<not> still_young t k}"
    if sweep: "Keys_RetireRotating t w = (Inr ids, w')" for ids w'
  proof -
    let ?due = "filter (\<lambda>k. \<not> still_young t k) (keys_with KeyRotating (ikeys w))"
    obtain v where loop: "forE (\<lambda>k. IssuerKey_SetStatus (k_kid k) KeyRetired (Some (clock w))) ?due v = (Inr (), w')"
      and v: "ikeys v = ikeys w" and ids: "ids = map k_kid ?due"
      using sweep by (auto simp: Keys_RetireRotating_def bindE_Inr IssuerKey_ListByStatus_def query_Inr nowE_Inr
          returnE_Inr Let_def)
    have tab: "ikeys w' = map (\<lambda>r. if k_kid r \<in> k_kid ` set ?due then set_key_status KeyRetired (Some (clock w)) r else r) (ikeys w)"
      using SetStatus_loop[OF loop] v by simp
    have "\<forall>r \<in> set (ikeys w). k_kid r \<in> k_kid ` set ?due \<longrightarrow> k_status r \<noteq> KeyActive"
    proof (intro ballI impI)
      fix r assume r: "r \<in> set (ikeys w)" "k_kid r \<in> k_kid ` set ?due"
      then obtain d where "d \<in> set (ikeys w)" "k_status d = KeyRotating" "k_kid d = k_kid r" by auto
      then show "k_status r \<noteq> KeyActive" using uniq[OF r(1)] by (metis key_status.distinct(9))
    qed
    then show ?thesis unfolding active_keys_def tab using keep by (auto simp: ids)
  qed
  ultimately show ?thesis by blast
qed

lemma last_order_by:
  assumes "xs \<noteq> []" "x \<in> set xs"
  shows "ts_key (f x) \<le> ts_key (f (last (order_by f xs)))"
proof -
  let ?ys = "order_by f xs"
  have ne: "?ys \<noteq> []" using assms by (metis length_0_conv length_order_by)
  have sorted: "sorted (map (\<lambda>x. ts_key (f x)) ?ys)" unfolding order_by_def by (rule sorted_sort_key)
  obtain i where i: "i < length ?ys" "?ys ! i = x"
    using assms(2) by (metis in_set_conv_nth set_order_by)
  have "map (\<lambda>x. ts_key (f x)) ?ys ! i \<le> map (\<lambda>x. ts_key (f x)) ?ys ! (length ?ys - 1)"
    using i by (intro sorted_nth_mono[OF sorted]) auto
  then show ?thesis using i ne by (simp add: last_conv_nth)
qed

text \<open>The key that signs new tokens is an active key, none of the active keys was created in
  a later stored instant, its private half decrypts, and a verifier that fetches the key
  set right afterwards finds it there, marked active.\<close>

theorem ActiveSigner_published:
  assumes "Keys_ActiveSigner E w = (Inr s, w')"
  shows "\<exists>k \<in> set (active_keys w). k_kid k = sg_kid s
    \<and> Cipher_Decrypt E (k_private k) = Inr (sg_priv s)
    \<and> (\<forall>k' \<in> set (active_keys w). ts_key (k_created k') \<le> ts_key (k_created k))
    \<and> (\<forall>ks w''. Keys_PublicJWKSKeys w' = (Inr ks, w'') \<longrightarrow> publish k \<in> set ks)"
proof -
  let ?as = "keys_with KeyActive (ikeys w)"
  have ne: "?as \<noteq> []" and dec: "Cipher_Decrypt E (k_private (last ?as)) = Inr (sg_priv s)"
    and kid: "sg_kid s = k_kid (last ?as)" and w': "ikeys w' = ikeys w"
    using assms by (auto simp: Keys_ActiveSigner_def bindE_Inr IssuerKey_ListByStatus_def query_Inr Let_def
        failE_Inr liftE_Inr returnE_Inr split: if_splits)
  have mem: "last ?as \<in> set (active_keys w)"
    using last_in_set[OF ne] by (simp add: active_keys_def)
  have "ts_key (k_created k') \<le> ts_key (k_created (last ?as))" if "k' \<in> set (active_keys w)" for k'
    using last_order_by[of "filter (\<lambda>k. k_status k = KeyActive) (ikeys w)" k' k_created] that
    by (auto simp: active_keys_def keys_with_def filter_empty_conv)
  moreover have "publish (last ?as) \<in> set ks" if "Keys_PublicJWKSKeys w' = (Inr ks, w'')" for ks w''
    using that mem w'
    by (auto simp: Keys_PublicJWKSKeys_def bindE_Inr IssuerKey_ListByStatus_def query_Inr returnE_Inr active_keys_def)
  ultimately show ?thesis using mem dec kid by (intro bexI[of _ "last ?as"]) auto
qed

definition sample_key :: "string \<Rightarrow> key_status \<Rightarrow> issuer_key" where
  "sample_key kid st = \<lparr>k_kid = kid, k_public = [1], k_private = replicate 12 0 @ [5], k_status = st,
     k_from = Some 0, k_until = None, k_created = 0, k_retired = None\<rparr>"

definition sample_keys :: key_env where
  "sample_keys = \<lparr>aead_seal = (\<lambda>n p. p), aead_open = (\<lambda>n c. Some c), keygen = (\<lambda>s. ([2], s))\<rparr>"

lemma ActiveSigner_published_witness:
  "\<exists>s w'. Keys_ActiveSigner sample_keys (empty_world\<lparr>ikeys := [sample_key ''k1'' KeyActive]\<rparr>) = (Inr s, w')
     \<and> sg_kid s = ''k1'' \<and> (\<exists>k \<in> {sample_key ''k1'' KeyActive}. k_kid k = sg_kid s)"
proof -
  let ?w = "empty_world\<lparr>ikeys := [sample_key ''k1'' KeyActive]\<rparr>"
  obtain s w' where run: "Keys_ActiveSigner sample_keys ?w = (Inr s, w')"
    by (simp add: Keys_ActiveSigner_def bindE_def IssuerKey_ListByStatus_def query_def exec_def getE_def
        empty_world_def faulty_def skip_def keys_with_def order_by_def sample_key_def Let_def liftE_def returnE_def
        Cipher_Decrypt_def nonce_size_def sample_keys_def)
  have "set (active_keys ?w) = {sample_key ''k1'' KeyActive}" by (simp add: active_keys_def sample_key_def)
  then show ?thesis using ActiveSigner_published[OF run] run by (auto simp: sample_key_def)
qed

lemma Rotate_spec_witness:
  "\<exists>kid w'. Keys_Rotate sample_keys (\<lambda>_. ''2026-01'') (empty_world\<lparr>ikeys := [sample_key ''k1'' KeyActive]\<rparr>) = (Inr kid, w')
     \<and> map k_kid (active_keys w') = [kid] \<and> ''k1'' \<in> published w'"
proof -
  let ?w = "empty_world\<lparr>ikeys := [sample_key ''k1'' KeyActive]\<rparr>"
  obtain kid w' where run: "Keys_Rotate sample_keys (\<lambda>_. ''2026-01'') ?w = (Inr kid, w')"
    by (simp add: Keys_Rotate_def bindE_def nowE_def getE_def random_bytes_def Let_def Cipher_Encrypt_def returnE_def
        IssuerKey_ListByStatus_def query_def exec_def empty_world_def faulty_def skip_def keys_with_def order_by_def
        sample_key_def IssuerKey_SetStatus_def update_rows_def modify_def set_where_def defaultKID_def RandomToken_def
        IssuerKey_Create_def insert_row_def set_key_status_def)
  have "''k1'' \<in> published ?w" by (auto simp: published_def sample_key_def)
  moreover have "map k_kid (active_keys w') = [kid] \<and> published ?w \<subseteq> published w'"
    using Rotate_spec[OF run] by (elim conjE) (intro conjI; assumption)
  ultimately show ?thesis using run by (intro exI[of _ kid] exI[of _ w']) auto
qed

lemma retirement_spares_active_witness:
  "\<exists>u w'. Keys_Retire ''k0'' (empty_world\<lparr>ikeys := [sample_key ''k0'' KeyRotating, sample_key ''k1'' KeyActive]\<rparr>) = (Inr u, w')
     \<and> active_keys w' = [sample_key ''k1'' KeyActive]"
proof -
  let ?w = "empty_world\<lparr>ikeys := [sample_key ''k0'' KeyRotating, sample_key ''k1'' KeyActive]\<rparr>"
  obtain u w' where run: "Keys_Retire ''k0'' ?w = (Inr u, w')"
    by (simp add: Keys_Retire_def bindE_def IssuerKey_Get_def query_row_def exec_def empty_world_def faulty_def
        skip_def sample_key_def nowE_def getE_def IssuerKey_SetStatus_def update_rows_def modify_def)
  have "distinct (map k_kid (ikeys ?w))" by (simp add: sample_key_def)
  from retirement_spares_active[OF this, of "''k0''"] run have "active_keys w' = active_keys ?w" by blast
  then show ?thesis using run by (auto simp: active_keys_def sample_key_def)
qed

text \<open>A rotation is not atomic: when the database fails on the statement that stores the
  new key, the old key has already been demoted, no key is active and tokens can no longer
  be signed.\<close>

theorem Rotate_failure_leaves_no_signer:
  "let w = empty_world\<lparr>ikeys := [sample_key ''k1'' KeyActive], faults := [False, False, True]\<rparr>;
       w' = snd (Keys_Rotate sample_keys (\<lambda>_. ''2026-01'') w)
   in fst (Keys_Rotate sample_keys (\<lambda>_. ''2026-01'') w) = Inl ErrDB
      \<and> active_keys w' = [] \<and> fst (Keys_ActiveSigner sample_keys w') = Inl ErrNoActiveKey"
proof -
  let ?w = "empty_world\<lparr>ikeys := [sample_key ''k1'' KeyActive], faults := [False, False, True]\<rparr>"
  obtain w' where run: "Keys_Rotate sample_keys (\<lambda>_. ''2026-01'') ?w = (Inl ErrDB, w')"
    and tab: "ikeys w' = [sample_key ''k1'' KeyRotating]" "faults w' = []"
    by (simp add: Keys_Rotate_def bindE_def nowE_def getE_def random_bytes_def Let_def Cipher_Encrypt_def returnE_def
        IssuerKey_ListByStatus_def query_def exec_def empty_world_def faulty_def skip_def keys_with_def order_by_def
        sample_key_def IssuerKey_SetStatus_def update_rows_def modify_def set_where_def defaultKID_def RandomToken_def
        IssuerKey_Create_def insert_row_def set_key_status_def)
  have "keys_with KeyActive (ikeys w') = []" by (simp add: tab keys_with_def sample_key_def order_by_def)
  then have "fst (Keys_ActiveSigner sample_keys w') = Inl ErrNoActiveKey"
    using tab by (simp add: Keys_ActiveSigner_def bindE_def IssuerKey_ListByStatus_def query_def exec_def getE_def
        failE_def)
  then show ?thesis using run tab by (simp add: Let_def active_keys_def sample_key_def)
qed

end
