(* ===== verification/Channels.thy ===== *)
theory Channels
  imports Keys
begin

text \<open>
  The channel instances: \<open>store/repo_channelconfig.go\<close>, the encrypted bot token of
  \<open>worker/telegram/channelconfig.go\<close>, and \<open>instanceToken\<close> of \<open>cmd/issuer\<close>.
  The table has the primary key \<open>channel_id\<close> and a unique index on pool, type and name; a
  violation is a driver error.
\<close>

section \<open>The repository\<close>

definition same_instance_name :: "channel_config \<Rightarrow> channel_config \<Rightarrow> bool" where
  "same_instance_name c r \<longleftrightarrow> ch_pool r = ch_pool c \<and> ch_type r = ch_type c \<and> ch_name r = ch_name c"

definition Channel_insert :: "channel_config \<Rightarrow> unit io" where
  "Channel_insert c = exec (\<lambda>w.
     if (\<exists>r \<in> set (channels w). ch_id r = ch_id c \<or> same_instance_name c r) then (Inl ErrDB, w)
     else (Inr (), channels_update (\<lambda>rs. rs @ [c]) w))"

definition merge_channel :: "channel_config \<Rightarrow> channel_config \<Rightarrow> channel_config" where
  "merge_channel c r = r\<lparr>ch_name := ch_name c, ch_config := ch_config c, ch_status := ch_status c,
     ch_updated := ch_updated c\<rparr>"

definition Channel_Upsert :: "channel_config \<Rightarrow> unit io" where
  "Channel_Upsert c = exec (\<lambda>w.
     case find (\<lambda>r. ch_id r = ch_id c) (channels w) of
       None \<Rightarrow> if (\<exists>r \<in> set (channels w). same_instance_name c r) then (Inl ErrDB, w)
               else (Inr (), channels_update (\<lambda>rs. rs @ [c]) w)
     | Some old \<Rightarrow>
         if (\<exists>r \<in> set (channels w). ch_id r \<noteq> ch_id c \<and> same_instance_name (merge_channel c old) r) then (Inl ErrDB, w)
         else (Inr (), channels_update (set_where (\<lambda>r. ch_id r = ch_id c) (merge_channel c)) w))"

definition Channel_ReplaceByType :: "channel_config \<Rightarrow> unit io" where
  "Channel_ReplaceByType c = with_tx (bindE
     (delete_rows channels channels_update (\<lambda>r. ch_pool r = ch_pool c \<and> ch_type r = ch_type c)) (\<lambda>_.
     Channel_insert c))"

text \<open>\<open>ORDER BY updated_at DESC LIMIT 1\<close>.\<close>

definition newest_channel :: "channel_config list \<Rightarrow> channel_config option" where
  "newest_channel cs = (case rev (order_by ch_updated (rev cs)) of [] \<Rightarrow> None | c # _ \<Rightarrow> Some c)"

definition Channel_GetByType :: "string \<Rightarrow> channel_config io" where
  "Channel_GetByType ctype = query_row (\<lambda>w.
     newest_channel (filter (\<lambda>r. ch_type r = ctype \<and> ch_status r = ''active'') (channels w)))"

definition Channel_Create :: "channel_config \<Rightarrow> unit io" where
  "Channel_Create c = with_tx (bindE
     (query (\<lambda>w. length (filter (same_instance_name c) (channels w)))) (\<lambda>n.
     if n > 0 then failE ErrConflict else Channel_insert c))"

definition Channel_Get :: "string \<Rightarrow> channel_config io" where
  "Channel_Get i = query_row (\<lambda>w. find (\<lambda>r. ch_id r = i) (channels w))"

definition Channel_List :: "string \<Rightarrow> channel_config list io" where
  "Channel_List pool = query (\<lambda>w.
     sort_key (\<lambda>r. (ch_type r, ch_name r)) (filter (\<lambda>r. ch_pool r = pool) (channels w)))"

definition live_channel :: "string \<Rightarrow> string \<Rightarrow> channel_config \<Rightarrow> bool" where
  "live_channel pool ctype r \<longleftrightarrow> ch_pool r = pool \<and> ch_type r = ctype \<and> ch_status r = ''active''"

definition Channel_ListActive :: "string \<Rightarrow> string \<Rightarrow> channel_config list io" where
  "Channel_ListActive pool ctype = query (\<lambda>w. sort_key ch_name (filter (live_channel pool ctype) (channels w)))"

definition Channel_SetStatus :: "string \<Rightarrow> string \<Rightarrow> instant \<Rightarrow> unit io" where
  "Channel_SetStatus i status now = update_rows channels_update (\<lambda>r. ch_id r = i)
     (\<lambda>r. r\<lparr>ch_status := status, ch_updated := now\<rparr>)"

definition Channel_Delete :: "string \<Rightarrow> unit io" where
  "Channel_Delete i = bindE (delete_rows channels channels_update (\<lambda>r. ch_id r = i)) (\<lambda>_. returnE ())"

section \<open>The stored bot token\<close>

record tg_config =
  tg_token :: string
  tg_user :: string

definition tg_json :: "tg_config \<Rightarrow> raw_message" where
  "tg_json c = RawDoc (JObj ([(''bot_token_enc'', JStr (tg_token c))]
     @ (if tg_user c \<noteq> '''' then [(''bot_username'', JStr (tg_user c))] else [])))"

definition decode_tg :: "raw_message \<Rightarrow> tg_config option" where
  "decode_tg raw = (case raw of
       RawDoc JNull \<Rightarrow> Some \<lparr>tg_token = '''', tg_user = ''''\<rparr>
     | RawDoc (JObj kvs) \<Rightarrow>
         (case (json_string (json_field ''bot_token_enc'' kvs), json_string (json_field ''bot_username'' kvs)) of
            (Some t, Some u) \<Rightarrow> Some \<lparr>tg_token = t, tg_user = u\<rparr>
          | _ \<Rightarrow> None)
     | _ \<Rightarrow> None)"

definition EncodeConfig :: "key_env \<Rightarrow> string \<Rightarrow> string \<Rightarrow> raw_message io" where
  "EncodeConfig E plain username =
     bindE (Cipher_Encrypt E (bytes_of plain)) (\<lambda>enc.
     returnE (tg_json \<lparr>tg_token = hex_encode enc, tg_user = username\<rparr>))"

definition EncodeToken :: "key_env \<Rightarrow> string \<Rightarrow> raw_message io" where
  "EncodeToken E plain = EncodeConfig E plain ''''"

definition DecodeUsername :: "raw_message \<Rightarrow> string" where
  "DecodeUsername raw = (case decode_tg raw of None \<Rightarrow> '''' | Some c \<Rightarrow> tg_user c)"

definition DecodeToken :: "key_env \<Rightarrow> raw_message \<Rightarrow> string result" where
  "DecodeToken E raw = (case decode_tg raw of
       None \<Rightarrow> Inl (ErrMsg ''encoding/json'')
     | Some c \<Rightarrow>
         if tg_token c = '''' then Inr ''''
         else (case hex_decode (tg_token c) of
             None \<Rightarrow> Inl (ErrMsg ''encoding/hex'')
           | Some blob \<Rightarrow> (case Cipher_Decrypt E blob of
               Inl e \<Rightarrow> Inl e
             | Inr plain \<Rightarrow> Inr (string_of plain))))"

definition instanceToken :: "key_env option \<Rightarrow> channel_config \<Rightarrow> string result" where
  "instanceToken cipher inst = (case cipher of
       None \<Rightarrow> Inl (ErrMsg ''field cipher unavailable'')
     | Some E \<Rightarrow> (case DecodeToken E (ch_config inst) of
         Inl e \<Rightarrow> Inl e
       | Inr tok \<Rightarrow> if tok = '''' then Inl (ErrMsg ''instance has no bot token'') else Inr tok))"

section \<open>Lemmas\<close>

lemma decode_tg_json: "decode_tg (tg_json c) = Some c"
  by (cases c) (auto simp: decode_tg_def tg_json_def json_string_def json_field_def to_lower_def char_lower_def)

lemma Cipher_Encrypt_nonempty: "Cipher_Encrypt E p w = (Inr blob, w') \<Longrightarrow> blob \<noteq> []"
  by (auto simp: Cipher_Encrypt_def bindE_Inr random_bytes_def returnE_Inr nonce_size_def)

text \<open>Instances are addressed by id and, within a pool and type, by name.\<close>

definition channels_ok :: "channel_config list \<Rightarrow> bool" where
  "channels_ok cs \<longleftrightarrow> distinct (map ch_id cs) \<and> distinct (map (\<lambda>r. (ch_pool r, ch_type r, ch_name r)) cs)"

definition keeps_channels :: "world \<Rightarrow> world \<Rightarrow> bool" where
  "keeps_channels w w' \<longleftrightarrow> (channels_ok (channels w) \<longrightarrow> channels_ok (channels w'))"

interpretation kept: io_rel keeps_channels
  by unfold_locales (simp_all add: keeps_channels_def)

lemma distinct_map_filter_key: "distinct (map f xs) \<Longrightarrow> distinct (map f (filter P xs))"
  by (induction xs) auto

lemma kept_delete: "moves keeps_channels (delete_rows channels channels_update P)"
  by (rule kept.delete_rows) (simp add: keeps_channels_def channels_ok_def distinct_map_filter_key)

lemma kept_insert: "moves keeps_channels (Channel_insert c)"
  unfolding Channel_insert_def
  by (rule kept.exec) (auto simp: keeps_channels_def channels_ok_def same_instance_name_def)

lemma kept_create: "moves keeps_channels (Channel_Create c)"
  unfolding Channel_Create_def by (intro kept.tx kept.bind kept.query moves_when kept.pure_steps kept_insert)

lemma kept_replace: "moves keeps_channels (Channel_ReplaceByType c)"
  unfolding Channel_ReplaceByType_def by (intro kept.tx kept.bind kept_delete kept_insert)

lemma kept_status: "moves keeps_channels (Channel_SetStatus i st now)"
  unfolding Channel_SetStatus_def
  by (rule kept.update_rows) (simp add: keeps_channels_def channels_ok_def set_where_key)

lemma kept_remove: "moves keeps_channels (Channel_Delete i)"
  unfolding Channel_Delete_def by (intro kept.bind kept.pure_steps kept_delete)

lemma merged_channels_ok:
  assumes ok: "channels_ok cs" and old: "old \<in> set cs" "ch_id old = ch_id c"
    and free: "\<not> (\<exists>r \<in> set cs. ch_id r \<noteq> ch_id c \<and> same_instance_name (merge_channel c old) r)"
  shows "channels_ok (set_where (\<lambda>r. ch_id r = ch_id c) (merge_channel c) cs)"
proof -
  let ?cs = "set_where (\<lambda>r. ch_id r = ch_id c) (merge_channel c) cs"
  let ?key = "\<lambda>r. (ch_pool r, ch_type r, ch_name r)"
  have ids: "map ch_id ?cs = map ch_id cs" by (rule set_where_key) (simp add: merge_channel_def)
  have only: "r = old" if "r \<in> set cs" "ch_id r = ch_id c" for r
    using ok that old by (auto simp: channels_ok_def distinct_map inj_on_def)
  have "inj_on (\<lambda>r. ?key (if ch_id r = ch_id c then merge_channel c r else r)) (set cs)"
  proof (rule inj_onI)
    fix x y assume x: "x \<in> set cs" and y: "y \<in> set cs"
      and eq: "?key (if ch_id x = ch_id c then merge_channel c x else x)
        = ?key (if ch_id y = ch_id c then merge_channel c y else y)"
    show "x = y"
    proof (cases "ch_id x = ch_id c"; cases "ch_id y = ch_id c")
      assume "ch_id x = ch_id c" "ch_id y = ch_id c"
      then show ?thesis using only x y by metis
    next
      assume "ch_id x = ch_id c" "ch_id y \<noteq> ch_id c"
      then show ?thesis using only[OF x] eq free y by (auto simp: same_instance_name_def)
    next
      assume "ch_id x \<noteq> ch_id c" "ch_id y = ch_id c"
      then show ?thesis using only[OF y] eq free x by (auto simp: same_instance_name_def)
    next
      assume "ch_id x \<noteq> ch_id c" "ch_id y \<noteq> ch_id c"
      then show ?thesis using eq x y ok by (auto simp: channels_ok_def distinct_map inj_on_def)
    qed
  qed
  moreover have "distinct cs" using ok by (auto simp: channels_ok_def distinct_map)
  ultimately have "distinct (map ?key ?cs)"
    unfolding set_where_def map_map comp_def by (simp add: distinct_map)
  then show ?thesis using ids ok by (simp add: channels_ok_def)
qed

lemma kept_upsert: "moves keeps_channels (Channel_Upsert c)"
  unfolding Channel_Upsert_def
proof (rule kept.exec)
  fix w
  show "keeps_channels w (snd (case find (\<lambda>r. ch_id r = ch_id c) (channels w) of
       None \<Rightarrow> if (\<exists>r \<in> set (channels w). same_instance_name c r) then (Inl ErrDB, w)
               else (Inr (), channels_update (\<lambda>rs. rs @ [c]) w)
     | Some old \<Rightarrow>
         if (\<exists>r \<in> set (channels w). ch_id r \<noteq> ch_id c \<and> same_instance_name (merge_channel c old) r) then (Inl ErrDB, w)
         else (Inr (), channels_update (set_where (\<lambda>r. ch_id r = ch_id c) (merge_channel c)) w)))"
  proof (cases "find (\<lambda>r. ch_id r = ch_id c) (channels w)")
    case None
    then have "\<forall>r \<in> set (channels w). ch_id r \<noteq> ch_id c" by (auto simp: find_None_iff)
    then show ?thesis unfolding None option.case
      by (auto simp: keeps_channels_def channels_ok_def same_instance_name_def)
  next
    case (Some old)
    then have old: "old \<in> set (channels w)" "ch_id old = ch_id c" by (auto dest: find_Some_mem)
    then show ?thesis using Some merged_channels_ok[OF _ old] by (simp add: keeps_channels_def)
  qed
qed

lemma EncodeConfig_decodes:
  assumes run: "EncodeConfig E plain username w = (Inr cfg, w')"
    and aead: "\<And>n p. aead_open E n (aead_seal E n p) = Some p"
  shows "DecodeToken E cfg = Inr plain \<and> DecodeUsername cfg = username
    \<and> (\<exists>n. length n = nonce_size
         \<and> cfg = tg_json \<lparr>tg_token = hex_encode (n @ aead_seal E n (bytes_of plain)), tg_user = username\<rparr>)"
proof -
  obtain blob v where enc: "Cipher_Encrypt E (bytes_of plain) w = (Inr blob, v)"
      and cfg: "cfg = tg_json \<lparr>tg_token = hex_encode blob, tg_user = username\<rparr>"
    using run by (auto simp: EncodeConfig_def bindE_Inr returnE_Inr)
  have ne: "hex_encode blob \<noteq> ''''" using Cipher_Encrypt_nonempty[OF enc] by (cases blob) auto
  have "DecodeToken E cfg = Inr plain"
    using Cipher_roundtrip[OF aead enc] ne by (simp add: DecodeToken_def cfg decode_tg_json)
  moreover have "DecodeUsername cfg = username" by (simp add: DecodeUsername_def cfg decode_tg_json)
  moreover have "\<exists>n. length n = nonce_size \<and> blob = n @ aead_seal E n (bytes_of plain)"
    using enc by (intro exI[of _ "map (entropy w) [draws w ..< draws w + nonce_size]"])
      (simp add: Cipher_Encrypt_def bindE_Inr random_bytes_def returnE_Inr)
  ultimately show ?thesis using cfg by auto
qed

section \<open>Guarantees\<close>

text \<open>C33: A bot token that was stored reads back as it was, with the public user name, and the
  instance it belongs to yields it; only its ciphertext is in the row.\<close>

theorem token_roundtrip:
  assumes run: "EncodeConfig E plain username w = (Inr cfg, w')" and some: "plain \<noteq> ''''"
    and aead: "\<And>n p. aead_open E n (aead_seal E n p) = Some p"
  shows "DecodeToken E cfg = Inr plain \<and> DecodeUsername cfg = username
    \<and> (\<forall>inst. ch_config inst = cfg \<longrightarrow> instanceToken (Some E) inst = Inr plain)
    \<and> (\<exists>n. length n = nonce_size
         \<and> cfg = tg_json \<lparr>tg_token = hex_encode (n @ aead_seal E n (bytes_of plain)), tg_user = username\<rparr>)"
  using EncodeConfig_decodes[OF run aead] some by (auto simp: instanceToken_def)

lemma token_roundtrip_witness:
  "\<exists>cfg w'. EncodeConfig sample_keys ''12:ab'' ''bot'' empty_world = (Inr cfg, w')
     \<and> DecodeToken sample_keys cfg = Inr ''12:ab'' \<and> DecodeUsername cfg = ''bot''"
proof -
  obtain cfg w' where run: "EncodeConfig sample_keys ''12:ab'' ''bot'' empty_world = (Inr cfg, w')"
    by (simp add: EncodeConfig_def bindE_def Cipher_Encrypt_def random_bytes_def returnE_def)
  have "aead_open sample_keys n (aead_seal sample_keys n p) = Some p" for n p by (simp add: sample_keys_def)
  then show ?thesis using token_roundtrip[OF run] run by blast
qed

text \<open>Whatever the handlers do to the instances, and whatever statements fail, instance ids stay
  unique and no two instances of a pool and type share a name, so an address resolves to one
  instance.\<close>

theorem channels_stay_addressable:
  assumes "channels_ok (channels w)"
    and "m \<in> {Channel_Create c, Channel_Upsert c, Channel_ReplaceByType c, Channel_SetStatus i st now, Channel_Delete i}"
  shows "channels_ok (channels (snd (m w)))"
  using assms kept_create[of c] kept_upsert[of c] kept_replace[of c] kept_status[of i st now] kept_remove[of i]
  by (auto simp: moves_def keeps_channels_def)

definition sample_channel :: "string \<Rightarrow> string \<Rightarrow> channel_config" where
  "sample_channel i name = \<lparr>ch_id = i, ch_pool = ''p'', ch_type = ''telegram'', ch_name = name,
     ch_config = RawDoc (JObj []), ch_status = ''active'', ch_created = 0, ch_updated = 0\<rparr>"

lemma channels_stay_addressable_witness:
  "let w = empty_world\<lparr>channels := [sample_channel ''c1'' ''main'', sample_channel ''c2'' ''alt'']\<rparr>;
       w' = snd (Channel_Upsert (sample_channel ''c2'' ''news'') w)
   in channels_ok (channels w') \<and> map ch_name (channels w') = [''main'', ''news'']"
proof -
  let ?w = "empty_world\<lparr>channels := [sample_channel ''c1'' ''main'', sample_channel ''c2'' ''alt'']\<rparr>"
  have "channels_ok (channels ?w)" by (simp add: channels_ok_def sample_channel_def)
  then have "channels_ok (channels (snd (Channel_Upsert (sample_channel ''c2'' ''news'') ?w)))"
    by (rule channels_stay_addressable) blast
  moreover have "map ch_name (channels (snd (Channel_Upsert (sample_channel ''c2'' ''news'') ?w))) = [''main'', ''news'']"
    by (simp add: Channel_Upsert_def exec_def empty_world_def faulty_def skip_def sample_channel_def set_where_def
        merge_channel_def same_instance_name_def)
  ultimately show ?thesis by (simp add: Let_def)
qed

end
