(* ===== verification/Push.thy ===== *)
theory Push
  imports Reconcile Channels "HOL-Library.Sublist"
begin

text \<open>
  Broadcasts: \<open>store/repo_pushjob.go\<close>, \<open>repo_deliverylog.go\<close>, \<open>worker/push/push.go\<close> and
  \<open>worker.go\<close>, and the routing of a job to an instance's bot in \<open>cmd/issuer\<close>.
  What lies outside the process is an \<open>outside\<close> action: the transport answers with an error
  text or success, and the context says whether the process is shutting down; both may
  answer differently each time. Rates and back-off times only delay. The endless loop of the
  worker is given as one turn.
\<close>

section \<open>Repositories\<close>

definition Job_Create :: "push_job \<Rightarrow> unit io" where
  "Job_Create j = insert_row jobs jobs_update j_id j"

definition Job_Get :: "string \<Rightarrow> push_job io" where
  "Job_Get i = query_row (\<lambda>w. find (\<lambda>j. j_id j = i) (jobs w))"

definition Job_ListByPool :: "string \<Rightarrow> nat \<Rightarrow> push_job list io" where
  "Job_ListByPool pool limit = query (\<lambda>w.
     take limit (rev (order_by j_created (rev (filter (\<lambda>j. j_pool j = pool) (jobs w))))))"

definition due :: "instant \<Rightarrow> push_job \<Rightarrow> bool" where
  "due now j \<longleftrightarrow> j_status j = PushScheduled
     \<and> (case j_scheduled j of None \<Rightarrow> True | Some t \<Rightarrow> ts_le t now)"

definition Job_ListScheduled :: "instant \<Rightarrow> nat \<Rightarrow> push_job list io" where
  "Job_ListScheduled now limit = query (\<lambda>w. take limit (order_by j_created (filter (due now) (jobs w))))"

definition Job_SetStatus :: "string \<Rightarrow> push_status \<Rightarrow> unit io" where
  "Job_SetStatus i st = update_rows jobs_update (\<lambda>j. j_id j = i) (\<lambda>j. j\<lparr>j_status := st\<rparr>)"

definition Delivery_Append :: "delivery \<Rightarrow> unit io" where
  "Delivery_Append d = insert_row deliveries deliveries_update d_id d"

definition Delivery_CountByStatus :: "string \<Rightarrow> delivery_status \<Rightarrow> nat io" where
  "Delivery_CountByStatus job st = query (\<lambda>w.
     length (filter (\<lambda>d. d_job d = job \<and> d_status d = st) (deliveries w)))"

section \<open>The scheduler\<close>

type_synonym 'a outside = "world \<Rightarrow> 'a \<times> world"

definition ask :: "'a outside \<Rightarrow> 'a io" where
  "ask m w = (Inr (fst (m w)), snd (m w))"

type_synonym sender = "string \<Rightarrow> string \<Rightarrow> string option outside"

record scheduler =
  ps_sender :: sender
  ps_route :: "(push_job \<Rightarrow> sender io) option"
  ps_max :: nat
  ps_stop :: "bool outside"

definition NewScheduler :: "sender \<Rightarrow> (push_job \<Rightarrow> sender io) option \<Rightarrow> int \<Rightarrow> bool outside \<Rightarrow> scheduler" where
  "NewScheduler sender route maxAttempts stop = \<lparr>ps_sender = sender, ps_route = route,
     ps_max = (if maxAttempts \<le> 0 then 3 else nat maxAttempts), ps_stop = stop\<rparr>"

definition matches :: "push_job \<Rightarrow> subscription \<Rightarrow> bool" where
  "matches job sess \<longleftrightarrow>
     \<not> (j_tier job \<noteq> None \<and> j_tier job \<noteq> Some '''' \<and> Some (s_tier sess) \<noteq> j_tier job)
     \<and> \<not> (j_ent job \<noteq> None \<and> j_ent job \<noteq> Some '''' \<and> the (j_ent job) \<notin> set (s_ents sess))
     \<and> \<not> (j_topic job \<noteq> None \<and> j_topic job \<noteq> Some '''' \<and> the (j_topic job) \<notin> set (s_topics sess))"

definition cancelled_text :: string where "cancelled_text = ''context canceled''"

text \<open>The retry loop: \<open>left\<close> attempts remain, the next has the number \<open>attempt\<close>.\<close>

fun deliver_loop :: "bool outside \<Rightarrow> string option outside \<Rightarrow> nat \<Rightarrow> nat \<Rightarrow> (int \<times> string option) io" where
  "deliver_loop stop send 0 attempt = returnE (int attempt - 1, None)"
| "deliver_loop stop send (Suc left) attempt =
     bindE (ask send) (\<lambda>r. case r of
         None \<Rightarrow> returnE (int attempt, None)
       | Some e \<Rightarrow>
           if left = 0 then returnE (int attempt, Some e)
           else bindE (ask stop) (\<lambda>s.
             if s then returnE (int attempt, Some cancelled_text)
             else deliver_loop stop send left (attempt + 1)))"

definition deliver :: "scheduler \<Rightarrow> sender \<Rightarrow> string \<Rightarrow> string \<Rightarrow> (int \<times> string option) io" where
  "deliver P send chat txt =
     bindE (ask (ps_stop P)) (\<lambda>s.
     if s then returnE (0, Some cancelled_text)
     else deliver_loop (ps_stop P) (send chat txt) (ps_max P) 1)"

record push_result =
  pr_sent :: nat
  pr_failed :: nat
  pr_skipped :: nat

definition job_text :: "push_job \<Rightarrow> string" where
  "job_text job = j_title job @ [CHR 0x0A] @ j_content job"

definition log_delivery :: "push_job \<Rightarrow> subscription \<Rightarrow> int \<Rightarrow> string option \<Rightarrow> unit io" where
  "log_delivery job sess attempts e =
     bindE RandomID (\<lambda>i.
     bindE nowE (\<lambda>now.
     ignoreE (Delivery_Append \<lparr>d_id = i, d_job = j_id job, d_session = s_id sess, d_ctype = j_ctype job,
       d_user = s_user sess, d_status = (if e = None then DeliverySent else DeliveryFailed),
       d_retry = attempts - 1, d_error = e, d_sent = Some now\<rparr>)))"

definition counted :: "string option \<Rightarrow> push_result \<Rightarrow> push_result" where
  "counted e res = (if e = None then res\<lparr>pr_sent := pr_sent res + 1\<rparr> else res\<lparr>pr_failed := pr_failed res + 1\<rparr>)"

fun push_loop :: "scheduler \<Rightarrow> sender \<Rightarrow> push_job \<Rightarrow> push_result \<Rightarrow> subscription list \<Rightarrow> push_result io" where
  "push_loop P send job res [] = returnE res"
| "push_loop P send job res (x # xs) =
     bindE (ask (ps_stop P)) (\<lambda>s.
     if s then returnE res
     else if \<not> matches job x then push_loop P send job res xs
     else
     bindE (deliver P send (s_user x) (job_text job)) (\<lambda>(attempts, e).
     bindE (log_delivery job x attempts e) (\<lambda>_.
     push_loop P send job (counted e res) xs)))"

definition candidates :: "push_job \<Rightarrow> subscription list io" where
  "candidates job = (case j_channel job of
       Some c \<Rightarrow> if c \<noteq> '''' then Sub_ListActiveByInstance c
                  else Sub_ListActiveByChannel (j_pool job) (j_ctype job)
     | None \<Rightarrow> Sub_ListActiveByChannel (j_pool job) (j_ctype job))"

definition final_status :: "push_result \<Rightarrow> push_status" where
  "final_status res = (if pr_sent res = 0 \<and> pr_failed res > 0 then PushFailed else PushDone)"

text \<open>After the job has been marked as running: resolve the transport, send, finish.\<close>

definition push_body :: "scheduler \<Rightarrow> push_job \<Rightarrow> push_result io" where
  "push_body P job =
     bindE (case ps_route P of
         None \<Rightarrow> returnE (ps_sender P)
       | Some route \<Rightarrow> tryE (route job) (\<lambda>r. case r of
           Inl e \<Rightarrow> bindE (ignoreE (Job_SetStatus (j_id job) PushFailed)) (\<lambda>_. failE e)
         | Inr s \<Rightarrow> returnE s)) (\<lambda>send.
     bindE (candidates job) (\<lambda>cs.
     bindE (push_loop P send job \<lparr>pr_sent = 0, pr_failed = 0, pr_skipped = 0\<rparr> cs) (\<lambda>res.
     bindE (Job_SetStatus (j_id job) (final_status res)) (\<lambda>_.
     returnE res))))"

definition Push_Run :: "scheduler \<Rightarrow> push_job \<Rightarrow> push_result io" where
  "Push_Run P job = bindE (Job_SetStatus (j_id job) PushRunning) (\<lambda>_. push_body P job)"

section \<open>The worker\<close>

definition batch :: nat where "batch = 50"

fun drain :: "scheduler \<Rightarrow> push_job list \<Rightarrow> unit io" where
  "drain P [] = returnE ()"
| "drain P (j # js) =
     bindE (ask (ps_stop P)) (\<lambda>s.
     if s then returnE ()
     else bindE (ignoreE (Push_Run P j)) (\<lambda>_. drain P js))"

definition push_turn :: "scheduler \<Rightarrow> unit io" where
  "push_turn P =
     bindE nowE (\<lambda>now.
     tryE (Job_ListScheduled now batch) (\<lambda>r. drain P (case r of Inl _ \<Rightarrow> [] | Inr js \<Rightarrow> js)))"

text \<open>\<open>pushRoute\<close>: an instance's own bot, else the default one; \<open>chat_bot tok\<close> is the transport of a
  token.\<close>

definition pushRoute :: "key_env option \<Rightarrow> (string \<Rightarrow> sender) \<Rightarrow> sender \<Rightarrow> push_job \<Rightarrow> sender io" where
  "pushRoute cipher bot_of defaultSender job = (case j_channel job of
       None \<Rightarrow> returnE defaultSender
     | Some c \<Rightarrow>
         if c = '''' then returnE defaultSender
         else bindE (Channel_Get c) (\<lambda>inst.
              bindE (liftE (instanceToken cipher inst)) (\<lambda>tok. returnE (bot_of tok))))"

definition pushDefaultToken :: "key_env option \<Rightarrow> string io" where
  "pushDefaultToken cipher = (case cipher of
       None \<Rightarrow> returnE ''''
     | Some E \<Rightarrow> tryE (Channel_GetByType ''telegram'') (\<lambda>r. case r of
         Inl _ \<Rightarrow> returnE ''''
       | Inr c \<Rightarrow> returnE (case DecodeToken E (ch_config c) of Inl _ \<Rightarrow> '''' | Inr tok \<Rightarrow> tok)))"

section \<open>The outside\<close>

text \<open>An outside action that changes nothing in the database, though it may send messages, and
  the contract of a scheduler whose transport and context are such.\<close>

definition tape_only :: "'a outside \<Rightarrow> bool" where
  "tape_only m \<longleftrightarrow> (\<forall>w. \<exists>d ms. snd (m w) = w\<lparr>draws := d, outbox := ms\<rparr>)"

lemma ask_moves: "unheard R \<Longrightarrow> tape_only m \<Longrightarrow> moves R (ask m)"
proof -
  assume R: "unheard R" and m: "tape_only m"
  have "R w (snd (m w))" for w
  proof -
    obtain d ms where "snd (m w) = w\<lparr>draws := d, outbox := ms\<rparr>" using m unfolding tape_only_def by blast
    moreover have "R w (w\<lparr>faults := faults w, draws := d\<rparr>)" by (rule io_rel.env[OF unheard.axioms(1)[OF R]])
    moreover have "R (w\<lparr>faults := faults w, draws := d\<rparr>) (w\<lparr>faults := faults w, draws := d\<rparr>\<lparr>outbox := ms\<rparr>)"
      by (rule unheard.sent[OF R])
    ultimately show ?thesis using io_rel.trans[OF unheard.axioms(1)[OF R]] by fastforce
  qed
  then show ?thesis by (simp add: moves_def ask_def)
qed

text \<open>The position on the tape of outside inputs decides the answer.\<close>

definition heard :: "(nat \<Rightarrow> 'a) \<Rightarrow> 'a outside" where
  "heard f w = (f (draws w), w\<lparr>draws := draws w + 1\<rparr>)"

lemma tape_heard [simp]: "tape_only (heard f)"
proof -
  have "snd (heard f w) = w\<lparr>draws := draws w + 1, outbox := outbox w\<rparr>" for w by (simp add: heard_def)
  then show ?thesis unfolding tape_only_def by blast
qed

text \<open>A transport, with a record of what it was handed: the chat, the text and its answer.\<close>

definition noted :: "string \<Rightarrow> string \<Rightarrow> string option outside \<Rightarrow> string option outside" where
  "noted chat txt m w = (case m w of (e, w') \<Rightarrow> (e, w'\<lparr>outbox := outbox w' @ [(chat, txt, e)]\<rparr>))"

lemma tape_noted [simp]: "tape_only m \<Longrightarrow> tape_only (noted chat txt m)"
proof -
  assume m: "tape_only m"
  have "\<exists>d ms. snd (noted chat txt m w) = w\<lparr>draws := d, outbox := ms\<rparr>" for w
  proof -
    obtain d ms where "snd (m w) = w\<lparr>draws := d, outbox := ms\<rparr>" using m unfolding tape_only_def by blast
    then show ?thesis unfolding noted_def by (cases "m w") auto
  qed
  then show ?thesis unfolding tape_only_def by blast
qed

locale broadcasting =
  fixes P :: scheduler and send :: sender
  assumes send_tape: "tape_only (send chat txt)"
    and stop_tape: "tape_only (ps_stop P)"
begin

lemma deliver_loop_moves: "unheard R \<Longrightarrow> moves R (deliver_loop (ps_stop P) (send chat txt) left attempt)"
proof (induction left arbitrary: attempt)
  case 0
  then show ?case by (simp add: io_rel.pure_steps unheard.axioms(1))
next
  case (Suc left)
  note R = unheard.axioms(1)[OF Suc.prems]
  show ?case using Suc
    by (auto intro!: io_rel.bind[OF R] ask_moves[OF Suc.prems] send_tape stop_tape io_rel.pure_steps[OF R]
        split: option.splits)
qed

lemma deliver_moves: "unheard R \<Longrightarrow> moves R (deliver P send chat txt)"
  unfolding deliver_def
  by (intro io_rel.bind ask_moves stop_tape moves_when io_rel.pure_steps deliver_loop_moves unheard.axioms(1))

text \<open>What a loop over the candidates does is what its logging does.\<close>

lemma push_loop_moves:
  assumes U: "unheard R" and log: "\<And>x a e. x \<in> set xs \<Longrightarrow> matches job x \<Longrightarrow> moves R (log_delivery job x a e)"
  shows "moves R (push_loop P send job res xs)"
  using log
proof (induction xs arbitrary: res)
  case Nil
  then show ?case by (simp add: io_rel.pure_steps unheard.axioms(1)[OF U])
next
  case (Cons x xs)
  note R = unheard.axioms(1)[OF U]
  have tail: "moves R (push_loop P send job res xs)" for res using Cons by simp
  have here: "moves R (log_delivery job x a e)" if "matches job x" for a e using Cons.prems that by simp
  show ?case
    by (auto intro!: io_rel.bind[OF R] ask_moves[OF U] stop_tape io_rel.pure_steps[OF R] deliver_moves[OF U] tail here)
qed

end

definition deployed :: "(nat \<Rightarrow> bool) \<Rightarrow> nat \<Rightarrow> scheduler" where
  "deployed halt n = \<lparr>ps_sender = (\<lambda>_ _. heard (\<lambda>_. None)), ps_route = None, ps_max = n, ps_stop = heard halt\<rparr>"

definition chat_bot :: "(nat \<Rightarrow> string \<Rightarrow> string \<Rightarrow> string option) \<Rightarrow> sender" where
  "chat_bot f chat txt = noted chat txt (heard (\<lambda>i. f i chat txt))"

interpretation telegram_bot: broadcasting "deployed halt n" "chat_bot f" for halt n f
  by unfold_locales (simp_all add: deployed_def chat_bot_def)

section \<open>What a delivery does\<close>

lemma bot_run: "ask (chat_bot h chat txt) w = (Inr (h (draws w) chat txt),
    w\<lparr>draws := draws w + 1, outbox := outbox w @ [(chat, txt, h (draws w) chat txt)]\<rparr>)"
  by (simp add: ask_def chat_bot_def noted_def heard_def)

lemma heard_run: "ask (heard f) w = (Inr (f (draws w)), w\<lparr>draws := draws w + 1\<rparr>)"
  by (simp add: ask_def heard_def)

lemma deliver_loop_spec:
  "0 < left \<Longrightarrow> fst (deliver_loop (heard (\<lambda>_. False)) (chat_bot h chat txt) left attempt w) =
     (let d = draws w; f = \<lambda>i. h i chat txt; oks = filter (\<lambda>k. f (d + 2 * k) = None) [0 ..< left]
      in case oks of
           k # _ \<Rightarrow> Inr (int (attempt + k), None)
         | [] \<Rightarrow> Inr (int (attempt + left - 1), f (d + 2 * (left - 1))))"
proof (induction left arbitrary: attempt w)
  case (Suc left)
  let ?f = "\<lambda>i. h i chat txt"
  have up: "[0 ..< Suc left] = 0 # map Suc [0 ..< left]" by (metis map_Suc_upt upt_conv_Cons zero_less_Suc)
  show ?case
  proof (cases "?f (draws w)")
    case None
    then show ?thesis by (simp add: bindE_def bot_run returnE_def up Let_def del: upt_Suc)
  next
    case (Some e)
    show ?thesis
    proof (cases "left = 0")
      case True
      then show ?thesis using Some by (simp add: bindE_def bot_run returnE_def Let_def)
    next
      case False
      let ?v = "w\<lparr>outbox := outbox w @ [(chat, txt, Some e)], draws := draws w + 2\<rparr>"
      have step: "deliver_loop (heard (\<lambda>_. False)) (chat_bot h chat txt) (Suc left) attempt w
          = deliver_loop (heard (\<lambda>_. False)) (chat_bot h chat txt) left (attempt + 1) ?v"
        using Some False by (simp add: bindE_def bot_run heard_run)
      have oks: "filter (\<lambda>k. ?f (draws w + 2 * k) = None) [0 ..< Suc left]
          = map Suc (filter (\<lambda>k. ?f (draws ?v + 2 * k) = None) [0 ..< left])"
        using Some unfolding up by (simp add: filter_map comp_def)
      show ?thesis unfolding step Let_def oks using Suc.IH[of "attempt + 1" ?v] False
        by (cases "filter (\<lambda>k. ?f (draws ?v + 2 * k) = None) [0 ..< left]"; cases left)
           (auto simp: Let_def algebra_simps)
    qed
  qed
qed simp

text \<open>What is sent to one recipient by a process that is not stopped: the same message again while
  the transport refuses it and attempts are left.\<close>

definition tried :: "nat \<Rightarrow> string \<Rightarrow> string \<Rightarrow> (string \<times> string \<times> string option) list \<Rightarrow> bool" where
  "tried n chat txt ms \<longleftrightarrow> ms \<noteq> [] \<and> length ms \<le> n \<and> (\<forall>m \<in> set ms. fst m = chat \<and> fst (snd m) = txt)
     \<and> (\<forall>m \<in> set (butlast ms). snd (snd m) \<noteq> None) \<and> (snd (snd (last ms)) \<noteq> None \<longrightarrow> length ms = n)"

lemma deliver_loop_tried:
  "0 < left \<Longrightarrow> \<exists>a d ms. deliver_loop (heard (\<lambda>_. False)) (chat_bot h chat txt) left attempt w
      = (Inr (a, snd (snd (last ms))), w\<lparr>draws := d, outbox := outbox w @ ms\<rparr>) \<and> tried left chat txt ms"
proof (induction left arbitrary: attempt w)
  case (Suc left)
  let ?e = "h (draws w) chat txt" and ?v = "w\<lparr>draws := draws w + 1, outbox := outbox w @ [(chat, txt, h (draws w) chat txt)]\<rparr>"
  show ?case
  proof (cases "?e = None \<or> left = 0")
    case True
    then have "deliver_loop (heard (\<lambda>_. False)) (chat_bot h chat txt) (Suc left) attempt w = (Inr (int attempt, ?e), ?v)"
      by (auto simp: bindE_def bot_run returnE_def split: option.split)
    then show ?thesis using True
      by (intro exI[of _ "int attempt"] exI[of _ "draws w + 1"] exI[of _ "[(chat, txt, ?e)]"]) (auto simp: tried_def)
  next
    case False
    let ?u = "?v\<lparr>draws := draws w + 2\<rparr>"
    obtain a d ms where rest: "deliver_loop (heard (\<lambda>_. False)) (chat_bot h chat txt) left (attempt + 1) ?u
        = (Inr (a, snd (snd (last ms))), ?u\<lparr>draws := d, outbox := outbox ?u @ ms\<rparr>)" "tried left chat txt ms"
      using Suc.IH[of "attempt + 1" ?u] False by blast
    have "deliver_loop (heard (\<lambda>_. False)) (chat_bot h chat txt) (Suc left) attempt w
        = deliver_loop (heard (\<lambda>_. False)) (chat_bot h chat txt) left (attempt + 1) ?u"
      using False by (auto simp: bindE_def bot_run heard_run)
    then show ?thesis using rest False
      by (intro exI[of _ a] exI[of _ d] exI[of _ "(chat, txt, ?e) # ms"]) (auto simp: tried_def)
  qed
qed simp

section \<open>The deployed scheduler\<close>

text \<open>The wiring of \<open>cmd/issuer\<close>: \<open>f\<close> is the default bot, \<open>g tok\<close> the bot of a token.\<close>

definition wired_scheduler :: "key_env option \<Rightarrow> (nat \<Rightarrow> string \<Rightarrow> string \<Rightarrow> string option)
    \<Rightarrow> (string \<Rightarrow> nat \<Rightarrow> string \<Rightarrow> string \<Rightarrow> string option) \<Rightarrow> (nat \<Rightarrow> bool) \<Rightarrow> scheduler" where
  "wired_scheduler cipher f g halt =
     NewScheduler (chat_bot f) (Some (pushRoute cipher (\<lambda>tok. chat_bot (g tok)) (chat_bot f))) 0 (heard halt)"

lemma wired_scheduler_sel [simp]:
  "ps_route (wired_scheduler cipher f g halt) = Some (pushRoute cipher (\<lambda>tok. chat_bot (g tok)) (chat_bot f))"
  "ps_stop (wired_scheduler cipher f g halt) = heard halt" "ps_max (wired_scheduler cipher f g halt) = 3"
  by (simp_all add: wired_scheduler_def NewScheduler_def)

interpretation wired_push: broadcasting "wired_scheduler cipher f g halt" "chat_bot h" for cipher f g halt h
  by unfold_locales (simp_all add: chat_bot_def)

lemma pushRoute_moves: "io_rel R \<Longrightarrow> moves R (pushRoute cipher b d job)"
  unfolding pushRoute_def Channel_Get_def
  by (auto split: option.splits intro!: io_rel.bind io_rel.pure_steps io_rel.query_row)

lemma pushRoute_bot: "pushRoute cipher (\<lambda>tok. chat_bot (g tok)) (chat_bot f) job w = (Inr s, w') \<Longrightarrow> \<exists>h. s = chat_bot h"
  by (auto simp: pushRoute_def bindE_Inr returnE_Inr split: option.splits if_splits)

lemma candidates_moves: "io_rel R \<Longrightarrow> moves R (candidates job)"
  unfolding candidates_def Sub_ListActiveByInstance_def Sub_ListActiveByChannel_def
  by (auto split: option.splits intro!: io_rel.query)

text \<open>The subscriptions a job is addressed to.\<close>

definition addressed :: "push_job \<Rightarrow> subscription \<Rightarrow> bool" where
  "addressed job x \<longleftrightarrow> s_status x = SubActive \<and> matches job x
     \<and> (case j_channel job of
          Some c \<Rightarrow> if c \<noteq> '''' then s_channel x = c else s_pool x = j_pool job \<and> s_ctype x = j_ctype job
        | None \<Rightarrow> s_pool x = j_pool job \<and> s_ctype x = j_ctype job)"

lemma candidates_Inr: "candidates job w = (Inr cs, w') \<Longrightarrow>
    filter (matches job) cs = filter (addressed job) (subs w) \<and> set cs \<subseteq> set (subs w) \<and> w' = skip w"
  by (auto simp: candidates_def Sub_ListActiveByInstance_def Sub_ListActiveByChannel_def query_Inr addressed_def
      split: option.splits if_splits intro!: filter_cong)

lemma push_body_moves:
  assumes U: "unheard R" and mark: "\<And>st. st \<noteq> PushScheduled \<Longrightarrow> moves R (Job_SetStatus (j_id job) st)"
    and log: "\<And>x a e. matches job x \<Longrightarrow> moves R (log_delivery job x a e)"
  shows "moves R (push_body (wired_scheduler cipher f g halt) job)"
  unfolding moves_def
proof
  fix u
  note R = unheard.axioms(1)[OF U]
  let ?P = "wired_scheduler cipher f g halt"
  have rest: "moves R (bindE (candidates job) (\<lambda>cs. bindE (push_loop ?P (chat_bot h) job res cs)
      (\<lambda>res. bindE (Job_SetStatus (j_id job) (final_status res)) (\<lambda>_. returnE res))))" for h res
    by (intro io_rel.bind[OF R] candidates_moves R U wired_push.push_loop_moves mark log io_rel.pure_steps[OF R])
       (auto simp: final_status_def)
  define route where "route = tryE (pushRoute cipher (\<lambda>tok. chat_bot (g tok)) (chat_bot f) job) (\<lambda>r. case r of
        Inl e \<Rightarrow> bindE (ignoreE (Job_SetStatus (j_id job) PushFailed)) (\<lambda>_. failE e) | Inr s \<Rightarrow> returnE s)"
  have route: "moves R route" unfolding route_def
    by (auto split: sum.splits intro!: io_rel.try_[OF R] io_rel.bind[OF R] io_rel.ignore[OF R] mark io_rel.pure_steps[OF R]
        pushRoute_moves R)
  have bots: "route u = (Inr s, v) \<Longrightarrow> \<exists>h. s = chat_bot h" for u s v
    using pushRoute_bot unfolding route_def tryE_def
    by (auto simp: returnE_def bindE_def failE_def split: prod.splits sum.splits)
  show "R u (snd (push_body ?P job u))"
  proof (cases "route u")
    case (Pair q v)
    have uv: "R u v" using movesD[of R route, OF route Pair] .
    have body: "push_body ?P job u = bindE route (\<lambda>send. bindE (candidates job) (\<lambda>cs. bindE (push_loop ?P send job
      \<lparr>pr_sent = 0, pr_failed = 0, pr_skipped = 0\<rparr> cs)
      (\<lambda>res. bindE (Job_SetStatus (j_id job) (final_status res)) (\<lambda>_. returnE res)))) u"
      by (simp add: push_body_def route_def)
    show ?thesis
    proof (cases q)
      case (Inr s)
      then obtain h where "s = chat_bot h" using bots Pair by blast
      then show ?thesis using rest[of h] uv Pair Inr io_rel.trans[OF R uv] by (simp add: body bindE_def[of route] moves_def)
    qed (use uv Pair in \<open>simp add: body bindE_def[of route]\<close>)
  qed
qed

section \<open>Guarantees\<close>

definition not_scheduled :: "string \<Rightarrow> world \<Rightarrow> bool" where
  "not_scheduled i w \<longleftrightarrow> (\<forall>j \<in> set (jobs w). j_id j = i \<longrightarrow> j_status j \<noteq> PushScheduled)"

definition stays_taken :: "string \<Rightarrow> world \<Rightarrow> world \<Rightarrow> bool" where
  "stays_taken i w w' \<longleftrightarrow> (not_scheduled i w \<longrightarrow> not_scheduled i w')"

interpretation taken: unheard "stays_taken i" for i
  by unfold_locales (simp_all add: stays_taken_def not_scheduled_def)

lemma Job_SetStatus_run: "Job_SetStatus i st w =
    (if faulty w then (Inl ErrDB, skip w)
     else (Inr (), jobs_update (set_where (\<lambda>j. j_id j = i) (\<lambda>j. j\<lparr>j_status := st\<rparr>)) (skip w)))"
  by (simp add: Job_SetStatus_def update_rows_def modify_def exec_def)

lemma taken_log: "moves (stays_taken i) (log_delivery job x a e)"
  unfolding log_delivery_def Delivery_Append_def
  by (intro taken.bind taken.RandomID taken.pure_steps taken.ignore taken.insert_row)
     (simp add: stays_taken_def not_scheduled_def)

lemma taken_status: "st \<noteq> PushScheduled \<Longrightarrow> moves (stays_taken i) (Job_SetStatus i' st)"
  unfolding Job_SetStatus_def
  by (rule taken.update_rows) (auto simp: stays_taken_def not_scheduled_def mem_set_where)

text \<open>A job that the worker has taken is not taken again: if its first statement succeeds, then
  whatever fails afterwards (routing, queries, deliveries, the shutdown of the process) the
  job is no longer scheduled and not in the list of due jobs; if it fails, nothing is sent.\<close>

theorem taken_job_not_due_again:
  assumes "Push_Run (wired_scheduler cipher f g halt) job w = (r, w')"
  shows "if faulty w then r = Inl ErrDB \<and> w' = skip w
    else not_scheduled (j_id job) w'
      \<and> (\<forall>now n js v. Job_ListScheduled now n w' = (Inr js, v) \<longrightarrow> j_id job \<notin> j_id ` set js)"
proof (cases "faulty w")
  case True
  then show ?thesis using assms by (simp add: Push_Run_def bindE_def Job_SetStatus_run)
next
  case False
  let ?v = "jobs_update (set_where (\<lambda>j. j_id j = j_id job) (\<lambda>j. j\<lparr>j_status := PushRunning\<rparr>)) (skip w)"
  have run: "push_body (wired_scheduler cipher f g halt) job ?v = (r, w')"
    using assms False by (simp add: Push_Run_def bindE_def Job_SetStatus_run)
  have "not_scheduled (j_id job) ?v" unfolding not_scheduled_def by (auto simp: mem_set_where)
  moreover have "moves (stays_taken (j_id job)) (push_body (wired_scheduler cipher f g halt) job)"
    by (intro push_body_moves taken.unheard_axioms taken_status taken_log)
  ultimately have ns: "not_scheduled (j_id job) w'"
    using run by (metis movesD stays_taken_def)
  have "j_id job \<notin> j_id ` set js" if "Job_ListScheduled now n w' = (Inr js, v)" for now n js v
  proof
    assume "j_id job \<in> j_id ` set js"
    then obtain j where j: "j \<in> set js" "j_id j = j_id job" by auto
    have "set js \<subseteq> set (filter (due now) (jobs w'))"
      using that set_take_subset[of n "order_by j_created (filter (due now) (jobs w'))"]
      by (auto simp: Job_ListScheduled_def query_Inr)
    then have "j \<in> set (jobs w')" "j_status j = PushScheduled" using j(1) by (auto simp: due_def)
    then show False using ns j(2) by (simp add: not_scheduled_def)
  qed
  then show ?thesis using ns False by auto
qed

definition sample_job :: push_job where
  "sample_job = \<lparr>j_id = ''j1'', j_pool = ''p'', j_title = ''Hi'', j_content = ''all'', j_channel = None,
     j_ctype = ''telegram'', j_topic = None, j_ent = None, j_tier = Some ''gold'', j_status = PushScheduled,
     j_scheduled = None, j_by = ''a1'', j_created = 0\<rparr>"

lemma taken_job_not_due_again_witness:
  "let w = empty_world\<lparr>jobs := [sample_job]\<rparr>;
       w' = snd (Push_Run (wired_scheduler None (\<lambda>_ _ _. None) (\<lambda>_ _ _ _. None) (\<lambda>_. False)) sample_job w)
   in fst (Job_ListScheduled 0 50 w) = Inr [sample_job] \<and> not_scheduled ''j1'' w'"
proof -
  let ?w = "empty_world\<lparr>jobs := [sample_job]\<rparr>"
  let ?P = "wired_scheduler None (\<lambda>_ _ _. None) (\<lambda>_ _ _ _. None) (\<lambda>_. False)"
  obtain r w' where run: "Push_Run ?P sample_job ?w = (r, w')" by force
  have up: "\<not> faulty ?w" by (simp add: empty_world_def faulty_def)
  have "not_scheduled (j_id sample_job) w'" using taken_job_not_due_again[OF run] up by simp
  moreover have "fst (Job_ListScheduled 0 50 ?w) = Inr [sample_job]"
    by (simp add: Job_ListScheduled_def query_def exec_def getE_def empty_world_def faulty_def skip_def due_def
        sample_job_def order_by_def)
  ultimately show ?thesis using run by (simp add: Let_def sample_job_def)
qed

definition log_row :: "push_job \<Rightarrow> subscription \<Rightarrow> delivery \<Rightarrow> bool" where
  "log_row job x d \<longleftrightarrow> d_job d = j_id job \<and> d_session d = s_id x \<and> d_user d = s_user x \<and> d_ctype d = j_ctype job
     \<and> (d_status d = DeliverySent \<longleftrightarrow> d_error d = None)"

definition keeps_logs :: "world \<Rightarrow> world \<Rightarrow> bool" where
  "keeps_logs w w' \<longleftrightarrow> subs w' = subs w \<and> deliveries w' = deliveries w \<and> outbox w' = outbox w"

interpretation logs: io_rel keeps_logs
  by unfold_locales (simp_all add: keeps_logs_def)

text \<open>What is sent goes to one chat and says one thing.\<close>

definition writes_to :: "string \<Rightarrow> string \<Rightarrow> world \<Rightarrow> world \<Rightarrow> bool" where
  "writes_to chat txt w w' \<longleftrightarrow> subs w' = subs w \<and> deliveries w' = deliveries w
     \<and> (\<exists>ms. outbox w' = outbox w @ ms \<and> (\<forall>m \<in> set ms. fst m = chat \<and> fst (snd m) = txt))"

interpretation writing: io_rel "writes_to chat msg" for chat msg
  by unfold_locales (simp_all add: writes_to_def, fastforce)

lemma deliver_writes: "moves (writes_to chat txt) (deliver (wired_scheduler cipher f g halt) (chat_bot h) chat txt)"
proof -
  have bot: "moves (writes_to chat txt) (ask (chat_bot h chat txt))" "moves (writes_to chat txt) (ask (heard halt))"
    by (simp_all add: moves_def writes_to_def bot_run heard_run)
  have "moves (writes_to chat txt) (deliver_loop (heard halt) (chat_bot h chat txt) left attempt)" for left attempt
    by (induction left arbitrary: attempt) (auto intro!: writing.bind bot writing.pure_steps split: option.split)
  then show ?thesis unfolding deliver_def wired_scheduler_sel
    by (intro writing.bind bot moves_when writing.pure_steps)
qed

definition message_for :: "push_job \<Rightarrow> subscription \<Rightarrow> string \<times> string \<times> string option \<Rightarrow> bool" where
  "message_for job x m \<longleftrightarrow> fst m = s_user x \<and> fst (snd m) = job_text job"

lemma log_delivery_rows:
  assumes "log_delivery job x a e w = (r, w')"
  shows "subs w' = subs w \<and> outbox w' = outbox w
    \<and> (\<exists>ds. deliveries w' = deliveries w @ ds \<and> length ds \<le> 1 \<and> list_all (log_row job x) ds)"
  using assms
  by (auto simp: log_delivery_def bindE_def RandomID_def random_bytes_def returnE_def nowE_def getE_def ignoreE_run
      Delivery_Append_def insert_row_def exec_def log_row_def split: if_splits)

text \<open>What a run over candidates adds: log rows and messages, for those that match.\<close>

definition reaches :: "push_job \<Rightarrow> (subscription \<Rightarrow> bool) \<Rightarrow> subscription list \<Rightarrow> world \<Rightarrow> world \<Rightarrow> bool" where
  "reaches job Q xs w w' \<longleftrightarrow>
     (\<exists>ds. deliveries w' = deliveries w @ ds \<and> subseq (map d_session ds) (map s_id (filter Q xs))
        \<and> (\<forall>d \<in> set ds. \<exists>x \<in> set xs. Q x \<and> log_row job x d))
     \<and> (\<exists>ms. outbox w' = outbox w @ ms \<and> (\<forall>m \<in> set ms. \<exists>x \<in> set xs. Q x \<and> message_for job x m))"

lemma reaches_none: "keeps_logs w w' \<Longrightarrow> reaches job Q xs w w'"
  unfolding reaches_def by (intro conjI exI[of _ "[]"]) (simp_all add: keeps_logs_def)

lemma reaches_skip: "\<not> Q x \<Longrightarrow> reaches job Q xs w w' \<Longrightarrow> reaches job Q (x # xs) w w'"
  unfolding reaches_def by auto

lemma reaches_cons:
  assumes x: "Q x" and out: "outbox u = outbox w @ ms" "\<forall>m \<in> set ms. message_for job x m"
    and log: "deliveries u = deliveries w @ ds" "length ds \<le> 1" "list_all (log_row job x) ds"
    and rest: "reaches job Q xs u w'"
  shows "reaches job Q (x # xs) w w'"
proof -
  obtain es ns where es: "deliveries w' = deliveries w @ ds @ es" "subseq (map d_session es) (map s_id (filter Q xs))"
      "\<forall>d \<in> set es. \<exists>x \<in> set xs. Q x \<and> log_row job x d"
    and ns: "outbox w' = outbox w @ ms @ ns" "\<forall>m \<in> set ns. \<exists>x \<in> set xs. Q x \<and> message_for job x m"
    using rest out(1) log(1) unfolding reaches_def by auto
  have "subseq (map d_session (ds @ es)) (map s_id (filter Q (x # xs)))"
    using log(2,3) es(2) x by (cases ds) (auto simp: log_row_def)
  then show ?thesis unfolding reaches_def using es(1,3) ns out(2) log(3) x
    by (intro conjI exI[of _ "ds @ es"] exI[of _ "ms @ ns"]) (auto simp: list_all_iff)
qed

lemma push_loop_rows:
  "push_loop (wired_scheduler cipher f g halt) (chat_bot h) job res xs w = (r, w') \<Longrightarrow>
     subs w' = subs w \<and> reaches job (matches job) xs w w'"
proof (induction xs arbitrary: res w)
  case Nil
  then show ?case by (simp add: returnE_def reaches_none logs.refl)
next
  case (Cons x xs)
  let ?P = "wired_scheduler cipher f g halt"
  obtain s v where stop: "ask (ps_stop ?P) w = (Inr s, v)" by (simp add: ask_def)
  have v: "keeps_logs w v" using stop by (auto simp: heard_run keeps_logs_def)
  consider "s" | "\<not> s" "\<not> matches job x" | "\<not> s" "matches job x" by blast
  then show ?case
  proof cases
    case 1
    then show ?thesis using Cons.prems stop v by (simp add: bindE_def returnE_def reaches_none keeps_logs_def)
  next
    case 2
    then have "push_loop ?P (chat_bot h) job res xs v = (r, w')" using Cons.prems stop by (simp add: bindE_def)
    from Cons.IH[OF this] show ?thesis using v 2(2) by (auto simp: reaches_def keeps_logs_def)
  next
    case 3
    obtain q u where del: "deliver ?P (chat_bot h) (s_user x) (job_text job) v = (q, u)" by force
    obtain ms where uv: "subs u = subs w" "deliveries u = deliveries w" "outbox u = outbox w @ ms"
        "\<forall>m \<in> set ms. message_for job x m"
      using movesD[OF deliver_writes del] v by (auto simp: writes_to_def keeps_logs_def message_for_def)
    show ?thesis
    proof (cases q)
      case (Inl e)
      then have "w' = u" using Cons.prems stop 3 del by (simp add: bindE_def)
      moreover have "reaches job (matches job) (x # xs) w u"
        by (rule reaches_cons[of "matches job" x u w ms job "[]"]) (use 3 uv in \<open>simp_all add: reaches_none logs.refl\<close>)
      ultimately show ?thesis using uv by simp
    next
      case (Inr ae)
      obtain a e where ae: "ae = (a, e)" by force
      obtain lr t where lg: "log_delivery job x a e u = (lr, t)" by force
      obtain ds where ds: "subs t = subs w" "outbox t = outbox w @ ms" "deliveries t = deliveries w @ ds" "length ds \<le> 1"
          "list_all (log_row job x) ds"
        using log_delivery_rows[OF lg] uv by auto
      have "\<exists>y. lr = Inr y" using lg
        by (auto simp: log_delivery_def bindE_def RandomID_def random_bytes_def returnE_def nowE_def getE_def ignoreE_run)
      then have "push_loop ?P (chat_bot h) job (counted e res) xs t = (r, w')"
        using Cons.prems stop 3 del Inr ae lg by (auto simp: bindE_def)
      from Cons.IH[OF this] show ?thesis
        using reaches_cons[of "matches job" x t w ms job ds xs w'] 3(2) ds uv(4) by simp
    qed
  qed
qed

lemma logs_status: "moves keeps_logs (Job_SetStatus i st)"
  unfolding Job_SetStatus_def by (rule logs.update_rows) (simp add: keeps_logs_def)

lemma push_route_logs:
  "moves keeps_logs (tryE (pushRoute cipher b d job) (\<lambda>r. case r of
        Inl e \<Rightarrow> bindE (ignoreE (Job_SetStatus (j_id job) PushFailed)) (\<lambda>_. failE e) | Inr s \<Rightarrow> returnE s))"
  by (auto split: sum.splits intro!: logs.try_ logs.bind logs.ignore logs_status logs.pure_steps
        pushRoute_moves logs.io_rel_axioms)

text \<open>The rows that match among the candidates are the addressed ones.\<close>

lemma reaches_addressed:
  assumes "reaches job (matches job) cs w w'" "filter (matches job) cs = filter (addressed job) xs" "set cs \<subseteq> set xs"
  shows "reaches job (addressed job) xs w w'"
proof -
  have "x \<in> set xs \<and> addressed job x" if "x \<in> set cs" "matches job x" for x
    using that arg_cong[OF assms(2), of set] by auto
  then show ?thesis using assms(1) unfolding reaches_def assms(2) by meson
qed

lemma push_body_rows:
  assumes run: "push_body (wired_scheduler cipher f g halt) job u = (r, w')"
  shows "reaches job (addressed job) (subs u) u w'"
proof -
  let ?P = "wired_scheduler cipher f g halt" and ?z = "\<lparr>pr_sent = 0, pr_failed = 0, pr_skipped = 0\<rparr>"
  define route where "route = tryE (pushRoute cipher (\<lambda>tok. chat_bot (g tok)) (chat_bot f) job) (\<lambda>r. case r of
        Inl e \<Rightarrow> bindE (ignoreE (Job_SetStatus (j_id job) PushFailed)) (\<lambda>_. failE e) | Inr s \<Rightarrow> returnE s)"
  obtain q v where rt: "route u = (q, v)" by force
  have v: "keeps_logs u v" using movesD[OF push_route_logs rt[unfolded route_def]] .
  have body: "push_body ?P job u = bindE route (\<lambda>send. bindE (candidates job) (\<lambda>cs. bindE (push_loop ?P send job ?z cs)
      (\<lambda>res. bindE (Job_SetStatus (j_id job) (final_status res)) (\<lambda>_. returnE res)))) u"
    by (simp add: push_body_def route_def)
  show ?thesis
  proof (cases q)
    case (Inl e)
    then show ?thesis using run rt reaches_none[OF v] by (simp add: body bindE_def)
  next
    case (Inr s)
    have "\<exists>h. s = chat_bot h" using rt Inr pushRoute_bot unfolding route_def tryE_def
      by (auto simp: returnE_def bindE_def failE_def split: prod.splits sum.splits)
    then obtain h where h: "s = chat_bot h" by blast
    obtain qc vc where cs: "candidates job v = (qc, vc)" by force
    have vc: "keeps_logs u vc" using movesD[OF candidates_moves[OF logs.io_rel_axioms] cs] v by (simp add: keeps_logs_def)
    show ?thesis
    proof (cases qc)
      case (Inl e)
      then show ?thesis using run rt Inr h cs reaches_none[OF vc] by (simp add: body bindE_def)
    next
      case (Inr cands)
      note cand = candidates_Inr[OF cs[unfolded Inr]]
      obtain ql vl where lp: "push_loop ?P (chat_bot h) job ?z cands vc = (ql, vl)" by force
      have "keeps_logs vl w'"
      proof (cases ql)
        case (Inr res)
        have "moves keeps_logs (bindE (Job_SetStatus (j_id job) (final_status res)) (\<lambda>_. returnE res))"
          by (intro logs.bind logs_status logs.pure_steps)
        moreover have "bindE (Job_SetStatus (j_id job) (final_status res)) (\<lambda>_. returnE res) vl = (r, w')"
          using run rt \<open>q = Inr s\<close> h cs \<open>qc = Inr cands\<close> lp Inr by (simp add: body bindE_def)
        ultimately show ?thesis by (metis movesD)
      qed (use run rt \<open>q = Inr s\<close> h cs \<open>qc = Inr cands\<close> lp in \<open>simp add: body bindE_def keeps_logs_def\<close>)
      then have "reaches job (matches job) cands u w'"
        using push_loop_rows[OF lp] vc by (simp add: reaches_def keeps_logs_def)
      then show ?thesis by (rule reaches_addressed) (use cand v in \<open>simp_all add: keeps_logs_def\<close>)
    qed
  qed
qed


definition sample_subscriber :: "string \<Rightarrow> string \<Rightarrow> subscription" where
  "sample_subscriber i tier = \<lparr>s_id = i, s_pool = ''p'', s_sch = ''aa'', s_channel = ''c1'', s_ctype = ''telegram'', s_user = i,
     s_account = None, s_status = SubActive, s_tier = tier, s_topics = [], s_ents = [], s_created = 0, s_verified = 0, s_expires = 0,
     s_grace = None, s_cancelled = None\<rparr>"

lemma sample_run:
  "\<exists>w'. Push_Run (wired_scheduler None (\<lambda>_ _ _. None) (\<lambda>_ _ _ _. None) (\<lambda>_. False)) sample_job
      (empty_world\<lparr>jobs := [sample_job], subs := [sample_subscriber ''s1'' ''gold'', sample_subscriber ''s2'' ''basic'']\<rparr>)
      = (Inr \<lparr>pr_sent = 1, pr_failed = 0, pr_skipped = 0\<rparr>, w')
    \<and> map d_session (deliveries w') = [''s1''] \<and> map j_status (jobs w') = [PushDone] \<and> map fst (outbox w') = [''s1'']"
  by (simp add: Push_Run_def push_body_def bindE_def Job_SetStatus_run empty_world_def faulty_def skip_def tryE_def
      pushRoute_def sample_job_def returnE_def candidates_def Sub_ListActiveByChannel_def query_def exec_def getE_def
      sample_subscriber_def bot_run heard_run matches_def deliver_def numeral_3_eq_3 log_delivery_def RandomID_def
      random_bytes_def nowE_def ignoreE_run Delivery_Append_def insert_row_def counted_def set_where_def final_status_def)

lemma ball_mono_chat:
  assumes "\<forall>(chat, txt, answer) \<in> M. \<exists>x \<in> X. Q x \<and> f x = chat" "\<And>x. x \<in> X \<Longrightarrow> Q x \<Longrightarrow> f x = c"
  shows "\<forall>m \<in> M. fst m = c"
  using assms by (auto simp: split_beta)


text \<open>One recipient is tried until the transport accepts the message, at most as often as
  configured: the attempts that precede the one reported have failed, an error is reported
  exactly when all of them have, and then all of them were made.\<close>

theorem deliver_tries:
  assumes "0 < n"
  shows "\<exists>a e w'. deliver (deployed (\<lambda>_. False) n) (chat_bot f) chat txt w = (Inr (int a, e), w')
    \<and> 1 \<le> a \<and> a \<le> n
    \<and> (\<forall>k. k + 1 < a \<longrightarrow> f (draws w + 1 + 2 * k) chat txt \<noteq> None)
    \<and> e = f (draws w + 1 + 2 * (a - 1)) chat txt
    \<and> (e \<noteq> None \<longrightarrow> a = n)"
proof -
  let ?v = "w\<lparr>draws := draws w + 1\<rparr>" and ?f = "\<lambda>i. f i chat txt"
  let ?oks = "filter (\<lambda>k. ?f (draws ?v + 2 * k) = None) [0 ..< n]"
  have "deliver (deployed (\<lambda>_. False) n) (chat_bot f) chat txt w
      = deliver_loop (heard (\<lambda>_. False)) (chat_bot f chat txt) n 1 ?v"
    by (simp add: deliver_def deployed_def bindE_def heard_run)
  then obtain w' where run: "deliver (deployed (\<lambda>_. False) n) (chat_bot f) chat txt w
      = (fst (deliver_loop (heard (\<lambda>_. False)) (chat_bot f chat txt) n 1 ?v), w')"
    by (metis prod.collapse)
  show ?thesis
  proof (cases ?oks)
    case Nil
    then have none: "?f (draws ?v + 2 * k) \<noteq> None" if "k < n" for k
      using that by (auto simp: filter_empty_conv)
    have "fst (deliver_loop (heard (\<lambda>_. False)) (chat_bot f chat txt) n 1 ?v) = Inr (int n, ?f (draws ?v + 2 * (n - 1)))"
      using deliver_loop_spec[OF assms, of f chat "txt" 1 ?v] Nil by (simp add: Let_def)
    then show ?thesis unfolding run using none assms
      by (intro exI[of _ n] exI[of _ "?f (draws ?v + 2 * (n - 1))"] exI[of _ w']) auto
  next
    case (Cons k ks)
    obtain us vs where us: "[0 ..< n] = us @ k # vs" "\<forall>u \<in> set us. \<not> ?f (draws ?v + 2 * u) = None"
      using Cons by (auto dest!: filter_eq_ConsD)
    have "k \<in> set ?oks" using Cons by simp
    then have k: "k < n" "?f (draws ?v + 2 * k) = None" by auto
    have "length us < n" using arg_cong[OF us(1), of length] by simp
    moreover have "[0 ..< n] ! length us = k" using us(1) by simp
    ultimately have "length us = k" by simp
    moreover have "us = take (length us) [0 ..< n]" using us(1) by simp
    ultimately have "us = [0 ..< k]" using k(1) by simp
    then have before: "?f (draws ?v + 2 * u) \<noteq> None" if "u < k" for u using us(2) that by simp
    have "fst (deliver_loop (heard (\<lambda>_. False)) (chat_bot f chat txt) n 1 ?v) = Inr (int (k + 1), None)"
      using deliver_loop_spec[OF assms, of f chat "txt" 1 ?v] Cons by (simp add: Let_def)
    then show ?thesis unfolding run using k before
      by (intro exI[of _ "k + 1"] exI[of _ None] exI[of _ w']) auto
  qed
qed

lemma deliver_tries_witness:
  "\<exists>a e w'. deliver (deployed (\<lambda>_. False) 3) (chat_bot (\<lambda>i _ _. if i < 3 then Some ''busy'' else None)) ''7'' ''hi'' empty_world
     = (Inr (int a, e), w') \<and> a = 2 \<and> e = None"
proof -
  let ?f = "\<lambda>i (_ :: string) (_ :: string). if i < (3::nat) then Some ''busy'' else None"
  obtain a e w' where r: "deliver (deployed (\<lambda>_. False) 3) (chat_bot ?f) ''7'' ''hi'' empty_world = (Inr (int a, e), w')"
    "1 \<le> a" "a \<le> 3" "\<forall>k. k + 1 < a \<longrightarrow> ?f (draws empty_world + 1 + 2 * k) ''7'' ''hi'' \<noteq> None"
    "e = ?f (draws empty_world + 1 + 2 * (a - 1)) ''7'' ''hi''" "e \<noteq> None \<longrightarrow> a = 3"
    using deliver_tries[of 3 ?f "''7''" "''hi''" empty_world, OF zero_less_numeral] by (elim exE conjE) (rule that; assumption)
  have "draws empty_world = 0" by (simp add: empty_world_def)
  moreover have "a \<noteq> 1" using r(5,6) calculation by auto
  moreover have "a \<noteq> 3" using r(4)[rule_format, of 1] calculation(1) by auto
  ultimately have "a = 2" using r(2,3) by simp
  then have "a = 2 \<and> e = None" using r(5) \<open>draws empty_world = 0\<close> by simp
  then show ?thesis using r(1) by blast
qed

section \<open>Completion\<close>

text \<open>Without failures of the driver every step of a job returns, whatever the transport does.\<close>

lemma deliver_tried:
  assumes "ps_stop P = heard (\<lambda>_. False)" "0 < ps_max P"
  shows "\<exists>a d ms. deliver P (chat_bot h) chat txt w
      = (Inr (a, snd (snd (last ms))), w\<lparr>draws := d, outbox := outbox w @ ms\<rparr>) \<and> tried (ps_max P) chat txt ms"
proof -
  let ?v = "w\<lparr>draws := draws w + 1\<rparr>"
  have "deliver P (chat_bot h) chat txt w = deliver_loop (heard (\<lambda>_. False)) (chat_bot h chat txt) (ps_max P) 1 ?v"
    using assms(1) by (simp add: deliver_def bindE_def heard_run)
  then show ?thesis using deliver_loop_tried[OF assms(2), of h chat "txt" 1 ?v] by auto
qed

lemma log_delivery_returns:
  "faults w = [] \<Longrightarrow> \<exists>w'. log_delivery job x a e w = (Inr (), w') \<and> faults w' = [] \<and> jobs w' = jobs w \<and> outbox w' = outbox w"
  by (auto simp: log_delivery_def bindE_def RandomID_def random_bytes_def returnE_def nowE_def getE_def ignoreE_run
      Delivery_Append_def insert_row_def exec_def faulty_def)

text \<open>The attempts for one recipient succeeded when the last of them did.\<close>

abbreviation reached :: "(string \<times> string \<times> string option) list \<Rightarrow> bool" where
  "reached ms \<equiv> snd (snd (last ms)) = None"

lemma push_loop_returns:
  assumes stop: "ps_stop P = heard (\<lambda>_. False)" and pos: "0 < ps_max P"
  shows "faults w = [] \<Longrightarrow> \<exists>r w' mss. push_loop P (chat_bot h) job res xs w = (Inr r, w')
    \<and> faults w' = [] \<and> jobs w' = jobs w \<and> outbox w' = outbox w @ concat mss
    \<and> list_all2 (\<lambda>x. tried (ps_max P) (s_user x) (job_text job)) (filter (matches job) xs) mss
    \<and> pr_sent r = pr_sent res + length (filter reached mss)
    \<and> pr_failed r = pr_failed res + length (filter (\<lambda>ms. \<not> reached ms) mss)"
proof (induction xs arbitrary: res w)
  case Nil
  then show ?case by (intro exI[of _ res] exI[of _ w] exI[of _ "[]"]) (simp add: returnE_def)
next
  case (Cons x xs)
  let ?u = "w\<lparr>draws := draws w + 1\<rparr>"
  have u: "faults ?u = []" using Cons.prems by simp
  have ask: "ask (ps_stop P) w = (Inr False, ?u)" by (simp add: stop heard_run)
  show ?case
  proof (cases "matches job x")
    case False
    then show ?thesis using Cons.IH[OF u, of res] by (simp add: bindE_def ask)
  next
    case True
    obtain a d ms where del: "deliver P (chat_bot h) (s_user x) (job_text job) ?u
        = (Inr (a, snd (snd (last ms))), ?u\<lparr>draws := d, outbox := outbox ?u @ ms\<rparr>)"
      and ms: "tried (ps_max P) (s_user x) (job_text job) ms"
      using deliver_tried[OF stop pos] by blast
    let ?e = "snd (snd (last ms))" and ?v0 = "?u\<lparr>draws := d, outbox := outbox ?u @ ms\<rparr>"
    obtain v where lg: "log_delivery job x a ?e ?v0 = (Inr (), v)" "faults v = []" "jobs v = jobs w" "outbox v = outbox w @ ms"
      using log_delivery_returns[of ?v0 job x a ?e] u by auto
    obtain r w' mss where rest: "push_loop P (chat_bot h) job (counted ?e res) xs v = (Inr r, w')" "faults w' = []"
      "jobs w' = jobs v" "outbox w' = outbox v @ concat mss"
      "list_all2 (\<lambda>x. tried (ps_max P) (s_user x) (job_text job)) (filter (matches job) xs) mss"
      "pr_sent r = pr_sent (counted ?e res) + length (filter reached mss)"
      "pr_failed r = pr_failed (counted ?e res) + length (filter (\<lambda>ms. \<not> reached ms) mss)"
      using Cons.IH[OF lg(2), of "counted ?e res"] by blast
    have "push_loop P (chat_bot h) job res (x # xs) w = (Inr r, w')"
      using True del lg(1) rest(1) by (simp add: bindE_def ask del: fun_upd_apply)
    then show ?thesis using rest lg(3,4) True ms
      by (intro exI[of _ r] exI[of _ w'] exI[of _ "ms # mss"]) (auto simp: counted_def)
  qed
qed

text \<open>A job has a transport when it is not bound to an instance or its instance yields a token.\<close>

definition routable :: "key_env option \<Rightarrow> push_job \<Rightarrow> world \<Rightarrow> bool" where
  "routable cipher job w \<longleftrightarrow> j_channel job = None \<or> j_channel job = Some ''''
     \<or> (\<exists>c inst tok. j_channel job = Some c \<and> find (\<lambda>r. ch_id r = c) (channels w) = Some inst
          \<and> instanceToken cipher inst = Inr tok)"

lemma pushRoute_returns:
  assumes "faults w = []" "routable cipher job w"
  shows "\<exists>h. pushRoute cipher (\<lambda>tok. chat_bot (g tok)) (chat_bot f) job w = (Inr (chat_bot h), w)"
proof -
  have "skip w = w" "\<not> faulty w" using assms by (simp_all add: skip_def faulty_def)
  then show ?thesis using assms(2)
    by (auto simp: routable_def pushRoute_def returnE_def bindE_def Channel_Get_def query_row_def exec_def liftE_def)
qed

lemma candidates_returns:
  assumes "faults w = []"
  shows "\<exists>cs. candidates job w = (Inr cs, w) \<and> filter (matches job) cs = filter (addressed job) (subs w)"
proof -
  have q: "skip w = w" "\<not> faulty w" using assms by (simp_all add: skip_def faulty_def)
  then obtain cs where run: "candidates job w = (Inr cs, w)"
    unfolding candidates_def Sub_ListActiveByInstance_def Sub_ListActiveByChannel_def query_def exec_def getE_def
    by (cases "j_channel job"; cases "j_channel job = Some ''''") auto
  then show ?thesis using candidates_Inr by blast
qed

text \<open>C31: Every job that has a transport is finished: when the driver does not fail and the process
  keeps running, a run sends the job's text to each subscription it is addressed to, again
  while the transport refuses it and three attempts have not been made, and to no one else;
  it counts as sent exactly those whose last attempt was accepted and as failed the others;
  and it leaves the job failed when none was reached though some were tried, and done
  otherwise.\<close>

theorem broadcast_completes:
  assumes quiet: "faults w = []" and route: "routable cipher job w"
  shows "\<exists>res w' mss. Push_Run (wired_scheduler cipher f g (\<lambda>_. False)) job w = (Inr res, w')
    \<and> outbox w' = outbox w @ concat mss
    \<and> list_all2 (\<lambda>x. tried 3 (s_user x) (job_text job)) (filter (addressed job) (subs w)) mss
    \<and> pr_sent res = length (filter reached mss) \<and> pr_failed res = length (filter (\<lambda>ms. \<not> reached ms) mss)
    \<and> (\<forall>j \<in> set (jobs w'). j_id j = j_id job \<longrightarrow>
         j_status j = (if pr_sent res = 0 \<and> pr_failed res > 0 then PushFailed else PushDone))
    \<and> map j_id (jobs w') = map j_id (jobs w)"
proof -
  let ?P = "wired_scheduler cipher f g (\<lambda>_. False)" and ?z = "\<lparr>pr_sent = 0, pr_failed = 0, pr_skipped = 0\<rparr>"
  let ?set = "\<lambda>st. jobs_update (set_where (\<lambda>j. j_id j = j_id job) (\<lambda>j. j\<lparr>j_status := st\<rparr>))"
  have up: "Job_SetStatus i st u = (Inr (), jobs_update (set_where (\<lambda>j. j_id j = i) (\<lambda>j. j\<lparr>j_status := st\<rparr>)) u)"
    if "faults u = []" for i st u using that by (simp add: Job_SetStatus_run faulty_def skip_def)
  define v where "v = ?set PushRunning w"
  have v: "faults v = []" "routable cipher job v" "subs v = subs w" "outbox v = outbox w" "map j_id (jobs v) = map j_id (jobs w)"
    using quiet route by (simp_all add: v_def routable_def set_where_key)
  obtain h where rt: "pushRoute cipher (\<lambda>tok. chat_bot (g tok)) (chat_bot f) job v = (Inr (chat_bot h), v)"
    using pushRoute_returns[OF v(1,2)] by blast
  obtain cs where cs: "candidates job v = (Inr cs, v)" "filter (matches job) cs = filter (addressed job) (subs w)"
    using candidates_returns[OF v(1)] v(3) by auto
  obtain res u mss where lp: "push_loop ?P (chat_bot h) job ?z cs v = (Inr res, u)" "faults u = []" "jobs u = jobs v"
      "outbox u = outbox w @ concat mss"
      "list_all2 (\<lambda>x. tried 3 (s_user x) (job_text job)) (filter (addressed job) (subs w)) mss"
      "pr_sent res = length (filter reached mss)" "pr_failed res = length (filter (\<lambda>ms. \<not> reached ms) mss)"
    using push_loop_returns[of ?P v h job ?z cs] v(1,4) cs(2) by auto
  have "Push_Run ?P job w = (Inr res, ?set (final_status res) u)"
    using rt cs(1) lp(1) quiet lp(2)
    by (simp add: Push_Run_def push_body_def bindE_def tryE_def returnE_def up v_def[symmetric])
  moreover have "map j_id (jobs (?set (final_status res) u)) = map j_id (jobs w)"
    using lp(3) v(5) by (simp add: set_where_key)
  ultimately show ?thesis using lp(4-)
    by (intro exI[of _ res] exI[of _ "?set (final_status res) u"] exI[of _ mss]) (auto simp: mem_set_where final_status_def)
qed

lemma broadcast_completes_witness:
  "\<exists>res w'. Push_Run (wired_scheduler None (\<lambda>_ _ _. Some ''busy'') (\<lambda>_ _ _ _. None) (\<lambda>_. False)) sample_job
      (empty_world\<lparr>jobs := [sample_job], subs := [sample_subscriber ''s1'' ''gold'']\<rparr>) = (Inr res, w')
    \<and> pr_sent res + pr_failed res = 1 \<and> map j_id (jobs w') = [''j1'']
    \<and> (\<forall>j \<in> set (jobs w'). j_status j \<in> {PushFailed, PushDone}) \<and> (''s1'', job_text sample_job) \<in> set (map (\<lambda>m. (fst m, fst (snd m))) (outbox w'))"
proof -
  let ?w = "empty_world\<lparr>jobs := [sample_job], subs := [sample_subscriber ''s1'' ''gold'']\<rparr>"
  let ?P = "wired_scheduler None (\<lambda>_ _ _. Some ''busy'') (\<lambda>_ _ _ _. None) (\<lambda>_. False)"
  have w: "faults ?w = []" "outbox ?w = []" "map j_id (jobs ?w) = [''j1'']" "j_id sample_job = ''j1''"
    by (simp_all add: empty_world_def sample_job_def)
  have sel: "filter (addressed sample_job) (subs ?w) = [sample_subscriber ''s1'' ''gold'']"
    by (simp add: addressed_def sample_job_def sample_subscriber_def matches_def)
  have way: "routable None sample_job ?w" by (simp add: routable_def sample_job_def)
  obtain res w' mss where run: "Push_Run ?P sample_job ?w = (Inr res, w')" "outbox w' = concat mss"
      "list_all2 (\<lambda>x. tried 3 (s_user x) (job_text sample_job)) [sample_subscriber ''s1'' ''gold''] mss"
      "pr_sent res = length (filter reached mss)" "pr_failed res = length (filter (\<lambda>ms. \<not> reached ms) mss)"
      "\<forall>j \<in> set (jobs w'). j_id j = ''j1'' \<longrightarrow> j_status j = (if pr_sent res = 0 \<and> pr_failed res > 0 then PushFailed else PushDone)"
      "map j_id (jobs w') = [''j1'']"
    using broadcast_completes[OF w(1) way, of "\<lambda>_ _ _. Some ''busy''" "\<lambda>_ _ _ _. None",
        unfolded sel w(2,3,4) append_Nil]
    by (elim exE conjE) (rule that)
  obtain ms where ms: "mss = [ms]" "tried 3 ''s1'' (job_text sample_job) ms"
    using run(3) by (auto simp: list_all2_Cons1 sample_subscriber_def)
  have "j_id j = ''j1''" if "j \<in> set (jobs w')" for j using that arg_cong[OF run(7), of set] by auto
  moreover have "(''s1'', job_text sample_job) \<in> set (map (\<lambda>m. (fst m, fst (snd m))) ms)"
    using ms(2) unfolding tried_def by (cases ms) auto
  ultimately show ?thesis using run(1,2,4-7) ms(1)
    by (intro exI[of _ res] exI[of _ w'] conjI) (auto split: if_splits)
qed

text \<open>But a job whose recipients cannot be read stays marked as running, and the worker, which
  looks for scheduled jobs only, does not come back to it.\<close>

theorem unread_recipients_strand_job:
  assumes faults: "faults w = False # True # fs" and own: "j_channel job = None"
  shows "\<exists>w'. Push_Run (wired_scheduler cipher f g halt) job w = (Inl ErrDB, w')
    \<and> (\<forall>j \<in> set (jobs w'). j_id j = j_id job \<longrightarrow> j_status j = PushRunning \<and> (\<forall>now. \<not> due now j))"
  using own by (auto simp: Push_Run_def push_body_def bindE_def Job_SetStatus_run faults faulty_def tryE_def pushRoute_def
      returnE_def candidates_def Sub_ListActiveByChannel_def query_def exec_def mem_set_where due_def)

end
