(* ===== verification/OneTime.thy ===== *)
theory OneTime
  imports World
begin

text \<open>
  One-time credentials: \<open>store/repo_authnonce.go\<close>, \<open>repo_authorizationcode.go\<close> and
  \<open>repo_activationcode.go\<close>. \<open>Consume\<close> is a transaction that reads the row, checks it in
  Go and then updates it under the guard \<open>consumed_at IS NULL\<close>.
  \<^item> The locale \<open>one_time\<close> is the contract the callers rely on: a successful consume needs
    a live row and leaves none. From it follows that among any sequence of operations, at
    most one attempt succeeds. All three repositories provide it.
  \<^item> The locale \<open>cas\<close> is the contract of the guarded update alone. Over it the relation
    \<open>race\<close> interleaves any number of consumers whose read and write are separate steps
    (PostgreSQL's READ COMMITTED); at most one of them wins.
\<close>

section \<open>Nonces\<close>

definition AuthNonce_Create :: "auth_nonce \<Rightarrow> unit io" where
  "AuthNonce_Create n = insert_row nonces nonces_update n_nonce n"

definition AuthNonce_DeleteExpired :: "instant \<Rightarrow> nat io" where
  "AuthNonce_DeleteExpired t =
     delete_rows nonces nonces_update (\<lambda>n. ts_less (n_expires n) t)"

definition nonce_check :: "nonce_purpose \<Rightarrow> instant \<Rightarrow> auth_nonce \<Rightarrow> unit result" where
  "nonce_check purpose t n =
     (if n_consumed n \<noteq> None then Inl ErrConsumed
      else if after t (n_expires n) then Inl ErrExpired
      else if n_purpose n \<noteq> purpose then Inl ErrPurpose
      else Inr ())"

definition nonce_open :: "string \<Rightarrow> auth_nonce \<Rightarrow> bool" where
  "nonce_open nonce n \<longleftrightarrow> n_nonce n = nonce \<and> n_consumed n = None"

definition nonce_stamp :: "instant \<Rightarrow> auth_nonce \<Rightarrow> auth_nonce" where
  "nonce_stamp t n = n\<lparr>n_consumed := Some t\<rparr>"

definition AuthNonce_Consume :: "string \<Rightarrow> nonce_purpose \<Rightarrow> instant \<Rightarrow> auth_nonce io" where
  "AuthNonce_Consume nonce purpose t = with_tx
     (bindE (query_row (\<lambda>w. find (\<lambda>n. n_nonce n = nonce) (nonces w))) (\<lambda>n.
      bindE (liftE (nonce_check purpose t n)) (\<lambda>_.
      bindE (update_count nonces nonces_update (nonce_open nonce) (nonce_stamp t)) (\<lambda>k.
      if k = 0 then failE ErrConsumed else returnE n))))"

section \<open>Authorization codes\<close>

definition AuthCode_Create :: "auth_code \<Rightarrow> unit io" where
  "AuthCode_Create c = insert_row codes codes_update c_code c"

definition code_check :: "instant \<Rightarrow> auth_code \<Rightarrow> unit result" where
  "code_check t c =
     (if c_consumed c \<noteq> None then Inl ErrConsumed
      else if after t (c_expires c) then Inl ErrExpired
      else Inr ())"

definition code_open :: "string \<Rightarrow> auth_code \<Rightarrow> bool" where
  "code_open code c \<longleftrightarrow> c_code c = code \<and> c_consumed c = None"

definition code_stamp :: "instant \<Rightarrow> auth_code \<Rightarrow> auth_code" where
  "code_stamp t c = c\<lparr>c_consumed := Some t\<rparr>"

definition AuthCode_Consume :: "string \<Rightarrow> instant \<Rightarrow> auth_code io" where
  "AuthCode_Consume code t = with_tx
     (bindE (query_row (\<lambda>w. find (\<lambda>c. c_code c = code) (codes w))) (\<lambda>c.
      bindE (liftE (code_check t c)) (\<lambda>_.
      bindE (update_count codes codes_update (code_open code) (code_stamp t)) (\<lambda>k.
      if k = 0 then failE ErrConsumed else returnE c))))"

section \<open>Activation codes\<close>

definition ActivationCode_Create :: "activation_code \<Rightarrow> unit io" where
  "ActivationCode_Create a = insert_row activations activations_update a_code a"

definition activation_check :: "string \<Rightarrow> string \<Rightarrow> instant \<Rightarrow> activation_code \<Rightarrow> unit result" where
  "activation_check channelType channelID t a =
     (if a_ctype a \<noteq> channelType then Inl ErrPurpose
      else if channelID \<noteq> '''' \<and> a_channel a \<noteq> '''' \<and> a_channel a \<noteq> channelID then Inl ErrPurpose
      else if a_consumed a \<noteq> None then Inl ErrConsumed
      else if after t (a_expires a) then Inl ErrExpired
      else Inr ())"

definition activation_open :: "string \<Rightarrow> activation_code \<Rightarrow> bool" where
  "activation_open code a \<longleftrightarrow> a_code a = code \<and> a_consumed a = None"

definition activation_stamp :: "instant \<Rightarrow> activation_code \<Rightarrow> activation_code" where
  "activation_stamp t a = a\<lparr>a_status := ActivationConsumed, a_consumed := Some t\<rparr>"

definition ActivationCode_Consume :: "string \<Rightarrow> string \<Rightarrow> string \<Rightarrow> instant \<Rightarrow> activation_code io" where
  "ActivationCode_Consume code channelType channelID t = with_tx
     (bindE (query_row (\<lambda>w. find (\<lambda>a. a_code a = code) (activations w))) (\<lambda>a.
      bindE (liftE (activation_check channelType channelID t a)) (\<lambda>_.
      bindE (update_count activations activations_update (activation_open code) (activation_stamp t)) (\<lambda>k.
      if k = 0 then failE ErrConsumed else returnE (a\<lparr>a_status := ActivationConsumed\<rparr>)))))"

section \<open>The contract of a one-time credential\<close>

text \<open>
  A scripted run: each entry is an attempt to consume (\<open>True\<close>) or another operation of
  the service; the run counts the attempts that succeeded.
\<close>

fun wins :: "(bool \<times> 'a io) list \<Rightarrow> world \<Rightarrow> nat" where
  "wins [] w = 0"
| "wins ((att, m) # ms) w =
     (if att \<and> (\<exists>x. fst (m w) = Inr x) then 1 else 0) + wins ms (snd (m w))"

locale one_time =
  fixes live :: "world \<Rightarrow> bool" and attempt :: "'p \<Rightarrow> 'a io"
  assumes needs_live: "attempt p w = (Inr x, w') \<Longrightarrow> live w"
    and kills: "attempt p w = (Inr x, w') \<Longrightarrow> \<not> live w'"
    and no_revival: "attempt p w = (r, w') \<Longrightarrow> live w' \<Longrightarrow> live w"
begin

definition allowed :: "(bool \<times> 'a io) \<Rightarrow> bool" where
  "allowed am \<longleftrightarrow> (if fst am then snd am \<in> range attempt
     else moves (\<lambda>w w'. live w' \<longrightarrow> live w) (snd am))"

lemma dead_stays:
  assumes "list_all allowed ms" "\<not> live w"
  shows "wins ms w = 0"
  using assms
proof (induction ms arbitrary: w)
  case (Cons am ms)
  obtain att m where am: "am = (att, m)" by force
  obtain r w' where run: "m w = (r, w')" by force
  have dead: "\<not> live w'"
  proof (cases att)
    case True
    then show ?thesis using Cons.prems run no_revival by (auto simp: am allowed_def)
  next
    case False
    then show ?thesis using Cons.prems run by (auto simp: am allowed_def moves_def dest: spec[of _ w])
  qed
  moreover have "\<not> (att \<and> (\<exists>x. r = Inr x))"
    using Cons.prems run needs_live by (auto simp: am allowed_def)
  ultimately show ?case using Cons run by (auto simp: am)
qed simp

theorem at_most_once:
  assumes "list_all allowed ms"
  shows "wins ms w \<le> 1"
  using assms
proof (induction ms arbitrary: w)
  case (Cons am ms)
  obtain att m where am: "am = (att, m)" by force
  obtain r w' where run: "m w = (r, w')" by force
  show ?case
  proof (cases "att \<and> (\<exists>x. r = Inr x)")
    case True
    then have "\<not> live w'" using Cons.prems run kills by (auto simp: am allowed_def)
    then show ?thesis using dead_stays Cons.prems run by (simp add: am)
  next
    case False
    then show ?thesis using Cons run by (auto simp: am)
  qed
qed simp

end

text \<open>The three repositories share the shape of \<open>Consume\<close>.\<close>

definition has_open :: "('r \<Rightarrow> bool) \<Rightarrow> 'r list \<Rightarrow> bool" where
  "has_open P rs \<longleftrightarrow> (\<exists>r \<in> set rs. P r)"

lemma has_open_count: "length (filter P rs) \<noteq> 0 \<longleftrightarrow> has_open P rs"
  by (auto simp: has_open_def filter_empty_conv)

lemma not_open_after: "(\<And>r. \<not> P (f r)) \<Longrightarrow> \<not> has_open P (set_where P f rs)"
  by (auto simp: has_open_def mem_set_where)

lemma find_key_open:
  assumes "find (\<lambda>r. key r = k) rs = Some r" "fresh r"
  shows "has_open (\<lambda>r. key r = k \<and> fresh r) rs"
  using find_Some_mem[OF assms(1)] assms(2) by (auto simp: has_open_def)

lemma nonce_check_Inr: "nonce_check purpose t n = Inr () \<longleftrightarrow>
    n_consumed n = None \<and> t \<le> n_expires n \<and> n_purpose n = purpose"
  by (auto simp: nonce_check_def)

lemma code_check_Inr: "code_check t c = Inr () \<longleftrightarrow> c_consumed c = None \<and> t \<le> c_expires c"
  by (auto simp: code_check_def)

lemma activation_check_Inr: "activation_check ct ch t a = Inr () \<longleftrightarrow>
    a_ctype a = ct \<and> (ch = '''' \<or> a_channel a = '''' \<or> a_channel a = ch)
    \<and> a_consumed a = None \<and> t \<le> a_expires a"
  by (auto simp: activation_check_def)

lemma AuthNonce_Consume_Inr: "AuthNonce_Consume nonce purpose t w = (Inr n, w') \<Longrightarrow>
    find (\<lambda>n. n_nonce n = nonce) (nonces w) = Some n \<and> nonce_check purpose t n = Inr ()
    \<and> nonces w' = set_where (nonce_open nonce) (nonce_stamp t) (nonces w)"
  unfolding AuthNonce_Consume_def by (auto simp: io_success split: if_splits)

lemma AuthCode_Consume_Inr: "AuthCode_Consume code t w = (Inr c, w') \<Longrightarrow>
    find (\<lambda>c. c_code c = code) (codes w) = Some c \<and> code_check t c = Inr ()
    \<and> codes w' = set_where (code_open code) (code_stamp t) (codes w)"
  unfolding AuthCode_Consume_def by (auto simp: io_success split: if_splits)

lemma ActivationCode_Consume_Inr: "ActivationCode_Consume code ct ch t w = (Inr a, w') \<Longrightarrow>
    \<exists>a0. find (\<lambda>a. a_code a = code) (activations w) = Some a0
    \<and> activation_check ct ch t a0 = Inr () \<and> a = a0\<lparr>a_status := ActivationConsumed\<rparr>
    \<and> activations w' = set_where (activation_open code) (activation_stamp t) (activations w)"
  unfolding ActivationCode_Consume_def by (auto simp: io_success split: if_splits)

text \<open>Whatever its outcome, a consume only ever stamps rows.\<close>

definition no_new_open :: "(world \<Rightarrow> 'r list) \<Rightarrow> ('r \<Rightarrow> bool) \<Rightarrow> world \<Rightarrow> world \<Rightarrow> bool" where
  "no_new_open get P w w' \<longleftrightarrow> (has_open P (get w') \<longrightarrow> has_open P (get w))"

interpretation nonce_open_rel: io_rel "no_new_open nonces P" for P
  by unfold_locales (auto simp: no_new_open_def)

interpretation code_open_rel: io_rel "no_new_open codes P" for P
  by unfold_locales (auto simp: no_new_open_def)

interpretation activation_open_rel: io_rel "no_new_open activations P" for P
  by unfold_locales (auto simp: no_new_open_def)

lemma has_open_stamp:
  assumes "\<And>r. \<not> P (f r)"
  shows "has_open P (set_where Q f rs) \<Longrightarrow> has_open P rs"
  using assms by (auto simp: has_open_def mem_set_where)

lemma AuthNonce_Consume_moves:
  "moves (no_new_open nonces (nonce_open nonce)) (AuthNonce_Consume nonce' purpose t)"
  unfolding AuthNonce_Consume_def
  by (intro nonce_open_rel.tx nonce_open_rel.steps nonce_open_rel.update_count)
     (auto simp: no_new_open_def nonce_open_def nonce_stamp_def nonce_open_rel.pure_steps
       intro: has_open_stamp[rotated])

lemma AuthCode_Consume_moves:
  "moves (no_new_open codes (code_open code)) (AuthCode_Consume code' t)"
  unfolding AuthCode_Consume_def
  by (intro code_open_rel.tx code_open_rel.steps code_open_rel.update_count)
     (auto simp: no_new_open_def code_open_def code_stamp_def code_open_rel.pure_steps
       intro: has_open_stamp[rotated])

lemma ActivationCode_Consume_moves:
  "moves (no_new_open activations (activation_open code)) (ActivationCode_Consume code' ct ch t)"
  unfolding ActivationCode_Consume_def
  by (intro activation_open_rel.tx activation_open_rel.steps activation_open_rel.update_count)
     (auto simp: no_new_open_def activation_open_def activation_stamp_def activation_open_rel.pure_steps
       intro: has_open_stamp[rotated])

interpretation nonce_once: one_time "\<lambda>w. has_open (nonce_open nonce) (nonces w)"
    "\<lambda>(purpose, t). AuthNonce_Consume nonce purpose t" for nonce
proof (unfold_locales, goal_cases)
  case (1 p w x w')
  then show ?case by (cases p) (auto dest!: AuthNonce_Consume_Inr find_Some_mem
      simp: nonce_check_Inr has_open_def nonce_open_def)
next
  case (2 p w x w')
  then have "nonces w' = set_where (nonce_open nonce) (nonce_stamp (snd p)) (nonces w)"
    using AuthNonce_Consume_Inr by (cases p) fastforce
  then show ?case
    using not_open_after[of "nonce_open nonce" "nonce_stamp (snd p)"] by (simp add: nonce_open_def nonce_stamp_def)
next
  case (3 p w r w')
  then show ?case
    by (cases p) (metis (mono_tags, lifting) AuthNonce_Consume_moves case_prod_conv moves_def no_new_open_def snd_conv)
qed

interpretation code_once: one_time "\<lambda>w. has_open (code_open code) (codes w)"
    "\<lambda>t. AuthCode_Consume code t" for code
proof (unfold_locales, goal_cases)
  case (1 t w x w')
  then show ?case by (auto dest!: AuthCode_Consume_Inr find_Some_mem
      simp: code_check_Inr has_open_def code_open_def)
next
  case (2 t w x w')
  then have "codes w' = set_where (code_open code) (code_stamp t) (codes w)"
    using AuthCode_Consume_Inr by blast
  then show ?case
    using not_open_after[of "code_open code" "code_stamp t"] by (simp add: code_open_def code_stamp_def)
next
  case (3 t w r w')
  then show ?case
    by (metis (mono_tags, lifting) AuthCode_Consume_moves moves_def no_new_open_def snd_conv)
qed

interpretation activation_once: one_time "\<lambda>w. has_open (activation_open code) (activations w)"
    "\<lambda>(ct, ch, t). ActivationCode_Consume code ct ch t" for code
proof (unfold_locales, goal_cases)
  case (1 p w x w')
  then show ?case by (cases p) (auto dest!: ActivationCode_Consume_Inr find_Some_mem
      simp: activation_check_Inr has_open_def activation_open_def)
next
  case (2 p w x w')
  then have "activations w' = set_where (activation_open code) (activation_stamp (snd (snd p))) (activations w)"
    using ActivationCode_Consume_Inr by (cases p) fastforce
  then show ?case
    using not_open_after[of "activation_open code" "activation_stamp (snd (snd p))"] by (simp add: activation_open_def activation_stamp_def)
next
  case (3 p w r w')
  then show ?case
    by (cases p) (metis (mono_tags, lifting) ActivationCode_Consume_moves case_prod_conv moves_def no_new_open_def snd_conv)
qed

section \<open>Concurrent consumers\<close>

datatype phase = Idle | Checked | Won | Lost

text \<open>
  Each consumer reads and checks the row, and later writes under its guard: \<open>look i rs\<close>
  is the outcome of consumer \<open>i\<close>'s read and checks, \<open>P\<close> the guard of the \<open>UPDATE\<close> and
  \<open>f i\<close> its assignment. Meanwhile rows of other credentials appear and rows are deleted.
\<close>

inductive race :: "(nat \<Rightarrow> 'r list \<Rightarrow> bool) \<Rightarrow> ('r \<Rightarrow> bool) \<Rightarrow> (nat \<Rightarrow> 'r \<Rightarrow> 'r)
    \<Rightarrow> 'r list \<times> (nat \<Rightarrow> phase) \<Rightarrow> 'r list \<times> (nat \<Rightarrow> phase) \<Rightarrow> bool"
  for look P f where
  read_ok: "pc i = Idle \<Longrightarrow> look i rs \<Longrightarrow> race look P f (rs, pc) (rs, pc(i := Checked))"
| read_fail: "pc i = Idle \<Longrightarrow> \<not> look i rs \<Longrightarrow> race look P f (rs, pc) (rs, pc(i := Lost))"
| win: "pc i = Checked \<Longrightarrow> has_open P rs \<Longrightarrow>
    race look P f (rs, pc) (set_where P (f i) rs, pc(i := Won))"
| lose: "pc i = Checked \<Longrightarrow> \<not> has_open P rs \<Longrightarrow>
    race look P f (rs, pc) (set_where P (f i) rs, pc(i := Lost))"
| insert_other: "\<not> P r \<Longrightarrow> race look P f (rs, pc) (rs @ [r], pc)"
| delete: "race look P f (rs, pc) (filter Q rs, pc)"

inductive_cases raceE: "race look P f s s'"

locale cas =
  fixes P :: "'r \<Rightarrow> bool" and f :: "nat \<Rightarrow> 'r \<Rightarrow> 'r"
  assumes closes: "\<not> P (f i r)"
begin

definition safe :: "'r list \<times> (nat \<Rightarrow> phase) \<Rightarrow> bool" where
  "safe s \<longleftrightarrow> (case s of (rs, pc) \<Rightarrow>
     (\<forall>i. pc i = Won \<longrightarrow> \<not> has_open P rs) \<and> (\<forall>i j. pc i = Won \<longrightarrow> pc j = Won \<longrightarrow> i = j))"

lemma safe_step: "race look P f s s' \<Longrightarrow> safe s \<Longrightarrow> safe s'"
  by (erule raceE) (use closes in \<open>auto simp: safe_def has_open_def mem_set_where split: if_splits\<close>)

lemma safe_run:
  assumes "(race look P f)\<^sup>*\<^sup>* s s'" "safe s"
  shows "safe s'"
  using assms by (induction) (auto intro: safe_step)

theorem single_winner:
  assumes "(race look P f)\<^sup>*\<^sup>* (rs, \<lambda>_. Idle) (rs', pc)" "pc i = Won" "pc j = Won"
  shows "i = j"
  using safe_run[OF assms(1)] assms(2,3) by (auto simp: safe_def)

end

text \<open>Two consumers that both read before either writes: the first to write wins.\<close>

lemma race_two:
  assumes "look 0 rs" "look 1 rs" "has_open P rs" "\<And>i r. \<not> P (f i r)"
  shows "(race look P f)\<^sup>*\<^sup>* (rs, \<lambda>_. Idle)
    (set_where P (f 1) (set_where P (f 0) rs),
     ((((\<lambda>_. Idle)(0 := Checked))(1 := Checked))(0 := Won))(1 := Lost))"
proof -
  let ?a = "(\<lambda>_. Idle)(0 := Checked)" and ?b = "((\<lambda>_. Idle)(0 := Checked))(1 := Checked)"
  let ?rs = "set_where P (f 0) rs" and ?R = "race look P f"
  have "?R (rs, \<lambda>_. Idle) (rs, ?a)" by (rule read_ok) (simp, rule assms)
  moreover have "?R (rs, ?a) (rs, ?b)" by (rule read_ok) (simp, rule assms)
  moreover have "?R (rs, ?b) (?rs, ?b(0 := Won))" by (rule win) (simp, rule assms)
  moreover have "?R (?rs, ?b(0 := Won)) (set_where P (f 1) ?rs, (?b(0 := Won))(1 := Lost))"
    by (rule lose) (simp, rule not_open_after, rule assms)
  ultimately show ?thesis
    by (meson rtranclp.rtrancl_into_rtrancl rtranclp.rtrancl_refl)
qed

interpretation nonce_cas: cas "nonce_open nonce" "\<lambda>i. nonce_stamp (t i)" for nonce t
  by unfold_locales (simp add: nonce_open_def nonce_stamp_def)

interpretation code_cas: cas "code_open code" "\<lambda>i. code_stamp (t i)" for code t
  by unfold_locales (simp add: code_open_def code_stamp_def)

interpretation activation_cas: cas "activation_open code" "\<lambda>i. activation_stamp (t i)" for code t
  by unfold_locales (simp add: activation_open_def activation_stamp_def)

section \<open>What the repositories guarantee\<close>

lemma AuthCode_Consume_fresh:
  assumes "faults w = []" "find (\<lambda>c. c_code c = code) (codes w) = Some c" "code_check t c = Inr ()"
  shows "AuthCode_Consume code t w =
    (Inr c, w\<lparr>codes := set_where (code_open code) (code_stamp t) (codes w)\<rparr>)"
proof -
  from assms(2,3) have "filter (code_open code) (codes w) \<noteq> []"
    by (auto simp: filter_empty_conv code_open_def code_check_Inr dest: find_Some_mem)
  then show ?thesis using assms
    by (simp add: AuthCode_Consume_def with_tx_def bindE_def query_row_def exec_def
        liftE_def update_count_def returnE_def)
qed

lemma ActivationCode_Consume_fresh:
  assumes "faults w = []" "find (\<lambda>a. a_code a = code) (activations w) = Some a"
    "activation_check ct ch t a = Inr ()"
  shows "ActivationCode_Consume code ct ch t w = (Inr (a\<lparr>a_status := ActivationConsumed\<rparr>),
    w\<lparr>activations := set_where (activation_open code) (activation_stamp t) (activations w)\<rparr>)"
proof -
  from assms(2,3) have "filter (activation_open code) (activations w) \<noteq> []"
    by (auto simp: filter_empty_conv activation_open_def activation_check_Inr dest: find_Some_mem)
  then show ?thesis using assms
    by (simp add: ActivationCode_Consume_def with_tx_def bindE_def query_row_def exec_def
        liftE_def update_count_def returnE_def)
qed

lemma AuthNonce_Consume_fresh:
  assumes "faults w = []" "find (\<lambda>n. n_nonce n = nonce) (nonces w) = Some n"
    "nonce_check purpose t n = Inr ()"
  shows "AuthNonce_Consume nonce purpose t w =
    (Inr n, w\<lparr>nonces := set_where (nonce_open nonce) (nonce_stamp t) (nonces w)\<rparr>)"
proof -
  from assms(2,3) have "filter (nonce_open nonce) (nonces w) \<noteq> []"
    by (auto simp: filter_empty_conv nonce_open_def nonce_check_Inr dest: find_Some_mem)
  then show ?thesis using assms
    by (simp add: AuthNonce_Consume_def with_tx_def bindE_def query_row_def exec_def
        liftE_def update_count_def returnE_def)
qed

text \<open>Redeeming an authorization code on a database that does not fail: the result is
  the stored code exactly when it exists, is not consumed and not expired, and otherwise
  the error of the first check that fails; only a success changes the table, by stamping
  that code.\<close>

theorem AuthCode_Consume_result:
  assumes "faults w = []"
  shows "fst (AuthCode_Consume code t w) =
      (case find (\<lambda>c. c_code c = code) (codes w) of
         None \<Rightarrow> Inl ErrNotFound
       | Some c \<Rightarrow> if c_consumed c \<noteq> None then Inl ErrConsumed
                  else if c_expires c < t then Inl ErrExpired else Inr c)
    \<and> codes (snd (AuthCode_Consume code t w)) =
      (if \<exists>c. fst (AuthCode_Consume code t w) = Inr c
       then map (\<lambda>c. if c_code c = code \<and> c_consumed c = None then c\<lparr>c_consumed := Some t\<rparr> else c)
              (codes w)
       else codes w)"
proof (cases "find (\<lambda>c. c_code c = code) (codes w)")
  case None
  then show ?thesis using assms
    by (simp add: AuthCode_Consume_def with_tx_def bindE_def query_row_def exec_def)
next
  case (Some c)
  then have mem: "c \<in> set (codes w)" "c_code c = code" by (auto dest: find_Some_mem)
  show ?thesis
  proof (cases "code_check t c")
    case (Inl e)
    then have "AuthCode_Consume code t w = (Inl e, rollback w w)" using assms Some
      by (simp add: AuthCode_Consume_def with_tx_def bindE_def query_row_def exec_def liftE_def)
    then show ?thesis using Inl Some by (auto simp: code_check_def split: if_splits)
  next
    case (Inr u)
    then show ?thesis using AuthCode_Consume_fresh[OF assms Some] Some
      by (auto simp: code_check_Inr set_where_def code_open_def code_stamp_def)
  qed
qed

definition sample_code :: auth_code where
  "sample_code = \<lparr>c_code = ''h1'', c_client = ''app'', c_sch = ''aa'', c_aud = ''rp'', c_scope = [],
     c_redirect = ''https://rp'', c_challenge = Some ''ch'', c_expires = 100, c_consumed = None,
     c_created = 40\<rparr>"

lemma AuthCode_Consume_result_witness:
  "fst (AuthCode_Consume ''h1'' 100 (empty_world\<lparr>codes := [sample_code]\<rparr>)) = Inr sample_code
   \<and> fst (AuthCode_Consume ''h1'' 101 (empty_world\<lparr>codes := [sample_code]\<rparr>)) = Inl ErrExpired"
  using AuthCode_Consume_result[of "empty_world\<lparr>codes := [sample_code]\<rparr>" "''h1''" 100]
    AuthCode_Consume_result[of "empty_world\<lparr>codes := [sample_code]\<rparr>" "''h1''" 101]
  by (simp add: empty_world_def sample_code_def)

text \<open>In any run of the service, under any pattern of database failures, at most one
  redemption of an authorization code succeeds: the run may contain other redemptions at
  any times and any operations that do not put an unconsumed row with that code into the
  table.\<close>

theorem AuthCode_at_most_once:
  assumes "\<And>att m. (att, m) \<in> set run \<Longrightarrow> att \<Longrightarrow> \<exists>t. m = AuthCode_Consume code t"
    and "\<And>att m. (att, m) \<in> set run \<Longrightarrow> \<not> att \<Longrightarrow> moves (no_new_open codes (code_open code)) m"
  shows "wins run w \<le> 1"
proof (rule code_once.at_most_once[of code])
  have "code_once.allowed code (att, m)" if "(att, m) \<in> set run" for att m
    using assms(1)[OF that] assms(2)[OF that]
    by (cases att) (auto simp: code_once.allowed_def no_new_open_def[abs_def])
  then show "list_all (code_once.allowed code) run" by (auto simp: list_all_iff)
qed

lemma AuthCode_at_most_once_witness:
  "wins [(True, AuthCode_Consume ''h1'' 90), (True, AuthCode_Consume ''h1'' 91)]
     (empty_world\<lparr>codes := [sample_code]\<rparr>) \<le> 1
   \<and> fst (AuthCode_Consume ''h1'' 90 (empty_world\<lparr>codes := [sample_code]\<rparr>)) = Inr sample_code"
proof
  show "wins [(True, AuthCode_Consume ''h1'' 90), (True, AuthCode_Consume ''h1'' 91)]
     (empty_world\<lparr>codes := [sample_code]\<rparr>) \<le> 1"
    by (rule AuthCode_at_most_once[of _ "''h1''"]) auto
  show "fst (AuthCode_Consume ''h1'' 90 (empty_world\<lparr>codes := [sample_code]\<rparr>)) = Inr sample_code"
    by (subst AuthCode_Consume_fresh[of _ _ sample_code])
       (simp_all add: empty_world_def sample_code_def code_check_def)
qed

text \<open>Under concurrent redemptions, where each request's read and guarded write are
  separate steps interleaved with those of all the others, at most one request for an
  authorization code wins.\<close>

theorem AuthCode_single_winner:
  assumes "(race (\<lambda>i rs. \<exists>c. find (\<lambda>c. c_code c = code) rs = Some c \<and> code_check (t i) c = Inr ())
       (code_open code) (\<lambda>i. code_stamp (t i)))\<^sup>*\<^sup>* (rs, \<lambda>_. Idle) (rs', pc)"
    and "pc i = Won" "pc j = Won"
  shows "i = j"
  using assms by (rule code_cas.single_winner)

lemma AuthCode_single_winner_witness:
  "\<exists>rs' pc. (race (\<lambda>i rs. \<exists>c. find (\<lambda>c. c_code c = ''h1'') rs = Some c \<and> code_check ((\<lambda>_. 90) i) c = Inr ())
       (code_open ''h1'') (\<lambda>i. code_stamp ((\<lambda>_. 90) i)))\<^sup>*\<^sup>* ([sample_code], \<lambda>_. Idle) (rs', pc)
     \<and> pc 0 = Won \<and> pc 1 = Lost \<and> (\<forall>j. pc j = Won \<longrightarrow> 0 = j)"
proof -
  let ?look = "\<lambda>i rs. \<exists>c. find (\<lambda>c. c_code c = ''h1'') rs = Some c \<and> code_check ((\<lambda>_. 90) (i::nat)) c = Inr ()"
  let ?pc = "((((\<lambda>_. Idle)(0 := Checked))(1 := Checked))(0 := Won))(1 := Lost)"
  have run: "(race ?look (code_open ''h1'') (\<lambda>i. code_stamp ((\<lambda>_. 90) i)))\<^sup>*\<^sup>* ([sample_code], \<lambda>_. Idle)
      (set_where (code_open ''h1'') (code_stamp 90) (set_where (code_open ''h1'') (code_stamp 90) [sample_code]), ?pc)"
    using race_two[of ?look "[sample_code]" "code_open ''h1''" "\<lambda>_. code_stamp 90"]
    by (simp add: sample_code_def code_check_def has_open_def code_open_def code_stamp_def)
  show ?thesis
    by (intro exI[of _ "set_where (code_open ''h1'') (code_stamp 90) (set_where (code_open ''h1'') (code_stamp 90) [sample_code])"]
        exI[of _ ?pc] conjI allI impI AuthCode_single_winner[OF run]) (rule run, simp_all)
qed

text \<open>An activation code that a bot redeems exists, was not consumed, has not expired,
  is for the bot's channel type and, unless the code or the bot is unbound, for the bot's
  own instance; after it the code is consumed at that time.\<close>

theorem ActivationCode_Consume_bound:
  assumes "ActivationCode_Consume code channelType channelID t w = (Inr a, w')"
  shows "\<exists>a0 \<in> set (activations w). a_code a0 = code \<and> a_consumed a0 = None \<and> t \<le> a_expires a0
      \<and> a_ctype a0 = channelType
      \<and> (channelID = '''' \<or> a_channel a0 = '''' \<or> a_channel a0 = channelID)
      \<and> a = a0\<lparr>a_status := ActivationConsumed\<rparr>
      \<and> a0\<lparr>a_status := ActivationConsumed, a_consumed := Some t\<rparr> \<in> set (activations w')"
proof -
  from ActivationCode_Consume_Inr[OF assms] obtain a0 where
    a0: "find (\<lambda>a. a_code a = code) (activations w) = Some a0"
      "activation_check channelType channelID t a0 = Inr ()"
      "a = a0\<lparr>a_status := ActivationConsumed\<rparr>"
      "activations w' = set_where (activation_open code) (activation_stamp t) (activations w)"
    by blast
  have mem: "a0 \<in> set (activations w)" "a_code a0 = code" using find_Some_mem[OF a0(1)] by auto
  moreover have "activation_open code a0" using a0(2) mem by (simp add: activation_check_Inr activation_open_def)
  then have "activation_stamp t a0 \<in> set (activations w')" using mem a0(4) by (auto simp: mem_set_where)
  ultimately show ?thesis using a0 by (intro bexI[of _ a0]) (auto simp: activation_check_Inr activation_stamp_def)
qed

definition sample_activation :: activation_code where
  "sample_activation = \<lparr>a_code = ''k'', a_sch = ''aa'', a_channel = ''c1'', a_ctype = ''telegram'',
     a_status = ActivationActive, a_expires = 100, a_consumed = None, a_created = 0\<rparr>"

lemma ActivationCode_Consume_bound_witness:
  "\<exists>w'. ActivationCode_Consume ''k'' ''telegram'' ''c1'' 50 (empty_world\<lparr>activations := [sample_activation]\<rparr>)
      = (Inr (sample_activation\<lparr>a_status := ActivationConsumed\<rparr>), w')
     \<and> sample_activation\<lparr>a_status := ActivationConsumed, a_consumed := Some 50\<rparr> \<in> set (activations w')"
proof -
  let ?w = "empty_world\<lparr>activations := [sample_activation]\<rparr>"
  let ?r = "ActivationCode_Consume ''k'' ''telegram'' ''c1'' 50 ?w"
  have res: "fst ?r = Inr (sample_activation\<lparr>a_status := ActivationConsumed\<rparr>)"
    by (subst ActivationCode_Consume_fresh[of _ _ sample_activation])
       (simp_all add: empty_world_def sample_activation_def activation_check_def)
  then have run: "?r = (Inr (sample_activation\<lparr>a_status := ActivationConsumed\<rparr>), snd ?r)"
    by (metis prod.collapse)
  from ActivationCode_Consume_bound[OF run] have
    "sample_activation\<lparr>a_status := ActivationConsumed, a_consumed := Some 50\<rparr> \<in> set (activations (snd ?r))"
    by (auto simp: empty_world_def)
  then show ?thesis using run by blast
qed

text \<open>The nonce collector removes only nonces whose expiry does not lie in a later
  second than its cut-off, and removes every nonce that expired in an earlier second.\<close>

theorem DeleteExpired_second:
  assumes "AuthNonce_DeleteExpired t w = (Inr k, w')"
  shows "(\<forall>n \<in> set (nonces w). unix_sec t < unix_sec (n_expires n) \<longrightarrow> n \<in> set (nonces w'))
    \<and> (\<forall>n \<in> set (nonces w'). n \<in> set (nonces w) \<and> unix_sec t \<le> unix_sec (n_expires n))
    \<and> k + length (nonces w') = length (nonces w)"
proof -
  have tab: "nonces w' = filter (\<lambda>n. \<not> ts_less (n_expires n) t) (nonces w)"
    and k: "k = length (filter (\<lambda>n. ts_less (n_expires n) t) (nonces w))"
    using assms by (auto simp: AuthNonce_DeleteExpired_def delete_rows_Inr)
  have "k + length (nonces w') = length (nonces w)"
    unfolding tab k by (rule sum_length_filter_compl)
  moreover have "\<not> ts_less e t" if "unix_sec t < unix_sec e" for e
    using ts_less_not_later[of e t] that by linarith
  moreover have "unix_sec t \<le> unix_sec e" if "\<not> ts_less e t" for e
    using ts_less_seconds[of e t] that by linarith
  ultimately show ?thesis by (auto simp: tab)
qed

definition sample_nonce :: "instant \<Rightarrow> auth_nonce" where
  "sample_nonce e = \<lparr>n_nonce = ''n'', n_purpose = NonceIssue, n_bound = Some ''aa'', n_expires = e,
     n_consumed = None, n_created = 0\<rparr>"

lemma DeleteExpired_second_witness:
  "\<exists>k w'. AuthNonce_DeleteExpired (5 * second) (empty_world\<lparr>nonces := [sample_nonce (4 * second), sample_nonce (6 * second)]\<rparr>)
      = (Inr k, w') \<and> sample_nonce (6 * second) \<in> set (nonces w') \<and> k + length (nonces w') = 2"
proof -
  let ?w = "empty_world\<lparr>nonces := [sample_nonce (4 * second), sample_nonce (6 * second)]\<rparr>"
  obtain k w' where run: "AuthNonce_DeleteExpired (5 * second) ?w = (Inr k, w')"
    by (simp add: AuthNonce_DeleteExpired_def delete_rows_def exec_def empty_world_def faulty_def skip_def)
  show ?thesis using DeleteExpired_second[OF run] run
    by (auto simp: sample_nonce_def empty_world_def unix_sec_def second_def)
qed

text \<open>Within one second the text comparison misorders: a nonce that is still valid for
  half a second at a cut-off on the second is removed, although a consume at that time
  would accept it.\<close>

theorem DeleteExpired_drops_valid_nonce:
  "let w = empty_world\<lparr>nonces := [sample_nonce (5 * second + 500 * millisecond)]\<rparr>
   in nonce_check NonceIssue (5 * second) (sample_nonce (5 * second + 500 * millisecond)) = Inr ()
      \<and> nonces (snd (AuthNonce_DeleteExpired (5 * second) w)) = []"
  by (simp add: Let_def nonce_check_def sample_nonce_def AuthNonce_DeleteExpired_def delete_rows_def
      exec_def empty_world_def faulty_def skip_def ts_less_def ts_key_def unix_sec_def second_def
      millisecond_def frac_text_def frac_digits_def upt_rec digit_char_def)

end
