(* ===== verification/Ledger.thy ===== *)
theory Ledger
  imports OneTime
begin

text \<open>
  The repositories of the OAuth server: \<open>store/repo_oauthclient.go\<close>,
  \<open>repo_issuedtoken.go\<close>, \<open>repo_refreshgrant.go\<close>, \<open>repo_blacklist.go\<close>,
  \<open>repo_issuerconfig.go\<close> and \<open>repo_attestorconfig.go\<close>.
  Refresh grants form rotation chains through \<open>rotated_from\<close>. The theorems about them:
  \<open>RevokeChain\<close> reaches exactly the descendants and always ends, the guarded rotation has
  one winner, and the invariant \<open>chains_ok\<close> gives at most one usable grant per chain.
\<close>

section \<open>Clients\<close>

definition merge_client :: "oauth_client \<Rightarrow> oauth_client \<Rightarrow> oauth_client" where
  "merge_client old new = new\<lparr>cl_id := cl_id old, cl_created := cl_created old\<rparr>"

definition OAuthClient_Upsert :: "oauth_client \<Rightarrow> unit io" where
  "OAuthClient_Upsert c = upsert_row clients_update cl_id merge_client c"

definition OAuthClient_Get :: "string \<Rightarrow> oauth_client io" where
  "OAuthClient_Get i = query_row (\<lambda>w. find (\<lambda>c. cl_id c = i) (clients w))"

definition OAuthClient_List :: "oauth_client list io" where
  "OAuthClient_List = query (\<lambda>w. order_by cl_created (clients w))"

section \<open>Issued tokens\<close>

definition IssuedToken_Create :: "issued_token \<Rightarrow> unit io" where
  "IssuedToken_Create t = insert_row tokens tokens_update t_jti t"

definition IssuedToken_Get :: "string \<Rightarrow> issued_token io" where
  "IssuedToken_Get jti = query_row (\<lambda>w. find (\<lambda>t. t_jti t = jti) (tokens w))"

definition revoke_token :: "instant \<Rightarrow> issued_token \<Rightarrow> issued_token" where
  "revoke_token at t = t\<lparr>t_status := TokenRevoked, t_revoked := Some at\<rparr>"

definition IssuedToken_Revoke :: "string \<Rightarrow> instant \<Rightarrow> unit io" where
  "IssuedToken_Revoke jti at = update_rows tokens_update (\<lambda>t. t_jti t = jti) (revoke_token at)"

definition IssuedToken_RevokeByStakeCredential :: "string \<Rightarrow> instant \<Rightarrow> nat io" where
  "IssuedToken_RevokeByStakeCredential sch at =
     update_count tokens tokens_update (\<lambda>t. t_sch t = sch \<and> t_status t = TokenActive) (revoke_token at)"

section \<open>Refresh grants\<close>

definition RefreshGrant_Create :: "refresh_grant \<Rightarrow> unit io" where
  "RefreshGrant_Create g = insert_row grants grants_update g_id g"

definition RefreshGrant_Get :: "string \<Rightarrow> refresh_grant io" where
  "RefreshGrant_Get i = query_row (\<lambda>w. find (\<lambda>g. g_id g = i) (grants w))"

definition set_grant :: "grant_status \<Rightarrow> refresh_grant \<Rightarrow> refresh_grant" where
  "set_grant st g = g\<lparr>g_status := st\<rparr>"

definition RefreshGrant_SetStatus :: "string \<Rightarrow> grant_status \<Rightarrow> unit io" where
  "RefreshGrant_SetStatus i st = update_rows grants_update (\<lambda>g. g_id g = i) (set_grant st)"

definition grant_open :: "string \<Rightarrow> refresh_grant \<Rightarrow> bool" where
  "grant_open i g \<longleftrightarrow> g_id g = i \<and> g_status g = GrantActive"

definition RefreshGrant_RotateIfActive :: "string \<Rightarrow> bool io" where
  "RefreshGrant_RotateIfActive i =
     bindE (update_count grants grants_update (grant_open i) (set_grant GrantRotated))
       (\<lambda>n. returnE (n = 1))"

definition RefreshGrant_RevokeByStakeCredential :: "string \<Rightarrow> nat io" where
  "RefreshGrant_RevokeByStakeCredential sch =
     update_count grants grants_update (\<lambda>g. g_sch g = sch \<and> g_status g \<noteq> GrantRevoked)
       (set_grant GrantRevoked)"

definition children :: "refresh_grant list \<Rightarrow> string \<Rightarrow> string list" where
  "children gs i = map g_id (filter (\<lambda>g. g_from g = Some i) gs)"

text \<open>The breadth-first walk of \<open>RevokeChain\<close>; every round handles one id.\<close>

fun revoke_walk :: "nat \<Rightarrow> string list \<Rightarrow> unit io" where
  "revoke_walk fuel [] = returnE ()"
| "revoke_walk 0 (cur # ids) = failE (ErrMsg ''chain fuel'')"
| "revoke_walk (Suc fuel) (cur # ids) =
     bindE (RefreshGrant_SetStatus cur GrantRevoked) (\<lambda>_.
     bindE (query (\<lambda>w. children (grants w) cur)) (\<lambda>cs.
     revoke_walk fuel (ids @ cs)))"

definition RefreshGrant_RevokeChain :: "string \<Rightarrow> unit io" where
  "RefreshGrant_RevokeChain start =
     with_tx (\<lambda>w. revoke_walk (Suc (length (grants w))) [start] w)"

section \<open>Blacklist, tier rules, attestor configurations\<close>

definition Blacklist_Add :: "blacklisted \<Rightarrow> unit io" where
  "Blacklist_Add b = upsert_row banned_update b_sch (\<lambda>old new. old\<lparr>b_reason := b_reason new\<rparr>) b"

definition Blacklist_Has :: "string \<Rightarrow> bool io" where
  "Blacklist_Has sch = query (\<lambda>w. \<exists>b \<in> set (banned w). b_sch b = sch)"

text \<open>
  The variable \<open>rules\<close> is still empty when the scan fails, so the test \<open>rules == ""\<close>, which
  comes before the test of \<open>err\<close>, holds for every driver error.
\<close>

definition no_rules :: raw_message where "no_rules = RawDoc (JArr [])"

definition Issuer_GetTierRules :: "raw_message io" where
  "Issuer_GetTierRules = tryE (query_row tier_rules) (\<lambda>r. case r of
       Inl e \<Rightarrow> returnE no_rules
     | Inr rules \<Rightarrow> returnE (if raw_is_empty rules then no_rules else rules))"

lemma Issuer_GetTierRules_total:
  "Issuer_GetTierRules w = (Inr (if faulty w then no_rules
     else case tier_rules w of None \<Rightarrow> no_rules | Some r \<Rightarrow> if raw_is_empty r then no_rules else r), skip w)"
  by (simp add: Issuer_GetTierRules_def tryE_def query_row_def exec_def returnE_def split: option.splits)

definition Issuer_SetTierRules :: "raw_message \<Rightarrow> unit io" where
  "Issuer_SetTierRules rules =
     modify (tier_rules_update (\<lambda>_. Some (if raw_is_empty rules then no_rules else rules)))"

definition paramsOrEmpty :: "raw_message \<Rightarrow> raw_message" where
  "paramsOrEmpty p = (if raw_is_empty p then RawDoc (JObj []) else p)"

definition Attestor_Create :: "attestor_config \<Rightarrow> unit io" where
  "Attestor_Create a = exec (\<lambda>w.
     if (\<exists>r \<in> set (attestors w). ac_id r = ac_id a \<or> (ac_kind r = ac_kind a \<and> ac_label r = ac_label a))
     then (Inl ErrDB, w)
     else (Inr (), attestors_update (\<lambda>rs. rs @ [a\<lparr>ac_params := paramsOrEmpty (ac_params a)\<rparr>]) w))"

definition notFoundIfNoRows :: "nat \<Rightarrow> unit io" where
  "notFoundIfNoRows n = (if n = 0 then failE ErrNotFound else returnE ())"

definition Attestor_Update :: "attestor_config \<Rightarrow> unit io" where
  "Attestor_Update a = bindE (exec (\<lambda>w.
       if (\<exists>r \<in> set (attestors w). ac_id r = ac_id a
            \<and> (\<exists>r' \<in> set (attestors w). ac_id r' \<noteq> ac_id a \<and> ac_kind r' = ac_kind r \<and> ac_label r' = ac_label a))
       then (Inl ErrDB, w)
       else (Inr (length (filter (\<lambda>r. ac_id r = ac_id a) (attestors w))),
             attestors_update (set_where (\<lambda>r. ac_id r = ac_id a)
               (\<lambda>r. r\<lparr>ac_label := ac_label a, ac_params := paramsOrEmpty (ac_params a),
                      ac_status := ac_status a, ac_updated := ac_updated a\<rparr>)) w)))
     notFoundIfNoRows"

definition Attestor_SetStatus :: "string \<Rightarrow> string \<Rightarrow> instant \<Rightarrow> unit io" where
  "Attestor_SetStatus i status now =
     bindE (update_count attestors attestors_update (\<lambda>r. ac_id r = i)
             (\<lambda>r. r\<lparr>ac_status := status, ac_updated := now\<rparr>)) notFoundIfNoRows"

definition Attestor_Delete :: "string \<Rightarrow> unit io" where
  "Attestor_Delete i = bindE (delete_rows attestors attestors_update (\<lambda>r. ac_id r = i)) notFoundIfNoRows"

definition Attestor_Get :: "string \<Rightarrow> attestor_config io" where
  "Attestor_Get i = query_row (\<lambda>w. find (\<lambda>r. ac_id r = i) (attestors w))"

text \<open>\<open>ORDER BY created_at, attestor_id\<close>.\<close>

definition order_attestors :: "attestor_config list \<Rightarrow> attestor_config list" where
  "order_attestors = sort_key (\<lambda>a. (ts_key (ac_created a), ac_id a))"

definition Attestor_List :: "attestor_config list io" where
  "Attestor_List = query (\<lambda>w. order_attestors (attestors w))"

definition Attestor_ListActive :: "attestor_config list io" where
  "Attestor_ListActive =
     query (\<lambda>w. order_attestors (filter (\<lambda>a. ac_status a = ''active'') (attestors w)))"

section \<open>Descendants\<close>

definition grant_edge :: "refresh_grant list \<Rightarrow> (string \<times> string) set" where
  "grant_edge gs = {(p, c). \<exists>g \<in> set gs. g_id g = c \<and> g_from g = Some p}"

definition family :: "refresh_grant list \<Rightarrow> string set \<Rightarrow> string set" where
  "family gs S = (grant_edge gs)\<^sup>* `` S"

lemma set_children [simp]: "set (children gs i) = {c. (i, c) \<in> grant_edge gs}"
  by (auto simp: children_def grant_edge_def)

lemma family_step: "family gs (insert i S) = insert i (family gs (S \<union> {c. (i, c) \<in> grant_edge gs}))"
  unfolding family_def by (auto elim: converse_rtranclE intro: converse_rtrancl_into_rtrancl)

lemma family_refl: "S \<subseteq> family gs S"
  by (auto simp: family_def)

lemma set_grant_sel [simp]:
  "g_id (set_grant st g) = g_id g" "g_from (set_grant st g) = g_from g"
  "g_status (set_grant st g) = st" "g_sch (set_grant st g) = g_sch g"
  by (simp_all add: set_grant_def)

lemma grant_edge_set_where [simp]: "grant_edge (set_where P (set_grant st) gs) = grant_edge gs"
proof -
  have "(\<exists>h \<in> set (set_where P (set_grant st) gs). g_id h = c \<and> g_from h = f)
      \<longleftrightarrow> (\<exists>g \<in> set gs. g_id g = c \<and> g_from g = f)" for c f
  proof -
    have "g_id (if P g then set_grant st g else g) = g_id g"
      "g_from (if P g then set_grant st g else g) = g_from g" for g by simp_all
    then show ?thesis by (simp add: set_where_def del: if_image_distrib)
  qed
  then show ?thesis by (simp add: grant_edge_def)
qed

lemma set_grant_idem [simp]: "set_grant st (set_grant st g) = set_grant st g"
  by (simp add: set_grant_def)

lemma set_where_twice:
  assumes "\<And>r. P (f r) = P r" "\<And>r. Q (f r) = Q r" "\<And>r. f (f r) = f r"
  shows "set_where P f (set_where Q f rs) = set_where (\<lambda>r. P r \<or> Q r) f rs"
  using assms by (auto simp: set_where_def)

lemma revoke_walk_Inr:
  "revoke_walk fuel ids w = (Inr u, w') \<Longrightarrow>
     grants w' = set_where (\<lambda>g. g_id g \<in> family (grants w) (set ids)) (set_grant GrantRevoked) (grants w)"
proof (induction fuel ids arbitrary: w rule: revoke_walk.induct)
  case (1 fuel)
  then show ?case by (simp add: returnE_Inr family_def)
next
  case (2 cur ids)
  then show ?case by (simp add: failE_def)
next
  case (3 fuel cur ids)
  let ?v = "skip (grants_update (set_where (\<lambda>g. g_id g = cur) (set_grant GrantRevoked)) (skip w))"
  have run: "revoke_walk fuel (ids @ children (grants ?v) cur) ?v = (Inr u, w')"
    using 3(2) by (auto simp: io_success RefreshGrant_SetStatus_def)
  have g: "grants ?v = set_where (\<lambda>g. g_id g = cur) (set_grant GrantRevoked) (grants w)" by simp
  have "family (grants w) (set (cur # ids))
      = insert cur (family (grants w) (set (ids @ children (grants ?v) cur)))"
    unfolding g by (simp add: family_step)
  moreover have "family (grants ?v) S = family (grants w) S" for S
    unfolding g family_def by simp
  ultimately show ?case
    using 3(1)[OF run] unfolding g
    by (subst (asm) set_where_twice) (auto simp: disj_commute)
qed

lemma RevokeChain_Inr:
  "RefreshGrant_RevokeChain i w = (Inr u, w') \<Longrightarrow>
     grants w' = set_where (\<lambda>g. g_id g \<in> family (grants w) {i}) (set_grant GrantRevoked) (grants w)"
proof -
  assume "RefreshGrant_RevokeChain i w = (Inr u, w')"
  then obtain v where "revoke_walk (Suc (length (grants (skip w)))) [i] (skip w) = (Inr u, v)" "w' = skip v"
    by (auto simp: RefreshGrant_RevokeChain_def with_tx_Inr simp del: revoke_walk.simps)
  moreover from revoke_walk_Inr[OF this(1)]
  have "grants v = set_where (\<lambda>g. g_id g \<in> family (grants w) {i}) (set_grant GrantRevoked) (grants w)"
    by simp
  ultimately show ?thesis by simp
qed

section \<open>Rotation chains\<close>

text \<open>
  Every grant names an earlier one as its predecessor, ids are unique, and a grant with a
  successor is no longer active.
\<close>

fun parents_first :: "string set \<Rightarrow> refresh_grant list \<Rightarrow> bool" where
  "parents_first seen [] = True"
| "parents_first seen (g # gs) =
     ((case g_from g of None \<Rightarrow> True | Some p \<Rightarrow> p \<in> seen) \<and> g_id g \<notin> seen
      \<and> parents_first (insert (g_id g) seen) gs)"

definition chains_ok :: "refresh_grant list \<Rightarrow> bool" where
  "chains_ok gs \<longleftrightarrow> parents_first {} gs
     \<and> (\<forall>g \<in> set gs. \<forall>h \<in> set gs. g_from h = Some (g_id g) \<longrightarrow> g_status g \<noteq> GrantActive)
     \<and> (\<forall>g \<in> set gs. \<forall>h \<in> set gs. g_from g \<noteq> None \<longrightarrow> g_from g = g_from h \<longrightarrow> g = h)"

lemma parents_first_append: "parents_first seen (gs @ hs) \<longleftrightarrow>
    parents_first seen gs \<and> parents_first (seen \<union> g_id ` set gs) hs"
  by (induction gs arbitrary: seen) (auto split: option.splits)

lemma parents_first_ids: "parents_first seen gs \<Longrightarrow> distinct (map g_id gs) \<and> g_id ` set gs \<inter> seen = {}"
  by (induction gs arbitrary: seen) auto

lemma parents_first_set_where:
  "parents_first seen (set_where P (set_grant st) gs) \<longleftrightarrow> parents_first seen gs"
  unfolding set_where_def by (induction gs arbitrary: seen) (auto split: option.splits)

text \<open>The position of a grant in the table grows along the edges.\<close>

definition grant_pos :: "refresh_grant list \<Rightarrow> string \<Rightarrow> nat" where
  "grant_pos gs i = length (takeWhile (\<lambda>g. g_id g \<noteq> i) gs)"

lemma takeWhile_short: "\<exists>x \<in> set xs. \<not> P x \<Longrightarrow> length (takeWhile P (xs @ ys)) < length xs"
  by (induction xs) auto

lemma children_set_where [simp]: "children (set_where P (set_grant st) gs) i = children gs i"
  unfolding children_def set_where_def by (induction gs) auto

lemma parents_first_pos:
  assumes "parents_first {} gs" "(p, c) \<in> grant_edge gs"
  shows "grant_pos gs p < grant_pos gs c"
proof -
  obtain g where g: "g \<in> set gs" "g_id g = c" "g_from g = Some p"
    using assms(2) by (auto simp: grant_edge_def)
  obtain xs ys where gs: "gs = xs @ g # ys" using split_list[OF g(1)] by blast
  have pf: "parents_first {} xs" "p \<in> g_id ` set xs" "c \<notin> g_id ` set xs"
    using assms(1) g by (auto simp: gs parents_first_append)
  have "grant_pos gs c = length xs"
  proof -
    have "g_id x \<noteq> c" if "x \<in> set xs" for x using pf(3) that by auto
    then have "takeWhile (\<lambda>g. g_id g \<noteq> c) gs = xs" using g(2) by (simp add: gs takeWhile_append2)
    then show ?thesis by (simp add: grant_pos_def)
  qed
  moreover have "grant_pos gs p < length xs"
  proof -
    have "\<exists>x \<in> set xs. \<not> g_id x \<noteq> p" using pf(2) by auto
    then show ?thesis unfolding grant_pos_def gs by (rule takeWhile_short)
  qed
  ultimately show ?thesis by simp
qed

lemma grant_edge_unique_parent:
  assumes "parents_first {} gs" "(p, c) \<in> grant_edge gs" "(q, c) \<in> grant_edge gs"
  shows "p = q"
proof -
  have d: "distinct (map g_id gs)" using parents_first_ids assms(1) by blast
  obtain g h where "g \<in> set gs" "g_id g = c" "g_from g = Some p" "h \<in> set gs" "g_id h = c" "g_from h = Some q"
    using assms by (auto simp: grant_edge_def)
  moreover from this have "g = h" using d by (simp add: distinct_map inj_on_def)
  ultimately show ?thesis by simp
qed

text \<open>The walk handles distinct ids only, so its fuel of one more than the rows suffices.\<close>

definition walk_inv :: "refresh_grant list \<Rightarrow> string \<Rightarrow> string list \<Rightarrow> string list \<Rightarrow> bool" where
  "walk_inv gs start visited queue \<longleftrightarrow> distinct (visited @ queue)
     \<and> (\<forall>x \<in> set (visited @ queue). (start, x) \<in> (grant_edge gs)\<^sup>*)
     \<and> (\<forall>x \<in> set (visited @ queue). x \<noteq> start \<longrightarrow> (\<exists>p \<in> set visited. (p, x) \<in> grant_edge gs))"

lemma walk_inv_set_where [simp]:
  "walk_inv (set_where P (set_grant st) gs) start visited queue = walk_inv gs start visited queue"
  by (simp add: walk_inv_def)

lemma rtrancl_pos:
  assumes "parents_first {} gs" "(a, b) \<in> (grant_edge gs)\<^sup>*"
  shows "grant_pos gs a \<le> grant_pos gs b"
  using assms(2) by (induction) (auto dest: parents_first_pos[OF assms(1)])

lemma walk_inv_step:
  assumes pf: "parents_first {} gs" and inv: "walk_inv gs start visited (cur # ids)"
  shows "walk_inv gs start (visited @ [cur]) (ids @ children gs cur)"
proof -
  have d: "distinct (map g_id gs)" using parents_first_ids pf by blast
  have reach: "(start, cur) \<in> (grant_edge gs)\<^sup>*" using inv by (auto simp: walk_inv_def)
  have new: "c \<notin> set (visited @ cur # ids)" if c: "(cur, c) \<in> grant_edge gs" for c
  proof
    assume mem: "c \<in> set (visited @ cur # ids)"
    show False
    proof (cases "c = start")
      case True
      then show False using rtrancl_pos[OF pf reach] parents_first_pos[OF pf c] by simp
    next
      case False
      have "\<forall>x \<in> set (visited @ cur # ids). x \<noteq> start \<longrightarrow> (\<exists>p \<in> set visited. (p, x) \<in> grant_edge gs)"
        using inv unfolding walk_inv_def by (elim conjE) assumption
      then obtain p where "p \<in> set visited" "(p, c) \<in> grant_edge gs" using mem False by blast
      then have "cur \<in> set visited" using grant_edge_unique_parent[OF pf c] by blast
      then show False using inv by (auto simp: walk_inv_def)
    qed
  qed
  have "distinct (children gs cur)"
    unfolding children_def by (rule distinct_map_filter[OF d])
  then have "distinct ((visited @ [cur]) @ ids @ children gs cur)"
    using inv new by (auto simp: walk_inv_def)
  moreover have "(start, c) \<in> (grant_edge gs)\<^sup>*" if "(cur, c) \<in> grant_edge gs" for c
    using reach that by simp
  ultimately show ?thesis using inv unfolding walk_inv_def by auto
qed

lemma walk_inv_length:
  assumes "walk_inv gs start visited queue"
  shows "length visited + length queue \<le> Suc (length gs)"
proof -
  have "set (visited @ queue) \<subseteq> insert start (g_id ` set gs)"
    using assms by (auto simp: walk_inv_def grant_edge_def)
  then have "card (set (visited @ queue)) \<le> card (insert start (set (map g_id gs)))"
    by (intro card_mono) auto
  moreover have "card (insert start (set (map g_id gs))) \<le> Suc (length gs)"
    using card_insert_le_m1 card_length[of "map g_id gs"] by (metis card_insert_if finite_set length_map
        le_Suc_eq not_less_eq_eq Suc_le_mono)
  moreover have "distinct (visited @ queue)" using assms by (simp add: walk_inv_def)
  then have "card (set (visited @ queue)) = length visited + length queue"
    using distinct_card by fastforce
  ultimately show ?thesis by linarith
qed

lemma revoke_walk_fuel:
  assumes "parents_first {} (grants w)" "walk_inv (grants w) start visited ids"
    and "Suc (length (grants w)) \<le> fuel + length visited"
  shows "fst (revoke_walk fuel ids w) \<noteq> Inl (ErrMsg ''chain fuel'')"
  using assms
proof (induction fuel ids arbitrary: w visited rule: revoke_walk.induct)
  case (1 fuel)
  then show ?case by (simp add: returnE_def)
next
  case (2 cur ids)
  then show ?case using walk_inv_length[OF 2(2)] by simp
next
  case (3 fuel cur ids)
  show ?case
  proof (cases "faulty w")
    case True
    then show ?thesis by (simp add: bindE_def RefreshGrant_SetStatus_def update_rows_def modify_def exec_def)
  next
    case ok: False
    let ?u = "grants_update (set_where (\<lambda>g. g_id g = cur) (set_grant GrantRevoked)) (skip w)"
    have set: "RefreshGrant_SetStatus cur GrantRevoked w = (Inr (), ?u)"
      using ok by (simp add: RefreshGrant_SetStatus_def update_rows_def modify_def exec_def)
    show ?thesis
    proof (cases "faulty ?u")
      case True
      then show ?thesis by (simp add: bindE_def set query_def exec_def)
    next
      case False
      let ?v = "skip ?u"
      have "fst (revoke_walk fuel (ids @ children (grants ?v) cur) ?v) \<noteq> Inl (ErrMsg ''chain fuel'')"
        using 3(2-4) walk_inv_step[OF 3(2,3)]
        by (intro 3(1)[of _ "visited @ [cur]"]) (auto simp: parents_first_set_where)
      moreover have "query (\<lambda>w. children (grants w) cur) ?u = (Inr (children (grants ?v) cur), ?v)"
        using False by (simp add: query_def exec_def getE_def)
      ultimately show ?thesis by (simp add: bindE_def set)
    qed
  qed
qed

lemma walk_inv_start: "walk_inv gs start [] [start]"
  by (simp add: walk_inv_def)

lemma grant_ids_unique: "parents_first {} gs \<Longrightarrow> g \<in> set gs \<Longrightarrow> h \<in> set gs \<Longrightarrow> g_id g = g_id h \<Longrightarrow> g = h"
  using parents_first_ids[of "{}" gs] by (auto simp: distinct_map inj_on_def)

lemma parents_first_parent:
  "parents_first seen gs \<Longrightarrow> h \<in> set gs \<Longrightarrow> g_from h = Some p \<Longrightarrow> p \<in> seen \<union> g_id ` set gs"
  by (induction gs arbitrary: seen) (auto split: option.splits)

lemma chains_ok_set_where:
  assumes "chains_ok gs" "st \<noteq> GrantActive"
  shows "chains_ok (set_where P (set_grant st) gs)"
proof -
  let ?f = "\<lambda>g. if P g then set_grant st g else g"
  have sel: "g_id (?f g) = g_id g" "g_from (?f g) = g_from g" for g by auto
  have el: "\<exists>g0 \<in> set gs. g = ?f g0" if "g \<in> set (set_where P (set_grant st) gs)" for g
    using that unfolding set_where_def by (auto simp del: if_image_distrib)
  show ?thesis unfolding chains_ok_def
  proof (intro conjI ballI impI)
    show "parents_first {} (set_where P (set_grant st) gs)"
      using assms(1) by (simp add: parents_first_set_where chains_ok_def)
  next
    fix g h assume "g \<in> set (set_where P (set_grant st) gs)" "h \<in> set (set_where P (set_grant st) gs)"
      and fr: "g_from h = Some (g_id g)"
    then obtain g0 h0 where "g0 \<in> set gs" "h0 \<in> set gs" "g = ?f g0" "h = ?f h0" using el by metis
    then show "g_status g \<noteq> GrantActive"
      using assms fr by (cases "P g0") (auto simp: chains_ok_def sel)
  next
    fix g h assume "g \<in> set (set_where P (set_grant st) gs)" "h \<in> set (set_where P (set_grant st) gs)"
      and fr: "g_from g \<noteq> None" "g_from g = g_from h"
    then obtain g0 h0 where "g0 \<in> set gs" "h0 \<in> set gs" "g = ?f g0" "h = ?f h0" using el by metis
    moreover from this have "g0 = h0" using assms(1) fr unfolding chains_ok_def sel by (metis sel(2))
    ultimately show "g = h" by simp
  qed
qed

lemma chains_ok_append:
  assumes ok: "chains_ok gs" and new: "g_id g \<notin> g_id ` set gs"
    and parent: "\<And>p. g_from g = Some p \<Longrightarrow> p \<in> g_id ` set gs
      \<and> (\<forall>x \<in> set gs. g_id x = p \<longrightarrow> g_status x \<noteq> GrantActive) \<and> (\<forall>h \<in> set gs. g_from h \<noteq> Some p)"
  shows "chains_ok (gs @ [g])"
proof -
  have pf: "parents_first {} gs" using ok by (simp add: chains_ok_def)
  then have nochild: "g_from h \<noteq> Some (g_id g)" if "h \<in> set gs" for h
    using parents_first_parent[OF pf that] new by auto
  have noself: "g_from g \<noteq> Some (g_id g)" using parent new by blast
  have "parents_first {} (gs @ [g])"
    using pf new parent by (auto simp: parents_first_append split: option.splits)
  moreover have "g_status x \<noteq> GrantActive"
    if "x \<in> set (gs @ [g])" "h \<in> set (gs @ [g])" "g_from h = Some (g_id x)" for x h
    using that ok parent nochild noself by (auto simp: chains_ok_def)
  moreover have "x = h"
    if "x \<in> set (gs @ [g])" "h \<in> set (gs @ [g])" "g_from x \<noteq> None" "g_from x = g_from h" for x h
    using that ok parent by (auto simp: chains_ok_def)
  ultimately show ?thesis unfolding chains_ok_def by blast
qed

lemma chains_ok_no_child:
  assumes "chains_ok gs" "g \<in> set gs" "g_status g = GrantActive" "h \<in> set gs"
  shows "g_from h \<noteq> Some (g_id g)"
  using assms by (auto simp: chains_ok_def)

interpretation grant_cas: cas "grant_open i" "\<lambda>_. set_grant GrantRotated" for i
  by unfold_locales (simp add: grant_open_def)

section \<open>Guarantees\<close>

text \<open>Revoking a chain revokes the grant and every grant reached from it through any number
  of rotations, and changes no other grant.\<close>

theorem RevokeChain_family:
  assumes "RefreshGrant_RevokeChain i w = (Inr u, w')"
  shows "grants w' = map (\<lambda>g. if (i, g_id g) \<in> (grant_edge (grants w))\<^sup>* then g\<lparr>g_status := GrantRevoked\<rparr> else g)
           (grants w)"
  using RevokeChain_Inr[OF assms] by (simp add: set_where_def family_def set_grant_def)

definition sample_grant :: "string \<Rightarrow> string option \<Rightarrow> grant_status \<Rightarrow> refresh_grant" where
  "sample_grant i from st = \<lparr>g_id = i, g_sch = ''aa'', g_aud = ''rp'', g_ctype = ClientPublic, g_device = [],
     g_client = Some ''app'', g_status = st, g_from = from, g_created = 0, g_expires = Some 1000, g_lastused = None\<rparr>"

definition sample_chain :: "refresh_grant list" where
  "sample_chain = [sample_grant ''g1'' None GrantRotated, sample_grant ''g2'' (Some ''g1'') GrantActive]"

lemma RevokeChain_family_witness:
  "\<exists>w'. RefreshGrant_RevokeChain ''g1'' (empty_world\<lparr>grants := sample_chain\<rparr>) = (Inr (), w')
     \<and> map g_status (grants w') = [GrantRevoked, GrantRevoked]"
proof -
  let ?w = "empty_world\<lparr>grants := sample_chain\<rparr>"
  obtain w' where run: "RefreshGrant_RevokeChain ''g1'' ?w = (Inr (), w')"
    by (simp add: RefreshGrant_RevokeChain_def with_tx_def bindE_def RefreshGrant_SetStatus_def update_rows_def
        modify_def exec_def query_def getE_def returnE_def empty_world_def faulty_def skip_def sample_chain_def
        sample_grant_def children_def set_where_def set_grant_def)
  have "(''g1'', ''g2'') \<in> grant_edge sample_chain" by (simp add: grant_edge_def sample_chain_def sample_grant_def)
  then have "(''g1'', ''g2'') \<in> (grant_edge sample_chain)\<^sup>*" by blast
  then show ?thesis using RevokeChain_family[OF run] run by (simp add: sample_chain_def sample_grant_def)
qed

text \<open>C34: Revoking a chain always ends: over a table in which every grant was rotated from an
  earlier one, the walk finishes within one round per stored grant and one more, so on a
  database that does not fail the operation succeeds.\<close>

theorem RevokeChain_ends:
  assumes "parents_first {} (grants w)"
  shows "fst (RefreshGrant_RevokeChain i w) \<noteq> Inl (ErrMsg ''chain fuel'')"
proof (cases "faulty w")
  case True
  then show ?thesis by (simp add: RefreshGrant_RevokeChain_def with_tx_def)
next
  case False
  have "fst (revoke_walk (Suc (length (grants (skip w)))) [i] (skip w)) \<noteq> Inl (ErrMsg ''chain fuel'')"
    using assms by (intro revoke_walk_fuel[where visited = "[]" and start = i]) (auto simp: walk_inv_start)
  then show ?thesis using False
    by (auto simp: RefreshGrant_RevokeChain_def with_tx_def simp del: revoke_walk.simps
        split: prod.splits sum.splits)
qed

lemma RevokeChain_ends_witness:
  "fst (RefreshGrant_RevokeChain ''g1'' (empty_world\<lparr>grants := sample_chain\<rparr>)) \<noteq> Inl (ErrMsg ''chain fuel'')"
  by (rule RevokeChain_ends) (simp add: sample_chain_def sample_grant_def)

text \<open>Under concurrent refreshes with the same token, whose guarded updates interleave with
  each other and with the rest of the service, at most one wins the rotation.\<close>

theorem RotateIfActive_single_winner:
  assumes "(race (\<lambda>i rs. \<exists>g. find (\<lambda>g. g_id g = gid) rs = Some g \<and> g_status g = GrantActive)
       (grant_open gid) (\<lambda>_. set_grant GrantRotated))\<^sup>*\<^sup>* (rs, \<lambda>_. Idle) (rs', pc)"
    and "pc i = Won" "pc j = Won"
  shows "i = j"
  using assms by (rule grant_cas.single_winner)

lemma RotateIfActive_single_winner_witness:
  "\<exists>rs' pc. (race (\<lambda>i rs. \<exists>g. find (\<lambda>g. g_id g = ''g2'') rs = Some g \<and> g_status g = GrantActive)
       (grant_open ''g2'') (\<lambda>_. set_grant GrantRotated))\<^sup>*\<^sup>* (sample_chain, \<lambda>_. Idle) (rs', pc)
     \<and> pc 0 = Won \<and> pc 1 = Lost \<and> (\<forall>j. pc j = Won \<longrightarrow> 0 = j)"
proof -
  let ?look = "\<lambda>i rs. \<exists>g. find (\<lambda>g. g_id g = ''g2'') rs = Some g \<and> g_status g = GrantActive"
  let ?pc = "((((\<lambda>_. Idle)(0 := Checked))(1 := Checked))(0 := Won))(1 := Lost)"
  let ?rs = "set_where (grant_open ''g2'') (set_grant GrantRotated)
      (set_where (grant_open ''g2'') (set_grant GrantRotated) sample_chain)"
  have run: "(race ?look (grant_open ''g2'') (\<lambda>_. set_grant GrantRotated))\<^sup>*\<^sup>* (sample_chain, \<lambda>_. Idle) (?rs, ?pc)"
    using race_two[of ?look sample_chain "grant_open ''g2''" "\<lambda>_. set_grant GrantRotated"]
    by (simp add: sample_chain_def sample_grant_def has_open_def grant_open_def)
  show ?thesis
    by (intro exI[of _ ?rs] exI[of _ ?pc] conjI allI impI RotateIfActive_single_winner[OF run]) (rule run, simp_all)
qed

text \<open>In a table that satisfies the chain invariant, the descendants of any grant contain at
  most one active grant: a rotation family never has two usable refresh tokens.\<close>

theorem one_active_per_chain:
  assumes ok: "chains_ok gs"
    and g: "g \<in> set gs" "g_status g = GrantActive" "(r, g_id g) \<in> (grant_edge gs)\<^sup>*"
    and h: "h \<in> set gs" "g_status h = GrantActive" "(r, g_id h) \<in> (grant_edge gs)\<^sup>*"
  shows "g = h"
proof -
  have pf: "parents_first {} gs" using ok by (simp add: chains_ok_def)
  have sv: "single_valued (grant_edge gs)"
  proof (rule single_valuedI)
    fix p c d assume "(p, c) \<in> grant_edge gs" "(p, d) \<in> grant_edge gs"
    then obtain x y where "x \<in> set gs" "g_id x = c" "g_from x = Some p" "y \<in> set gs" "g_id y = d" "g_from y = Some p"
      by (auto simp: grant_edge_def)
    moreover from this have "x = y" using ok unfolding chains_ok_def by (metis option.distinct(1))
    ultimately show "c = d" by simp
  qed
  have stuck: "c = g_id x" if x: "x \<in> set gs" "g_status x = GrantActive"
    and r: "(g_id x, c) \<in> (grant_edge gs)\<^sup>*" for x c
    using r
  proof (cases rule: converse_rtranclE)
    case (step y)
    then show ?thesis using chains_ok_no_child[OF ok x] by (auto simp: grant_edge_def)
  qed simp
  have "g_id g = g_id h"
    using single_valued_confluent[OF sv g(3) h(3)] stuck[OF g(1,2)] stuck[OF h(1,2)] by metis
  then show ?thesis using grant_ids_unique[OF pf g(1) h(1)] by simp
qed

lemma one_active_per_chain_witness:
  "chains_ok sample_chain \<and> (\<exists>g \<in> set sample_chain. g_status g = GrantActive
     \<and> (\<forall>h \<in> set sample_chain. g_status h = GrantActive \<longrightarrow> (''g1'', g_id h) \<in> (grant_edge sample_chain)\<^sup>* \<longrightarrow> g = h))"
proof -
  let ?g = "sample_grant ''g2'' (Some ''g1'') GrantActive"
  have ok: "chains_ok sample_chain" by (simp add: chains_ok_def sample_chain_def sample_grant_def)
  have "(''g1'', ''g2'') \<in> grant_edge sample_chain" by (simp add: grant_edge_def sample_chain_def sample_grant_def)
  then have reach: "(''g1'', g_id ?g) \<in> (grant_edge sample_chain)\<^sup>*" by (auto simp: sample_grant_def)
  have g: "?g \<in> set sample_chain" "g_status ?g = GrantActive" by (auto simp: sample_chain_def sample_grant_def)
  show ?thesis using ok one_active_per_chain[OF ok g reach] g by blast
qed

end
