(* ===== verification/TimeText.thy ===== *)
theory TimeText
  imports World
begin

text \<open>
  \<open>t.UTC().Format(time.RFC3339)\<close>: the civil date of a count of days since 1970-01-01
  (proleptic Gregorian calendar) and the fixed-width text of an instant, for years 0 to
  9999.
\<close>

text \<open>
  Years begin in March here, so that a leap day ends its year: \<open>doe\<close> is the day of the
  400 years' cycle, \<open>c\<close>, \<open>q\<close> and \<open>yr\<close> its century, the four years' group and the year in it,
  \<open>doy\<close> the day of the year and \<open>mp\<close> the month counted from March.
\<close>

definition march_of_days :: "int \<Rightarrow> int \<times> int \<times> int" where
  "march_of_days days =
     (let z = days + 719468;
          doe = z mod 146097;
          c = min 3 (doe div 36524);
          r = doe - 36524 * c;
          q = r div 1461;
          r2 = r mod 1461;
          yr = min 3 (r2 div 365);
          doy = r2 - 365 * yr;
          mp = (5 * doy + 2) div 153
      in (z div 146097 * 400 + 100 * c + 4 * q + yr, mp, doy - (153 * mp + 2) div 5 + 1))"

definition civil_of_days :: "int \<Rightarrow> int \<times> int \<times> int" where
  "civil_of_days days = (case march_of_days days of
     (y, mp, d) \<Rightarrow> if mp < 10 then (y, mp + 3, d) else (y + 1, mp - 9, d))"

definition pad :: "nat \<Rightarrow> int \<Rightarrow> string" where
  "pad k n = (let s = nat_string (nat n) in replicate (k - length s) (CHR ''0'') @ s)"

definition stamp :: "int \<Rightarrow> string" where
  "stamp secs =
     (let sod = secs mod 86400
      in case civil_of_days (secs div 86400) of
           (y, m, d) \<Rightarrow> pad 4 y @ ''-'' @ pad 2 m @ ''-'' @ pad 2 d @ ''T''
             @ pad 2 (sod div 3600) @ '':'' @ pad 2 (sod div 60 mod 60) @ '':'' @ pad 2 (sod mod 60))"

definition rfc3339 :: "instant \<Rightarrow> string" where
  "rfc3339 t = stamp (unix_sec t) @ ''Z''"

lemma rfc3339_examples:
  "rfc3339 0 = ''1970-01-01T00:00:00Z''"
  "rfc3339 (1709210096 * second) = ''2024-02-29T12:34:56Z''"
  "rfc3339 (1506203091 * second) = ''2017-09-23T21:44:51Z''"
  by code_simp+

end
