(* ===== verification/Attestor.thy ===== *)
theory Attestor
  imports TimeText Membership "HOL-Library.AList"
begin

text \<open>
  \<open>core/attestor\<close>: credentials that a subject may hold (\<open>attestor.go\<close>), the registry of
  builders (\<open>registry.go\<close>), the stake-pool credential (\<open>poolstake.go\<close>), the evaluation of a
  configured set (\<open>set.go\<close>) and the networks in use (\<open>networks.go\<close>).
  A Go map of facts is an association list with distinct keys, written by \<open>AList.update\<close>;
  the lemmas show that the order of its entries, which Go leaves open, never matters.
\<close>

section \<open>Attestations and attestors\<close>

definition KindPoolStake :: string where "KindPoolStake = ''pool_stake''"
definition KindNFT :: string where "KindNFT = ''nft''"

type_synonym fact_list = "(string \<times> string) list"

record attestation =
  att_kind :: string
  att_id :: string
  att_held :: bool
  att_claim :: "(string \<times> json) list"
  att_facts :: fact_list

record attestor =
  at_kind :: string
  at_id :: string
  at_attest :: "string \<Rightarrow> attestation io"

text \<open>\<open>SourceFor\<close>: the stateful stake source of a network.\<close>

type_synonym source_for = "string \<Rightarrow> err + (string \<Rightarrow> snapshot io)"
type_synonym builder = "string \<Rightarrow> raw_message \<Rightarrow> source_for \<Rightarrow> err + attestor"
type_synonym registry = "string \<rightharpoonup> builder"

section \<open>The stake-pool credential\<close>

record pool_params =
  pp_pool :: string
  pp_network :: string

definition decode_pool_params :: "raw_message \<Rightarrow> pool_params option" where
  "decode_pool_params raw = (case raw of
       RawDoc JNull \<Rightarrow> Some \<lparr>pp_pool = '''', pp_network = ''''\<rparr>
     | RawDoc (JObj kvs) \<Rightarrow>
         (case (json_string (json_field ''pool_id'' kvs), json_string (json_field ''network'' kvs)) of
            (Some p, Some n) \<Rightarrow> Some \<lparr>pp_pool = p, pp_network = n\<rparr>
          | _ \<Rightarrow> None)
     | _ \<Rightarrow> None)"

definition PoolFactKey :: "string \<Rightarrow> string \<Rightarrow> string" where
  "PoolFactKey poolID name = ''pool:'' @ poolID @ ''.'' @ name"

definition memberSince :: "string \<Rightarrow> snapshot \<Rightarrow> instant" where
  "memberSince network snap =
     (if sn_epochs snap \<le> 0 then zero_time
      else case EpochStart network (sn_epoch snap - word_of_int (sn_epochs snap) + 1) of
          None \<Rightarrow> zero_time
        | Some t \<Rightarrow> t)"

definition pool_attestation :: "string \<Rightarrow> pool_params \<Rightarrow> snapshot \<Rightarrow> attestation" where
  "pool_attestation i p snap =
     (let state = DeriveState (Some snap) (pp_pool p);
          stake = state = StateActive \<and> sn_stake snap \<noteq> '''';
          epochs = state = StateActive \<and> sn_epochs snap > 0;
          since = memberSince (pp_network p) snap;
          claim = [(''kind'', JStr KindPoolStake), (''pool'', JStr (pp_pool p)),
                   (''network'', JStr (pp_network p)), (''state'', JStr (state_string state))]
            @ (if stake then [(''active_stake_lovelace'', JStr (sn_stake snap))] else [])
            @ (if epochs then [(''epochs_active'', JNum (big_string (sn_epochs snap)))] else [])
            @ (if state = StateActive \<and> since \<noteq> zero_time
               then [(''member_since'', JStr (rfc3339 since))] else []);
          facts = [(PoolFactKey (pp_pool p) ''state'', state_string state)]
            @ (if stake then [(PoolFactKey (pp_pool p) ''active_stake_lovelace'', sn_stake snap)] else [])
            @ (if epochs then [(PoolFactKey (pp_pool p) ''epochs_active'', big_string (sn_epochs snap))] else [])
      in \<lparr>att_kind = KindPoolStake, att_id = i, att_held = state \<noteq> StateNone,
          att_claim = claim, att_facts = facts\<rparr>)"

definition PoolStake_Attest :: "string \<Rightarrow> pool_params \<Rightarrow> (string \<Rightarrow> snapshot io) \<Rightarrow> string
    \<Rightarrow> attestation io" where
  "PoolStake_Attest i p src subject =
     bindE (src subject) (\<lambda>snap. returnE (pool_attestation i p snap))"

definition BuildPoolStake :: builder where
  "BuildPoolStake i raw srcFor = (case decode_pool_params raw of
       None \<Rightarrow> Inl (ErrMsg ''pool_stake params'')
     | Some p \<Rightarrow>
         if pp_pool p = '''' then Inl (ErrMsg ''pool_stake: pool_id is required'')
         else (case srcFor (pp_network p) of
             Inl _ \<Rightarrow> Inl (ErrMsg ''pool_stake: source for network'')
           | Inr src \<Rightarrow> Inr \<lparr>at_kind = KindPoolStake, at_id = i,
                            at_attest = PoolStake_Attest i p src\<rparr>))"

section \<open>Registry and set\<close>

definition NewRegistry :: registry where "NewRegistry = Map.empty"

definition Registry_Register :: "string \<Rightarrow> builder \<Rightarrow> registry \<Rightarrow> registry" where
  "Registry_Register kind b r = r(kind \<mapsto> b)"

definition Registry_Build :: "registry \<Rightarrow> string \<Rightarrow> string \<Rightarrow> raw_message \<Rightarrow> source_for
    \<Rightarrow> err + attestor" where
  "Registry_Build r kind i params srcFor = (case r kind of
       None \<Rightarrow> Inl (ErrMsg ''attestor: no builder for kind'')
     | Some b \<Rightarrow> b i params srcFor)"

definition DefaultRegistry :: registry where
  "DefaultRegistry = Registry_Register KindPoolStake BuildPoolStake NewRegistry"

fun BuildSet :: "attestor_config list \<Rightarrow> registry \<Rightarrow> source_for \<Rightarrow> err + attestor list" where
  "BuildSet [] reg srcFor = Inr []"
| "BuildSet (c # cs) reg srcFor =
     (case Registry_Build reg (ac_kind c) (ac_id c) (ac_params c) srcFor of
        Inl e \<Rightarrow> Inl e
      | Inr a \<Rightarrow> (case BuildSet cs reg srcFor of Inl e \<Rightarrow> Inl e | Inr as \<Rightarrow> Inr (a # as)))"

definition FactAnyHeld :: string where "FactAnyHeld = ''any_held''"
definition FactAnyActive :: string where "FactAnyActive = ''any_active''"
definition FactTotalActiveStake :: string where "FactTotalActiveStake = ''total_active_stake''"

record att_result =
  ar_atts :: "attestation list"
  ar_held :: bool
  ar_facts :: fact_list

definition boolStr :: "bool \<Rightarrow> string" where
  "boolStr b = (if b then ''true'' else ''false'')"

definition anyStateActive :: "fact_list \<Rightarrow> bool" where
  "anyStateActive fs = list_ex (\<lambda>(k, v). has_suffix k ''.state'' \<and> v = ''active'') fs"

definition stake_value :: "string \<times> string \<Rightarrow> int" where
  "stake_value kv =
     (if \<not> has_suffix (fst kv) ''.active_stake_lovelace'' \<or> snd kv = '''' then 0
      else case big_parse (snd kv) of None \<Rightarrow> 0 | Some n \<Rightarrow> n)"

definition sumActiveStake :: "fact_list \<Rightarrow> string" where
  "sumActiveStake fs = big_string (sum_list (map stake_value fs))"

definition put_facts :: "fact_list \<Rightarrow> fact_list \<Rightarrow> fact_list" where
  "put_facts new fs = fold (\<lambda>(k, v). AList.update k v) new fs"

fun evaluate_loop :: "attestor list \<Rightarrow> string \<Rightarrow> att_result \<Rightarrow> att_result io" where
  "evaluate_loop [] subject res = returnE res"
| "evaluate_loop (a # as) subject res =
     bindE (at_attest a subject) (\<lambda>att.
       evaluate_loop as subject
         \<lparr>ar_atts = ar_atts res @ [att], ar_held = ar_held res \<or> att_held att,
          ar_facts = put_facts (att_facts att) (ar_facts res)\<rparr>)"

definition aggregate :: "att_result \<Rightarrow> att_result" where
  "aggregate res =
     (let f1 = AList.update FactAnyHeld (boolStr (ar_held res)) (ar_facts res);
          f2 = AList.update FactAnyActive (boolStr (anyStateActive f1)) f1;
          f3 = AList.update FactTotalActiveStake (sumActiveStake f2) f2
      in res\<lparr>ar_facts := f3\<rparr>)"

definition Evaluate :: "attestor list \<Rightarrow> string \<Rightarrow> att_result io" where
  "Evaluate as subject =
     bindE (evaluate_loop as subject \<lparr>ar_atts = [], ar_held = False, ar_facts = []\<rparr>)
       (\<lambda>res. returnE (aggregate res))"

section \<open>Networks\<close>

fun distinct_networks :: "string list \<Rightarrow> attestor_config list \<Rightarrow> string list" where
  "distinct_networks out [] = out"
| "distinct_networks out (c # cs) =
     (if ac_kind c \<noteq> KindPoolStake then distinct_networks out cs
      else case decode_pool_params (ac_params c) of
          None \<Rightarrow> distinct_networks out cs
        | Some p \<Rightarrow>
            let net = (if pp_network p = '''' then ''mainnet'' else pp_network p)
            in distinct_networks (if net \<in> set out then out else out @ [net]) cs)"

definition DistinctNetworks :: "attestor_config list \<Rightarrow> string list" where
  "DistinctNetworks cfgs = distinct_networks [] cfgs"

section \<open>The order of a map's entries does not matter\<close>

lemma stake_sum_set:
  assumes "distinct (map fst fs)"
  shows "sum_list (map stake_value fs) = (\<Sum>k \<in> fst ` set fs. stake_value (k, the (map_of fs k)))"
  using assms
proof (induction fs)
  case (Cons kv fs)
  obtain k v where kv: "kv = (k, v)" by force
  have "(\<Sum>k' \<in> fst ` set fs. stake_value (k', the (map_of (kv # fs) k')))
      = (\<Sum>k' \<in> fst ` set fs. stake_value (k', the (map_of fs k')))"
    using Cons.prems by (intro sum.cong) (auto simp: kv image_iff)
  then show ?case using Cons by (simp add: kv)
qed simp

lemma put_facts_distinct: "distinct (map fst fs) \<Longrightarrow> distinct (map fst (put_facts new fs))"
  unfolding put_facts_def
  by (induction new arbitrary: fs) (auto simp: distinct_update)

lemma map_of_put_facts: "map_of (put_facts new fs) = map_of fs ++ map_of (rev new)"
  unfolding put_facts_def
  by (induction new arbitrary: fs)
     (auto simp: update_conv' map_add_def fun_eq_iff split: option.splits)

text \<open>The aggregates depend on the facts as a map only: two enumerations of the same map,
  in any order, give the same \<open>any_active\<close> and the same total stake.\<close>

theorem aggregates_order_independent:
  assumes "distinct (map fst fs)" "distinct (map fst gs)" "map_of fs = map_of gs"
  shows "anyStateActive fs = anyStateActive gs \<and> sumActiveStake fs = sumActiveStake gs"
proof -
  have s: "set fs = set gs" using assms by (metis map_of_eqI map_of_is_SomeI map_of_SomeD subrelI subset_antisym)
  then have "anyStateActive fs = anyStateActive gs"
    by (auto simp: anyStateActive_def list_ex_iff)
  moreover have "sumActiveStake fs = sumActiveStake gs"
    using assms s by (simp add: sumActiveStake_def stake_sum_set)
  ultimately show ?thesis by simp
qed

lemma aggregates_order_independent_witness:
  "sumActiveStake [(''pool:a.active_stake_lovelace'', ''5''), (''pool:b.active_stake_lovelace'', ''7'')]
   = sumActiveStake [(''pool:b.active_stake_lovelace'', ''7''), (''pool:a.active_stake_lovelace'', ''5'')]"
  using aggregates_order_independent[of
    "[(''pool:a.active_stake_lovelace'', ''5''), (''pool:b.active_stake_lovelace'', ''7'')]"
    "[(''pool:b.active_stake_lovelace'', ''7''), (''pool:a.active_stake_lovelace'', ''5'')]"]
  by (auto simp: fun_eq_iff)

section \<open>Keys of the facts of one pool\<close>

definition pool_fact_names :: "string list" where
  "pool_fact_names = [''state'', ''active_stake_lovelace'', ''epochs_active'']"

lemma append_suffix_split:
  "a @ s = b @ t \<Longrightarrow> length s \<le> length t \<Longrightarrow> drop (length t - length s) t = s"
proof -
  assume eq: "a @ s = b @ t" and le: "length s \<le> length t"
  have "s = drop (length a) (a @ s)" by simp
  also have "\<dots> = drop (length a) (b @ t)" by (simp only: eq)
  also have "length a = length b + (length t - length s)"
    using arg_cong[OF eq, of length] le by simp
  finally show "drop (length t - length s) t = s" by simp
qed

lemma dotted_suffix_clash:
  assumes "n \<in> set pool_fact_names" "m \<in> set pool_fact_names" "p @ ''.'' @ n = q @ ''.'' @ m"
  shows "p = q \<and> n = m"
proof -
  have "n = m"
  proof (rule ccontr)
    assume "n \<noteq> m"
    then show False
      using assms append_suffix_split[of p "''.'' @ n" q "''.'' @ m"]
        append_suffix_split[of q "''.'' @ m" p "''.'' @ n"]
      by (auto simp: pool_fact_names_def)
  qed
  then show ?thesis using assms by simp
qed

lemma PoolFactKey_inj:
  assumes "n \<in> set pool_fact_names" "m \<in> set pool_fact_names"
  shows "PoolFactKey p n = PoolFactKey q m \<longleftrightarrow> p = q \<and> n = m"
  using dotted_suffix_clash[OF assms] by (auto simp: PoolFactKey_def)

lemma PoolFactKey_suffix:
  assumes "n \<in> set pool_fact_names" "m \<in> set pool_fact_names"
  shows "has_suffix (PoolFactKey p n) (''.'' @ m) \<longleftrightarrow> n = m"
proof
  assume "has_suffix (PoolFactKey p n) (''.'' @ m)"
  then obtain t where "(''pool:'' @ p) @ ''.'' @ n = t @ ''.'' @ m"
    by (auto simp: has_suffix_iff PoolFactKey_def)
  then show "n = m" using dotted_suffix_clash assms by blast
next
  assume "n = m"
  then have "PoolFactKey p n = (''pool:'' @ p) @ (''.'' @ m)" by (simp add: PoolFactKey_def)
  then show "has_suffix (PoolFactKey p n) (''.'' @ m)" by (simp only: has_suffix_append)
qed

lemma fact_names [simp]:
  "''state'' \<in> set pool_fact_names" "''active_stake_lovelace'' \<in> set pool_fact_names"
  "''epochs_active'' \<in> set pool_fact_names"
  by (simp_all add: pool_fact_names_def)

lemma att_facts_keys:
  "k \<in> fst ` set (att_facts (pool_attestation i p s)) \<Longrightarrow> \<exists>n \<in> set pool_fact_names. k = PoolFactKey (pp_pool p) n"
  by (auto simp: pool_attestation_def Let_def split: if_splits)

lemma att_facts_distinct: "distinct (map fst (att_facts (pool_attestation i p s)))"
  by (auto simp: pool_attestation_def Let_def PoolFactKey_inj)

section \<open>Evaluating a set of pools\<close>

lemma put_facts_new:
  assumes "distinct (map fst new)" "fst ` set new \<inter> fst ` set fs = {}"
  shows "put_facts new fs = fs @ new"
  using assms
proof (induction new arbitrary: fs)
  case (Cons kv new)
  obtain k v where kv: "kv = (k, v)" by force
  have upd: "AList.update k v fs = fs @ [(k, v)]" if "k \<notin> fst ` set fs" for fs :: fact_list
    using that by (induction fs) auto
  show ?case using Cons.IH[of "fs @ [(k, v)]"] Cons.prems by (auto simp: kv put_facts_def upd)
qed (simp add: put_facts_def)

record pool_source =
  po_id :: string
  po_params :: pool_params
  po_src :: "string \<Rightarrow> snapshot io"

definition pool_attestor :: "pool_source \<Rightarrow> attestor" where
  "pool_attestor x = \<lparr>at_kind = KindPoolStake, at_id = po_id x,
     at_attest = PoolStake_Attest (po_id x) (po_params x) (po_src x)\<rparr>"

lemma at_attest_pool [simp]:
  "at_attest (pool_attestor x) = PoolStake_Attest (po_id x) (po_params x) (po_src x)"
  by (simp add: pool_attestor_def)

definition attest_all :: "pool_source list \<Rightarrow> snapshot list \<Rightarrow> attestation list" where
  "attest_all os snaps = map2 (\<lambda>x s. pool_attestation (po_id x) (po_params x) s) os snaps"

text \<open>A build of stake-pool configurations is a list of pool attestors.\<close>

lemma BuildSet_pools:
  assumes "BuildSet cfgs DefaultRegistry srcFor = Inr as"
  shows "\<exists>os. as = map pool_attestor os \<and> length os = length cfgs"
  using assms
proof (induction cfgs arbitrary: as)
  case (Cons c cs)
  then obtain a rest where a: "Registry_Build DefaultRegistry (ac_kind c) (ac_id c) (ac_params c) srcFor = Inr a"
      and rest: "BuildSet cs DefaultRegistry srcFor = Inr rest" and as: "as = a # rest"
    by (auto split: sum.splits)
  obtain os where os: "rest = map pool_attestor os" "length os = length cs"
    using Cons.IH[OF rest] by blast
  obtain i p src where "a = pool_attestor \<lparr>po_id = i, po_params = p, po_src = src\<rparr>"
    using a by (auto simp: Registry_Build_def DefaultRegistry_def Registry_Register_def NewRegistry_def
        BuildPoolStake_def pool_attestor_def split: option.splits sum.splits if_splits)
  then show ?case using os as by (intro exI[of _ "\<lparr>po_id = i, po_params = p, po_src = src\<rparr> # os"]) simp
qed simp

lemma evaluate_loop_pools:
  assumes "distinct (map (\<lambda>x. pp_pool (po_params x)) os)"
    and "\<forall>k \<in> fst ` set (ar_facts res). \<forall>x \<in> set os. \<forall>n \<in> set pool_fact_names.
           k \<noteq> PoolFactKey (pp_pool (po_params x)) n"
    and "evaluate_loop (map pool_attestor os) subject res w = (Inr res', w')"
  shows "\<exists>snaps. length snaps = length os
    \<and> list_all2 (\<lambda>x s. \<exists>v v'. po_src x subject v = (Inr s, v')) os snaps
    \<and> ar_atts res' = ar_atts res @ attest_all os snaps
    \<and> ar_held res' = (ar_held res \<or> list_ex att_held (attest_all os snaps))
    \<and> ar_facts res' = ar_facts res @ concat (map att_facts (attest_all os snaps))"
  using assms
proof (induction os arbitrary: res w)
  case Nil
  then show ?case by (simp add: attest_all_def returnE_Inr)
next
  case (Cons x os)
  let ?att = "pool_attestation (po_id x) (po_params x)"
  obtain s v where src: "po_src x subject w = (Inr s, v)" and run: "evaluate_loop (map pool_attestor os) subject
      \<lparr>ar_atts = ar_atts res @ [?att s], ar_held = ar_held res \<or> att_held (?att s),
       ar_facts = put_facts (att_facts (?att s)) (ar_facts res)\<rparr> v = (Inr res', w')"
    using Cons.prems(3) by (auto simp: PoolStake_Attest_def io_success)
  have "fst ` set (att_facts (?att s)) \<inter> fst ` set (ar_facts res) = {}"
    using Cons.prems(2) att_facts_keys[of _ "po_id x" "po_params x" s] by fastforce
  then have put: "put_facts (att_facts (?att s)) (ar_facts res) = ar_facts res @ att_facts (?att s)"
    by (rule put_facts_new[OF att_facts_distinct])
  have sep: "\<forall>k \<in> fst ` set (ar_facts res @ att_facts (?att s)). \<forall>x' \<in> set os. \<forall>n \<in> set pool_fact_names.
      k \<noteq> PoolFactKey (pp_pool (po_params x')) n"
  proof (intro ballI)
    fix k x' n
    assume k: "k \<in> fst ` set (ar_facts res @ att_facts (?att s))" and x': "x' \<in> set os"
      and n: "n \<in> set pool_fact_names"
    show "k \<noteq> PoolFactKey (pp_pool (po_params x')) n"
    proof (cases "k \<in> fst ` set (ar_facts res)")
      case True
      then show ?thesis using Cons.prems(2) x' n by auto
    next
      case False
      then have "k \<in> fst ` set (att_facts (?att s))" using k by auto
      then obtain m where "m \<in> set pool_fact_names" "k = PoolFactKey (pp_pool (po_params x)) m"
        using att_facts_keys by blast
      then show ?thesis using Cons.prems(1) x' n by (auto simp: PoolFactKey_inj)
    qed
  qed
  obtain snaps where "length snaps = length os"
      "list_all2 (\<lambda>x s. \<exists>v v'. po_src x subject v = (Inr s, v')) os snaps" "ar_atts res' = (ar_atts res @ [?att s]) @ attest_all os snaps"
      "ar_held res' = ((ar_held res \<or> att_held (?att s)) \<or> list_ex att_held (attest_all os snaps))"
      "ar_facts res' = (ar_facts res @ att_facts (?att s)) @ concat (map att_facts (attest_all os snaps))"
    using Cons.IH[OF _ _ run[unfolded put]] Cons.prems(1) sep by auto
  then show ?case using src by (intro exI[of _ "s # snaps"]) (auto simp: attest_all_def)
qed

definition pool_state :: "pool_source \<Rightarrow> snapshot \<Rightarrow> state" where
  "pool_state x s = DeriveState (Some s) (pp_pool (po_params x))"

definition pool_stake_value :: "pool_source \<Rightarrow> snapshot \<Rightarrow> int" where
  "pool_stake_value x s =
     (if pool_state x s = StateActive \<and> sn_stake s \<noteq> ''''
      then case big_parse (sn_stake s) of None \<Rightarrow> 0 | Some n \<Rightarrow> n else 0)"

lemma att_held_state: "att_held (pool_attestation (po_id x) (po_params x) s) \<longleftrightarrow> pool_state x s \<noteq> StateNone"
  by (simp add: pool_attestation_def pool_state_def Let_def)

lemma att_facts_active:
  "anyStateActive (att_facts (pool_attestation (po_id x) (po_params x) s)) \<longleftrightarrow> pool_state x s = StateActive"
  using PoolFactKey_suffix[of "''state''" "''state''" "pp_pool (po_params x)"]
    PoolFactKey_suffix[of "''epochs_active''" "''state''" "pp_pool (po_params x)"]
    PoolFactKey_suffix[of "''active_stake_lovelace''" "''state''" "pp_pool (po_params x)"]
    state_string_inj[of "pool_state x s" StateActive]
  by (auto simp: pool_attestation_def anyStateActive_def pool_state_def Let_def
      simp del: state_string_inj)

lemma att_facts_stake:
  "sum_list (map stake_value (att_facts (pool_attestation (po_id x) (po_params x) s))) = pool_stake_value x s"
  using PoolFactKey_suffix[of "''state''" "''active_stake_lovelace''" "pp_pool (po_params x)"]
    PoolFactKey_suffix[of "''epochs_active''" "''active_stake_lovelace''" "pp_pool (po_params x)"]
    PoolFactKey_suffix[of "''active_stake_lovelace''" "''active_stake_lovelace''" "pp_pool (po_params x)"]
  by (auto simp: pool_attestation_def stake_value_def pool_stake_value_def pool_state_def Let_def)

lemma anyStateActive_append [simp]: "anyStateActive (a @ b) \<longleftrightarrow> anyStateActive a \<or> anyStateActive b"
  by (simp add: anyStateActive_def)

lemma anyStateActive_concat:
  "length snaps = length os \<Longrightarrow> anyStateActive (concat (map att_facts (attest_all os snaps)))
     \<longleftrightarrow> (\<exists>(x, s) \<in> set (zip os snaps). pool_state x s = StateActive)"
proof (induction os snaps rule: list_induct2')
  case (4 x os s ss)
  then show ?case by (auto simp: attest_all_def att_facts_active)
qed (auto simp: attest_all_def anyStateActive_def)

lemma stake_concat:
  "length snaps = length os \<Longrightarrow> sum_list (map stake_value (concat (map att_facts (attest_all os snaps))))
     = (\<Sum>(x, s) \<leftarrow> zip os snaps. pool_stake_value x s)"
proof (induction os snaps rule: list_induct2')
  case (4 x os s ss)
  then show ?case by (auto simp: attest_all_def att_facts_stake)
qed (auto simp: attest_all_def)

lemma facts_keys_pool:
  "k \<in> fst ` set (concat (map att_facts (attest_all os snaps))) \<Longrightarrow> has_prefix k ''pool:''"
proof -
  assume "k \<in> fst ` set (concat (map att_facts (attest_all os snaps)))"
  then obtain x :: pool_source and s where "k \<in> fst ` set (att_facts (pool_attestation (po_id x) (po_params x) s))"
    unfolding attest_all_def by (auto simp: image_iff)
  then obtain n where "k = ''pool:'' @ (pp_pool (po_params x) @ ''.'' @ n)"
    using att_facts_keys[of k "po_id x" "po_params x" s] by (auto simp: PoolFactKey_def)
  then show ?thesis by (simp only: has_prefix_append)
qed

lemma held_concat:
  "length snaps = length os \<Longrightarrow> list_ex att_held (attest_all os snaps)
     \<longleftrightarrow> (\<exists>(x, s) \<in> set (zip os snaps). pool_state x s \<noteq> StateNone)"
proof (induction os snaps rule: list_induct2')
  case (4 x os s ss)
  then show ?case by (auto simp: attest_all_def att_held_state)
qed (auto simp: attest_all_def)

lemma update_absent: "k \<notin> fst ` set fs \<Longrightarrow> AList.update k v fs = fs @ [(k, v)]"
  by (induction fs) auto

lemma aggregate_pools:
  assumes "\<forall>k \<in> fst ` set (ar_facts res). has_prefix k ''pool:''"
  shows "ar_facts (aggregate res) = ar_facts res @
    [(FactAnyHeld, boolStr (ar_held res)), (FactAnyActive, boolStr (anyStateActive (ar_facts res))),
     (FactTotalActiveStake, sumActiveStake (ar_facts res))]"
proof -
  have np: "FactAnyHeld \<notin> fst ` set (ar_facts res)" "FactAnyActive \<notin> fst ` set (ar_facts res)"
      "FactTotalActiveStake \<notin> fst ` set (ar_facts res)"
  proof -
    have "\<not> has_prefix FactAnyHeld ''pool:''" "\<not> has_prefix FactAnyActive ''pool:''"
      "\<not> has_prefix FactTotalActiveStake ''pool:''"
      by (simp_all add: FactAnyHeld_def FactAnyActive_def FactTotalActiveStake_def has_prefix_def)
    then show "FactAnyHeld \<notin> fst ` set (ar_facts res)" "FactAnyActive \<notin> fst ` set (ar_facts res)"
      "FactTotalActiveStake \<notin> fst ` set (ar_facts res)" using assms by blast+
  qed
  have "\<not> has_suffix FactAnyHeld ''.state''" "\<not> has_suffix FactAnyHeld ''.active_stake_lovelace''"
      "\<not> has_suffix FactAnyActive ''.active_stake_lovelace''"
    by (simp_all add: FactAnyHeld_def FactAnyActive_def has_suffix_def)
  then show ?thesis using np
    by (simp add: aggregate_def Let_def update_absent anyStateActive_def sumActiveStake_def
        stake_value_def FactAnyHeld_def FactAnyActive_def FactTotalActiveStake_def)
qed

lemma Evaluate_Inr:
  assumes "distinct (map (\<lambda>x. pp_pool (po_params x)) os)"
    and "Evaluate (map pool_attestor os) subject w = (Inr res, w')"
  shows "\<exists>snaps. length snaps = length os
    \<and> list_all2 (\<lambda>x s. \<exists>v v'. po_src x subject v = (Inr s, v')) os snaps
    \<and> ar_atts res = attest_all os snaps
    \<and> (ar_held res \<longleftrightarrow> (\<exists>(x, s) \<in> set (zip os snaps). pool_state x s \<noteq> StateNone))
    \<and> map_of (ar_facts res) FactAnyActive
        = Some (boolStr (\<exists>(x, s) \<in> set (zip os snaps). pool_state x s = StateActive))
    \<and> map_of (ar_facts res) FactTotalActiveStake
        = Some (big_string (\<Sum>(x, s) \<leftarrow> zip os snaps. pool_stake_value x s))"
proof -
  obtain mid where run: "evaluate_loop (map pool_attestor os) subject
      \<lparr>ar_atts = [], ar_held = False, ar_facts = []\<rparr> w = (Inr mid, w')" and res: "res = aggregate mid"
    using assms(2) by (auto simp: Evaluate_def io_success)
  obtain snaps where sn: "length snaps = length os"
      "list_all2 (\<lambda>x s. \<exists>v v'. po_src x subject v = (Inr s, v')) os snaps"
      "ar_atts mid = attest_all os snaps" "ar_held mid = list_ex att_held (attest_all os snaps)"
      "ar_facts mid = concat (map att_facts (attest_all os snaps))"
    using evaluate_loop_pools[OF assms(1) _ run] by auto
  have held: "list_ex att_held (attest_all os snaps)
      \<longleftrightarrow> (\<exists>(x, s) \<in> set (zip os snaps). pool_state x s \<noteq> StateNone)"
    using sn(1) by (rule held_concat)
  have pre: "\<forall>k \<in> fst ` set (ar_facts mid). has_prefix k ''pool:''"
    unfolding sn(5) using facts_keys_pool by blast
  then have agg: "ar_facts res = ar_facts mid @
    [(FactAnyHeld, boolStr (ar_held mid)), (FactAnyActive, boolStr (anyStateActive (ar_facts mid))),
     (FactTotalActiveStake, sumActiveStake (ar_facts mid))]"
    unfolding res by (rule aggregate_pools)
  have "map_of (ar_facts mid) k = None" if "\<not> has_prefix k ''pool:''" for k
    using pre that by (auto simp: map_of_eq_None_iff)
  then have "map_of (ar_facts mid) FactAnyActive = None" "map_of (ar_facts mid) FactTotalActiveStake = None"
    by (auto simp: FactAnyActive_def FactTotalActiveStake_def has_prefix_def)
  then have look: "map_of (ar_facts res) FactAnyActive = Some (boolStr (anyStateActive (ar_facts mid)))"
      "map_of (ar_facts res) FactTotalActiveStake = Some (sumActiveStake (ar_facts mid))"
    unfolding agg by (auto simp: FactAnyHeld_def FactAnyActive_def FactTotalActiveStake_def map_add_def)
  have "ar_atts res = ar_atts mid" "ar_held res = ar_held mid" by (simp_all add: res aggregate_def Let_def)
  then show ?thesis using sn look held
    by (intro exI[of _ snaps]) (simp add: anyStateActive_concat stake_concat sumActiveStake_def)
qed

text \<open>Evaluating a set of stake-pool credentials over distinct pools: if it succeeds, every
  pool's source has answered, the subject is held exactly when it is active or pending with
  some pool, the fact \<open>any_active\<close> says whether it is active with one, and
  \<open>total_active_stake\<close> is the decimal sum of the stakes of the pools it is active with.\<close>

theorem Evaluate_pools:
  assumes "distinct (map (\<lambda>x. pp_pool (po_params x)) os)"
    and "Evaluate (map pool_attestor os) subject w = (Inr res, w')"
  shows "\<exists>snaps. length snaps = length os
    \<and> list_all2 (\<lambda>x s. \<exists>v v'. po_src x subject v = (Inr s, v')) os snaps
    \<and> (ar_held res \<longleftrightarrow> (\<exists>(x, s) \<in> set (zip os snaps). pool_state x s \<noteq> StateNone))
    \<and> map_of (ar_facts res) FactAnyActive
        = Some (boolStr (\<exists>(x, s) \<in> set (zip os snaps). pool_state x s = StateActive))
    \<and> map_of (ar_facts res) FactTotalActiveStake
        = Some (big_string (\<Sum>(x, s) \<leftarrow> zip os snaps. pool_stake_value x s))"
  using Evaluate_Inr[OF assms] by blast

definition sample_pool :: "string \<Rightarrow> pool_source" where
  "sample_pool p = \<lparr>po_id = p, po_params = \<lparr>pp_pool = p, pp_network = ''mainnet''\<rparr>,
     po_src = (\<lambda>_. returnE sample_live)\<rparr>"

lemma Evaluate_pools_witness:
  "\<exists>res w'. Evaluate (map pool_attestor [sample_pool ''poola'', sample_pool ''poolb'']) sample_sch empty_world
      = (Inr res, w') \<and> ar_held res
      \<and> map_of (ar_facts res) FactAnyActive = Some ''true''
      \<and> map_of (ar_facts res) FactTotalActiveStake = Some ''7''"
proof -
  let ?os = "[sample_pool ''poola'', sample_pool ''poolb'']"
  obtain res w' where run: "Evaluate (map pool_attestor ?os) sample_sch empty_world = (Inr res, w')"
    by (simp add: Evaluate_def bindE_def PoolStake_Attest_def sample_pool_def io_run)
  have st: "pool_state (sample_pool ''poola'') sample_live = StateActive"
      "pool_state (sample_pool ''poolb'') sample_live = StatePending"
    by (simp_all add: pool_state_def sample_pool_def DeriveState_def Let_def sample_live_def)
  have v: "pool_stake_value (sample_pool ''poola'') sample_live = 7"
      "pool_stake_value (sample_pool ''poolb'') sample_live = 0"
    by (simp_all add: pool_stake_value_def st)
       (simp add: sample_live_def big_parse_def nat_parse_def digit_val_def)
  have seven: "big_string 7 = ''7''" by code_simp
  have d: "distinct (map (\<lambda>x. pp_pool (po_params x)) ?os)" by (simp add: sample_pool_def)
  obtain snaps where sn: "length snaps = length ?os"
      "list_all2 (\<lambda>x s. \<exists>v v'. po_src x sample_sch v = (Inr s, v')) ?os snaps"
      "ar_held res \<longleftrightarrow> (\<exists>(x, s) \<in> set (zip ?os snaps). pool_state x s \<noteq> StateNone)"
      "map_of (ar_facts res) FactAnyActive
        = Some (boolStr (\<exists>(x, s) \<in> set (zip ?os snaps). pool_state x s = StateActive))"
      "map_of (ar_facts res) FactTotalActiveStake
        = Some (big_string (\<Sum>(x, s) \<leftarrow> zip ?os snaps. pool_stake_value x s))"
    using Evaluate_pools[OF d run] by auto
  have "snaps = [sample_live, sample_live]"
    using sn(2) by (auto simp: list_all2_Cons1 sample_pool_def returnE_Inr)
  then show ?thesis using run sn(3-5)
    by (auto simp: st v boolStr_def seven)
qed

section \<open>Configured networks\<close>

definition uses_network :: "attestor_config \<Rightarrow> string \<Rightarrow> bool" where
  "uses_network c net \<longleftrightarrow> ac_kind c = KindPoolStake \<and>
     (\<exists>p. decode_pool_params (ac_params c) = Some p
        \<and> net = (if pp_network p = '''' then ''mainnet'' else pp_network p))"

lemma distinct_networks_spec:
  "distinct out \<Longrightarrow> distinct (distinct_networks out cs)
     \<and> set (distinct_networks out cs) = set out \<union> {net. \<exists>c \<in> set cs. uses_network c net}"
proof (induction cs arbitrary: out)
  case (Cons c cs)
  show ?case
  proof (cases "ac_kind c = KindPoolStake \<and> decode_pool_params (ac_params c) \<noteq> None")
    case True
    then obtain p where p: "decode_pool_params (ac_params c) = Some p" by blast
    let ?net = "if pp_network p = '''' then ''mainnet'' else pp_network p"
    let ?out = "if ?net \<in> set out then out else out @ [?net]"
    have "uses_network c n \<longleftrightarrow> n = ?net" for n using True p by (auto simp: uses_network_def)
    moreover have "distinct ?out" "set ?out = insert ?net (set out)" using Cons.prems by auto
    ultimately show ?thesis using Cons.IH[of ?out] True p by (auto simp: Let_def)
  next
    case False
    then have "\<not> uses_network c n" for n by (auto simp: uses_network_def)
    moreover have "distinct_networks out (c # cs) = distinct_networks out cs" using False by auto
    ultimately show ?thesis using Cons.IH[of out] Cons.prems by auto
  qed
qed simp

text \<open>The networks watched for epoch changes are exactly those named by a decodable
  stake-pool configuration, an empty name standing for mainnet, each listed once.\<close>

theorem DistinctNetworks_spec:
  "distinct (DistinctNetworks cfgs)
   \<and> set (DistinctNetworks cfgs) = {net. \<exists>c \<in> set cfgs. uses_network c net}"
  using distinct_networks_spec[of "[]" cfgs] by (simp add: DistinctNetworks_def)

section \<open>The start of a membership\<close>

text \<open>When a snapshot of a known network counts no more epochs than have passed, the
  membership start is the instant at which the first of the counted epochs began.\<close>

theorem memberSince_start:
  assumes "epochByNetwork network = Some p" "0 < sn_epochs s"
    and "sn_epochs s \<le> int (unat (sn_epoch s)) + 1" "unat (sn_epoch s) < 2 ^ 40"
  shows "memberSince network s =
    (ep_genesis p + (int (unat (sn_epoch s)) + 1 - sn_epochs s) * ep_length p) * second"
proof -
  let ?e = "sn_epoch s - word_of_int (sn_epochs s) + 1"
  define K where "K = int (unat (sn_epoch s)) + 1 - sn_epochs s"
  have "?e = word_of_int K" by (simp add: K_def)
  moreover have u: "int (unat (sn_epoch s)) < 2 ^ 40"
    using assms(4) by (metis of_nat_less_iff of_nat_numeral of_nat_power)
  then have "K < 2 ^ 40 + 1" "0 \<le> K" using assms(2,3) unfolding K_def by linarith+
  then have "0 \<le> K" "K < 2 ^ 64" by simp_all
  ultimately have e: "int (unat ?e) = int (unat (sn_epoch s)) + 1 - sn_epochs s"
    unfolding K_def[symmetric] by (simp add: unsigned_of_int take_bit_int_eq_self)
  then have "unat ?e < 2 ^ 40" using assms(2,4) by linarith
  then show ?thesis using EpochStart_exact[OF assms(1), of ?e] e assms(2)
    by (simp add: memberSince_def del: of_nat_unat)
qed

lemma memberSince_start_witness:
  "memberSince ''preview'' (sample_live\<lparr>sn_epoch := 10, sn_epochs := 3\<rparr>) = (1666656000 + 8 * 86400) * second"
  using memberSince_start[of "''preview''" "\<lparr>ep_genesis = 1666656000, ep_length = 86400\<rparr>"
      "sample_live\<lparr>sn_epoch := 10, sn_epochs := 3\<rparr>"]
  by (simp add: epochByNetwork_def)

text \<open>A Koios snapshot taken while the tip query fails is labelled with epoch 0, and the
  membership start computed from it lies before the network's genesis.\<close>

theorem memberSince_without_tip:
  "memberSince ''mainnet'' (sample_live\<lparr>sn_epoch := 0, sn_epochs := 3\<rparr>) < 1506203091 * second
   \<and> memberSince ''mainnet'' (sample_live\<lparr>sn_epoch := 0, sn_epochs := 3\<rparr>) \<noteq> zero_time"
  by (simp add: memberSince_def EpochStart_def epochByNetwork_def second_def zero_time_def)

end
