(* ===== verification/Wallet.thy ===== *)
theory Wallet
  imports OneTime Bech32
begin

text \<open>
  \<open>utils/crypto/cosekey.go\<close> and \<open>cose.go\<close> (a wallet's public key and its signature) and
  \<open>core/walletauth/walletauth.go\<close> (challenge and verification). The CBOR codec, the
  Blake2b hash and Ed25519 are the fields of \<open>cose_env\<close>; nothing is assumed about them.
  \<^item> \<open>cb_array\<close>, \<open>cb_bytes\<close>, \<open>cb_int\<close>, \<open>cb_intmap\<close>, \<open>cb_header\<close>: \<open>cbor.Unmarshal\<close> into a list
    of raw items, a byte string, an \<open>int\<close>, a \<open>map[int]RawMessage\<close> and a \<open>map[any]RawMessage\<close>
    (keys that are not integers are \<open>None\<close>).
  \<^item> \<open>cb_sigstruct\<close>: \<open>cbor.Marshal\<close> of the structure that is signed.
\<close>

record cose_env =
  cb_array :: "bytes \<Rightarrow> bytes list option"
  cb_bytes :: "bytes \<Rightarrow> bytes option"
  cb_int :: "bytes \<Rightarrow> int option"
  cb_intmap :: "bytes \<Rightarrow> (int \<rightharpoonup> bytes) option"
  cb_header :: "bytes \<Rightarrow> (int option \<times> bytes) list option"
  cb_sigstruct :: "bytes \<Rightarrow> bytes \<Rightarrow> bytes option"
  blake2b224 :: "bytes \<Rightarrow> bytes"
  ed25519_verify :: "bytes \<Rightarrow> bytes \<Rightarrow> bytes \<Rightarrow> bool"

section \<open>The public key\<close>

definition requireIntLabel :: "cose_env \<Rightarrow> (int \<rightharpoonup> bytes) \<Rightarrow> int \<Rightarrow> int \<Rightarrow> bool" where
  "requireIntLabel E m label want = (case m label of
       None \<Rightarrow> False
     | Some raw \<Rightarrow> (case cb_int E raw of None \<Rightarrow> False | Some got \<Rightarrow> got = want))"

definition maxCOSEKeyBytes :: nat where "maxCOSEKeyBytes = 512"

definition StakeVkeyFromCOSEKey :: "cose_env \<Rightarrow> string \<Rightarrow> bytes result" where
  "StakeVkeyFromCOSEKey E coseKeyHex = (case hex_decode coseKeyHex of
       None \<Rightarrow> Inl ErrCOSEKeyMalformed
     | Some raw \<Rightarrow>
         if length raw = 0 \<or> length raw > maxCOSEKeyBytes then Inl ErrCOSEKeyMalformed
         else (case cb_intmap E raw of
             None \<Rightarrow> Inl ErrCOSEKeyMalformed
           | Some m \<Rightarrow>
               if \<not> requireIntLabel E m 1 1 then Inl ErrCOSEKeyType
               else if \<not> requireIntLabel E m (-1) 6 then Inl ErrCOSEKeyType
               else (case m (-2) of
                   None \<Rightarrow> Inl ErrCOSEKeyMalformed
                 | Some xRaw \<Rightarrow> (case cb_bytes E xRaw of
                       None \<Rightarrow> Inl ErrCOSEKeyMalformed
                     | Some x \<Rightarrow> if length x \<noteq> 32 then Inl ErrCOSEKeyMalformed else Inr x))))"

section \<open>The signature\<close>

record cose_sign1 =
  cs_protected :: bytes
  cs_payload :: "bytes option"
  cs_signature :: bytes

definition isCBORNull :: "bytes \<Rightarrow> bool" where
  "isCBORNull b \<longleftrightarrow> length b = 1 \<and> (hd b = 0xf6 \<or> hd b = 0xf7)"

definition ParseCOSESign1 :: "cose_env \<Rightarrow> bytes \<Rightarrow> cose_sign1 result" where
  "ParseCOSESign1 E raw0 =
     (let raw = (if raw0 \<noteq> [] \<and> hd raw0 = 0xd2 then tl raw0 else raw0)
      in case cb_array E raw of
           Some [a0, a1, a2, a3] \<Rightarrow> (case cb_bytes E a0 of
               None \<Rightarrow> Inl ErrCOSEMalformed
             | Some protected \<Rightarrow>
                 (case (if isCBORNull a2 then Some None else map_option Some (cb_bytes E a2)) of
                    None \<Rightarrow> Inl ErrCOSEMalformed
                  | Some payload \<Rightarrow> (case cb_bytes E a3 of
                        None \<Rightarrow> Inl ErrCOSEMalformed
                      | Some signature \<Rightarrow> Inr \<lparr>cs_protected = protected, cs_payload = payload,
                                             cs_signature = signature\<rparr>)))
         | _ \<Rightarrow> Inl ErrCOSEMalformed)"

definition algEdDSA :: int where "algEdDSA = -8"

definition checkAlg :: "cose_env \<Rightarrow> cose_sign1 \<Rightarrow> unit result" where
  "checkAlg E c =
     (if cs_protected c = [] then Inr ()
      else case cb_header E (cs_protected c) of
          None \<Rightarrow> Inl ErrCOSEAlg
        | Some hdr \<Rightarrow> (case find (\<lambda>kv. fst kv = Some 1) hdr of
              None \<Rightarrow> Inl ErrCOSEAlg
            | Some (_, algRaw) \<Rightarrow> (case cb_int E algRaw of
                  None \<Rightarrow> Inl ErrCOSEAlg
                | Some alg \<Rightarrow> if alg \<noteq> algEdDSA then Inl ErrCOSEAlg else Inr ())))"

definition COSE_Verify :: "cose_env \<Rightarrow> cose_sign1 \<Rightarrow> bytes \<Rightarrow> bytes option \<Rightarrow> unit result" where
  "COSE_Verify E c pubKey expected =
     (if length pubKey \<noteq> 32 then Inl ErrCOSEMalformed
      else case checkAlg E c of
          Inl e \<Rightarrow> Inl e
        | Inr _ \<Rightarrow> (case cs_payload c of
              None \<Rightarrow> Inl ErrCOSENoPayload
            | Some payload \<Rightarrow>
                if expected \<noteq> None \<and> expected \<noteq> Some payload then Inl ErrCOSEPayload
                else (case cb_sigstruct E (cs_protected c) payload of
                    None \<Rightarrow> Inl (ErrMsg ''cose: encode Sig_structure'')
                  | Some toSign \<Rightarrow>
                      if \<not> ed25519_verify E pubKey toSign (cs_signature c) then Inl ErrCOSESignature
                      else Inr ())))"

section \<open>Challenge and verification\<close>

definition nonceBytes :: nat where "nonceBytes = 32"

definition Wallet_Challenge :: "duration \<Rightarrow> nonce_purpose \<Rightarrow> string \<Rightarrow> (string \<times> instant) io" where
  "Wallet_Challenge ttl purpose stakeAddress =
     (case StakeHashFromRewardAddress stakeAddress of
        Inl _ \<Rightarrow> failE (ErrMsg ''walletauth'')
      | Inr keyHash \<Rightarrow>
          bindE nowE (\<lambda>now.
          bindE (RandomToken nonceBytes) (\<lambda>nonce.
          bindE (AuthNonce_Create \<lparr>n_nonce = nonce, n_purpose = purpose, n_bound = Some keyHash,
                   n_expires = now + ttl, n_consumed = None, n_created = now\<rparr>) (\<lambda>_.
          returnE (nonce, now + ttl)))))"

definition Wallet_Verify :: "cose_env \<Rightarrow> nonce_purpose \<Rightarrow> string \<Rightarrow> string \<Rightarrow> string \<Rightarrow> string io" where
  "Wallet_Verify E purpose coseKeyHex nonce signatureHex =
     bindE (liftE (StakeVkeyFromCOSEKey E coseKeyHex)) (\<lambda>pub.
     let keyHash = hex_encode (blake2b224 E pub) in
     bindE nowE (\<lambda>now.
     bindE (AuthNonce_Consume nonce purpose now) (\<lambda>rec.
     if n_bound rec = None \<or> n_bound rec \<noteq> Some keyHash
     then failE (ErrMsg ''walletauth: nonce not bound to this key'')
     else (case hex_decode signatureHex of
         None \<Rightarrow> failE (ErrMsg ''walletauth: decode signature'')
       | Some sig \<Rightarrow>
           bindE (liftE (ParseCOSESign1 E sig)) (\<lambda>cose.
           bindE (liftE (COSE_Verify E cose pub (Some (bytes_of nonce)))) (\<lambda>_.
           returnE keyHash))))))"

definition Wallet_Purge :: "nat io" where
  "Wallet_Purge = bindE nowE AuthNonce_DeleteExpired"

section \<open>Lemmas\<close>

lemma StakeVkey_length: "StakeVkeyFromCOSEKey E k = Inr pub \<Longrightarrow> length pub = 32"
  by (auto simp: StakeVkeyFromCOSEKey_def split: option.splits if_splits)

lemma COSE_Verify_Inr: "COSE_Verify E c pub (Some m) = Inr u \<longleftrightarrow>
    length pub = 32 \<and> checkAlg E c = Inr () \<and> cs_payload c = Some m
    \<and> (\<exists>t. cb_sigstruct E (cs_protected c) m = Some t \<and> ed25519_verify E pub t (cs_signature c))"
  by (auto simp: COSE_Verify_def split: option.splits sum.splits if_splits)

lemma case_failE_Inr: "(case x of Inl e \<Rightarrow> failE (g e) | Inr y \<Rightarrow> f y) w = (Inr r, w')
    \<longleftrightarrow> (\<exists>y. x = Inr y \<and> f y w = (Inr r, w'))"
  by (cases x) (auto simp: failE_def)

lemma if_failE_Inr: "(if b then failE e else m) w = (Inr r, w') \<longleftrightarrow> \<not> b \<and> m w = (Inr r, w')"
  by (auto simp: failE_def)

lemma option_failE_Inr: "(case x of None \<Rightarrow> failE e | Some y \<Rightarrow> f y) w = (Inr r, w')
    \<longleftrightarrow> (\<exists>y. x = Some y \<and> f y w = (Inr r, w'))"
  by (cases x) (auto simp: failE_def)

lemmas branch_success = case_failE_Inr if_failE_Inr option_failE_Inr

lemma Wallet_Verify_Inr:
  assumes "Wallet_Verify E purpose key nonce sig w = (Inr h, w')"
  shows "\<exists>pub n raw c t. StakeVkeyFromCOSEKey E key = Inr pub \<and> h = hex_encode (blake2b224 E pub)
    \<and> AuthNonce_Consume nonce purpose (clock w) w = (Inr n, w') \<and> n_bound n = Some h
    \<and> hex_decode sig = Some raw \<and> ParseCOSESign1 E raw = Inr c
    \<and> cs_payload c = Some (bytes_of nonce) \<and> checkAlg E c = Inr ()
    \<and> cb_sigstruct E (cs_protected c) (bytes_of nonce) = Some t
    \<and> ed25519_verify E pub t (cs_signature c)"
  using assms
  by (auto simp: Wallet_Verify_def Let_def bindE_Inr branch_success liftE_Inr nowE_Inr returnE_Inr
      COSE_Verify_Inr)

lemma Wallet_Verify_moves:
  "moves (no_new_open nonces (nonce_open nonce)) (Wallet_Verify E purpose key nonce' sig)"
  unfolding Wallet_Verify_def Let_def
  by (intro nonce_open_rel.bind nonce_open_rel.pure_steps AuthNonce_Consume_moves)
     (auto split: option.splits intro!: nonce_open_rel.bind nonce_open_rel.pure_steps)

text \<open>A nonce authenticates at most once, whoever presents it and with whatever key.\<close>

interpretation wallet_once: one_time "\<lambda>w. has_open (nonce_open nonce) (nonces w)"
    "\<lambda>(purpose, key, sig). Wallet_Verify E purpose key nonce sig" for nonce E
proof (unfold_locales, goal_cases)
  case (1 p w x w')
  then obtain n where "AuthNonce_Consume nonce (fst p) (clock w) w = (Inr n, w')"
    by (cases p) (auto dest: Wallet_Verify_Inr)
  then show ?case using nonce_once.needs_live[of nonce "(fst p, clock w)"] by simp
next
  case (2 p w x w')
  then obtain n where "AuthNonce_Consume nonce (fst p) (clock w) w = (Inr n, w')"
    by (cases p) (auto dest: Wallet_Verify_Inr)
  then show ?case using nonce_once.kills[of nonce "(fst p, clock w)"] by simp
next
  case (3 p w r w')
  then show ?case
    by (cases p) (metis (mono_tags, lifting) Wallet_Verify_moves case_prod_conv moves_def
        no_new_open_def snd_conv)
qed

section \<open>Guarantees\<close>

text \<open>C35: A wallet is authenticated only if it presented an Ed25519 key whose hash is the
  returned identity, the nonce was issued for that identity and that purpose, had not been
  used and had not expired, and the signature over exactly that nonce verifies under the
  key; afterwards no unused row of that nonce remains.\<close>

theorem Wallet_Verify_sound:
  assumes "Wallet_Verify E purpose key nonce sig w = (Inr h, w')"
  shows "\<exists>pub n raw c t. StakeVkeyFromCOSEKey E key = Inr pub \<and> length pub = 32
    \<and> h = hex_encode (blake2b224 E pub)
    \<and> n \<in> set (nonces w) \<and> n_nonce n = nonce \<and> n_purpose n = purpose \<and> n_bound n = Some h
    \<and> n_consumed n = None \<and> clock w \<le> n_expires n
    \<and> hex_decode sig = Some raw \<and> ParseCOSESign1 E raw = Inr c
    \<and> cs_payload c = Some (bytes_of nonce)
    \<and> cb_sigstruct E (cs_protected c) (bytes_of nonce) = Some t
    \<and> ed25519_verify E pub t (cs_signature c)
    \<and> \<not> has_open (nonce_open nonce) (nonces w')"
proof -
  from Wallet_Verify_Inr[OF assms] obtain pub n raw c t where v:
    "StakeVkeyFromCOSEKey E key = Inr pub" "h = hex_encode (blake2b224 E pub)"
    "AuthNonce_Consume nonce purpose (clock w) w = (Inr n, w')" "n_bound n = Some h"
    "hex_decode sig = Some raw" "ParseCOSESign1 E raw = Inr c" "cs_payload c = Some (bytes_of nonce)"
    "cb_sigstruct E (cs_protected c) (bytes_of nonce) = Some t" "ed25519_verify E pub t (cs_signature c)"
    by blast
  have n: "n \<in> set (nonces w)" "n_nonce n = nonce" "nonce_check purpose (clock w) n = Inr ()"
    using AuthNonce_Consume_Inr[OF v(3)] by (auto dest: find_Some_mem)
  moreover have "\<not> has_open (nonce_open nonce) (nonces w')"
    using nonce_once.kills[of nonce "(purpose, clock w)"] v(3) by simp
  ultimately show ?thesis using v StakeVkey_length[OF v(1)] by (auto simp: nonce_check_Inr)
qed

definition sample_cose :: "string \<Rightarrow> cose_env" where
  "sample_cose nonce = \<lparr>
     cb_array = (\<lambda>_. Some [[1], [2], [3], [4]]),
     cb_bytes = (\<lambda>b. if b = [0] then Some (replicate 32 9) else if b = [3] then Some (bytes_of nonce)
                     else Some []),
     cb_int = (\<lambda>b. case b of [] \<Rightarrow> None | x # _ \<Rightarrow> Some (uint x)),
     cb_intmap = (\<lambda>_. Some [1 \<mapsto> [1], -1 \<mapsto> [6], -2 \<mapsto> [0]]),
     cb_header = (\<lambda>_. None), cb_sigstruct = (\<lambda>_ m. Some m),
     blake2b224 = (\<lambda>_. replicate 28 7), ed25519_verify = (\<lambda>_ m _. True)\<rparr>"

lemma sample_cose_key: "StakeVkeyFromCOSEKey (sample_cose nonce) ''00'' = Inr (replicate 32 9)"
  by (simp add: StakeVkeyFromCOSEKey_def sample_cose_def requireIntLabel_def maxCOSEKeyBytes_def hex_val_def)

lemma sample_cose_sig:
  "ParseCOSESign1 (sample_cose nonce) [] =
     Inr \<lparr>cs_protected = [], cs_payload = Some (bytes_of nonce), cs_signature = []\<rparr>"
  "COSE_Verify (sample_cose nonce) \<lparr>cs_protected = [], cs_payload = Some (bytes_of nonce), cs_signature = []\<rparr>
     (replicate 32 9) (Some (bytes_of nonce)) = Inr ()"
  by (simp_all add: ParseCOSESign1_def COSE_Verify_def checkAlg_def sample_cose_def isCBORNull_def)

definition bound_nonce :: auth_nonce where
  "bound_nonce = \<lparr>n_nonce = ''n'', n_purpose = NonceIssue, n_bound = Some (hex_encode (replicate 28 7)),
     n_expires = 100, n_consumed = None, n_created = 0\<rparr>"

lemma sample_verify: "\<exists>w'. Wallet_Verify (sample_cose ''n'') NonceIssue ''00'' ''n'' '''' (empty_world\<lparr>nonces := [bound_nonce]\<rparr>)
      = (Inr (hex_encode (replicate 28 7)), w')"
proof -
  have "AuthNonce_Consume ''n'' NonceIssue 0 (empty_world\<lparr>nonces := [bound_nonce]\<rparr>) = (Inr bound_nonce,
      empty_world\<lparr>nonces := set_where (nonce_open ''n'') (nonce_stamp 0) [bound_nonce]\<rparr>)"
    by (subst AuthNonce_Consume_fresh[of _ _ bound_nonce])
       (simp_all add: empty_world_def bound_nonce_def nonce_check_def)
  moreover have "blake2b224 (sample_cose ''n'') x = replicate 28 7" for x by (simp add: sample_cose_def)
  moreover have "clock (empty_world\<lparr>nonces := [bound_nonce]\<rparr>) = 0" by (simp add: empty_world_def)
  ultimately show ?thesis
    by (simp add: Wallet_Verify_def Let_def bindE_def io_run sample_cose_key sample_cose_sig)
       (simp add: bound_nonce_def)
qed

lemma Wallet_Verify_sound_witness:
  "\<exists>h w'. Wallet_Verify (sample_cose ''n'') NonceIssue ''00'' ''n'' '''' (empty_world\<lparr>nonces := [bound_nonce]\<rparr>)
      = (Inr h, w') \<and> (\<exists>n \<in> {bound_nonce}. n_bound n = Some h) \<and> \<not> has_open (nonce_open ''n'') (nonces w')"
proof -
  obtain h w' where run: "Wallet_Verify (sample_cose ''n'') NonceIssue ''00'' ''n'' ''''
      (empty_world\<lparr>nonces := [bound_nonce]\<rparr>) = (Inr h, w')"
    using sample_verify by blast
  show ?thesis using Wallet_Verify_sound[OF run] run by fastforce
qed

text \<open>In any run of the service, under any pattern of database failures, at most one
  authentication with a given nonce succeeds.\<close>

theorem Wallet_Verify_once:
  assumes "\<And>att m. (att, m) \<in> set run \<Longrightarrow> att \<Longrightarrow> \<exists>purpose key sig. m = Wallet_Verify E purpose key nonce sig"
    and "\<And>att m. (att, m) \<in> set run \<Longrightarrow> \<not> att \<Longrightarrow> moves (no_new_open nonces (nonce_open nonce)) m"
  shows "wins run w \<le> 1"
proof (rule wallet_once.at_most_once[of nonce E])
  have "wallet_once.allowed nonce E (att, m)" if "(att, m) \<in> set run" for att m
    using assms(1)[OF that] assms(2)[OF that]
    by (cases att) (auto simp: wallet_once.allowed_def no_new_open_def[abs_def] image_iff)
  then show "list_all (wallet_once.allowed nonce E) run" by (auto simp: list_all_iff)
qed

lemma Wallet_Verify_once_witness:
  "wins [(True, Wallet_Verify (sample_cose ''n'') NonceIssue ''00'' ''n'' ''''),
         (True, Wallet_Verify (sample_cose ''n'') NonceIssue ''00'' ''n'' '''')]
     (empty_world\<lparr>nonces := [bound_nonce]\<rparr>) \<le> 1"
  by (rule Wallet_Verify_once[of _ "sample_cose ''n''" "''n''"]) auto

text \<open>The challenge round trip: a nonce issued for a stake address authenticates, until it
  expires, the holder of the key behind that address who signs it.\<close>

theorem Challenge_then_Verify:
  assumes chal: "Wallet_Challenge ttl purpose addr w = (Inr (nonce, exp), w1)"
    and later: "w2 = w1\<lparr>clock := t\<rparr>" "t \<le> exp" "faults w1 = []"
    and addr: "StakeHashFromRewardAddress addr = Inr (hex_encode (blake2b224 E pub))"
    and key: "StakeVkeyFromCOSEKey E key = Inr pub"
    and sig: "hex_decode sig = Some raw" "ParseCOSESign1 E raw = Inr c"
      "COSE_Verify E c pub (Some (bytes_of nonce)) = Inr ()"
  shows "\<exists>w3. Wallet_Verify E purpose key nonce sig w2 = (Inr (hex_encode (blake2b224 E pub)), w3)"
proof -
  let ?n = "\<lparr>n_nonce = nonce, n_purpose = purpose, n_bound = Some (hex_encode (blake2b224 E pub)),
      n_expires = exp, n_consumed = None, n_created = clock w\<rparr>"
  obtain ns where v: "n_nonce ?n \<notin> n_nonce ` set ns" "nonces w1 = ns @ [?n]"
    using chal addr
    by (auto simp: Wallet_Challenge_def bindE_Inr nowE_Inr returnE_Inr AuthNonce_Create_def insert_row_Inr)
  have "find (\<lambda>n. n_nonce n = nonce) (nonces w2) = Some ?n"
  proof -
    have "find (\<lambda>n. n_nonce n = nonce) ns = None" using v(1) by (auto simp: find_None_iff)
    then show ?thesis by (simp add: later(1) v(2) find_append)
  qed
  moreover have "nonce_check purpose t ?n = Inr ()" using later(2) by (simp add: nonce_check_Inr)
  ultimately have "AuthNonce_Consume nonce purpose t w2
      = (Inr ?n, w2\<lparr>nonces := set_where (nonce_open nonce) (nonce_stamp t) (nonces w2)\<rparr>)"
    using later by (intro AuthNonce_Consume_fresh) auto
  then show ?thesis using key sig later(1)
    by (simp add: Wallet_Verify_def Let_def bindE_def liftE_def nowE_def getE_def returnE_def)
qed

lemma Challenge_then_Verify_witness:
  "\<exists>addr nonce exp w1 w3. Wallet_Challenge 300 NonceIssue addr empty_world = (Inr (nonce, exp), w1)
     \<and> Wallet_Verify (sample_cose nonce) NonceIssue ''00'' nonce '''' (w1\<lparr>clock := 299\<rparr>)
         = (Inr (hex_encode (replicate 28 7)), w3)"
proof -
  obtain addr where addr: "StakeHashFromRewardAddress addr = Inr (hex_encode (replicate 28 7))"
    using stake_roundtrip[of "hex_encode (replicate 28 7)" "replicate 28 7" "''mainnet''"] by auto
  obtain nonce w1 where chal: "Wallet_Challenge 300 NonceIssue addr empty_world = (Inr (nonce, 300), w1)"
      "faults w1 = []"
    using addr by (simp add: Wallet_Challenge_def bindE_def io_run RandomToken_def random_bytes_def
        AuthNonce_Create_def insert_row_def exec_def empty_world_def faulty_def skip_def)
  have b: "blake2b224 (sample_cose nonce) x = replicate 28 7" for x by (simp add: sample_cose_def)
  show ?thesis
    using Challenge_then_Verify[OF chal(1), of "w1\<lparr>clock := 299\<rparr>" 299 "sample_cose nonce" "replicate 32 9" "''00''"
        "''''" "[]"] chal addr sample_cose_key sample_cose_sig b by fastforce
qed

end
