(* ===== verification/Tier.thy ===== *)
theory Tier
  imports GoJson
begin

text \<open>
  \<open>core/tier/tier.go\<close>: the first-party tier mapping. A rule pairs a tier name with a
  boolean condition over named facts; the first matching rule gives the tier.
  \<^item> \<open>condition\<close>, \<open>rule\<close>: the structs \<open>Condition\<close> and \<open>Rule\<close>;
    \<open>decode_condition\<close>, \<open>decode_rules\<close>: \<open>json.Unmarshal\<close> into them.
  \<^item> \<open>compare\<close>, \<open>cond_eval\<close>, \<open>cond_validate\<close>, \<open>Eval\<close>, \<open>Validate\<close>: the functions.
  The lemmas: on a validated condition the precedence of the forms in \<open>cond_eval\<close> is
  immaterial (it computes the conjunction of all the forms that are set), the value
  depends only on the facts the condition names, and \<open>Eval\<close> is the first match.
\<close>

section \<open>Conditions and rules\<close>

datatype condition = Condition
  (c_all: "condition list") (c_any: "condition list") (c_not: "condition option")
  (c_fact: string) (c_op: string) (c_value: string)

record rule =
  r_tier :: string
  r_when :: condition

definition empty_condition :: condition where
  "empty_condition = Condition [] [] None '''' '''' ''''"

type_synonym facts = "string \<rightharpoonup> string"

text \<open>A Go map read yields the zero value \<open>""\<close> for an absent key.\<close>

definition fact :: "facts \<Rightarrow> string \<Rightarrow> string" where
  "fact fs k = (case fs k of None \<Rightarrow> '''' | Some v \<Rightarrow> v)"

definition nz :: "string \<Rightarrow> string" where
  "nz s = (if s = '''' then ''0'' else s)"

definition compare :: "string \<Rightarrow> string \<Rightarrow> string \<Rightarrow> bool" where
  "compare hv op want =
     (if op = ''=='' then hv = want
      else if op = ''!='' then hv \<noteq> want
      else if op \<in> {''>='', ''>'', ''<='', ''<''} then
        (case (big_parse (nz hv), big_parse want) of
           (Some h, Some w) \<Rightarrow>
             if op = ''>='' then h \<ge> w
             else if op = ''>'' then h > w
             else if op = ''<='' then h \<le> w
             else h < w
         | _ \<Rightarrow> False)
      else False)"

text \<open>\<open>Condition.eval\<close>: the first of the forms all, any, not, leaf that is set decides.\<close>

fun cond_eval :: "condition \<Rightarrow> facts \<Rightarrow> bool" where
  "cond_eval (Condition al an nt f op v) fs =
     (if al \<noteq> [] then list_all (\<lambda>c. cond_eval c fs) al
      else if an \<noteq> [] then list_ex (\<lambda>c. cond_eval c fs) an
      else (case nt of
          Some c \<Rightarrow> \<not> cond_eval c fs
        | None \<Rightarrow> if f \<noteq> '''' then compare (fact fs f) op v else True))"

datatype tier_error =
    TE_Form | TE_OpWithoutFact | TE_Op string | TE_Json | TE_TierRequired nat
  | TE_When nat tier_error

definition valid_op :: "string \<Rightarrow> bool" where
  "valid_op op \<longleftrightarrow> op \<in> {''=='', ''!='', ''>='', ''>'', ''<='', ''<''}"

definition forms_set :: "condition \<Rightarrow> nat" where
  "forms_set c = length (filter id [c_all c \<noteq> [], c_any c \<noteq> [], c_not c \<noteq> None, c_fact c \<noteq> ''''])"

text \<open>The loop over sub-conditions stops at the first error.\<close>

fun first_error :: "(tier_error + unit) list \<Rightarrow> tier_error + unit" where
  "first_error [] = Inr ()"
| "first_error (Inl e # _) = Inl e"
| "first_error (Inr _ # xs) = first_error xs"

fun cond_validate :: "condition \<Rightarrow> tier_error + unit" where
  "cond_validate (Condition al an nt f op v) =
     (if forms_set (Condition al an nt f op v) > 1 then Inl TE_Form
      else if (op \<noteq> '''' \<or> v \<noteq> '''') \<and> f = '''' then Inl TE_OpWithoutFact
      else (case first_error (map cond_validate al) of
        Inl e \<Rightarrow> Inl e
      | Inr _ \<Rightarrow> (case first_error (map cond_validate an) of
          Inl e \<Rightarrow> Inl e
        | Inr _ \<Rightarrow> (case (case nt of None \<Rightarrow> Inr () | Some c \<Rightarrow> cond_validate c) of
            Inl e \<Rightarrow> Inl e
          | Inr _ \<Rightarrow> if f \<noteq> '''' \<and> \<not> valid_op op then Inl (TE_Op op) else Inr ()))))"

section \<open>Decoding\<close>

text \<open>Assembling the struct once every field has decoded; any field error is an error.\<close>

definition mk_condition :: "condition list option \<Rightarrow> condition list option \<Rightarrow> condition option option
    \<Rightarrow> string option \<Rightarrow> string option \<Rightarrow> string option \<Rightarrow> condition option" where
  "mk_condition al an nt f op v =
     (case (al, an, nt, f, op, v) of
        (Some al', Some an', Some nt', Some f', Some op', Some v') \<Rightarrow>
          Some (Condition al' an' nt' f' op' v')
      | _ \<Rightarrow> None)"

function (sequential) decode_condition :: "json \<Rightarrow> condition option"
  and decode_conditions :: "json option \<Rightarrow> condition list option"
  and decode_pointer :: "json option \<Rightarrow> condition option option"
  and decode_condition_list :: "json list \<Rightarrow> condition list option" where
  "decode_condition JNull = Some empty_condition"
| "decode_condition (JObj kvs) =
     mk_condition (decode_conditions (json_field ''all'' kvs))
       (decode_conditions (json_field ''any'' kvs)) (decode_pointer (json_field ''not'' kvs))
       (json_string (json_field ''fact'' kvs)) (json_string (json_field ''op'' kvs))
       (json_string (json_field ''value'' kvs))"
| "decode_condition _ = None"
| "decode_conditions None = Some []"
| "decode_conditions (Some JNull) = Some []"
| "decode_conditions (Some (JArr js)) = decode_condition_list js"
| "decode_conditions (Some _) = None"
| "decode_pointer None = Some None"
| "decode_pointer (Some JNull) = Some None"
| "decode_pointer (Some j) = map_option Some (decode_condition j)"
| "decode_condition_list [] = Some []"
| "decode_condition_list (j # js) =
     (case (decode_condition j, decode_condition_list js) of
        (Some c, Some cs) \<Rightarrow> Some (c # cs) | _ \<Rightarrow> None)"
  by pat_completeness auto
termination
proof (relation "measure (case_sum
    (case_sum (\<lambda>j. 2 * size j) (\<lambda>j. case j of None \<Rightarrow> 0 | Some j \<Rightarrow> 2 * size j))
    (case_sum (\<lambda>j. case j of None \<Rightarrow> 0 | Some j \<Rightarrow> 2 * size j + 1) (\<lambda>js. 2 * size_list size js)))",
    goal_cases)
  case (2 kvs)
  then show ?case using size_json_field[of "''all''" kvs] by (auto split: option.splits)
next
  case (3 kvs)
  then show ?case using size_json_field[of "''any''" kvs] by (auto split: option.splits)
next
  case (4 kvs)
  then show ?case using size_json_field[of "''not''" kvs] by (fastforce split: option.splits)
qed auto

definition decode_rule :: "json \<Rightarrow> rule option" where
  "decode_rule j = (case j of
       JNull \<Rightarrow> Some \<lparr>r_tier = '''', r_when = empty_condition\<rparr>
     | JObj kvs \<Rightarrow>
         (case (json_string (json_field ''tier'' kvs),
                (case json_field ''when'' kvs of None \<Rightarrow> Some empty_condition
                   | Some w \<Rightarrow> decode_condition w)) of
            (Some t, Some w) \<Rightarrow> Some \<lparr>r_tier = t, r_when = w\<rparr>
          | _ \<Rightarrow> None)
     | _ \<Rightarrow> None)"

fun decode_rule_list :: "json list \<Rightarrow> rule list option" where
  "decode_rule_list [] = Some []"
| "decode_rule_list (j # js) =
     (case (decode_rule j, decode_rule_list js) of
        (Some r, Some rs) \<Rightarrow> Some (r # rs) | _ \<Rightarrow> None)"

fun decode_rules :: "raw_message \<Rightarrow> rule list option" where
  "decode_rules (RawDoc JNull) = Some []"
| "decode_rules (RawDoc (JArr js)) = decode_rule_list js"
| "decode_rules _ = None"

section \<open>Eval and Validate\<close>

fun first_match :: "rule list \<Rightarrow> facts \<Rightarrow> string" where
  "first_match [] fs = ''''"
| "first_match (r # rs) fs = (if cond_eval (r_when r) fs then r_tier r else first_match rs fs)"

definition Eval :: "raw_message \<Rightarrow> facts \<Rightarrow> string" where
  "Eval rules fs =
     (if raw_is_empty rules then ''''
      else (case decode_rules rules of None \<Rightarrow> '''' | Some rs \<Rightarrow> first_match rs fs))"

fun validate_from :: "nat \<Rightarrow> rule list \<Rightarrow> tier_error + unit" where
  "validate_from i [] = Inr ()"
| "validate_from i (r # rs) =
     (if r_tier r = '''' then Inl (TE_TierRequired i)
      else (case cond_validate (r_when r) of
          Inl e \<Rightarrow> Inl (TE_When i e)
        | Inr _ \<Rightarrow> validate_from (Suc i) rs))"

definition Validate :: "raw_message \<Rightarrow> tier_error + unit" where
  "Validate rules =
     (if raw_is_empty rules then Inr ()
      else (case decode_rules rules of
          None \<Rightarrow> Inl TE_Json
        | Some rs \<Rightarrow> validate_from 0 rs))"

section \<open>Reference semantics\<close>

text \<open>
  The reference meaning of a condition gives every form that is set its say: it is the
  conjunction of the \<open>all\<close>, \<open>any\<close>, \<open>not\<close> and leaf parts, and no form is ignored.
\<close>

fun cond_sem :: "condition \<Rightarrow> facts \<Rightarrow> bool" where
  "cond_sem (Condition al an nt f op v) fs \<longleftrightarrow>
     (\<forall>c \<in> set al. cond_sem c fs)
     \<and> (an = [] \<or> (\<exists>c \<in> set an. cond_sem c fs))
     \<and> (case nt of None \<Rightarrow> True | Some c \<Rightarrow> \<not> cond_sem c fs)
     \<and> (f = '''' \<or> compare (fact fs f) op v)"

text \<open>The facts a condition names.\<close>

fun cond_facts :: "condition \<Rightarrow> string set" where
  "cond_facts (Condition al an nt f op v) =
     (\<Union>c \<in> set al. cond_facts c) \<union> (\<Union>c \<in> set an. cond_facts c)
     \<union> (case nt of None \<Rightarrow> {} | Some c \<Rightarrow> cond_facts c)
     \<union> (if f = '''' then {} else {f})"

lemma first_error_Inr: "first_error xs = Inr () \<longleftrightarrow> (\<forall>x \<in> set xs. x = Inr ())"
  by (induction xs rule: first_error.induct) auto

lemma case_first_error:
  "(case first_error xs of Inl e \<Rightarrow> Inl e | Inr _ \<Rightarrow> X) = Inr () \<longleftrightarrow>
     (\<forall>x \<in> set xs. x = Inr ()) \<and> X = Inr ()"
  by (induction xs rule: first_error.induct) auto

lemma case_unit_error:
  "(case x of Inl e \<Rightarrow> Inl e | Inr (_ :: unit) \<Rightarrow> X) = Inr () \<longleftrightarrow> x = Inr () \<and> X = Inr ()"
  by (cases x) auto

lemma cond_validate_iff:
  "cond_validate (Condition al an nt f op v) = Inr () \<longleftrightarrow>
     forms_set (Condition al an nt f op v) \<le> 1
     \<and> (f = '''' \<longrightarrow> op = '''' \<and> v = '''')
     \<and> (\<forall>c \<in> set al. cond_validate c = Inr ())
     \<and> (\<forall>c \<in> set an. cond_validate c = Inr ())
     \<and> (\<forall>c. nt = Some c \<longrightarrow> cond_validate c = Inr ())
     \<and> (f \<noteq> '''' \<longrightarrow> valid_op op)"
  unfolding cond_validate.simps
  by (cases nt) (auto simp: case_first_error case_unit_error first_error_Inr not_less simp del: cond_validate.simps split: if_splits)

declare cond_validate.simps [simp del]

lemma cond_eval_sem:
  "cond_validate c = Inr () \<Longrightarrow> cond_eval c fs = cond_sem c fs"
proof (induction c)
  case (Condition al an nt f op v)
  have v: "forms_set (Condition al an nt f op v) \<le> 1"
    and al: "\<forall>c \<in> set al. cond_eval c fs = cond_sem c fs"
    and an: "\<forall>c \<in> set an. cond_eval c fs = cond_sem c fs"
    and nt: "\<forall>c. nt = Some c \<longrightarrow> cond_eval c fs = cond_sem c fs"
    using Condition by (auto simp: cond_validate_iff)
  show ?case using v al an nt
    by (cases "al = []"; cases "an = []"; cases nt; cases "f = ''''")
       (auto simp: forms_set_def list_all_iff list_ex_iff)
qed

lemma cond_eval_frame:
  "(\<And>k. k \<in> cond_facts c \<Longrightarrow> fs k = fs' k) \<Longrightarrow> cond_eval c fs = cond_eval c fs'"
proof (induction c)
  case (Condition al an nt f op v)
  have al: "\<forall>c \<in> set al. cond_eval c fs = cond_eval c fs'"
    using Condition.IH(1) Condition.prems by auto
  have an: "\<forall>c \<in> set an. cond_eval c fs = cond_eval c fs'"
    using Condition.IH(2) Condition.prems by auto
  have nt: "\<And>c. nt = Some c \<Longrightarrow> cond_eval c fs = cond_eval c fs'"
    using Condition.IH(3) Condition.prems by auto
  have f: "f \<noteq> '''' \<Longrightarrow> fact fs f = fact fs' f"
    using Condition.prems by (auto simp: fact_def)
  show ?case using al an nt f
    by (auto simp: list_all_iff list_ex_iff split: option.splits)
qed

lemma validate_from_iff:
  "validate_from i rs = Inr () \<longleftrightarrow>
     (\<forall>r \<in> set rs. r_tier r \<noteq> '''' \<and> cond_validate (r_when r) = Inr ())"
  by (induction i rs rule: validate_from.induct) (auto split: sum.splits)

lemma first_match_find:
  "first_match rs fs = (case find (\<lambda>r. cond_eval (r_when r) fs) rs of
      None \<Rightarrow> '''' | Some r \<Rightarrow> r_tier r)"
  by (induction rs) auto

lemma Validate_rules:
  "Validate rules = Inr () \<longleftrightarrow> raw_is_empty rules \<or>
     (\<exists>rs. decode_rules rules = Some rs \<and>
        (\<forall>r \<in> set rs. r_tier r \<noteq> '''' \<and> cond_validate (r_when r) = Inr ()))"
  by (auto simp: Validate_def validate_from_iff split: option.splits)

section \<open>Guarantees\<close>

text \<open>C39: On rules that passed validation, evaluation returns the tier of the first rule whose
  condition holds, where a condition means the conjunction of the forms it sets, whatever
  the order in which the code tests them; every tier it can return is a non-empty name, and
  without a matching rule the answer is the empty string.\<close>

theorem Eval_validated:
  assumes "Validate rules = Inr ()" "decode_rules rules = Some rs"
  shows "Eval rules fs = (if raw_is_empty rules then ''''
      else case find (\<lambda>r. cond_sem (r_when r) fs) rs of None \<Rightarrow> '''' | Some r \<Rightarrow> r_tier r)
    \<and> (\<not> raw_is_empty rules \<longrightarrow> (Eval rules fs = '''' \<longleftrightarrow> (\<forall>r \<in> set rs. \<not> cond_sem (r_when r) fs)))"
proof (cases "raw_is_empty rules")
  case True
  then show ?thesis by (simp add: Eval_def)
next
  case False
  have ok: "r_tier r \<noteq> ''''" "cond_eval (r_when r) fs = cond_sem (r_when r) fs" if "r \<in> set rs" for r
    using assms that False cond_eval_sem by (auto simp: Validate_rules)
  have "find (\<lambda>r. cond_eval (r_when r) fs) rs = find (\<lambda>r. cond_sem (r_when r) fs) rs"
    by (rule find_cong) (simp_all add: ok)
  then have e: "Eval rules fs = (case find (\<lambda>r. cond_sem (r_when r) fs) rs of None \<Rightarrow> '''' | Some r \<Rightarrow> r_tier r)"
    using assms(2) False by (simp add: Eval_def first_match_find)
  then show ?thesis using ok(1) False
    by (auto split: option.splits simp: find_None_all dest!: find_Some_mem)
qed

text \<open>The tier depends only on the facts that the rules name.\<close>

theorem Eval_frame:
  assumes "decode_rules rules = Some rs" "\<And>r k. r \<in> set rs \<Longrightarrow> k \<in> cond_facts (r_when r) \<Longrightarrow> fs k = fs' k"
  shows "Eval rules fs = Eval rules fs'"
proof -
  have "cond_eval (r_when r) fs = cond_eval (r_when r) fs'" if "r \<in> set rs" for r
    using assms(2) that by (intro cond_eval_frame) blast
  then have "find (\<lambda>r. cond_eval (r_when r) fs) rs = find (\<lambda>r. cond_eval (r_when r) fs') rs"
    by (intro find_cong) simp_all
  then show ?thesis using assms(1) by (simp add: Eval_def first_match_find)
qed

definition sample_rules :: raw_message where
  "sample_rules = RawDoc (JArr [JObj [(''tier'', JStr ''gold''), (''when'', JObj [(''fact'', JStr ''stake''),
     (''op'', JStr ''>=''), (''value'', JStr ''10'')])], JObj [(''tier'', JStr ''base'')]])"

lemma sample_rules_decode: "decode_rules sample_rules = Some
    [\<lparr>r_tier = ''gold'', r_when = Condition [] [] None ''stake'' ''>='' ''10''\<rparr>, \<lparr>r_tier = ''base'', r_when = empty_condition\<rparr>]"
  by (simp add: sample_rules_def decode_rule_def mk_condition_def json_field_def json_string_def
      to_lower_def char_lower_def empty_condition_def)

lemma Eval_validated_witness:
  "Eval sample_rules [''stake'' \<mapsto> ''12''] = ''gold'' \<and> Eval sample_rules Map.empty = ''base''"
proof -
  have "Validate sample_rules = Inr ()"
    using sample_rules_decode
    by (simp add: Validate_rules cond_validate_iff empty_condition_def forms_set_def valid_op_def)
  from Eval_validated[OF this sample_rules_decode] show ?thesis
    by (simp add: sample_rules_def compare_def fact_def big_parse_def nat_parse_def digit_val_def nz_def
        empty_condition_def)
qed

lemma Eval_frame_witness:
  "Eval sample_rules [''stake'' \<mapsto> ''12'', ''other'' \<mapsto> ''x''] = Eval sample_rules [''stake'' \<mapsto> ''12'']"
  by (rule Eval_frame[OF sample_rules_decode]) (auto simp: empty_condition_def)

end
