(* ===== verification/OAuth.thy ===== *)
theory OAuth
  imports Ledger Attestor Wallet Keys Tier
begin

text \<open>
  \<open>core/oauth\<close>: the authorization server. \<open>oauth.go\<close> (client validation, the membership
  gate, authorization), \<open>token.go\<close> (the token endpoint), \<open>introspect.go\<close> and
  \<open>activation.go\<close>, with the claims of \<open>utils/jose/jose.go\<close> and the hashes of
  \<open>utils/crypto/hash.go\<close> and \<open>random.go\<close>.
  \<open>server\<close> holds the collaborators and settings of \<open>oauth.Config\<close>. Hash functions, the JWS
  library (\<open>sv_sign\<close>, \<open>sv_jwks\<close>, \<open>sv_verify\<close>, \<open>sv_jti\<close>) are among its fields, and so is the
  attestor set (\<open>sv_attestors\<close>, injected in the code too). Nothing is assumed about them
  unless a lemma says so.
\<close>

section \<open>The server\<close>

record verified_token =
  vt_jti :: string
  vt_sub :: string
  vt_tier :: "json option"

record server =
  sv_cose :: cose_env
  sv_keys :: key_env
  sv_hasKeys :: bool
  sv_attestors :: "attestor list io"
  sv_issuer :: string
  sv_salt :: bytes
  sv_accessTTL :: duration
  sv_refreshTTL :: duration
  sv_codeTTL :: duration
  sv_sha256 :: "bytes \<Rightarrow> bytes"
  sv_hmac :: "bytes \<Rightarrow> bytes \<Rightarrow> bytes"
  sv_sign :: "string \<Rightarrow> bytes \<Rightarrow> string \<Rightarrow> (string \<times> json) list \<Rightarrow> string result"
  sv_jwks :: "public_key list \<Rightarrow> bytes result"
  sv_verify :: "instant \<Rightarrow> string \<Rightarrow> bytes \<Rightarrow> verified_token option"
  sv_jti :: "string \<Rightarrow> string option"

definition HashToken :: "server \<Rightarrow> string \<Rightarrow> string" where
  "HashToken S plaintext = hex_encode (sv_sha256 S (bytes_of plaintext))"

definition base32_char :: "byte \<Rightarrow> char" where
  "base32_char b = ''ABCDEFGHIJKLMNOPQRSTUVWXYZ234567'' ! (unat b mod 32)"

definition base32 :: "bytes \<Rightarrow> string" where
  "base32 bs = (case convertBits bs 8 5 True of None \<Rightarrow> '''' | Some gs \<Rightarrow> map base32_char gs)"

definition DeriveSub :: "server \<Rightarrow> bytes \<Rightarrow> string" where
  "DeriveSub S sch = base32 (sv_hmac S (sv_salt S) sch)"

definition pkceS256 :: "server \<Rightarrow> string \<Rightarrow> string" where
  "pkceS256 S verifier = b64url (sv_sha256 S (bytes_of verifier))"

text \<open>\<open>New\<close>: a zero code lifetime means one minute.\<close>

definition New :: "server \<Rightarrow> server" where
  "New cfg = (if sv_codeTTL cfg = 0 then cfg\<lparr>sv_codeTTL := 60 * second\<rparr> else cfg)"

section \<open>Clients and the membership gate\<close>

definition ValidateClient :: "string \<Rightarrow> string \<Rightarrow> string \<Rightarrow> oauth_client io" where
  "ValidateClient clientID redirectURI aud =
     tryE (OAuthClient_Get clientID) (\<lambda>r. case r of
       Inl e \<Rightarrow> if e = ErrNotFound then failE ErrInvalidClient else failE e
     | Inr c \<Rightarrow>
         if cl_status c \<noteq> ''active'' then failE ErrInvalidClient
         else if redirectURI \<notin> set (cl_redirects c) then failE ErrInvalidRequest
         else if aud \<noteq> '''' \<and> aud \<notin> set (cl_audiences c) then failE ErrInvalidRequest
         else returnE c)"

record oauth_attestation =
  oa_state :: state
  oa_tier :: string
  oa_credentials :: "(string \<times> json) list list"
  oa_facts :: fact_list

definition evaluate :: "server \<Rightarrow> string \<Rightarrow> att_result io" where
  "evaluate S sch =
     bindE (Blacklist_Has sch) (\<lambda>blocked.
     if blocked then returnE \<lparr>ar_atts = [], ar_held = False, ar_facts = []\<rparr>
     else bindE (sv_attestors S) (\<lambda>set. Evaluate set sch))"

definition representativeState :: "att_result \<Rightarrow> state" where
  "representativeState res =
     (if map_of (ar_facts res) FactAnyActive = Some ''true'' then StateActive
      else if ar_held res then StatePending
      else StateNone)"

definition MembershipOf :: "server \<Rightarrow> string \<Rightarrow> state io" where
  "MembershipOf S sch = bindE (evaluate S sch) (\<lambda>res. returnE (representativeState res))"

definition firstPartyTier :: "fact_list \<Rightarrow> string io" where
  "firstPartyTier facts = bindE Issuer_GetTierRules (\<lambda>rules. returnE (Eval rules (map_of facts)))"

definition claimsOf :: "attestation list \<Rightarrow> (string \<times> json) list list" where
  "claimsOf atts = map att_claim (filter att_held atts)"

definition attest :: "server \<Rightarrow> string \<Rightarrow> oauth_attestation io" where
  "attest S sch =
     bindE (evaluate S sch) (\<lambda>res.
     let st = representativeState res in
     bindE (if st \<noteq> StateNone then firstPartyTier (ar_facts res) else returnE '''') (\<lambda>tier.
     returnE \<lparr>oa_state = st, oa_tier = tier, oa_credentials = claimsOf (ar_atts res),
              oa_facts = ar_facts res\<rparr>))"

definition Attest :: "server \<Rightarrow> string \<Rightarrow> (state \<times> string) io" where
  "Attest S sch = bindE (attest S sch) (\<lambda>a. returnE (oa_state a, oa_tier a))"

section \<open>Authorization\<close>

record authorize_request =
  rq_client :: string
  rq_redirect :: string
  rq_state :: string
  rq_aud :: string
  rq_scope :: "string list"
  rq_nonce :: string
  rq_cosekey :: string
  rq_signature :: string
  rq_challenge :: string
  rq_device :: string

text \<open>Any error of the wallet check becomes \<open>ErrAccessDenied\<close>.\<close>

definition masked :: "err \<Rightarrow> 'a io \<Rightarrow> 'a io" where
  "masked e m = tryE m (\<lambda>r. case r of Inl _ \<Rightarrow> failE e | Inr x \<Rightarrow> returnE x)"

definition Authorize :: "server \<Rightarrow> authorize_request \<Rightarrow> string io" where
  "Authorize S req =
     bindE (ValidateClient (rq_client req) (rq_redirect req) (rq_aud req)) (\<lambda>_.
     if rq_challenge req = '''' then failE ErrInvalidRequest
     else
     bindE (masked ErrAccessDenied
       (Wallet_Verify (sv_cose S) NonceIssue (rq_cosekey req) (rq_nonce req) (rq_signature req))) (\<lambda>sch.
     bindE (evaluate S sch) (\<lambda>res.
     if representativeState res = StateNone then failE ErrNotEligible
     else
     bindE (RandomToken 32) (\<lambda>plain.
     bindE nowE (\<lambda>now.
     bindE (AuthCode_Create \<lparr>c_code = HashToken S plain, c_client = rq_client req, c_sch = sch,
         c_aud = rq_aud req, c_scope = rq_scope req, c_redirect = rq_redirect req,
         c_challenge = Some (rq_challenge req), c_expires = now + sv_codeTTL S, c_consumed = None,
         c_created = now\<rparr>) (\<lambda>_.
     returnE plain))))))"

definition activationTTL :: duration where "activationTTL = 30 * minute"

record activation_result =
  av_code :: string
  av_link :: string
  av_expires :: instant

definition CreateActivation :: "server \<Rightarrow> string \<Rightarrow> string \<Rightarrow> string \<Rightarrow> string \<Rightarrow> string \<Rightarrow> string
    \<Rightarrow> activation_result io" where
  "CreateActivation S channelType0 channelID nonce coseKey signature botUsername =
     (let channelType = (if channelType0 = '''' then ''telegram'' else channelType0) in
     bindE (masked ErrAccessDenied
       (Wallet_Verify (sv_cose S) NonceActivation coseKey nonce signature)) (\<lambda>sch.
     bindE (MembershipOf S sch) (\<lambda>st.
     if st = StateNone then failE ErrNotEligible
     else
     bindE (RandomToken 16) (\<lambda>short.
     bindE nowE (\<lambda>now.
     let exp = now + activationTTL in
     bindE (ActivationCode_Create \<lparr>a_code = HashToken S short, a_sch = sch, a_channel = channelID,
         a_ctype = channelType, a_status = ActivationActive, a_expires = exp, a_consumed = None,
         a_created = now\<rparr>) (\<lambda>_.
     returnE \<lparr>av_code = short,
       av_link = (if channelType = ''telegram'' \<and> botUsername \<noteq> ''''
                  then ''https://t.me/'' @ botUsername @ ''?start='' @ short else ''''),
       av_expires = exp\<rparr>))))))"

section \<open>Access tokens\<close>

record access_claims =
  ax_issuer :: string
  ax_subject :: string
  ax_audience :: string
  ax_issued :: instant
  ax_notbefore :: instant
  ax_expiry :: instant
  ax_jti :: string
  ax_credentials :: "(string \<times> json) list list"
  ax_tier :: string
  ax_cnf :: "(string \<times> string) list"

definition numeric_date :: "instant \<Rightarrow> json" where
  "numeric_date t = JNum (big_string (unix_sec t))"

definition token_claims :: "access_claims \<Rightarrow> (string \<times> json) list" where
  "token_claims c =
     [(''iss'', JStr (ax_issuer c)), (''sub'', JStr (ax_subject c)),
      (''aud'', JArr [JStr (ax_audience c)]), (''iat'', numeric_date (ax_issued c)),
      (''nbf'', numeric_date (ax_notbefore c)), (''exp'', numeric_date (ax_expiry c)),
      (''jti'', JStr (ax_jti c))]
     @ (if ax_credentials c \<noteq> [] then [(''credentials'', JArr (map JObj (ax_credentials c)))] else [])
     @ (if ax_tier c \<noteq> '''' then [(''tier'', JStr (ax_tier c))] else [])
     @ (if ax_cnf c \<noteq> [] then [(''cnf'', JObj (map (\<lambda>(k, v). (k, JStr v)) (ax_cnf c)))] else [])"

definition TypAccessToken :: string where "TypAccessToken = ''at+jwt''"

definition SignAccessToken :: "server \<Rightarrow> string \<Rightarrow> bytes \<Rightarrow> access_claims \<Rightarrow> string result" where
  "SignAccessToken S kid priv c = sv_sign S kid priv TypAccessToken (token_claims c)"

record mint_params =
  mp_sch :: string
  mp_aud :: string
  mp_ctype :: client_type
  mp_client :: "string option"
  mp_att :: oauth_attestation
  mp_device :: string
  mp_from :: "string option"
  mp_signer :: signer

record token_response =
  tr_access :: string
  tr_type :: string
  tr_refresh :: string
  tr_expires :: instant
  tr_status :: string
  tr_tier :: string

text \<open>The device key of a public client: absent, or 32 bytes of hex, or an error.\<close>

definition bound_device :: "mint_params \<Rightarrow> bytes result" where
  "bound_device p =
     (if mp_ctype p = ClientPublic \<and> mp_device p \<noteq> '''' then
        (case hex_decode (mp_device p) of
           None \<Rightarrow> Inl ErrInvalidRequest
         | Some dev \<Rightarrow> if length dev \<noteq> 32 then Inl ErrInvalidRequest else Inr dev)
      else Inr [])"

definition mint :: "server \<Rightarrow> mint_params \<Rightarrow> token_response io" where
  "mint S p =
     (case hex_decode (mp_sch p) of
        None \<Rightarrow> failE (ErrMsg ''encoding/hex'')
      | Some schBytes \<Rightarrow>
     bindE nowE (\<lambda>now.
     let exp = now + sv_accessTTL S in
     bindE RandomID (\<lambda>jti.
     bindE (liftE (bound_device p)) (\<lambda>dev.
     bindE (liftE (SignAccessToken S (sg_kid (mp_signer p)) (sg_priv (mp_signer p))
       \<lparr>ax_issuer = sv_issuer S, ax_subject = DeriveSub S schBytes, ax_audience = mp_aud p,
        ax_issued = now, ax_notbefore = now, ax_expiry = exp, ax_jti = jti,
        ax_credentials = oa_credentials (mp_att p), ax_tier = oa_tier (mp_att p),
        ax_cnf = (if dev = [] then [] else [(''jkt'', b64url (sv_sha256 S dev))])\<rparr>)) (\<lambda>accessToken.
     bindE (IssuedToken_Create \<lparr>t_jti = jti, t_sch = mp_sch p, t_kind = TokenAccess, t_aud = mp_aud p,
        t_kid = sg_kid (mp_signer p), t_client = mp_client p, t_status = TokenActive, t_issued = now,
        t_expires = exp, t_redeemed = None, t_revoked = None\<rparr>) (\<lambda>_.
     bindE (RandomToken 32) (\<lambda>refreshPlain.
     bindE (RefreshGrant_Create \<lparr>g_id = HashToken S refreshPlain, g_sch = mp_sch p, g_aud = mp_aud p,
        g_ctype = mp_ctype p, g_device = dev, g_client = mp_client p, g_status = GrantActive,
        g_from = mp_from p, g_created = now, g_expires = Some (now + sv_refreshTTL S),
        g_lastused = None\<rparr>) (\<lambda>_.
     returnE \<lparr>tr_access = accessToken, tr_type = ''Bearer'', tr_refresh = refreshPlain,
        tr_expires = exp, tr_status = ''eligible_member'', tr_tier = oa_tier (mp_att p)\<rparr>))))))))"

section \<open>The token endpoint\<close>

record token_request =
  tq_grant :: string
  tq_code :: string
  tq_client :: string
  tq_secret :: string
  tq_verifier :: string
  tq_redirect :: string
  tq_refresh :: string
  tq_device :: string

definition authenticateClient :: "server \<Rightarrow> oauth_client \<Rightarrow> auth_code \<Rightarrow> token_request \<Rightarrow> unit result" where
  "authenticateClient S client code req =
     (if c_challenge code = None \<or> tq_verifier req = '''' then Inl ErrInvalidGrant
      else if Some (pkceS256 S (tq_verifier req)) \<noteq> c_challenge code then Inl ErrInvalidGrant
      else if cl_type client = ClientConfidential
              \<and> cl_secret client \<noteq> Some (HashToken S (tq_secret req)) then Inl ErrInvalidClientCreds
      else Inr ())"

definition tokenAuthCode :: "server \<Rightarrow> token_request \<Rightarrow> token_response io" where
  "tokenAuthCode S req =
     bindE nowE (\<lambda>now.
     bindE (masked ErrInvalidGrant (AuthCode_Consume (HashToken S (tq_code req)) now)) (\<lambda>code.
     if c_client code \<noteq> tq_client req \<or> c_redirect code \<noteq> tq_redirect req then failE ErrInvalidGrant
     else
     bindE (masked ErrInvalidClientCreds (OAuthClient_Get (tq_client req))) (\<lambda>client.
     bindE (liftE (authenticateClient S client code req)) (\<lambda>_.
     bindE (attest S (c_sch code)) (\<lambda>att.
     if oa_state att = StateNone then failE ErrNotEligible
     else
     bindE (Keys_ActiveSigner (sv_keys S)) (\<lambda>signer.
     mint S \<lparr>mp_sch = c_sch code, mp_aud = c_aud code, mp_ctype = cl_type client,
       mp_client = Some (cl_id client), mp_att = att, mp_device = tq_device req, mp_from = None,
       mp_signer = signer\<rparr>))))))"

text \<open>The checks on a grant that is about to be rotated, after its status and expiry.\<close>

definition authenticateGrant :: "server \<Rightarrow> refresh_grant \<Rightarrow> token_request \<Rightarrow> unit io" where
  "authenticateGrant S grant req =
     bindE (if g_ctype grant = ClientConfidential then
         (case g_client grant of
            None \<Rightarrow> failE ErrInvalidClientCreds
          | Some cid \<Rightarrow>
              bindE (masked ErrInvalidClientCreds (OAuthClient_Get cid)) (\<lambda>client.
              guardE (cl_secret client = Some (HashToken S (tq_secret req))) ErrInvalidClientCreds))
       else returnE ()) (\<lambda>_.
     if g_ctype grant = ClientPublic \<and> g_device grant \<noteq> []
     then guardE (hex_decode (tq_device req) = Some (g_device grant)) ErrInvalidGrant
     else returnE ())"

definition rotate_and_mint :: "server \<Rightarrow> refresh_grant \<Rightarrow> oauth_attestation \<Rightarrow> signer \<Rightarrow> token_response io" where
  "rotate_and_mint S grant att signer = with_tx
     (bindE (RefreshGrant_RotateIfActive (g_id grant)) (\<lambda>won.
      if \<not> won then failE ErrInvalidGrant
      else mint S \<lparr>mp_sch = g_sch grant, mp_aud = g_aud grant, mp_ctype = g_ctype grant,
        mp_client = g_client grant, mp_att = att,
        mp_device = (if g_device grant \<noteq> [] then hex_encode (g_device grant) else ''''),
        mp_from = Some (g_id grant), mp_signer = signer\<rparr>))"

definition tokenRefresh :: "server \<Rightarrow> token_request \<Rightarrow> token_response io" where
  "tokenRefresh S req =
     bindE (masked ErrInvalidGrant (RefreshGrant_Get (HashToken S (tq_refresh req)))) (\<lambda>grant.
     bindE nowE (\<lambda>now.
     case g_status grant of
       GrantActive \<Rightarrow>
         if (case g_expires grant of None \<Rightarrow> False | Some e \<Rightarrow> after now e) then
           bindE (ignoreE (RefreshGrant_SetStatus (g_id grant) GrantExpired)) (\<lambda>_. failE ErrInvalidGrant)
         else
         bindE (authenticateGrant S grant req) (\<lambda>_.
         bindE (attest S (g_sch grant)) (\<lambda>att.
         if oa_state att = StateNone then failE ErrNotEligible
         else
         bindE (Keys_ActiveSigner (sv_keys S)) (\<lambda>signer.
         rotate_and_mint S grant att signer)))
     | GrantRotated \<Rightarrow>
         bindE (ignoreE (RefreshGrant_RevokeChain (g_id grant))) (\<lambda>_. failE ErrInvalidGrant)
     | _ \<Rightarrow> failE ErrInvalidGrant))"

definition Token :: "server \<Rightarrow> token_request \<Rightarrow> token_response io" where
  "Token S req =
     (if tq_grant req = ''authorization_code'' then tokenAuthCode S req
      else if tq_grant req = ''refresh_token'' then tokenRefresh S req
      else failE ErrUnsupportedGrant)"

section \<open>Introspection and revocation\<close>

record introspection =
  ir_active :: bool
  ir_sub :: string
  ir_tier :: string
  ir_exp :: int
  ir_membership :: string

definition inactive :: introspection where
  "inactive = \<lparr>ir_active = False, ir_sub = '''', ir_tier = '''', ir_exp = 0, ir_membership = ''''\<rparr>"

definition currentJWKS :: "server \<Rightarrow> bytes io" where
  "currentJWKS S = bindE Keys_PublicJWKSKeys (\<lambda>pub. liftE (sv_jwks S pub))"

definition introspect_ledger :: "string \<Rightarrow> string \<Rightarrow> string \<Rightarrow> introspection io" where
  "introspect_ledger jti sub tier =
     (if jti = '''' then returnE inactive
      else tryE (IssuedToken_Get jti) (\<lambda>r. case r of
          Inl _ \<Rightarrow> returnE inactive
        | Inr rec \<Rightarrow>
            bindE nowE (\<lambda>now.
            if t_status rec = TokenActive \<and> before now (t_expires rec)
            then returnE \<lparr>ir_active = True, ir_sub = sub, ir_tier = tier, ir_exp = unix_sec (t_expires rec),
                   ir_membership = ''eligible_member''\<rparr>
            else returnE inactive)))"

definition Introspect :: "server \<Rightarrow> string \<Rightarrow> string \<Rightarrow> introspection io" where
  "Introspect S token jti =
     (if token = '''' then introspect_ledger jti '''' ''''
      else
      bindE (currentJWKS S) (\<lambda>jwks.
      bindE nowE (\<lambda>now.
      case sv_verify S now token jwks of
        None \<Rightarrow> returnE inactive
      | Some tok \<Rightarrow> introspect_ledger (vt_jti tok) (vt_sub tok)
          (case vt_tier tok of Some (JStr t) \<Rightarrow> t | _ \<Rightarrow> ''''))))"

definition Revoke :: "server \<Rightarrow> string \<Rightarrow> string \<Rightarrow> unit io" where
  "Revoke S token hint =
     (if token = '''' then returnE ()
      else
      let isJWS = count_char (CHR ''.'') token = 2 \<and> hint \<noteq> ''refresh_token'' in
      if isJWS \<and> sv_jti S token \<noteq> None \<and> sv_jti S token \<noteq> Some '''' then
        bindE nowE (\<lambda>now. IssuedToken_Revoke (the (sv_jti S token)) now)
      else tryE (RefreshGrant_Get (HashToken S token)) (\<lambda>r. case r of
          Inl _ \<Rightarrow> returnE ()
        | Inr g \<Rightarrow> RefreshGrant_SetStatus (g_id g) GrantRevoked))"

section \<open>Wiring\<close>

definition DefaultKoiosBaseURL :: "string \<Rightarrow> string" where
  "DefaultKoiosBaseURL network =
     (if network = ''preprod'' then ''https://preprod.koios.rest/api/v1''
      else if network = ''preview'' then ''https://preview.koios.rest/api/v1''
      else ''https://api.koios.rest/api/v1'')"

text \<open>\<open>srcFor\<close> of \<open>cmd/issuer\<close>: one cached Koios source per network, mainnet by default.\<close>

definition network_source :: "http \<Rightarrow> string \<Rightarrow> string \<Rightarrow> string \<Rightarrow> snapshot io" where
  "network_source http apiKey network0 sch =
     (let network = (if network0 = '''' then ''mainnet'' else network0) in
      bindE nowE (\<lambda>now. Cached_Snapshot
        (Koios_Snapshot http now (NewKoiosSource (DefaultKoiosBaseURL network) apiKey network)) network sch))"

definition srcFor :: "http \<Rightarrow> string \<Rightarrow> source_for" where
  "srcFor http apiKey network = Inr (network_source http apiKey network)"

definition attestorsFor :: "http \<Rightarrow> string \<Rightarrow> attestor list io" where
  "attestorsFor http apiKey =
     bindE Attestor_ListActive (\<lambda>cfgs. liftE (BuildSet cfgs DefaultRegistry (srcFor http apiKey)))"

end
