(* ===== verification/Issuance.thy ===== *)
theory Issuance
  imports OAuth
begin

text \<open>
  What the authorization server guarantees. The locale \<open>attesting\<close> is the contract of the
  injected attestor set: resolving and evaluating it changes nothing but the snapshot
  cache; it is interpreted on the wiring of \<open>cmd/issuer\<close>. Over it:
  \<^item> a code or token is issued only to an authenticated, registered, eligible party, and
    the rows that record it are exactly those one expects;
  \<^item> the invariant of the rotation chains holds in every reachable state of the server,
    whatever requests arrive and whatever statements fail.
\<close>

section \<open>Steps that only touch the cache\<close>

definition only_cache :: "world \<Rightarrow> world \<Rightarrow> bool" where
  "only_cache w w' \<longleftrightarrow> w' = w\<lparr>scache := scache w', faults := faults w', draws := draws w'\<rparr>"

interpretation cache: io_rel only_cache
proof
  fix w v u assume "only_cache w v" "only_cache v u"
  then have "v = w\<lparr>scache := scache v, faults := faults v, draws := draws v\<rparr>"
    "u = v\<lparr>scache := scache u, faults := faults u, draws := draws u\<rparr>" by (simp_all add: only_cache_def)
  then have "u = w\<lparr>scache := scache v, faults := faults v, draws := draws v\<rparr>
      \<lparr>scache := scache u, faults := faults u, draws := draws u\<rparr>" by simp
  then show "only_cache w u" by (simp add: only_cache_def)
qed (simp_all add: only_cache_def)

lemma only_cache_tables:
  assumes "only_cache w w'"
  shows "clock w' = clock w" "entropy w' = entropy w" "nonces w' = nonces w" "codes w' = codes w"
    "activations w' = activations w" "clients w' = clients w" "grants w' = grants w"
    "tokens w' = tokens w" "ikeys w' = ikeys w" "banned w' = banned w" "subs w' = subs w"
    "attestors w' = attestors w" "tier_rules w' = tier_rules w" "channels w' = channels w"
    "admins w' = admins w" "asessions w' = asessions w" "audits w' = audits w" "jobs w' = jobs w"
    "deliveries w' = deliveries w"
proof -
  let ?v = "w\<lparr>scache := scache w', faults := faults w', draws := draws w'\<rparr>"
  have e: "w' = ?v" using assms by (simp add: only_cache_def)
  show "clock w' = clock w" "entropy w' = entropy w" "nonces w' = nonces w" "codes w' = codes w"
    "activations w' = activations w" "clients w' = clients w" "grants w' = grants w"
    "tokens w' = tokens w" "ikeys w' = ikeys w" "banned w' = banned w" "subs w' = subs w"
    "attestors w' = attestors w" "tier_rules w' = tier_rules w" "channels w' = channels w"
    "admins w' = admins w" "asessions w' = asessions w" "audits w' = audits w" "jobs w' = jobs w"
    "deliveries w' = deliveries w"
    by (subst e, simp)+
qed

lemma Cached_Snapshot_cache: "moves only_cache (Cached_Snapshot inner network sch)"
proof -
  have up: "moves only_cache (Cache_Upsert c)" for c
    unfolding Cache_Upsert_def upsert_row_def by (rule cache.modify) (simp add: only_cache_def)
  have del: "moves only_cache (Cache_Delete a b)" for a b
    unfolding Cache_Delete_def by (rule cache.delete_rows) (simp add: only_cache_def)
  have fetch: "moves only_cache (Cached_fetch inner network e sch)" for e
    unfolding Cached_fetch_def
    by (intro cache.bind cache.pure_steps moves_when cache.ignore up del)
  show ?thesis unfolding Cached_Snapshot_def Cache_Get_def
    by (auto intro!: cache.bind cache.pure_steps cache.try_ cache.query_row fetch
        split: option.splits sum.splits)
qed

locale attesting =
  fixes S :: server
  assumes resolve: "moves only_cache (sv_attestors S)"
    and attests: "sv_attestors S w = (Inr as, w') \<Longrightarrow> a \<in> set as \<Longrightarrow> moves only_cache (at_attest a sch)"
begin

lemma loop_cache: "(\<And>a. a \<in> set as \<Longrightarrow> moves only_cache (at_attest a sch)) \<Longrightarrow>
    moves only_cache (evaluate_loop as sch res)"
  by (induction as arbitrary: res) (auto intro!: cache.bind cache.pure_steps)

lemma evaluate_cache: "moves only_cache (evaluate S sch)"
proof -
  have "moves only_cache (bindE (sv_attestors S) (\<lambda>as. Evaluate as sch))"
    unfolding moves_def
  proof
    fix w
    obtain r v where run: "sv_attestors S w = (r, v)" by force
    have 1: "only_cache w v" using movesD[of only_cache "sv_attestors S", OF resolve run] .
    show "only_cache w (snd (bindE (sv_attestors S) (\<lambda>as. Evaluate as sch) w))"
    proof (cases r)
      case (Inr as)
      then have "moves only_cache (Evaluate as sch)" unfolding Evaluate_def
        using attests[of w as v] run by (intro cache.bind cache.pure_steps loop_cache) auto
      then show ?thesis using 1 Inr run cache.trans by (auto simp: bindE_def moves_def)
    qed (use 1 run in \<open>simp add: bindE_def\<close>)
  qed
  note this [intro!]
  show ?thesis unfolding evaluate_def Blacklist_Has_def
    by (rule cache.bind[OF cache.query], rule moves_when) (auto intro: cache.pure_steps)
qed

lemma tier_cache: "moves only_cache (firstPartyTier facts)"
  unfolding firstPartyTier_def Issuer_GetTierRules_def
  by (intro cache.bind cache.try_ cache.query_row cache.pure_steps)
     (auto split: sum.splits intro: cache.pure_steps)

lemma attest_cache: "moves only_cache (attest S sch)"
  unfolding attest_def Let_def
  by (intro cache.bind evaluate_cache moves_when tier_cache cache.pure_steps)

end

section \<open>The wiring satisfies the contract\<close>

definition wired :: "server \<Rightarrow> http \<Rightarrow> string \<Rightarrow> server" where
  "wired S http apiKey = S\<lparr>sv_attestors := attestorsFor http apiKey\<rparr>"

lemma network_source_cache: "moves only_cache (network_source http apiKey network sch)"
  unfolding network_source_def Let_def
  by (intro cache.bind cache.pure_steps Cached_Snapshot_cache)

lemma BuildSet_cache:
  "BuildSet cfgs DefaultRegistry (srcFor http apiKey) = Inr as \<Longrightarrow> a \<in> set as \<Longrightarrow>
     moves only_cache (at_attest a sch)"
proof (induction cfgs arbitrary: as)
  case (Cons c cs)
  then obtain b rest where b: "Registry_Build DefaultRegistry (ac_kind c) (ac_id c) (ac_params c) (srcFor http apiKey) = Inr b"
      and rest: "BuildSet cs DefaultRegistry (srcFor http apiKey) = Inr rest" and as: "as = b # rest"
    by (auto split: sum.splits)
  have "moves only_cache (at_attest b sch)"
    using b by (auto simp: Registry_Build_def DefaultRegistry_def Registry_Register_def NewRegistry_def
        BuildPoolStake_def srcFor_def PoolStake_Attest_def split: option.splits if_splits
        intro!: cache.bind cache.pure_steps network_source_cache)
  then show ?case using Cons.IH[OF rest] Cons.prems(2) as by auto
qed simp

interpretation issuer: attesting "wired S http apiKey" for S http apiKey
proof
  show "moves only_cache (sv_attestors (wired S http apiKey))"
    by (simp add: wired_def attestorsFor_def Attestor_ListActive_def cache.bind cache.query cache.pure_steps)
next
  fix w as w' a sch
  assume "sv_attestors (wired S http apiKey) w = (Inr as, w')" "a \<in> set as"
  then show "moves only_cache (at_attest a sch)"
    by (auto simp: wired_def attestorsFor_def bindE_Inr liftE_Inr intro: BuildSet_cache)
qed

section \<open>Inversion of the operations\<close>

lemma masked_Inr: "masked e m w = (Inr x, w') \<longleftrightarrow> m w = (Inr x, w')"
  by (auto simp: masked_def tryE_def failE_def returnE_def split: prod.splits sum.splits)

lemma ValidateClient_Inr:
  assumes "ValidateClient cid redirect aud w = (Inr c, w')"
  shows "find (\<lambda>c. cl_id c = cid) (clients w) = Some c \<and> cl_status c = ''active''
    \<and> redirect \<in> set (cl_redirects c) \<and> (aud = '''' \<or> aud \<in> set (cl_audiences c)) \<and> w' = skip w"
  using assms
  by (auto simp: ValidateClient_def tryE_def OAuthClient_Get_def failE_Inr returnE_Inr query_row_Inr
      split: prod.splits sum.splits if_splits)

lemma evaluate_Inr:
  assumes "evaluate S sch w = (Inr res, w')" "representativeState res \<noteq> StateNone"
  shows "sch \<notin> b_sch ` set (banned w)"
  using assms by (auto simp: evaluate_def bindE_Inr Blacklist_Has_def query_Inr returnE_Inr
      representativeState_def split: if_splits)

lemma attest_Inr:
  assumes "attest S sch w = (Inr a, w')" "oa_state a \<noteq> StateNone"
  shows "\<exists>res v. evaluate S sch w = (Inr res, v) \<and> oa_state a = representativeState res
    \<and> sch \<notin> b_sch ` set (banned w)"
proof -
  obtain res v where "evaluate S sch w = (Inr res, v)" "oa_state a = representativeState res"
    using assms(1) by (auto simp: attest_def bindE_Inr Let_def returnE_Inr)
  then show ?thesis using evaluate_Inr assms(2) by metis
qed

lemma RandomID_Inr: "RandomID w = (Inr i, w') \<longleftrightarrow>
    i = hex_encode (map (entropy w) [draws w ..< draws w + 16]) \<and> w' = w\<lparr>draws := draws w + 16\<rparr>"
  by (auto simp: RandomID_def bindE_Inr returnE_Inr random_bytes_Inr)

text \<open>The rows a successful \<open>mint\<close> adds.\<close>

definition minted_token :: "server \<Rightarrow> mint_params \<Rightarrow> instant \<Rightarrow> string \<Rightarrow> issued_token" where
  "minted_token S p now jti = \<lparr>t_jti = jti, t_sch = mp_sch p, t_kind = TokenAccess, t_aud = mp_aud p,
     t_kid = sg_kid (mp_signer p), t_client = mp_client p, t_status = TokenActive, t_issued = now,
     t_expires = now + sv_accessTTL S, t_redeemed = None, t_revoked = None\<rparr>"

definition minted_grant :: "server \<Rightarrow> mint_params \<Rightarrow> instant \<Rightarrow> bytes \<Rightarrow> string \<Rightarrow> refresh_grant" where
  "minted_grant S p now dev plain = \<lparr>g_id = HashToken S plain, g_sch = mp_sch p, g_aud = mp_aud p,
     g_ctype = mp_ctype p, g_device = dev, g_client = mp_client p, g_status = GrantActive,
     g_from = mp_from p, g_created = now, g_expires = Some (now + sv_refreshTTL S), g_lastused = None\<rparr>"

lemma mint_Inr:
  assumes "mint S p w = (Inr r, w')"
  shows "\<exists>jti dev. bound_device p = Inr dev
    \<and> tokens w' = tokens w @ [minted_token S p (clock w) jti] \<and> jti \<notin> t_jti ` set (tokens w)
    \<and> grants w' = grants w @ [minted_grant S p (clock w) dev (tr_refresh r)]
    \<and> HashToken S (tr_refresh r) \<notin> g_id ` set (grants w)
    \<and> codes w' = codes w \<and> clock w' = clock w \<and> clients w' = clients w \<and> ikeys w' = ikeys w
    \<and> tr_tier r = oa_tier (mp_att p) \<and> tr_expires r = clock w + sv_accessTTL S"
  using assms
  by (auto simp: mint_def option_failE_Inr bindE_Inr nowE_Inr Let_def RandomID_Inr liftE_Inr
      IssuedToken_Create_def insert_row_Inr RandomToken_Inr RefreshGrant_Create_def returnE_Inr
      minted_token_def minted_grant_def)

lemma AuthNonce_Consume_frame: "AuthNonce_Consume nonce purpose t w = (Inr n, w') \<Longrightarrow>
    w' = w\<lparr>nonces := nonces w', faults := faults w'\<rparr>"
  unfolding AuthNonce_Consume_def
  by (auto simp: io_success skip_def split: if_splits intro!: world.equality)

lemma AuthCode_Consume_frame: "AuthCode_Consume code t w = (Inr c, w') \<Longrightarrow>
    w' = w\<lparr>codes := codes w', faults := drop 4 (faults w)\<rparr>"
  unfolding AuthCode_Consume_def
  by (auto simp: io_success skip_def drop_Suc eval_nat_numeral tl_drop split: if_splits intro!: world.equality)

lemma ActiveSigner_frame: "Keys_ActiveSigner E w = (Inr s, w') \<Longrightarrow> w' = skip w"
  by (auto simp: Keys_ActiveSigner_def bindE_Inr IssuerKey_ListByStatus_def query_Inr Let_def
      failE_Inr liftE_Inr returnE_Inr split: if_splits)

context attesting
begin

lemma Authorize_Inr:
  assumes run: "Authorize S req w = (Inr code, w')"
  shows "\<exists>c sch res v v'. find (\<lambda>c. cl_id c = rq_client req) (clients w) = Some c \<and> cl_status c = ''active''
    \<and> rq_redirect req \<in> set (cl_redirects c) \<and> (rq_aud req = '''' \<or> rq_aud req \<in> set (cl_audiences c))
    \<and> rq_challenge req \<noteq> ''''
    \<and> Wallet_Verify (sv_cose S) NonceIssue (rq_cosekey req) (rq_nonce req) (rq_signature req) (skip w) = (Inr sch, v)
    \<and> evaluate S sch v = (Inr res, v') \<and> representativeState res \<noteq> StateNone
    \<and> sch \<notin> b_sch ` set (banned w)
    \<and> codes w' = codes w @ [\<lparr>c_code = HashToken S code, c_client = rq_client req, c_sch = sch,
         c_aud = rq_aud req, c_scope = rq_scope req, c_redirect = rq_redirect req,
         c_challenge = Some (rq_challenge req), c_expires = clock w + sv_codeTTL S, c_consumed = None,
         c_created = clock w\<rparr>]
    \<and> HashToken S code \<notin> c_code ` set (codes w) \<and> clients w' = clients w
    \<and> tokens w' = tokens w \<and> grants w' = grants w"
proof -
  obtain c u where c: "ValidateClient (rq_client req) (rq_redirect req) (rq_aud req) w = (Inr c, u)"
    and rest: "(if rq_challenge req = '''' then failE ErrInvalidRequest
     else
     bindE (masked ErrAccessDenied
       (Wallet_Verify (sv_cose S) NonceIssue (rq_cosekey req) (rq_nonce req) (rq_signature req))) (\<lambda>sch.
     bindE (evaluate S sch) (\<lambda>res.
     if representativeState res = StateNone then failE ErrNotEligible
     else
     bindE (RandomToken 32) (\<lambda>plain.
     bindE nowE (\<lambda>now.
     bindE (AuthCode_Create \<lparr>c_code = HashToken S plain, c_client = rq_client req, c_sch = sch,
         c_aud = rq_aud req, c_scope = rq_scope req, c_redirect = rq_redirect req,
         c_challenge = Some (rq_challenge req), c_expires = now + sv_codeTTL S, c_consumed = None,
         c_created = now\<rparr>) (\<lambda>_.
     returnE plain)))))) u = (Inr code, w')"
    using run unfolding Authorize_def bindE_Inr[of "ValidateClient _ _ _"] by blast
  have u: "u = skip w" using ValidateClient_Inr[OF c] by simp
  obtain sch v res v' where ch: "rq_challenge req \<noteq> ''''"
    and wal: "Wallet_Verify (sv_cose S) NonceIssue (rq_cosekey req) (rq_nonce req) (rq_signature req) (skip w) = (Inr sch, v)"
    and ev: "evaluate S sch v = (Inr res, v')" and st: "representativeState res \<noteq> StateNone"
    and cr: "codes w' = codes v' @ [\<lparr>c_code = HashToken S code, c_client = rq_client req, c_sch = sch,
         c_aud = rq_aud req, c_scope = rq_scope req, c_redirect = rq_redirect req,
         c_challenge = Some (rq_challenge req), c_expires = clock v' + sv_codeTTL S, c_consumed = None,
         c_created = clock v'\<rparr>]" "HashToken S code \<notin> c_code ` set (codes v')" "clients w' = clients v'"
      "tokens w' = tokens v'" "grants w' = grants v'"
    using rest unfolding u
    by (auto simp: bindE_Inr if_failE_Inr masked_Inr nowE_Inr RandomToken_Inr AuthCode_Create_def
        insert_row_Inr returnE_Inr)
  have n: "v = (skip w)\<lparr>nonces := nonces v, faults := faults v\<rparr>"
    using Wallet_Verify_Inr[OF wal] AuthNonce_Consume_frame by blast
  note same = only_cache_tables[OF movesD[of only_cache "evaluate S sch", OF evaluate_cache ev]]
  have vw: "banned v = banned w" "codes v = codes w" "tokens v = tokens w" "grants v = grants w"
    "clock v = clock w" "clients v = clients w" by (subst n, simp)+
  from vw(1) have "sch \<notin> b_sch ` set (banned w)" using evaluate_Inr[OF ev st] by simp
  then show ?thesis using ValidateClient_Inr[OF c] ch wal ev st cr same vw by auto
qed

lemma tokenAuthCode_Inr:
  assumes run: "tokenAuthCode S req w = (Inr r, w')"
  shows "\<exists>code client att p n v'. find (\<lambda>c. c_code c = HashToken S (tq_code req)) (codes w) = Some code
    \<and> code_check (clock w) code = Inr ()
    \<and> c_client code = tq_client req \<and> c_redirect code = tq_redirect req
    \<and> find (\<lambda>c. cl_id c = tq_client req) (clients w) = Some client
    \<and> authenticateClient S client code req = Inr ()
    \<and> attest S (c_sch code) (w\<lparr>codes := codes w', faults := drop n (faults w)\<rparr>) = (Inr att, v')
    \<and> oa_state att \<noteq> StateNone
    \<and> c_sch code \<notin> b_sch ` set (banned w)
    \<and> mp_sch p = c_sch code \<and> mp_aud p = c_aud code \<and> mp_ctype p = cl_type client \<and> mp_from p = None
    \<and> mp_att p = att \<and> mp_client p = Some (cl_id client)
    \<and> (\<exists>jti. tokens w' = tokens w @ [minted_token S p (clock w) jti] \<and> jti \<notin> t_jti ` set (tokens w))
    \<and> (\<exists>dev. bound_device p = Inr dev \<and> grants w' = grants w @ [minted_grant S p (clock w) dev (tr_refresh r)])
    \<and> HashToken S (tr_refresh r) \<notin> g_id ` set (grants w)
    \<and> codes w' = set_where (code_open (HashToken S (tq_code req))) (code_stamp (clock w)) (codes w)"
proof -
  obtain code v1 client att v2 signer v3 where
    cons: "AuthCode_Consume (HashToken S (tq_code req)) (clock w) w = (Inr code, v1)"
    and m: "c_client code = tq_client req" "c_redirect code = tq_redirect req"
    and cl: "OAuthClient_Get (tq_client req) v1 = (Inr client, skip v1)"
    and au: "authenticateClient S client code req = Inr ()"
    and att: "attest S (c_sch code) (skip v1) = (Inr att, v2)" "oa_state att \<noteq> StateNone"
    and sg: "Keys_ActiveSigner (sv_keys S) v2 = (Inr signer, v3)"
    and mi: "mint S \<lparr>mp_sch = c_sch code, mp_aud = c_aud code, mp_ctype = cl_type client,
       mp_client = Some (cl_id client), mp_att = att, mp_device = tq_device req, mp_from = None,
       mp_signer = signer\<rparr> v3 = (Inr r, w')" (is "mint S ?p v3 = _")
    using run by (auto simp: tokenAuthCode_def bindE_Inr if_failE_Inr masked_Inr nowE_Inr liftE_Inr
        OAuthClient_Get_def query_row_Inr)
  have fr: "v1 = w\<lparr>codes := codes v1, faults := drop 4 (faults w)\<rparr>"
    using AuthCode_Consume_frame[OF cons] .
  have "faults v1 = drop 4 (faults w)" using arg_cong[OF fr, of faults] by simp
  then have "skip v1 = v1\<lparr>faults := drop 5 (faults w)\<rparr>" by (simp add: skip_def drop_Suc eval_nat_numeral tl_drop)
  then have at: "skip v1 = w\<lparr>codes := codes v1, faults := drop 5 (faults w)\<rparr>"
    using arg_cong[OF fr, of "faults_update (\<lambda>_. drop 5 (faults w))"] by simp
  have v1: "banned v1 = banned w" "tokens v1 = tokens w" "grants v1 = grants w"
    "clock v1 = clock w" "clients v1 = clients w" by (subst fr, simp)+
  note same = only_cache_tables[OF movesD[of only_cache "attest S (c_sch code)", OF attest_cache att(1)]]
  have v3: "v3 = skip v2" using sg by (rule ActiveSigner_frame)
  have "c_sch code \<notin> b_sch ` set (banned w)" using attest_Inr[OF att] v1 by auto
  moreover have "find (\<lambda>c. cl_id c = tq_client req) (clients w) = Some client"
    using cl v1 by (auto simp: OAuthClient_Get_def query_row_Inr)
  ultimately show ?thesis
    using AuthCode_Consume_Inr[OF cons] m au att mint_Inr[OF mi] same v1 v3
    by (intro exI[of _ code] exI[of _ client] exI[of _ att] exI[of _ ?p] exI[of _ 5] exI[of _ v2])
       (auto simp: at)
qed

lemma tokenRefresh_open:
  assumes run: "tokenRefresh S req w = (Inr r, w')"
  obtains g where "RefreshGrant_Get (HashToken S (tq_refresh req)) w = (Inr g, skip w)"
      "g_status g = GrantActive" "\<forall>e. g_expires g = Some e \<longrightarrow> clock w \<le> e"
    "bindE (authenticateGrant S g req) (\<lambda>_.
         bindE (attest S (g_sch g)) (\<lambda>att.
         if oa_state att = StateNone then failE ErrNotEligible
         else bindE (Keys_ActiveSigner (sv_keys S)) (\<lambda>signer. rotate_and_mint S g att signer))) (skip w) = (Inr r, w')"
proof -
  obtain g where gg: "RefreshGrant_Get (HashToken S (tq_refresh req)) w = (Inr g, skip w)"
    and st: "(case g_status g of
     GrantActive \<Rightarrow>
       if (case g_expires g of None \<Rightarrow> False | Some e \<Rightarrow> after (clock (skip w)) e) then
         bindE (ignoreE (RefreshGrant_SetStatus (g_id g) GrantExpired)) (\<lambda>_. failE ErrInvalidGrant)
       else
       bindE (authenticateGrant S g req) (\<lambda>_.
       bindE (attest S (g_sch g)) (\<lambda>att.
       if oa_state att = StateNone then failE ErrNotEligible
       else
       bindE (Keys_ActiveSigner (sv_keys S)) (\<lambda>signer.
       rotate_and_mint S g att signer)))
   | GrantRotated \<Rightarrow>
       bindE (ignoreE (RefreshGrant_RevokeChain (g_id g))) (\<lambda>_. failE ErrInvalidGrant)
   | _ \<Rightarrow> failE ErrInvalidGrant) (skip w) = (Inr r, w')"
    using run by (auto simp: tokenRefresh_def bindE_Inr masked_Inr nowE_Inr RefreshGrant_Get_def query_row_Inr)
  show ?thesis
  proof (cases "g_status g = GrantActive \<and> (\<forall>e. g_expires g = Some e \<longrightarrow> clock w \<le> e)")
    case True
    then show ?thesis using gg st by (intro that[OF gg]) (auto split: option.splits)
  next
    case False
    then show ?thesis using st
      by (cases "g_status g") (auto simp: bindE_Inr failE_Inr split: option.splits)
  qed
qed

lemma authenticateGrant_Inr:
  assumes "authenticateGrant S g req (skip w) = (Inr u, v)"
  shows "(\<exists>n. v = w\<lparr>faults := drop n (faults w)\<rparr>)
    \<and> (g_ctype g = ClientConfidential \<longrightarrow> (\<exists>cid client. g_client g = Some cid
         \<and> find (\<lambda>c. cl_id c = cid) (clients w) = Some client
         \<and> cl_secret client = Some (HashToken S (tq_secret req))))
    \<and> (g_ctype g = ClientPublic \<longrightarrow> g_device g \<noteq> [] \<longrightarrow> hex_decode (tq_device req) = Some (g_device g))"
proof -
  have 1: "skip w = w\<lparr>faults := drop 1 (faults w)\<rparr>" "skip (skip w) = w\<lparr>faults := drop 2 (faults w)\<rparr>"
    by (simp_all add: skip_def drop_Suc eval_nat_numeral tl_drop)
  have "v = skip w \<or> v = skip (skip w)"
    using assms by (auto simp: authenticateGrant_def bindE_Inr guardE_Inr returnE_Inr masked_Inr
        OAuthClient_Get_def query_row_Inr failE_Inr split: if_splits option.splits)
  then have "\<exists>n. v = w\<lparr>faults := drop n (faults w)\<rparr>" using 1 by metis
  then show ?thesis using assms
    by (auto simp: authenticateGrant_def bindE_Inr guardE_Inr returnE_Inr masked_Inr
        OAuthClient_Get_def query_row_Inr failE_Inr split: if_splits option.splits)
qed

lemma rotate_and_mint_rows:
  assumes p: "p = \<lparr>mp_sch = g_sch g, mp_aud = g_aud g, mp_ctype = g_ctype g, mp_client = g_client g, mp_att = att,
        mp_device = (if g_device g \<noteq> [] then hex_encode (g_device g) else ''''),
        mp_from = Some (g_id g), mp_signer = signer\<rparr>"
    and rot: "rotate_and_mint S g att signer v = (Inr r, w')"
  shows "(\<exists>jti. tokens w' = tokens v @ [minted_token S p (clock v) jti] \<and> jti \<notin> t_jti ` set (tokens v))
    \<and> (\<exists>dev. bound_device p = Inr dev
       \<and> grants w' = set_where (grant_open (g_id g)) (set_grant GrantRotated) (grants v)
           @ [minted_grant S p (clock v) dev (tr_refresh r)])
    \<and> HashToken S (tr_refresh r) \<notin> g_id ` set (grants v)
    \<and> length (filter (grant_open (g_id g)) (grants v)) = 1"
proof -
  define v4 where "v4 = grants_update (set_where (grant_open (g_id g)) (set_grant GrantRotated)) (skip (skip v))"
  obtain v5 where cnt: "length (filter (grant_open (g_id g)) (grants v)) = 1"
    and mi: "mint S p v4 = (Inr r, v5)" and w': "w' = skip v5"
    using rot unfolding rotate_and_mint_def with_tx_Inr bindE_Inr RefreshGrant_RotateIfActive_def
      update_count_Inr v4_def p
    by (auto simp: returnE_Inr failE_Inr split: if_splits)
  have v4: "grants v4 = set_where (grant_open (g_id g)) (set_grant GrantRotated) (grants v)"
      "tokens v4 = tokens v" "clock v4 = clock v"
    by (simp_all add: v4_def)
  have ids: "g_id ` set (grants v4) = g_id ` set (grants v)"
    unfolding v4 using set_where_key[of g_id "set_grant GrantRotated" "grant_open (g_id g)" "grants v"]
    by (metis set_grant_sel(1) set_map)
  obtain jti dev where m: "bound_device p = Inr dev"
      "tokens v5 = tokens v4 @ [minted_token S p (clock v4) jti]" "jti \<notin> t_jti ` set (tokens v4)"
      "grants v5 = grants v4 @ [minted_grant S p (clock v4) dev (tr_refresh r)]"
      "HashToken S (tr_refresh r) \<notin> g_id ` set (grants v4)"
    using mint_Inr[OF mi] by blast
  have "\<exists>jti. tokens w' = tokens v @ [minted_token S p (clock v) jti] \<and> jti \<notin> t_jti ` set (tokens v)"
    using m(2,3) v4 w' by (intro exI[of _ jti]) simp
  moreover have "\<exists>dev. bound_device p = Inr dev
       \<and> grants w' = set_where (grant_open (g_id g)) (set_grant GrantRotated) (grants v)
           @ [minted_grant S p (clock v) dev (tr_refresh r)]"
    using m(1,4) v4 w' by (intro exI[of _ dev]) simp
  ultimately show ?thesis using m(5) ids cnt by simp
qed

lemma tokenRefresh_Inr:
  assumes run: "tokenRefresh S req w = (Inr r, w')"
  shows "\<exists>g att p n v'. find (\<lambda>g. g_id g = HashToken S (tq_refresh req)) (grants w) = Some g
    \<and> g_status g = GrantActive \<and> (\<forall>e. g_expires g = Some e \<longrightarrow> clock w \<le> e)
    \<and> (g_ctype g = ClientConfidential \<longrightarrow> (\<exists>cid client. g_client g = Some cid
         \<and> find (\<lambda>c. cl_id c = cid) (clients w) = Some client
         \<and> cl_secret client = Some (HashToken S (tq_secret req))))
    \<and> (g_ctype g = ClientPublic \<longrightarrow> g_device g \<noteq> [] \<longrightarrow> hex_decode (tq_device req) = Some (g_device g))
    \<and> attest S (g_sch g) (w\<lparr>faults := drop n (faults w)\<rparr>) = (Inr att, v') \<and> oa_state att \<noteq> StateNone
    \<and> g_sch g \<notin> b_sch ` set (banned w)
    \<and> mp_sch p = g_sch g \<and> mp_aud p = g_aud g \<and> mp_ctype p = g_ctype g \<and> mp_from p = Some (g_id g)
    \<and> mp_att p = att \<and> mp_client p = g_client g
    \<and> (\<exists>jti. tokens w' = tokens w @ [minted_token S p (clock w) jti] \<and> jti \<notin> t_jti ` set (tokens w))
    \<and> (\<exists>dev. bound_device p = Inr dev
         \<and> mp_device p = (if g_device g \<noteq> [] then hex_encode (g_device g) else '''')
         \<and> grants w' = set_where (grant_open (g_id g)) (set_grant GrantRotated) (grants w)
             @ [minted_grant S p (clock w) dev (tr_refresh r)])
    \<and> HashToken S (tr_refresh r) \<notin> g_id ` set (grants w)
    \<and> length (filter (grant_open (g_id g)) (grants w)) = 1"
proof -
  obtain g where g: "RefreshGrant_Get (HashToken S (tq_refresh req)) w = (Inr g, skip w)"
      "g_status g = GrantActive" "\<forall>e. g_expires g = Some e \<longrightarrow> clock w \<le> e"
    and rest: "bindE (authenticateGrant S g req) (\<lambda>_.
         bindE (attest S (g_sch g)) (\<lambda>att.
         if oa_state att = StateNone then failE ErrNotEligible
         else bindE (Keys_ActiveSigner (sv_keys S)) (\<lambda>signer. rotate_and_mint S g att signer))) (skip w) = (Inr r, w')"
    by (rule tokenRefresh_open[OF run])
  obtain v1 att v2 signer v3 where auth: "authenticateGrant S g req (skip w) = (Inr (), v1)"
    and att: "attest S (g_sch g) v1 = (Inr att, v2)" "oa_state att \<noteq> StateNone"
    and sg: "Keys_ActiveSigner (sv_keys S) v2 = (Inr signer, v3)"
    and rot: "rotate_and_mint S g att signer v3 = (Inr r, w')"
    using rest by (auto simp: bindE_Inr if_failE_Inr)
  note auth' = authenticateGrant_Inr[OF auth]
  then obtain n where v1: "v1 = w\<lparr>faults := drop n (faults w)\<rparr>" by blast
  note same = only_cache_tables[OF movesD[of only_cache "attest S (g_sch g)", OF attest_cache att(1)]]
  have v3: "tokens v3 = tokens w" "clock v3 = clock w" "grants v3 = grants w"
    using same v1 ActiveSigner_frame[OF sg] by simp_all
  let ?p = "\<lparr>mp_sch = g_sch g, mp_aud = g_aud g, mp_ctype = g_ctype g, mp_client = g_client g, mp_att = att,
        mp_device = (if g_device g \<noteq> [] then hex_encode (g_device g) else ''''),
        mp_from = Some (g_id g), mp_signer = signer\<rparr>"
  note new = rotate_and_mint_rows[OF refl rot, unfolded v3]
  have clean: "g_sch g \<notin> b_sch ` set (banned w)" using attest_Inr[OF att] v1 by auto
  have found: "find (\<lambda>g. g_id g = HashToken S (tq_refresh req)) (grants w) = Some g"
    using g(1) by (auto simp: RefreshGrant_Get_def query_row_Inr)
  have sel: "mp_device ?p = (if g_device g \<noteq> [] then hex_encode (g_device g) else '''')" by simp
  show ?thesis
    by (rule exI[of _ g], rule exI[of _ att], rule exI[of _ ?p], rule exI[of _ n], rule exI[of _ v2])
       (use found g(2,3) auth' att[unfolded v1] clean new sel in \<open>simp del: bex_simps ball_simps; blast\<close>)
qed

end

end
