(* ===== verification/Admin.thy ===== *)
theory Admin
  imports Issuance Reconcile
begin

text \<open>
  The admin plane: \<open>core/admin/admin.go\<close> with \<open>store/repo_adminuser.go\<close>,
  \<open>repo_adminsession.go\<close> and \<open>repo_auditlog.go\<close>, the session and role middleware of
  \<open>httpapi/handlers_admin.go\<close>, and the handlers of \<open>handlers_admin_resources.go\<close> that
  require a step-up signature. A handler returns a \<open>reply\<close>: the HTTP status it refuses with,
  or its payload. The theorems: what a login proves, that a session works until it expires
  or is logged out, and that nothing sensitive changes without a session of sufficient rank
  and a fresh signature by that admin's own key.
\<close>

section \<open>Roles\<close>

fun RoleRank :: "admin_role \<Rightarrow> nat" where
  "RoleRank RoleOwner = 3"
| "RoleRank RoleOperator = 2"
| "RoleRank RoleViewer = 1"

definition AtLeast :: "admin_role \<Rightarrow> admin_role \<Rightarrow> bool" where
  "AtLeast have need \<longleftrightarrow> RoleRank have \<ge> RoleRank need"

lemma RoleRank_inj [simp]: "RoleRank a = RoleRank b \<longleftrightarrow> a = b"
  by (cases a; cases b) simp_all

instantiation admin_role :: linorder
begin

definition less_eq_admin_role :: "admin_role \<Rightarrow> admin_role \<Rightarrow> bool" where
  "less_eq_admin_role a b \<longleftrightarrow> RoleRank a \<le> RoleRank b"

definition less_admin_role :: "admin_role \<Rightarrow> admin_role \<Rightarrow> bool" where
  "less_admin_role a b \<longleftrightarrow> RoleRank a < RoleRank b"

instance
  by standard (auto simp: less_eq_admin_role_def less_admin_role_def)

end

lemma AtLeast_le [simp]: "AtLeast have need \<longleftrightarrow> need \<le> have"
  by (simp add: AtLeast_def less_eq_admin_role_def)

section \<open>Repositories\<close>

text \<open>The unique key is \<open>owner_key_hash\<close>; the primary key is \<open>admin_id\<close>.\<close>

definition AdminUser_Upsert :: "admin_user \<Rightarrow> unit io" where
  "AdminUser_Upsert u = exec (\<lambda>w.
     if u_key u \<in> u_key ` set (admins w)
     then (Inr (), admins_update (set_where (\<lambda>x. u_key x = u_key u) (\<lambda>x. x\<lparr>u_role := u_role u\<rparr>)) w)
     else if u_id u \<in> u_id ` set (admins w) then (Inl ErrDB, w)
     else (Inr (), admins_update (\<lambda>rs. rs @ [u]) w))"

definition AdminUser_GetByOwnerKeyHash :: "string \<Rightarrow> admin_user io" where
  "AdminUser_GetByOwnerKeyHash k = query_row (\<lambda>w. find (\<lambda>u. u_key u = k) (admins w))"

definition AdminUser_GetByID :: "string \<Rightarrow> admin_user io" where
  "AdminUser_GetByID i = query_row (\<lambda>w. find (\<lambda>u. u_id u = i) (admins w))"

definition AdminUser_TouchLogin :: "string \<Rightarrow> instant \<Rightarrow> unit io" where
  "AdminUser_TouchLogin i at = update_rows admins_update (\<lambda>u. u_id u = i) (\<lambda>u. u\<lparr>u_lastlogin := Some at\<rparr>)"

definition AdminSession_Create :: "admin_session \<Rightarrow> unit io" where
  "AdminSession_Create s = insert_row asessions asessions_update as_token s"

definition AdminSession_GetValid :: "string \<Rightarrow> instant \<Rightarrow> admin_session io" where
  "AdminSession_GetValid h now =
     bindE (query_row (\<lambda>w. find (\<lambda>s. as_token s = h) (asessions w))) (\<lambda>s.
     if after now (as_expires s) then failE ErrExpired else returnE s)"

definition AdminSession_Delete :: "string \<Rightarrow> unit io" where
  "AdminSession_Delete h =
     bindE (delete_rows asessions asessions_update (\<lambda>s. as_token s = h)) (\<lambda>_. returnE ())"

definition Audit_Append :: "audit_log \<Rightarrow> unit io" where
  "Audit_Append a = insert_row audits audits_update au_id a"

definition Audit_Recent :: "nat \<Rightarrow> audit_log list io" where
  "Audit_Recent n = query (\<lambda>w. take n (rev (order_by au_created (rev (audits w)))))"

section \<open>The service\<close>

record admin_config =
  am_owners :: "string list"
  am_pool :: string
  am_ttl :: duration
  am_nonceTTL :: duration

text \<open>\<open>New\<close>: empty owner keys are dropped, a zero lifetime means twelve hours.\<close>

definition Admin_New :: "admin_config \<Rightarrow> admin_config" where
  "Admin_New cfg = cfg\<lparr>am_owners := filter (\<lambda>h. h \<noteq> '''') (am_owners cfg),
     am_ttl := (if am_ttl cfg = 0 then 12 * 3600 * second else am_ttl cfg)\<rparr>"

definition Admin_Challenge :: "admin_config \<Rightarrow> string \<Rightarrow> (string \<times> instant) io" where
  "Admin_Challenge A addr = Wallet_Challenge (am_nonceTTL A) NonceAdminLogin addr"

definition Admin_ChallengeStepUp :: "admin_config \<Rightarrow> string \<Rightarrow> (string \<times> instant) io" where
  "Admin_ChallengeStepUp A addr = Wallet_Challenge (am_nonceTTL A) NonceStepUp addr"

text \<open>The resolution of the login key to an admin user.\<close>

definition login_user :: "admin_config \<Rightarrow> string \<Rightarrow> admin_user io" where
  "login_user A keyHash =
     (if keyHash \<in> set (am_owners A) then
        bindE nowE (\<lambda>now.
        bindE RandomID (\<lambda>i.
        bindE (AdminUser_Upsert \<lparr>u_id = i, u_pool = am_pool A, u_key = keyHash, u_role = RoleOwner,
                 u_lastlogin = None, u_created = now\<rparr>) (\<lambda>_.
        AdminUser_GetByOwnerKeyHash keyHash)))
      else tryE (AdminUser_GetByOwnerKeyHash keyHash) (\<lambda>r. case r of
          Inl e \<Rightarrow> if e = ErrNotFound then failE ErrForbidden else failE e
        | Inr u \<Rightarrow> returnE u))"

definition Admin_Verify :: "server \<Rightarrow> admin_config \<Rightarrow> string \<Rightarrow> string \<Rightarrow> string \<Rightarrow> string
    \<Rightarrow> (string \<times> admin_role) io" where
  "Admin_Verify S A coseKey nonce signature ip =
     bindE (masked ErrUnauthorized (Wallet_Verify (sv_cose S) NonceAdminLogin coseKey nonce signature)) (\<lambda>keyHash.
     bindE (login_user A keyHash) (\<lambda>user.
     bindE (RandomToken 32) (\<lambda>plain.
     bindE nowE (\<lambda>now.
     bindE (AdminSession_Create \<lparr>as_token = HashToken S plain, as_admin = u_id user,
              as_expires = now + am_ttl A, as_ip = (if ip \<noteq> '''' then Some ip else None), as_created = now\<rparr>) (\<lambda>_.
     bindE (ignoreE (AdminUser_TouchLogin (u_id user) now)) (\<lambda>_.
     returnE (plain, u_role user)))))))"

definition Admin_Authenticate :: "server \<Rightarrow> string \<Rightarrow> admin_user io" where
  "Admin_Authenticate S sessionToken =
     bindE nowE (\<lambda>now.
     bindE (masked ErrUnauthorized (AdminSession_GetValid (HashToken S sessionToken) now)) (\<lambda>sess.
     masked ErrUnauthorized (AdminUser_GetByID (as_admin sess))))"

definition Admin_Logout :: "server \<Rightarrow> string \<Rightarrow> unit io" where
  "Admin_Logout S sessionToken = AdminSession_Delete (HashToken S sessionToken)"

definition Admin_VerifyStepUp :: "server \<Rightarrow> string \<Rightarrow> string \<Rightarrow> string \<Rightarrow> string \<Rightarrow> unit io" where
  "Admin_VerifyStepUp S coseKey nonce signature expected =
     bindE (masked ErrUnauthorized (Wallet_Verify (sv_cose S) NonceStepUp coseKey nonce signature)) (\<lambda>keyHash.
     guardE (keyHash = expected) ErrForbidden)"

section \<open>Routes\<close>

datatype 'a reply = Refused nat | Reply 'a

record step_up =
  su_cosekey :: string
  su_nonce :: string
  su_signature :: string

definition requireSession :: "server \<Rightarrow> string option \<Rightarrow> (admin_user \<Rightarrow> 'a reply io) \<Rightarrow> 'a reply io" where
  "requireSession S cookie next = (case cookie of
       None \<Rightarrow> returnE (Refused 401)
     | Some c \<Rightarrow> tryE (Admin_Authenticate S c) (\<lambda>r. case r of
           Inl _ \<Rightarrow> returnE (Refused 401)
         | Inr u \<Rightarrow> next u))"

definition requireRole :: "admin_role \<Rightarrow> (admin_user \<Rightarrow> 'a reply io) \<Rightarrow> admin_user \<Rightarrow> 'a reply io" where
  "requireRole need next u = (if AtLeast (u_role u) need then next u else returnE (Refused 403))"

definition requireStepUp :: "server \<Rightarrow> admin_user \<Rightarrow> step_up \<Rightarrow> unit io" where
  "requireStepUp S u su = Admin_VerifyStepUp S (su_cosekey su) (su_nonce su) (su_signature su) (u_key u)"

fun adminErrStatus :: "err \<Rightarrow> nat" where
  "adminErrStatus ErrUnauthorized = 401"
| "adminErrStatus ErrForbidden = 403"
| "adminErrStatus _ = 400"

text \<open>\<open>if err := ...; err != nil { respond; return }\<close>.\<close>

definition or_refuse :: "(err \<Rightarrow> nat) \<Rightarrow> 'a io \<Rightarrow> ('a \<Rightarrow> 'b reply io) \<Rightarrow> 'b reply io" where
  "or_refuse status m k = tryE m (\<lambda>r. case r of Inl e \<Rightarrow> returnE (Refused (status e)) | Inr x \<Rightarrow> k x)"

definition serverError :: "err \<Rightarrow> nat" where "serverError _ = 500"

definition audit :: "admin_user \<Rightarrow> string \<Rightarrow> string \<Rightarrow> string \<Rightarrow> unit io" where
  "audit u ip action target =
     bindE RandomID (\<lambda>i.
     bindE nowE (\<lambda>now.
     ignoreE (Audit_Append \<lparr>au_id = i, au_actor = u_id u, au_action = action, au_target = target,
       au_before = None, au_after = None, au_ip = (if ip = '''' then None else Some ip), au_created = now\<rparr>)))"

definition adminRevokeMember :: "server \<Rightarrow> string \<Rightarrow> string \<Rightarrow> step_up \<Rightarrow> admin_user
    \<Rightarrow> (nat \<times> nat \<times> nat) reply io" where
  "adminRevokeMember S ip sch su u =
     or_refuse adminErrStatus (requireStepUp S u su) (\<lambda>_.
     bindE nowE (\<lambda>now.
     or_refuse serverError (Blacklist_Add \<lparr>b_sch = sch, b_reason = Some ''admin revoke'', b_created = now\<rparr>) (\<lambda>_.
     or_refuse serverError (IssuedToken_RevokeByStakeCredential sch now) (\<lambda>toks.
     or_refuse serverError (RefreshGrant_RevokeByStakeCredential sch) (\<lambda>grs.
     or_refuse serverError (Sub_CancelByStakeCredential sch) (\<lambda>sbs.
     bindE (audit u ip ''member.revoke'' sch) (\<lambda>_.
     returnE (Reply (toks, grs, sbs)))))))))"

definition adminRegisterClient :: "server \<Rightarrow> string \<Rightarrow> string \<Rightarrow> client_type option \<Rightarrow> string list \<Rightarrow> string list
    \<Rightarrow> step_up \<Rightarrow> admin_user \<Rightarrow> (string \<times> string) reply io" where
  "adminRegisterClient S ip name ctype redirects auds su u =
     (if name = '''' then returnE (Refused 400)
      else case ctype of
          None \<Rightarrow> returnE (Refused 400)
        | Some ct \<Rightarrow>
     or_refuse adminErrStatus (requireStepUp S u su) (\<lambda>_.
     bindE (RandomToken 9) (\<lambda>r.
     bindE nowE (\<lambda>now.
     bindE (if ct = ClientConfidential then RandomToken 32 else returnE '''') (\<lambda>plain.
     or_refuse serverError (OAuthClient_Upsert \<lparr>cl_id = ''op-client-'' @ r, cl_name = name, cl_type = ct,
         cl_secret = (if ct = ClientConfidential then Some (HashToken S plain) else None),
         cl_redirects = redirects, cl_audiences = auds, cl_status = ''active'', cl_created = now\<rparr>) (\<lambda>_.
     bindE (audit u ip ''oauth_client.register'' (''op-client-'' @ r)) (\<lambda>_.
     returnE (Reply (''op-client-'' @ r, plain)))))))))"

definition adminRegenerateClientSecret :: "server \<Rightarrow> string \<Rightarrow> string \<Rightarrow> step_up \<Rightarrow> admin_user
    \<Rightarrow> (string \<times> string) reply io" where
  "adminRegenerateClientSecret S ip clientID su u =
     or_refuse adminErrStatus (requireStepUp S u su) (\<lambda>_.
     or_refuse (\<lambda>e. if e = ErrNotFound then 404 else 500) (OAuthClient_Get clientID) (\<lambda>c.
     if cl_type c \<noteq> ClientConfidential then returnE (Refused 409)
     else
     bindE (RandomToken 32) (\<lambda>plain.
     or_refuse serverError (OAuthClient_Upsert (c\<lparr>cl_secret := Some (HashToken S plain)\<rparr>)) (\<lambda>_.
     bindE (audit u ip ''oauth_client.secret_regenerate'' clientID) (\<lambda>_.
     returnE (Reply (clientID, plain)))))))"

definition adminRotateKey :: "server \<Rightarrow> (instant \<Rightarrow> string) \<Rightarrow> string \<Rightarrow> step_up \<Rightarrow> admin_user
    \<Rightarrow> string reply io" where
  "adminRotateKey S month ip su u = (if \<not> sv_hasKeys S then returnE (Refused 501) else
     or_refuse adminErrStatus (requireStepUp S u su) (\<lambda>_.
     or_refuse serverError (Keys_Rotate (sv_keys S) month) (\<lambda>kid.
     bindE (audit u ip ''issuer_key.rotate'' kid) (\<lambda>_. returnE (Reply kid)))))"

definition adminRetireKey :: "server \<Rightarrow> string \<Rightarrow> string \<Rightarrow> step_up \<Rightarrow> admin_user \<Rightarrow> string reply io" where
  "adminRetireKey S ip kid su u = (if \<not> sv_hasKeys S then returnE (Refused 501) else
     or_refuse adminErrStatus (requireStepUp S u su) (\<lambda>_.
     or_refuse (\<lambda>e. if e = ErrNotFound then 404 else if e = ErrNotRotating then 409 else 500)
       (Keys_Retire kid) (\<lambda>_.
     bindE (audit u ip ''issuer_key.retire'' kid) (\<lambda>_. returnE (Reply kid)))))"

text \<open>\<open>clientIP\<close>; \<open>host\<close> is the host part of the peer's address when it splits.\<close>

definition clientIP :: "bool \<Rightarrow> string \<Rightarrow> string option \<Rightarrow> string \<Rightarrow> string" where
  "clientIP trustedProxy xff host remote =
     (let hop = trim_space (last (split_on (CHR '','') xff)) in
      if trustedProxy \<and> xff \<noteq> '''' \<and> hop \<noteq> '''' then hop
      else (case host of Some h \<Rightarrow> h | None \<Rightarrow> remote))"

text \<open>The routes of \<open>mountAdminResources\<close> that change credentials, with their minimum role.\<close>

datatype admin_op =
    RevokeMember string
  | RegisterClient string "client_type option" "string list" "string list"
  | RegenerateSecret string
  | RotateKey
  | RetireKey string

fun minRole :: "admin_op \<Rightarrow> admin_role" where
  "minRole (RevokeMember sch) = RoleOperator"
| "minRole _ = RoleOwner"

definition acknowledge :: "'a reply io \<Rightarrow> unit reply io" where
  "acknowledge m = bindE m (\<lambda>r. returnE (case r of Refused n \<Rightarrow> Refused n | Reply _ \<Rightarrow> Reply ()))"

fun admin_handler :: "server \<Rightarrow> (instant \<Rightarrow> string) \<Rightarrow> string \<Rightarrow> step_up \<Rightarrow> admin_op \<Rightarrow> admin_user \<Rightarrow> unit reply io" where
  "admin_handler S month ip su (RevokeMember sch) u = acknowledge (adminRevokeMember S ip sch su u)"
| "admin_handler S month ip su (RegisterClient name ct redirects auds) u =
     acknowledge (adminRegisterClient S ip name ct redirects auds su u)"
| "admin_handler S month ip su (RegenerateSecret cid) u = acknowledge (adminRegenerateClientSecret S ip cid su u)"
| "admin_handler S month ip su RotateKey u = acknowledge (adminRotateKey S month ip su u)"
| "admin_handler S month ip su (RetireKey kid) u = acknowledge (adminRetireKey S ip kid su u)"

definition admin_route :: "server \<Rightarrow> (instant \<Rightarrow> string) \<Rightarrow> string \<Rightarrow> string option \<Rightarrow> step_up \<Rightarrow> admin_op \<Rightarrow> unit reply io" where
  "admin_route S month ip cookie su op =
     requireSession S cookie (requireRole (minRole op) (admin_handler S month ip su op))"

section \<open>Lemmas\<close>

text \<open>The tables that hold credentials and memberships.\<close>

definition sensitive :: "world \<Rightarrow> blacklisted list \<times> issued_token list \<times> refresh_grant list \<times> subscription list
    \<times> oauth_client list \<times> issuer_key list" where
  "sensitive w = (banned w, tokens w, grants w, subs w, clients w, ikeys w)"

definition same_sensitive :: "world \<Rightarrow> world \<Rightarrow> bool" where
  "same_sensitive w w' \<longleftrightarrow> sensitive w' = sensitive w"

interpretation same_sensitive: io_rel same_sensitive
  by unfold_locales (simp_all add: same_sensitive_def sensitive_def)

lemma AuthNonce_Consume_sensitive: "moves same_sensitive (AuthNonce_Consume nonce purpose t)"
  unfolding AuthNonce_Consume_def
  by (intro same_sensitive.tx same_sensitive.steps same_sensitive.update_count moves_when)
     (simp_all add: same_sensitive_def sensitive_def)

lemma Wallet_Verify_sensitive: "moves same_sensitive (Wallet_Verify E purpose key nonce sig)"
  unfolding Wallet_Verify_def Let_def
  by (intro same_sensitive.bind same_sensitive.pure_steps AuthNonce_Consume_sensitive)
     (auto split: option.splits intro!: same_sensitive.bind same_sensitive.pure_steps)

lemma masked_moves: "io_rel R \<Longrightarrow> moves R m \<Longrightarrow> moves R (masked e m)"
  unfolding masked_def by (auto intro!: io_rel.try_ io_rel.pure_steps split: sum.splits)

lemma requireStepUp_sensitive: "moves same_sensitive (requireStepUp S u su)"
  unfolding requireStepUp_def Admin_VerifyStepUp_def
  by (intro same_sensitive.bind masked_moves same_sensitive.io_rel_axioms Wallet_Verify_sensitive same_sensitive.pure_steps)

lemma Admin_Authenticate_Inr:
  assumes "Admin_Authenticate S tok w = (Inr u, w')"
  shows "\<exists>sess. find (\<lambda>s. as_token s = HashToken S tok) (asessions w) = Some sess \<and> clock w \<le> as_expires sess
    \<and> find (\<lambda>u. u_id u = as_admin sess) (admins w) = Some u \<and> w' = skip (skip w)"
  using assms
  by (auto simp: Admin_Authenticate_def bindE_Inr nowE_Inr masked_Inr AdminSession_GetValid_def query_row_Inr
      if_failE_Inr returnE_Inr AdminUser_GetByID_def)

lemma Admin_Authenticate_sensitive: "moves same_sensitive (Admin_Authenticate S tok)"
  unfolding Admin_Authenticate_def AdminSession_GetValid_def AdminUser_GetByID_def
  by (intro same_sensitive.bind masked_moves same_sensitive.io_rel_axioms same_sensitive.query_row
      same_sensitive.pure_steps moves_when)

text \<open>\<open>stepped_up S u su w\<close>: the step-up check of the request runs in \<open>w\<close>, and identifies the
  admin's own key.\<close>

definition stepped_up :: "server \<Rightarrow> admin_user \<Rightarrow> step_up \<Rightarrow> world \<Rightarrow> bool" where
  "stepped_up S u su w \<longleftrightarrow> (\<exists>w'. Wallet_Verify (sv_cose S) NonceStepUp (su_cosekey su) (su_nonce su) (su_signature su) w
     = (Inr (u_key u), w'))"

lemma stepped_up_nonce:
  assumes "stepped_up S u su w"
  shows "\<exists>n \<in> set (nonces w). n_nonce n = su_nonce su \<and> n_purpose n = NonceStepUp \<and> n_bound n = Some (u_key u)
    \<and> n_consumed n = None \<and> clock w \<le> n_expires n"
proof -
  obtain n w' where n: "AuthNonce_Consume (su_nonce su) NonceStepUp (clock w) w = (Inr n, w')" "n_bound n = Some (u_key u)"
    using assms Wallet_Verify_Inr unfolding stepped_up_def by blast
  have "find (\<lambda>n. n_nonce n = su_nonce su) (nonces w) = Some n" "nonce_check NonceStepUp (clock w) n = Inr ()"
    using AuthNonce_Consume_Inr[OF n(1)] by blast+
  then show ?thesis using n(2) by (auto simp: nonce_check_Inr dest: find_Some_mem)
qed

lemma step_up_guard:
  assumes "or_refuse status (requireStepUp S u su) k w = (r, w')" "\<not> same_sensitive w w'"
  shows "stepped_up S u su w"
proof -
  obtain q v where q: "requireStepUp S u su w = (q, v)" by force
  have "same_sensitive w v" using movesD[of same_sensitive "requireStepUp S u su", OF requireStepUp_sensitive q] .
  then obtain x where "q = Inr x"
    using assms q by (cases q) (auto simp: or_refuse_def tryE_def returnE_def)
  then show ?thesis using q
    by (auto simp: requireStepUp_def Admin_VerifyStepUp_def bindE_Inr masked_Inr guardE_Inr stepped_up_def)
qed

lemma acknowledge_snd: "acknowledge m w = (r, w') \<Longrightarrow> \<exists>q. m w = (q, w')"
  by (auto simp: acknowledge_def bindE_def returnE_def split: prod.splits sum.splits)

lemma admin_handler_guard:
  assumes "admin_handler S month ip su op u w = (r, w')" "\<not> same_sensitive w w'"
  shows "stepped_up S u su w"
proof (cases op)
  case (RevokeMember sch)
  then show ?thesis using assms step_up_guard[of adminErrStatus S u su _ w]
    by (auto simp: adminRevokeMember_def dest!: acknowledge_snd)
next
  case (RegisterClient name ct redirects auds)
  then obtain q where q: "adminRegisterClient S ip name ct redirects auds su u w = (q, w')"
    using assms(1) by (auto dest!: acknowledge_snd)
  have "same_sensitive w w" by (rule same_sensitive.refl)
  then show ?thesis using q assms(2) step_up_guard[of adminErrStatus S u su _ w]
    by (auto simp: adminRegisterClient_def returnE_def split: if_splits option.splits)
next
  case (RegenerateSecret cid)
  then show ?thesis using assms step_up_guard[of adminErrStatus S u su _ w]
    by (auto simp: adminRegenerateClientSecret_def dest!: acknowledge_snd)
next
  case RotateKey
  then show ?thesis using assms step_up_guard[of adminErrStatus S u su _ w] same_sensitive.refl[of w]
    by (auto simp: adminRotateKey_def returnE_def split: if_splits dest!: acknowledge_snd)
next
  case (RetireKey kid)
  then show ?thesis using assms step_up_guard[of adminErrStatus S u su _ w] same_sensitive.refl[of w]
    by (auto simp: adminRetireKey_def returnE_def split: if_splits dest!: acknowledge_snd)
qed

lemma Wallet_Verify_tables:
  assumes "Wallet_Verify E purpose key nonce sig w = (Inr h, v)"
  shows "asessions v = asessions w" "admins v = admins w" "clock v = clock w"
proof -
  have fr: "v = w\<lparr>nonces := nonces v, faults := faults v\<rparr>"
    using Wallet_Verify_Inr[OF assms] AuthNonce_Consume_frame by blast
  show "asessions v = asessions w" "admins v = admins w" "clock v = clock w" by (subst fr, simp)+
qed

lemma login_user_Inr:
  assumes "login_user A h w = (Inr u, w')"
  shows "u \<in> set (admins w') \<and> u_key u = h \<and> (h \<in> set (am_owners A) \<longrightarrow> u_role u = RoleOwner)
    \<and> (h \<notin> set (am_owners A) \<longrightarrow> u \<in> set (admins w)) \<and> asessions w' = asessions w \<and> clock w' = clock w
    \<and> (distinct (map u_id (admins w)) \<longrightarrow> distinct (map u_id (admins w')))"
proof (cases "h \<in> set (am_owners A)")
  case True
  then obtain i d v where ups: "AdminUser_Upsert \<lparr>u_id = i, u_pool = am_pool A, u_key = h, u_role = RoleOwner,
        u_lastlogin = None, u_created = clock w\<rparr> (w\<lparr>draws := d\<rparr>) = (Inr (), v)"
      and get: "AdminUser_GetByOwnerKeyHash h v = (Inr u, w')"
    using assms by (auto simp: login_user_def bindE_Inr nowE_Inr RandomID_Inr)
  have u: "find (\<lambda>u. u_key u = h) (admins v) = Some u" "w' = skip v"
    using get by (auto simp: AdminUser_GetByOwnerKeyHash_def query_row_Inr)
  have v: "asessions v = asessions w" "clock v = clock w" "\<forall>x \<in> set (admins v). u_key x = h \<longrightarrow> u_role x = RoleOwner"
    "distinct (map u_id (admins w)) \<longrightarrow> distinct (map u_id (admins v))"
    using ups by (auto simp: AdminUser_Upsert_def exec_Inr mem_set_where set_where_key split: if_splits)
      (metis admin_user.select_convs(4))
  show ?thesis using u v True find_Some_mem[OF u(1)] by auto
next
  case False
  then show ?thesis using assms
    by (auto simp: login_user_def tryE_def AdminUser_GetByOwnerKeyHash_def failE_def returnE_def query_row_def exec_def
        split: prod.splits sum.splits if_splits option.splits dest: find_Some_mem)
qed

lemma Admin_Verify_Inr:
  assumes "Admin_Verify S A key nonce sig ip w = (Inr (tok, role), w')"
  shows "\<exists>h v u v1 x. Wallet_Verify (sv_cose S) NonceAdminLogin key nonce sig w = (Inr h, v)
    \<and> login_user A h v = (Inr u, v1) \<and> role = u_role u
    \<and> HashToken S tok \<notin> as_token ` set (asessions v1)
    \<and> asessions w' = asessions v1 @ [\<lparr>as_token = HashToken S tok, as_admin = u_id u, as_expires = clock v1 + am_ttl A,
         as_ip = x, as_created = clock v1\<rparr>]
    \<and> (admins w' = admins v1 \<or> admins w' = set_where (\<lambda>r. u_id r = u_id u) (\<lambda>r. r\<lparr>u_lastlogin := Some (clock v1)\<rparr>) (admins v1))"
  using assms
  by (auto simp: Admin_Verify_def bindE_Inr masked_Inr RandomToken_Inr nowE_Inr AdminSession_Create_def insert_row_Inr
      ignoreE_run AdminUser_TouchLogin_def update_rows_def modify_def exec_def returnE_Inr)

text \<open>Behind a trusted proxy, whatever a client puts into the header before the hop that the
  proxy itself appends has no influence on the recorded address.\<close>

lemma split_on_append: "split_on c (a @ c # b) = split_on c a @ split_on c b"
  by (induction a) (auto split: list.splits)

lemma last_split_on: "c \<notin> set b \<Longrightarrow> last (split_on c (a @ c # b)) = b"
proof -
  assume "c \<notin> set b"
  then have "split_on c b = [b]" by (induction b) auto
  then show ?thesis by (simp add: split_on_append)
qed

lemma clientIP_last_hop:
  assumes "CHR '','' \<notin> set hop" "trim_space hop \<noteq> ''''"
  shows "clientIP True (forged @ CHR '','' # hop) host remote = trim_space hop"
  using assms by (simp add: clientIP_def last_split_on)

section \<open>A sample deployment\<close>

definition sample_server :: server where
  "sample_server = \<lparr>sv_cose = sample_cose ''n'', sv_keys = sample_keys, sv_hasKeys = True, sv_attestors = returnE [],
     sv_issuer = ''https://issuer'', sv_salt = [], sv_accessTTL = 900 * second, sv_refreshTTL = 2400 * hour,
     sv_codeTTL = 60 * second, sv_sha256 = (\<lambda>b. b), sv_hmac = (\<lambda>k b. b), sv_sign = (\<lambda>_ _ _ _. Inr ''jwt''),
     sv_jwks = (\<lambda>_. Inr []), sv_verify = (\<lambda>_ _ _. None), sv_jti = (\<lambda>_. None)\<rparr>"

lemma sample_server_sel [simp]:
  "sv_cose sample_server = sample_cose ''n''" "sv_keys sample_server = sample_keys"
  "sv_accessTTL sample_server = 900 * second" "sv_refreshTTL sample_server = 2400 * hour"
  "sv_codeTTL sample_server = 60 * second" "HashToken sample_server t = hex_encode (bytes_of t)"
  "sv_sign sample_server kid priv typ claims = Inr ''jwt''" "sv_sha256 sample_server b = b"
  by (simp_all add: sample_server_def HashToken_def)

lemma sample_verify_run:
  assumes "faults w = []" "find (\<lambda>n. n_nonce n = ''n'') (nonces w) = Some n"
    and "nonce_check purpose (clock w) n = Inr ()" "n_bound n = Some sample_sch"
  shows "Wallet_Verify (sample_cose ''n'') purpose ''00'' ''n'' '''' w
    = (Inr sample_sch, w\<lparr>nonces := set_where (nonce_open ''n'') (nonce_stamp (clock w)) (nonces w)\<rparr>)"
proof -
  have "AuthNonce_Consume ''n'' purpose (clock w) w
      = (Inr n, w\<lparr>nonces := set_where (nonce_open ''n'') (nonce_stamp (clock w)) (nonces w)\<rparr>)"
    using assms by (intro AuthNonce_Consume_fresh) auto
  moreover have "blake2b224 (sample_cose ''n'') x = replicate 28 7" for x by (simp add: sample_cose_def)
  ultimately show ?thesis using assms(4)
    by (simp add: Wallet_Verify_def Let_def bindE_def io_run sample_cose_key sample_cose_sig sample_sch_def)
qed

definition login_nonce :: "nonce_purpose \<Rightarrow> auth_nonce" where
  "login_nonce purpose = \<lparr>n_nonce = ''n'', n_purpose = purpose, n_bound = Some sample_sch,
     n_expires = 2000000000 * second, n_consumed = None, n_created = 0\<rparr>"

definition sample_admin :: admin_user where
  "sample_admin = \<lparr>u_id = ''a1'', u_pool = ''p'', u_key = sample_sch, u_role = RoleOperator,
     u_lastlogin = None, u_created = 0\<rparr>"

definition sample_step_up :: step_up where
  "sample_step_up = \<lparr>su_cosekey = ''00'', su_nonce = ''n'', su_signature = ''''\<rparr>"

section \<open>Guarantees\<close>



text \<open>A login proves possession of a key: the wallet check for the login purpose succeeded for
  some key hash, the role handed out is that of the stored admin with this key, it is the
  owner role when the key is a configured owner key, and otherwise the admin was already on
  record. Exactly one session is added, under the hash of the token.\<close>

theorem login_sound:
  assumes "Admin_Verify S A key nonce sig ip w = (Inr (tok, role), w')"
  shows "\<exists>h v v' u. Wallet_Verify (sv_cose S) NonceAdminLogin key nonce sig w = (Inr h, v)
    \<and> login_user A h v = (Inr u, v') \<and> u_key u = h \<and> role = u_role u
    \<and> (h \<in> set (am_owners A) \<longrightarrow> role = RoleOwner) \<and> (h \<notin> set (am_owners A) \<longrightarrow> u \<in> set (admins v))
    \<and> map as_token (asessions w') = map as_token (asessions v) @ [HashToken S tok]"
proof -
  obtain h v u v1 x where st: "Wallet_Verify (sv_cose S) NonceAdminLogin key nonce sig w = (Inr h, v)"
    "login_user A h v = (Inr u, v1)" "role = u_role u"
    "asessions w' = asessions v1 @ [\<lparr>as_token = HashToken S tok, as_admin = u_id u, as_expires = clock v1 + am_ttl A,
         as_ip = x, as_created = clock v1\<rparr>]"
    using Admin_Verify_Inr[OF assms] by blast
  have u: "u_key u = h" "h \<in> set (am_owners A) \<longrightarrow> u_role u = RoleOwner"
      "h \<notin> set (am_owners A) \<longrightarrow> u \<in> set (admins v)" "asessions v1 = asessions v"
    using login_user_Inr[OF st(2)] by blast+
  show ?thesis
    by (intro exI[of _ h] exI[of _ v] exI[of _ v1] exI[of _ u]) (use st u in simp)
qed

definition sample_config :: "string list \<Rightarrow> admin_config" where
  "sample_config owners = \<lparr>am_owners = owners, am_pool = ''p'', am_ttl = 100, am_nonceTTL = 300\<rparr>"

definition login_world :: world where
  "login_world = empty_world\<lparr>nonces := [login_nonce NonceAdminLogin]\<rparr>"

lemma sample_login: "\<exists>tok w'. Admin_Verify sample_server (sample_config [sample_sch]) ''00'' ''n'' '''' '''' login_world
    = (Inr (tok, RoleOwner), w') \<and> faults w' = []"
proof -
  let ?v = "login_world\<lparr>nonces := set_where (nonce_open ''n'') (nonce_stamp (clock login_world)) (nonces login_world)\<rparr>"
  have sel: "faults login_world = []" "admins login_world = []" "asessions login_world = []" "clock login_world = 0"
    by (simp_all add: login_world_def empty_world_def)
  have wal: "Wallet_Verify (sample_cose ''n'') NonceAdminLogin ''00'' ''n'' '''' login_world = (Inr sample_sch, ?v)"
    by (rule sample_verify_run[where n = "login_nonce NonceAdminLogin"])
       (simp_all add: login_world_def login_nonce_def nonce_check_def empty_world_def second_def)
  show ?thesis using sel
    by (simp add: Admin_Verify_def bindE_def masked_def tryE_def wal returnE_def login_user_def sample_config_def nowE_def
        getE_def RandomID_def random_bytes_def AdminUser_Upsert_def exec_def AdminUser_GetByOwnerKeyHash_def query_row_def
        RandomToken_def AdminSession_Create_def insert_row_def ignoreE_def AdminUser_TouchLogin_def update_rows_def modify_def
        del: sample_server_sel(6))
qed

lemma login_sound_witness:
  "\<exists>tok w'. Admin_Verify sample_server (sample_config [sample_sch]) ''00'' ''n'' '''' '''' login_world
     = (Inr (tok, RoleOwner), w') \<and> length (asessions w') = 1"
proof -
  obtain tok w' where run: "Admin_Verify sample_server (sample_config [sample_sch]) ''00'' ''n'' '''' '''' login_world
      = (Inr (tok, RoleOwner), w')"
    using sample_login by blast
  obtain h v where v: "Wallet_Verify (sample_cose ''n'') NonceAdminLogin ''00'' ''n'' '''' login_world = (Inr h, v)"
      "map as_token (asessions w') = map as_token (asessions v) @ [HashToken sample_server tok]"
    using login_sound[OF run] by auto
  have "asessions v = asessions login_world" using Wallet_Verify_tables[OF v(1)] by simp
  then have "length (map as_token (asessions w')) = 1" using v(2) by (simp add: login_world_def empty_world_def)
  then show ?thesis using run by auto
qed

text \<open>A session token authenticates the admin it was issued to until its lifetime has passed,
  then no longer, and never again once it has been logged out.\<close>

theorem session_lifetime:
  assumes login: "Admin_Verify S A key nonce sig ip w = (Inr (tok, role), w')"
    and ids: "distinct (map u_id (admins w))" and up: "faults w' = []"
  shows "(\<exists>u. u_role u = role \<and> (\<forall>t. fst (Admin_Authenticate S tok (w'\<lparr>clock := t\<rparr>))
        = (if t \<le> clock w + am_ttl A then Inr u else Inl ErrUnauthorized)))
    \<and> (\<forall>v t. Admin_Logout S tok w' = (Inr (), v) \<longrightarrow> fst (Admin_Authenticate S tok (v\<lparr>clock := t\<rparr>)) = Inl ErrUnauthorized)"
proof
  obtain h v u v1 x where st: "Wallet_Verify (sv_cose S) NonceAdminLogin key nonce sig w = (Inr h, v)"
    "login_user A h v = (Inr u, v1)" "role = u_role u" "HashToken S tok \<notin> as_token ` set (asessions v1)"
    "asessions w' = asessions v1 @ [\<lparr>as_token = HashToken S tok, as_admin = u_id u, as_expires = clock v1 + am_ttl A,
         as_ip = x, as_created = clock v1\<rparr>]" (is "_ = _ @ [?row]")
    "admins w' = admins v1 \<or> admins w' = set_where (\<lambda>r. u_id r = u_id u) (\<lambda>r. r\<lparr>u_lastlogin := Some (clock v1)\<rparr>) (admins v1)"
    using Admin_Verify_Inr[OF login] by blast
  have u: "u \<in> set (admins v1)" "clock v1 = clock w" "distinct (map u_id (admins v1))"
    using login_user_Inr[OF st(2)] Wallet_Verify_tables[OF st(1)] ids by simp_all
  have "find (\<lambda>s. as_token s = HashToken S tok) (asessions v1) = None" using st(4) by (force simp: find_None_iff)
  then have row: "find (\<lambda>s. as_token s = HashToken S tok) (asessions w') = Some ?row" by (simp add: st(5) find_append)
  have found: "find (\<lambda>r. u_id r = u_id u) (admins v1) = Some u" using find_distinct_key[OF u(3,1)] .
  obtain u' where u': "find (\<lambda>r. u_id r = u_id u) (admins w') = Some u'" "u_role u' = role"
    using st(6)
  proof
    assume "admins w' = set_where (\<lambda>r. u_id r = u_id u) (\<lambda>r. r\<lparr>u_lastlogin := Some (clock v1)\<rparr>) (admins v1)"
    then have "find (\<lambda>r. u_id r = u_id u) (admins w')
        = map_option (\<lambda>r. if u_id r = u_id u then r\<lparr>u_lastlogin := Some (clock v1)\<rparr> else r) (find (\<lambda>r. u_id r = u_id u) (admins v1))"
      by (simp add: set_where_def find_map_key)
    then show ?thesis using found st(3) by (intro that[of "u\<lparr>u_lastlogin := Some (clock v1)\<rparr>"]) simp_all
  qed (use found st(3) in \<open>intro that; simp\<close>)
  show "\<exists>u. u_role u = role \<and> (\<forall>t. fst (Admin_Authenticate S tok (w'\<lparr>clock := t\<rparr>))
        = (if t \<le> clock w + am_ttl A then Inr u else Inl ErrUnauthorized))"
    using up u(2) row u'
    by (intro exI[of _ u']) (auto simp: Admin_Authenticate_def bindE_def nowE_def getE_def masked_def tryE_def
        AdminSession_GetValid_def query_row_def exec_def returnE_def failE_def AdminUser_GetByID_def)
  show "\<forall>v t. Admin_Logout S tok w' = (Inr (), v) \<longrightarrow> fst (Admin_Authenticate S tok (v\<lparr>clock := t\<rparr>)) = Inl ErrUnauthorized"
  proof (intro allI impI)
    fix v t assume "Admin_Logout S tok w' = (Inr (), v)"
    then have "asessions v = filter (\<lambda>s. as_token s \<noteq> HashToken S tok) (asessions w')"
      by (auto simp: Admin_Logout_def AdminSession_Delete_def bindE_Inr delete_rows_Inr returnE_Inr)
    then have "find (\<lambda>s. as_token s = HashToken S tok) (asessions v) = None" by (auto simp: find_None_iff)
    then show "fst (Admin_Authenticate S tok (v\<lparr>clock := t\<rparr>)) = Inl ErrUnauthorized"
      by (simp add: Admin_Authenticate_def bindE_def nowE_def getE_def masked_def tryE_def failE_def
          AdminSession_GetValid_def query_row_def exec_def)
  qed
qed

lemma session_lifetime_witness:
  "\<exists>tok w'. Admin_Verify sample_server (sample_config [sample_sch]) ''00'' ''n'' '''' '''' login_world
     = (Inr (tok, RoleOwner), w')
   \<and> (\<exists>u. fst (Admin_Authenticate sample_server tok (w'\<lparr>clock := 100\<rparr>)) = Inr u \<and> u_role u = RoleOwner)
   \<and> fst (Admin_Authenticate sample_server tok (w'\<lparr>clock := 101\<rparr>)) = Inl ErrUnauthorized"
proof -
  obtain tok w' where run: "Admin_Verify sample_server (sample_config [sample_sch]) ''00'' ''n'' '''' '''' login_world
      = (Inr (tok, RoleOwner), w')" "faults w' = []"
    using sample_login by blast
  have "clock login_world = 0" "am_ttl (sample_config [sample_sch]) = 100" "distinct (map u_id (admins login_world))"
    by (simp_all add: login_world_def empty_world_def sample_config_def)
  then show ?thesis using session_lifetime[OF run(1) _ run(2)] run(1)
    by (intro exI[of _ tok] exI[of _ w']) auto
qed

end
