(* ===== verification/Serving.thy ===== *)
theory Serving
  imports Admin
begin

text \<open>
  The running service. A request is handled by the operations of the components; the steps
  of concurrent requests interleave. \<open>unit_step\<close> is the relation of what can happen to the
  grant table atomically (one statement or one transaction of any handler, with arbitrary
  arguments), and every request of \<open>handle\<close> is a sequence of such steps. The locale \<open>service\<close>
  is the contract of a relation that every request conserves; it is interpreted for three
  relations on the wired server: the atomic steps, a revoked token stays revoked, a banned
  holder stays without tokens and grants. \<open>serves\<close> is a history of requests.
\<close>

section \<open>Atomic steps\<close>

inductive unit_step :: "server \<Rightarrow> world \<Rightarrow> world \<Rightarrow> bool" for S where
  first_grant: "g_from g = None \<Longrightarrow> unit_step S w (snd (RefreshGrant_Create g w))"
| rotate: "unit_step S w (snd (rotate_and_mint S g att signer w))"
| close: "st \<noteq> GrantActive \<Longrightarrow> unit_step S w (snd (RefreshGrant_SetStatus i st w))"
| revoke_chain: "unit_step S w (snd (RefreshGrant_RevokeChain i w))"
| revoke_holder: "unit_step S w (snd (RefreshGrant_RevokeByStakeCredential sch w))"
| other: "grants w' = grants w \<Longrightarrow> unit_step S w w'"

definition steps :: "server \<Rightarrow> world \<Rightarrow> world \<Rightarrow> bool" where
  "steps S = (unit_step S)\<^sup>*\<^sup>*"

interpretation steps: io_rel "steps S" for S
  by unfold_locales (auto simp: steps_def intro!: r_into_rtranclp unit_step.other)

section \<open>Requests\<close>

datatype request =
    Challenge duration nonce_purpose string
  | AuthorizeReq authorize_request
  | TokenReq token_request
  | IntrospectReq string string
  | RevokeReq string string
  | ActivationReq string string string string string string
  | AdminLogin admin_config string string string string
  | AdminReq "instant \<Rightarrow> string" string "string option" step_up admin_op
  | ReconcileReq string
  | PurgeReq

definition void :: "'a io \<Rightarrow> unit io" where "void m = bindE m (\<lambda>_. returnE ())"

definition reconciler_of :: "server \<Rightarrow> string \<Rightarrow> reconciler" where
  "reconciler_of S pool = \<lparr>rc_pool = pool, rc_elig = Attest S, rc_notifier = None\<rparr>"

fun handle :: "server \<Rightarrow> request \<Rightarrow> unit io" where
  "handle S (Challenge ttl purpose addr) = void (Wallet_Challenge ttl purpose addr)"
| "handle S (AuthorizeReq req) = void (Authorize S req)"
| "handle S (TokenReq req) = void (Token S req)"
| "handle S (IntrospectReq token jti) = void (Introspect S token jti)"
| "handle S (RevokeReq token hint) = Revoke S token hint"
| "handle S (ActivationReq ctype channel nonce key sig botname) = void (CreateActivation S ctype channel nonce key sig botname)"
| "handle S (AdminLogin A key nonce sig ip) = void (Admin_Verify S A key nonce sig ip)"
| "handle S (AdminReq month ip cookie su op) = void (admin_route S month ip cookie su op)"
| "handle S (ReconcileReq pool) = void (Reconcile (reconciler_of S pool))"
| "handle S PurgeReq = void Wallet_Purge"

section \<open>The invariant of the chains\<close>

lemma insert_row_Inl: "insert_row get upd key r w = (Inl e, w') \<Longrightarrow> w' = skip w"
  by (auto simp: insert_row_def exec_def split: if_splits)

lemma grant_open_unique:
  assumes "length (filter (grant_open i) gs) = 1"
  shows "\<exists>g \<in> set gs. g_id g = i \<and> g_status g = GrantActive"
  using assms by (metis (mono_tags, lifting) filter_False grant_open_def list.size(3) zero_neq_one)

lemma chains_ok_rotated:
  assumes ok: "chains_ok gs" and one: "length (filter (grant_open i) gs) = 1"
    and new: "g_id g \<notin> g_id ` set gs" "g_from g = Some i"
  shows "chains_ok (set_where (grant_open i) (set_grant GrantRotated) gs @ [g])"
proof (rule chains_ok_append)
  let ?gs = "set_where (grant_open i) (set_grant GrantRotated) gs"
  obtain x where x: "x \<in> set gs" "g_id x = i" "g_status x = GrantActive" using grant_open_unique[OF one] by blast
  have ids: "map g_id ?gs = map g_id gs" by (rule set_where_key) simp
  then have idset: "g_id ` set ?gs = g_id ` set gs" by (metis set_map)
  have froms: "g_from ` set ?gs = g_from ` set gs"
    using set_where_key[of g_from "set_grant GrantRotated" "grant_open i" gs] by (metis set_grant_sel(2) set_map)
  show "chains_ok ?gs" using ok by (rule chains_ok_set_where) simp
  show "g_id g \<notin> g_id ` set ?gs" using new(1) idset by simp
  fix p assume "g_from g = Some p"
  then have p: "p = i" using new(2) by simp
  have "g_status y \<noteq> GrantActive" if "y \<in> set ?gs" "g_id y = i" for y
    using that unfolding mem_set_where grant_open_def by (elim disjE bexE conjE) simp_all
  moreover have "g_from h \<noteq> Some i" if "h \<in> set ?gs" for h
  proof -
    have "g_from h \<in> g_from ` set gs" using that froms by blast
    then show ?thesis using chains_ok_no_child[OF ok x(1,3)] x(2) by fastforce
  qed
  ultimately show "p \<in> g_id ` set ?gs \<and> (\<forall>x \<in> set ?gs. g_id x = p \<longrightarrow> g_status x \<noteq> GrantActive)
      \<and> (\<forall>h \<in> set ?gs. g_from h \<noteq> Some p)"
    using p idset x(1,2) by blast
qed

lemma minted_grant_sel [simp]:
  "g_id (minted_grant S p t dev plain) = HashToken S plain" "g_from (minted_grant S p t dev plain) = mp_from p"
  "g_status (minted_grant S p t dev plain) = GrantActive" "g_sch (minted_grant S p t dev plain) = mp_sch p"
  by (simp_all add: minted_grant_def)

lemma rotate_and_mint_Inr:
  assumes "rotate_and_mint S g att signer w = (Inr x, w')"
  shows "\<exists>p jti dev. length (filter (grant_open (g_id g)) (grants w)) = 1 \<and> mp_from p = Some (g_id g) \<and> mp_sch p = g_sch g
    \<and> grants w' = set_where (grant_open (g_id g)) (set_grant GrantRotated) (grants w)
        @ [minted_grant S p (clock w) dev (tr_refresh x)]
    \<and> HashToken S (tr_refresh x) \<notin> g_id ` set (grants w)
    \<and> tokens w' = tokens w @ [minted_token S p (clock w) jti] \<and> jti \<notin> t_jti ` set (tokens w)
    \<and> banned w' = banned w"
proof -
  define v4 where "v4 = grants_update (set_where (grant_open (g_id g)) (set_grant GrantRotated)) (skip (skip w))"
  define p where "p = \<lparr>mp_sch = g_sch g, mp_aud = g_aud g, mp_ctype = g_ctype g, mp_client = g_client g, mp_att = att,
        mp_device = (if g_device g \<noteq> [] then hex_encode (g_device g) else ''''),
        mp_from = Some (g_id g), mp_signer = signer\<rparr>"
  obtain v5 where cnt: "length (filter (grant_open (g_id g)) (grants w)) = 1"
    and mi: "mint S p v4 = (Inr x, v5)" and w': "w' = skip v5"
    using assms unfolding rotate_and_mint_def with_tx_Inr bindE_Inr RefreshGrant_RotateIfActive_def
      update_count_Inr v4_def p_def
    by (auto simp: returnE_Inr failE_Inr split: if_splits)
  have "banned v5 = banned v4"
    using mi by (auto simp: mint_def option_failE_Inr bindE_Inr nowE_Inr Let_def RandomID_Inr liftE_Inr
      IssuedToken_Create_def insert_row_Inr RandomToken_Inr RefreshGrant_Create_def returnE_Inr)
  moreover have "g_id ` set (grants v4) = g_id ` set (grants w)"
    using set_where_key[of g_id "set_grant GrantRotated" "grant_open (g_id g)" "grants w"]
    by (simp add: v4_def) (metis set_grant_sel(1) set_map)
  moreover have "mp_from p = Some (g_id g)" "mp_sch p = g_sch g" by (simp_all add: p_def)
  ultimately show ?thesis using mint_Inr[OF mi] cnt w'
    by (intro exI[of _ p]) (auto simp: v4_def)
qed

lemma rotate_and_mint_chains:
  assumes ok: "chains_ok (grants w)" and run: "rotate_and_mint S g att signer w = (r, w')"
  shows "chains_ok (grants w')"
proof (cases r)
  case (Inl e)
  then show ?thesis using run ok unfolding rotate_and_mint_def by (auto dest!: with_tx_Inl)
next
  case (Inr x)
  then obtain p dev where one: "length (filter (grant_open (g_id g)) (grants w)) = 1" "mp_from p = Some (g_id g)"
    and g: "grants w' = set_where (grant_open (g_id g)) (set_grant GrantRotated) (grants w)
        @ [minted_grant S p (clock w) dev (tr_refresh x)]" "HashToken S (tr_refresh x) \<notin> g_id ` set (grants w)"
    using rotate_and_mint_Inr[of S g att signer w x w'] run by blast
  show ?thesis unfolding g(1) by (rule chains_ok_rotated[OF ok one(1)]) (simp_all add: g(2) one(2))
qed

lemma unit_step_chains: "unit_step S w w' \<Longrightarrow> chains_ok (grants w) \<Longrightarrow> chains_ok (grants w')"
proof (induction rule: unit_step.induct)
  case (first_grant g w)
  then show ?case by (auto simp: RefreshGrant_Create_def insert_row_def exec_def intro: chains_ok_append)
next
  case (rotate w g att signer)
  then show ?case by (metis prod.collapse rotate_and_mint_chains)
next
  case (close st w i)
  then show ?case by (auto simp: RefreshGrant_SetStatus_def update_rows_def modify_def exec_def intro: chains_ok_set_where)
next
  case (revoke_chain w i)
  obtain r w' where run: "RefreshGrant_RevokeChain i w = (r, w')" by force
  show ?case
  proof (cases r)
    case (Inl e)
    then show ?thesis using run revoke_chain unfolding RefreshGrant_RevokeChain_def by (auto dest!: with_tx_Inl simp del: revoke_walk.simps)
  next
    case (Inr u)
    then show ?thesis using run revoke_chain RevokeChain_Inr[of i w u w'] by (auto intro: chains_ok_set_where)
  qed
next
  case (revoke_holder w sch)
  then show ?case by (auto simp: RefreshGrant_RevokeByStakeCredential_def update_count_def exec_def intro: chains_ok_set_where)
qed simp

lemma steps_chains: "steps S w w' \<Longrightarrow> chains_ok (grants w) \<Longrightarrow> chains_ok (grants w')"
  unfolding steps_def by (induction rule: rtranclp_induct) (auto intro: unit_step_chains)

section \<open>Requests that leave the ledger alone\<close>

text \<open>The ledger: the deny list, the tokens and the grants.\<close>

definition same_ledger :: "world \<Rightarrow> world \<Rightarrow> bool" where
  "same_ledger w w' \<longleftrightarrow> grants w' = grants w \<and> tokens w' = tokens w \<and> banned w' = banned w"

interpretation ledger: unheard same_ledger
  by unfold_locales (simp_all add: same_ledger_def)

lemma moves_mono: "moves R m \<Longrightarrow> (\<And>w w'. R w w' \<Longrightarrow> Q w w') \<Longrightarrow> moves Q m"
  by (simp add: moves_def)

lemma ledger_masked: "moves same_ledger m \<Longrightarrow> moves same_ledger (masked e m)"
  by (rule masked_moves[OF ledger.io_rel_axioms])

lemma same_sensitive_ledger: "same_sensitive w w' \<Longrightarrow> same_ledger w w'"
  by (simp add: same_sensitive_def sensitive_def same_ledger_def)

lemma only_cache_ledger: "only_cache w w' \<Longrightarrow> same_ledger w w'"
  by (simp add: same_ledger_def only_cache_tables)

lemmas ledger_rules = ledger.steps ledger.pure_steps ledger_masked moves_when

lemma ledger_writes:
  "moves same_ledger (AuthNonce_Create n)" "moves same_ledger (AuthCode_Create c)"
  "moves same_ledger (ActivationCode_Create a)" "moves same_ledger (OAuthClient_Upsert cl)"
  "moves same_ledger (AdminSession_Create s)" "moves same_ledger (AdminUser_TouchLogin i t)"
  "moves same_ledger (AuthNonce_DeleteExpired t)" "moves same_ledger (IssuerKey_Create k)"
  "moves same_ledger (IssuerKey_SetStatus kid st at)" "moves same_ledger (Audit_Append au)"
  "moves same_ledger (Sub_SetStatus i ss)" "moves same_ledger (Sub_CancelByStakeCredential sch)"
  unfolding AuthNonce_Create_def AuthCode_Create_def ActivationCode_Create_def OAuthClient_Upsert_def
    upsert_row_def AdminSession_Create_def AdminUser_TouchLogin_def AuthNonce_DeleteExpired_def
    IssuerKey_Create_def IssuerKey_SetStatus_def Audit_Append_def Sub_SetStatus_def Sub_CancelByStakeCredential_def
  by (intro ledger.insert_row ledger.modify ledger.update_rows ledger.update_count ledger.delete_rows,
      simp add: same_ledger_def)+

lemma ledger_reads:
  "moves same_ledger (OAuthClient_Get i)" "moves same_ledger (IssuedToken_Get jti)"
  "moves same_ledger (RefreshGrant_Get g)" "moves same_ledger (AdminUser_GetByOwnerKeyHash k)"
  "moves same_ledger (AdminUser_GetByID i)" "moves same_ledger (IssuerKey_Get kid)"
  "moves same_ledger (IssuerKey_ListByStatus st)" "moves same_ledger (Sub_ListActive pool)"
  unfolding OAuthClient_Get_def IssuedToken_Get_def RefreshGrant_Get_def AdminUser_GetByOwnerKeyHash_def
    AdminUser_GetByID_def IssuerKey_Get_def IssuerKey_ListByStatus_def Sub_ListActive_def
  by (rule ledger.query ledger.query_row)+

lemma ledger_upserts: "moves same_ledger (AdminUser_Upsert u)" "moves same_ledger (Sub_Upsert x)"
  unfolding AdminUser_Upsert_def Sub_Upsert_def by (rule ledger.exec, simp add: same_ledger_def)+

lemma ledger_AuthCode_Consume: "moves same_ledger (AuthCode_Consume code t)"
  unfolding AuthCode_Consume_def
  by (intro ledger_rules ledger.update_count) (simp_all add: same_ledger_def)

lemma ledger_wallet: "moves same_ledger (Wallet_Verify E purpose key nonce sig)"
  by (rule moves_mono[OF Wallet_Verify_sensitive same_sensitive_ledger])

lemmas ledger_base = ledger_writes ledger_reads ledger_upserts ledger_AuthCode_Consume ledger_wallet

lemma ledger_Challenge: "moves same_ledger (Wallet_Challenge ttl purpose addr)"
  unfolding Wallet_Challenge_def by (auto split: sum.splits intro!: ledger_rules ledger_base)

lemma ledger_ValidateClient: "moves same_ledger (ValidateClient cid redirect aud)"
  unfolding ValidateClient_def by (auto split: sum.splits intro!: ledger_rules ledger_base)

lemma ledger_signer: "moves same_ledger (Keys_ActiveSigner E)"
  unfolding Keys_ActiveSigner_def Let_def by (intro ledger_rules ledger_base)

lemma ledger_Rotate: "moves same_ledger (Keys_Rotate E month)"
  unfolding Keys_Rotate_def Let_def Cipher_Encrypt_def defaultKID_def
  by (intro ledger_rules ledger_base ledger.random)

lemma ledger_Retire: "moves same_ledger (Keys_Retire kid)"
  unfolding Keys_Retire_def by (intro ledger_rules ledger_base)

lemma ledger_login: "moves same_ledger (Admin_Verify S A key nonce sig ip)"
  unfolding Admin_Verify_def login_user_def
  by (intro ledger_rules ledger_base) (auto split: sum.splits intro!: ledger_rules ledger_base)

lemma ledger_audit: "moves same_ledger (audit u ip action target)"
  unfolding audit_def by (intro ledger_rules ledger_base)

lemma ledger_authenticate: "moves same_ledger (Admin_Authenticate S tok)"
  by (rule moves_mono[OF Admin_Authenticate_sensitive same_sensitive_ledger])

lemma ledger_step_up: "moves same_ledger (requireStepUp S u su)"
  by (rule moves_mono[OF requireStepUp_sensitive same_sensitive_ledger])

lemma ledger_Introspect: "moves same_ledger (Introspect S token jti)"
proof -
  have led: "moves same_ledger (introspect_ledger j s t)" for j s t
    unfolding introspect_ledger_def by (auto split: sum.splits intro!: ledger_rules ledger_base)
  show ?thesis unfolding Introspect_def currentJWKS_def Keys_PublicJWKSKeys_def
    by (auto split: option.splits intro!: ledger_rules ledger_base led)
qed

section \<open>The contract of a conserved relation\<close>

text \<open>
  A relation between the world before and after is conserved by the service when it holds of
  whatever leaves the ledger alone, of the statements that close grants and tokens or ban a
  holder, and of the two ways a token is issued, each behind the membership gate. Then it
  holds of every request.
\<close>

definition gated :: "server \<Rightarrow> string \<Rightarrow> (oauth_attestation \<Rightarrow> signer \<Rightarrow> 'a io) \<Rightarrow> 'a io" where
  "gated S sch issue = bindE (attest S sch) (\<lambda>att.
     if oa_state att = StateNone then failE ErrNotEligible
     else bindE (Keys_ActiveSigner (sv_keys S)) (issue att))"

locale service = io_rel R + attesting S for R :: "world \<Rightarrow> world \<Rightarrow> bool" and S :: server +
  assumes other: "same_ledger w w' \<Longrightarrow> R w w'"
    and ban: "moves R (Blacklist_Add b)"
    and close: "st \<noteq> GrantActive \<Longrightarrow> moves R (RefreshGrant_SetStatus i st)"
    and revoke_chain: "moves R (RefreshGrant_RevokeChain i)"
    and revoke_grants: "moves R (RefreshGrant_RevokeByStakeCredential sch)"
    and revoke_tokens: "moves R (IssuedToken_RevokeByStakeCredential sch at)"
    and revoke_one: "moves R (IssuedToken_Revoke jti at)"
    and first: "(\<And>att sg. mp_sch (p att sg) = sch \<and> mp_from (p att sg) = None)
      \<Longrightarrow> moves R (gated S sch (\<lambda>att sg. mint S (p att sg)))"
    and rotation: "moves R (gated S (g_sch g) (rotate_and_mint S g))"
begin

lemma other_moves: "moves same_ledger m \<Longrightarrow> moves R m"
  using moves_mono[of same_ledger m R] other by blast

lemma cache_moves: "moves only_cache m \<Longrightarrow> moves R m"
  using moves_mono[of only_cache m R] other[OF only_cache_ledger] by blast

lemma masked_R: "moves R m \<Longrightarrow> moves R (masked e m)"
  by (rule masked_moves[OF io_rel_axioms])

lemmas rules = bind try_ pure_steps ignore for_loop RandomToken RandomID moves_when masked_R

lemma Authorize_moves: "moves R (Authorize S req)"
  unfolding Authorize_def
  by (intro rules other_moves[OF ledger_ValidateClient] other_moves[OF ledger_wallet]
      cache_moves[OF evaluate_cache] other_moves[OF ledger_writes(2)])

lemma tokenAuthCode_moves: "moves R (tokenAuthCode S req)"
  unfolding tokenAuthCode_def
  by (intro rules other_moves[OF ledger_AuthCode_Consume] other_moves[OF ledger_reads(1)]
      first[unfolded gated_def]) simp

lemma authenticateGrant_moves: "moves R (authenticateGrant S g req)"
  unfolding authenticateGrant_def
  by (auto split: option.splits intro!: rules other_moves[OF ledger_reads(1)])

lemma tokenRefresh_moves: "moves R (tokenRefresh S req)"
proof -
  note rot = rotation[unfolded gated_def]
  show ?thesis unfolding tokenRefresh_def
    by (intro rules other_moves[OF ledger_reads(3)])
       (auto split: grant_status.splits intro!: rules authenticateGrant_moves rot close revoke_chain)
qed

lemma Token_moves: "moves R (Token S req)"
  unfolding Token_def by (intro moves_when tokenAuthCode_moves tokenRefresh_moves pure_steps)

lemma Revoke_moves: "moves R (Revoke S token hint)"
  unfolding Revoke_def Let_def
  by (intro rules revoke_one other_moves[OF ledger_reads(3)])
     (auto split: sum.splits intro!: rules close)

lemma CreateActivation_moves: "moves R (CreateActivation S ctype channel nonce key sig botname)"
  unfolding CreateActivation_def Let_def MembershipOf_def
  by (intro rules other_moves[OF ledger_wallet] cache_moves[OF evaluate_cache] other_moves[OF ledger_writes(3)])

lemma Reconcile_moves: "moves R (Reconcile (reconciler_of S pool))"
proof -
  have elig: "moves R (Attest S sch)" for sch
    unfolding Attest_def by (intro rules cache_moves[OF attest_cache])
  have sets: "moves R (settle (reconciler_of S pool) res st tier sess)" for res st tier sess
    unfolding settle_def or_failed_def notifyGrace_def reconciler_of_def
    by (auto split: option.splits sum.splits intro!: rules other_moves[OF ledger_upserts(2)]
        other_moves[OF ledger_writes(11)])
  have one: "moves R (reconcile_one (reconciler_of S pool) res sess)" for res sess
  proof -
    have "rc_elig (reconciler_of S pool) = Attest S" by (simp add: reconciler_of_def)
    then show ?thesis unfolding reconcile_one_def Let_def
      by (auto split: sum.splits intro!: rules elig sets)
  qed
  have "moves R (reconcile_loop (reconciler_of S pool) res xs)" for res xs
    by (induction xs arbitrary: res) (auto intro!: rules one)
  then show ?thesis unfolding Reconcile_def by (intro rules other_moves[OF ledger_reads(8)])
qed

lemma refuse_moves: "moves R m \<Longrightarrow> (\<And>x. moves R (k x)) \<Longrightarrow> moves R (or_refuse status m k)"
  unfolding or_refuse_def by (auto split: sum.splits intro!: rules)

lemma admin_handler_moves: "moves R (admin_handler S month ip su op u)"
proof -
  note step = other_moves[OF ledger_step_up] and aud = other_moves[OF ledger_audit]
  have ack: "moves R m \<Longrightarrow> moves R (acknowledge m)" for m :: "'x reply io"
    unfolding acknowledge_def by (intro rules)
  note acts = ban revoke_tokens revoke_grants other_moves[OF ledger_writes(12)] other_moves[OF ledger_writes(4)]
    other_moves[OF ledger_reads(1)] other_moves[OF ledger_Rotate] other_moves[OF ledger_Retire]
  show ?thesis
    by (cases op; simp only: admin_handler.simps; rule ack;
        unfold adminRevokeMember_def adminRegisterClient_def adminRegenerateClientSecret_def adminRotateKey_def
          adminRetireKey_def)
       (auto split: option.splits intro!: rules refuse_moves step aud acts)
qed

lemma admin_route_moves: "moves R (admin_route S month ip cookie su op)"
  unfolding admin_route_def requireSession_def requireRole_def
  by (auto split: option.splits sum.splits intro!: rules other_moves[OF ledger_authenticate] admin_handler_moves)

theorem handle_moves: "moves R (handle S req)"
  unfolding void_def
  by (cases req)
     (auto simp: void_def Wallet_Purge_def intro!: rules other_moves[OF ledger_Challenge] Authorize_moves Token_moves
        other_moves[OF ledger_Introspect] Revoke_moves CreateActivation_moves other_moves[OF ledger_login]
        admin_route_moves Reconcile_moves other_moves[OF ledger_writes(7)])

end

section \<open>Three conserved relations\<close>

subsection \<open>Requests are sequences of atomic steps\<close>

lemma steps_unit: "unit_step S w w' \<Longrightarrow> steps S w w'"
  by (simp add: steps_def r_into_rtranclp)

lemma steps_ledger: "same_ledger w w' \<Longrightarrow> steps S w w'"
  by (rule steps_unit) (simp add: unit_step.other same_ledger_def)

lemma steps_grants: "moves same_ledger m \<Longrightarrow> moves (steps S) m"
  using moves_mono[of same_ledger m "steps S"] steps_ledger by blast

lemma steps_tokens: "(\<And>w. grants (snd (m w)) = grants w) \<Longrightarrow> moves (steps S) m"
  unfolding moves_def by (blast intro: steps_unit unit_step.other)

lemma steps_mint:
  assumes "mp_from p = None"
  shows "moves (steps S) (mint S p)"
proof -
  have tok: "moves (steps S) (IssuedToken_Create t)" for t
    by (rule steps_tokens) (simp add: IssuedToken_Create_def insert_row_def exec_def)
  have grant: "moves (steps S) (RefreshGrant_Create g)" if "g_from g = None" for g
    using that unfolding moves_def by (blast intro: steps_unit unit_step.first_grant)
  show ?thesis using assms unfolding mint_def Let_def
    by (auto split: option.splits intro!: steps.bind steps.pure_steps steps.RandomID steps.RandomToken tok grant)
qed

interpretation lineage: service "steps (wired S http apiKey)" "wired S http apiKey" for S http apiKey
proof
  let ?S = "wired S http apiKey"
  have gate: "moves (steps ?S) (attest ?S sch)" "moves (steps ?S) (Keys_ActiveSigner E)" for sch E
    by (rule steps_grants, rule moves_mono[OF issuer.attest_cache only_cache_ledger], assumption)
       (rule steps_grants, rule ledger_signer)
  show "same_ledger w w' \<Longrightarrow> steps ?S w w'" for w w' by (rule steps_ledger)
  show "moves (steps ?S) (Blacklist_Add b)" for b
    by (rule steps_tokens) (simp add: Blacklist_Add_def upsert_row_def modify_def exec_def)
  show "st \<noteq> GrantActive \<Longrightarrow> moves (steps ?S) (RefreshGrant_SetStatus i st)" for st i
    unfolding moves_def by (blast intro: steps_unit unit_step.close)
  show "moves (steps ?S) (RefreshGrant_RevokeChain i)" for i
    unfolding moves_def by (blast intro: steps_unit unit_step.revoke_chain)
  show "moves (steps ?S) (RefreshGrant_RevokeByStakeCredential sch)" for sch
    unfolding moves_def by (blast intro: steps_unit unit_step.revoke_holder)
  show "moves (steps ?S) (IssuedToken_RevokeByStakeCredential sch at)" for sch at
    by (rule steps_tokens) (simp add: IssuedToken_RevokeByStakeCredential_def update_count_def exec_def)
  show "moves (steps ?S) (IssuedToken_Revoke jti at)" for jti at
    by (rule steps_tokens) (simp add: IssuedToken_Revoke_def update_rows_def modify_def exec_def)
  show "moves (steps ?S) (gated ?S sch (\<lambda>att sg. mint ?S (p att sg)))"
    if "\<And>att sg. mp_sch (p att sg) = sch \<and> mp_from (p att sg) = None" for sch p
    unfolding gated_def using that by (intro steps.bind gate moves_when steps.pure_steps steps_mint) blast
  have rot: "moves (steps ?S) (rotate_and_mint ?S g att sg)" for g att sg
    unfolding moves_def by (blast intro: steps_unit unit_step.rotate)
  show "moves (steps ?S) (gated ?S (g_sch g) (rotate_and_mint ?S g))" for g
    unfolding gated_def by (intro steps.bind gate moves_when steps.pure_steps rot)
qed

subsection \<open>A revoked token stays revoked\<close>

definition dead_token :: "string \<Rightarrow> world \<Rightarrow> bool" where
  "dead_token jti w \<longleftrightarrow> jti \<in> t_jti ` set (tokens w)
     \<and> (\<forall>t \<in> set (tokens w). t_jti t = jti \<longrightarrow> t_status t \<noteq> TokenActive)"

definition stays_dead :: "world \<Rightarrow> world \<Rightarrow> bool" where
  "stays_dead w w' \<longleftrightarrow> (\<forall>jti. dead_token jti w \<longrightarrow> dead_token jti w')"

interpretation dead: io_rel stays_dead
  by unfold_locales (simp_all add: stays_dead_def, simp add: dead_token_def)

lemma dead_same: "tokens w' = tokens w \<Longrightarrow> stays_dead w w'"
  by (simp add: stays_dead_def dead_token_def)

lemma dead_same_moves: "(\<And>w. tokens (snd (m w)) = tokens w) \<Longrightarrow> moves stays_dead m"
  unfolding moves_def by (blast intro: dead_same)

lemma dead_ledger: "moves same_ledger m \<Longrightarrow> moves stays_dead m"
  using moves_mono[of same_ledger m stays_dead] dead_same by (simp add: same_ledger_def)

lemma dead_revoke: "stays_dead w (tokens_update (set_where P (revoke_token at)) w)"
  unfolding stays_dead_def dead_token_def
proof (intro allI impI conjI)
  fix jti assume d: "jti \<in> t_jti ` set (tokens w) \<and> (\<forall>t \<in> set (tokens w). t_jti t = jti \<longrightarrow> t_status t \<noteq> TokenActive)"
  have "map t_jti (set_where P (revoke_token at) (tokens w)) = map t_jti (tokens w)"
    by (rule set_where_key) (simp add: revoke_token_def)
  then have "t_jti ` set (set_where P (revoke_token at) (tokens w)) = t_jti ` set (tokens w)" by (metis set_map)
  then show "jti \<in> t_jti ` set (tokens (tokens_update (set_where P (revoke_token at)) w))" using d by simp
  show "\<forall>t \<in> set (tokens (tokens_update (set_where P (revoke_token at)) w)). t_jti t = jti \<longrightarrow> t_status t \<noteq> TokenActive"
    using d by (auto simp: mem_set_where revoke_token_def)
qed

lemma dead_create: "moves stays_dead (IssuedToken_Create t)"
  by (auto simp: moves_def IssuedToken_Create_def insert_row_def exec_def stays_dead_def dead_token_def)

lemma dead_grants: "moves stays_dead (RefreshGrant_Create g)" "moves stays_dead (RefreshGrant_SetStatus i st)"
  "moves stays_dead (RefreshGrant_RevokeByStakeCredential sch)" "moves stays_dead (RefreshGrant_RotateIfActive i)"
  unfolding RefreshGrant_Create_def RefreshGrant_SetStatus_def RefreshGrant_RevokeByStakeCredential_def
    RefreshGrant_RotateIfActive_def
  by (intro dead.insert_row dead.update_rows dead.update_count dead.bind dead.pure_steps, simp add: dead_same)+

lemma dead_mint: "moves stays_dead (mint S p)"
  unfolding mint_def Let_def
  by (auto split: option.splits intro!: dead.bind dead.pure_steps dead.RandomID dead.RandomToken dead_create dead_grants)

lemma dead_walk: "moves stays_dead (revoke_walk fuel ids)"
  by (induction fuel ids rule: revoke_walk.induct) (auto intro!: dead.bind dead.pure_steps dead.query dead_grants)

lemma dead_attest: "moves stays_dead (attest (wired S http apiKey) sch)"
  by (rule dead_ledger, rule moves_mono[OF issuer.attest_cache]) (rule only_cache_ledger)

interpretation revocation: service stays_dead "wired S http apiKey" for S http apiKey
proof
  let ?S = "wired S http apiKey"
  show "same_ledger w w' \<Longrightarrow> stays_dead w w'" for w w' by (simp add: same_ledger_def dead_same)
  show "moves stays_dead (Blacklist_Add b)" for b
    by (rule dead_same_moves) (simp add: Blacklist_Add_def upsert_row_def modify_def exec_def)
  show "moves stays_dead (RefreshGrant_SetStatus i st)" for i st by (rule dead_grants)
  show "moves stays_dead (RefreshGrant_RevokeByStakeCredential sch)" for sch by (rule dead_grants)
  show "moves stays_dead (RefreshGrant_RevokeChain i)" for i
    unfolding RefreshGrant_RevokeChain_def
    using dead_walk by (intro dead.tx) (simp add: moves_def del: revoke_walk.simps)
  show "moves stays_dead (IssuedToken_RevokeByStakeCredential sch at)" for sch at
    unfolding IssuedToken_RevokeByStakeCredential_def by (rule dead.update_count) (rule dead_revoke)
  show "moves stays_dead (IssuedToken_Revoke jti at)" for jti at
    unfolding IssuedToken_Revoke_def by (rule dead.update_rows) (rule dead_revoke)
  show "moves stays_dead (gated ?S sch (\<lambda>att sg. mint ?S (p att sg)))" for sch p
    unfolding gated_def by (intro dead.bind moves_when dead.pure_steps dead_attest dead_ledger[OF ledger_signer] dead_mint)
  have rot: "moves stays_dead (rotate_and_mint ?S g att sg)" for g att sg
    unfolding rotate_and_mint_def by (intro dead.tx dead.bind moves_when dead.pure_steps dead_mint dead_grants)
  show "moves stays_dead (gated ?S (g_sch g) (rotate_and_mint ?S g))" for g
    unfolding gated_def by (intro dead.bind moves_when dead.pure_steps dead_attest dead_ledger[OF ledger_signer] rot)
qed

subsection \<open>A banned holder stays out\<close>

definition shut_out :: "string \<Rightarrow> world \<Rightarrow> bool" where
  "shut_out sch w \<longleftrightarrow> sch \<in> b_sch ` set (banned w)
     \<and> (\<forall>t \<in> set (tokens w). t_sch t = sch \<longrightarrow> t_status t \<noteq> TokenActive)
     \<and> (\<forall>g \<in> set (grants w). g_sch g = sch \<longrightarrow> g_status g \<noteq> GrantActive)"

definition stays_shut :: "world \<Rightarrow> world \<Rightarrow> bool" where
  "stays_shut w w' \<longleftrightarrow> (\<forall>sch. shut_out sch w \<longrightarrow> shut_out sch w')"

text \<open>Issuing for one holder does not concern the others.\<close>

definition only_for :: "string \<Rightarrow> world \<Rightarrow> world \<Rightarrow> bool" where
  "only_for sch w w' \<longleftrightarrow> (\<forall>other. other \<noteq> sch \<longrightarrow> shut_out other w \<longrightarrow> shut_out other w')"

interpretation shut: io_rel stays_shut
  by unfold_locales (simp_all add: stays_shut_def, simp add: shut_out_def)

interpretation holder: io_rel "only_for sch" for sch
  by unfold_locales (simp_all add: only_for_def, simp add: shut_out_def)

lemma shut_same: "same_ledger w w' \<Longrightarrow> stays_shut w w'"
  by (simp add: same_ledger_def stays_shut_def shut_out_def)

lemma shut_grants_closed: "st \<noteq> GrantActive \<Longrightarrow> stays_shut w (grants_update (set_where P (set_grant st)) w)"
  unfolding stays_shut_def shut_out_def by (auto simp: mem_set_where)

lemma shut_tokens_revoked: "stays_shut w (tokens_update (set_where P (revoke_token at)) w)"
  unfolding stays_shut_def shut_out_def by (auto simp: mem_set_where revoke_token_def)

lemma banned_keys: "b_sch ` set (map (\<lambda>x. if Q x then x\<lparr>b_reason := y\<rparr> else x) bs) = b_sch ` set bs"
  unfolding set_map image_image by (rule image_cong) simp_all

lemma Blacklist_Add_run:
  "b_sch ` set (banned (snd (Blacklist_Add b w)))
     = (if faulty w then b_sch ` set (banned w) else insert (b_sch b) (b_sch ` set (banned w)))"
  "tokens (snd (Blacklist_Add b w)) = tokens w" "grants (snd (Blacklist_Add b w)) = grants w"
proof -
  have bs: "banned (snd (Blacklist_Add b w)) = (if faulty w then banned w
      else if b_sch b \<in> b_sch ` set (banned w)
        then map (\<lambda>x. if b_sch x = b_sch b then x\<lparr>b_reason := b_reason b\<rparr> else x) (banned w)
        else banned w @ [b])"
    by (simp add: Blacklist_Add_def upsert_row_def modify_def exec_def)
  show "b_sch ` set (banned (snd (Blacklist_Add b w)))
     = (if faulty w then b_sch ` set (banned w) else insert (b_sch b) (b_sch ` set (banned w)))"
    unfolding bs by (simp only: banned_keys split: if_split) (simp add: insert_absorb)
  show "tokens (snd (Blacklist_Add b w)) = tokens w" "grants (snd (Blacklist_Add b w)) = grants w"
    by (simp_all add: Blacklist_Add_def upsert_row_def modify_def exec_def)
qed

lemma Blacklist_Add_Inr_up: "Blacklist_Add b w = (Inr x, w') \<Longrightarrow> \<not> faulty w"
  by (simp add: Blacklist_Add_def upsert_row_def modify_Inr)

lemma shut_ban: "moves stays_shut (Blacklist_Add b)"
  by (simp add: moves_def stays_shut_def shut_out_def Blacklist_Add_run)

lemma shut_set_status: "st \<noteq> GrantActive \<Longrightarrow> moves stays_shut (RefreshGrant_SetStatus i st)"
  unfolding RefreshGrant_SetStatus_def by (rule shut.update_rows) (rule shut_grants_closed)

lemma shut_walk: "moves stays_shut (revoke_walk fuel ids)"
  by (induction fuel ids rule: revoke_walk.induct)
     (auto intro!: shut.bind shut.pure_steps shut.query shut_set_status)

lemma holder_token: "t_sch t = sch \<Longrightarrow> moves (only_for sch) (IssuedToken_Create t)"
  unfolding IssuedToken_Create_def by (intro holder.insert_row) (auto simp: only_for_def shut_out_def)

lemma holder_grant: "g_sch g = sch \<Longrightarrow> moves (only_for sch) (RefreshGrant_Create g)"
  unfolding RefreshGrant_Create_def by (intro holder.insert_row) (auto simp: only_for_def shut_out_def)

lemma holder_mint: "mp_sch p = sch \<Longrightarrow> moves (only_for sch) (mint S p)"
  unfolding mint_def Let_def
  by (auto split: option.splits intro!: holder.bind holder.pure_steps holder.RandomID holder.RandomToken
      holder_token holder_grant)

lemma holder_rotate: "moves (only_for (g_sch g)) (rotate_and_mint S g att sg)"
proof -
  have shut: "stays_shut w w' \<Longrightarrow> only_for sch w w'" for w w' sch by (simp add: stays_shut_def only_for_def)
  have "moves (only_for (g_sch g)) (RefreshGrant_RotateIfActive i)" for i
    unfolding RefreshGrant_RotateIfActive_def
    by (intro holder.bind holder.pure_steps holder.update_count shut shut_grants_closed) simp
  then show ?thesis unfolding rotate_and_mint_def
    by (intro holder.tx holder.bind moves_when holder.pure_steps holder_mint) simp_all
qed

lemma gated_shut:
  assumes issue: "\<And>att sg. moves (only_for sch) (issue att sg)"
  shows "moves stays_shut (gated (wired S http apiKey) sch issue)"
  unfolding moves_def
proof
  fix w
  let ?S = "wired S http apiKey"
  obtain q v where att: "attest ?S sch w = (q, v)" by force
  have wv: "only_cache w v" using movesD[of only_cache "attest ?S sch", OF issuer.attest_cache att] .
  then have sv: "stays_shut w v" by (intro shut_same only_cache_ledger)
  show "stays_shut w (snd (gated ?S sch issue w))"
  proof (cases "\<exists>a. q = Inr a \<and> oa_state a \<noteq> StateNone")
    case False
    then show ?thesis using att sv
      by (cases q) (auto simp: gated_def bindE_def failE_def)
  next
    case True
    then obtain a where a: "attest ?S sch w = (Inr a, v)" "oa_state a \<noteq> StateNone" using att by auto
    have clear: "\<not> shut_out sch w" using attest_Inr[OF a] by (auto simp: shut_out_def)
    have "moves (only_for sch) (bindE (Keys_ActiveSigner (sv_keys ?S)) (issue a))"
    proof (intro holder.bind issue)
      show "moves (only_for sch) (Keys_ActiveSigner (sv_keys ?S))"
        using ledger_signer[of "sv_keys ?S"] shut_same by (auto simp: moves_def only_for_def stays_shut_def)
    qed
    then have "only_for sch v (snd (gated ?S sch issue w))"
      using a by (simp add: gated_def bindE_def[of "attest ?S sch"] moves_def)
    then show ?thesis using sv clear unfolding only_for_def stays_shut_def by metis
  qed
qed

interpretation ban: service stays_shut "wired S http apiKey" for S http apiKey
proof
  let ?S = "wired S http apiKey"
  show "same_ledger w w' \<Longrightarrow> stays_shut w w'" for w w' by (rule shut_same)
  show "moves stays_shut (Blacklist_Add b)" for b by (rule shut_ban)
  show "st \<noteq> GrantActive \<Longrightarrow> moves stays_shut (RefreshGrant_SetStatus i st)" for i st by (rule shut_set_status)
  show "moves stays_shut (RefreshGrant_RevokeByStakeCredential sch)" for sch
    unfolding RefreshGrant_RevokeByStakeCredential_def by (rule shut.update_count, rule shut_grants_closed) simp
  show "moves stays_shut (RefreshGrant_RevokeChain i)" for i
    unfolding RefreshGrant_RevokeChain_def
    using shut_walk by (intro shut.tx) (simp add: moves_def del: revoke_walk.simps)
  show "moves stays_shut (IssuedToken_RevokeByStakeCredential sch at)" for sch at
    unfolding IssuedToken_RevokeByStakeCredential_def by (rule shut.update_count) (rule shut_tokens_revoked)
  show "moves stays_shut (IssuedToken_Revoke jti at)" for jti at
    unfolding IssuedToken_Revoke_def by (rule shut.update_rows) (rule shut_tokens_revoked)
  show "moves stays_shut (gated ?S sch (\<lambda>att sg. mint ?S (p att sg)))"
    if "\<And>att sg. mp_sch (p att sg) = sch \<and> mp_from (p att sg) = None" for sch p
    using that by (intro gated_shut holder_mint) blast
  show "moves stays_shut (gated ?S (g_sch g) (rotate_and_mint ?S g))" for g
    by (intro gated_shut holder_rotate)
qed

section \<open>Histories\<close>

text \<open>
  What can happen to the service over time: requests, one after the other, and anything else
  that leaves the ledger alone (time passes, workers run, the tables of the handlers that
  are not in \<open>request\<close> change).
\<close>

inductive serves :: "server \<Rightarrow> world \<Rightarrow> world \<Rightarrow> bool" for S w where
  start: "serves S w w"
| request: "serves S w v \<Longrightarrow> serves S w (snd (handle S req v))"
| outside: "serves S w v \<Longrightarrow> same_ledger v v' \<Longrightarrow> serves S w v'"

context service
begin

lemma history: "serves S w v \<Longrightarrow> R w v"
proof (induction rule: serves.induct)
  case (request v req)
  then show ?case using handle_moves[of req] trans by (auto simp: moves_def)
qed (blast intro: refl trans other)+

end

section \<open>Lemmas on the token endpoint\<close>

lemma revoke_walk_quiet:
  assumes "faults w = []"
  shows "faults (snd (revoke_walk fuel ids w)) = []
    \<and> (\<forall>e. fst (revoke_walk fuel ids w) = Inl e \<longrightarrow> e = ErrMsg ''chain fuel'')"
  using assms
proof (induction fuel ids arbitrary: w rule: revoke_walk.induct)
  case (3 fuel cur ids)
  let ?v = "grants_update (set_where (\<lambda>g. g_id g = cur) (set_grant GrantRevoked)) w"
  have "faults ?v = []" using 3(2) by simp
  then show ?case using 3(1)[of ?v "children (grants w) cur"] 3(2)
    by (simp add: bindE_def RefreshGrant_SetStatus_def update_rows_def modify_def exec_def query_def getE_def)
qed (simp_all add: returnE_def failE_def)

lemma RevokeChain_quiet:
  assumes "faults w = []" "parents_first {} (grants w)"
  shows "\<exists>w'. RefreshGrant_RevokeChain i w = (Inr (), w')"
proof -
  define m where "m = (\<lambda>w. revoke_walk (Suc (length (grants w))) [i] w)"
  have walk: "fst (m w) \<noteq> Inl (ErrMsg ''chain fuel'')"
    unfolding m_def using assms(2) by (intro revoke_walk_fuel[where visited = "[]" and start = i]) (auto simp: walk_inv_start)
  have "faults (snd (m w)) = [] \<and> (\<forall>e. fst (m w) = Inl e \<longrightarrow> e = ErrMsg ''chain fuel'')"
    unfolding m_def by (rule revoke_walk_quiet[OF assms(1)])
  moreover have "RefreshGrant_RevokeChain i = with_tx m" by (simp only: RefreshGrant_RevokeChain_def m_def)
  ultimately show ?thesis using walk assms(1)
    by (cases "m w"; cases "fst (m w)") (auto simp: with_tx_def)
qed

lemma refresh_dispatch:
  assumes "faults w = []" "find (\<lambda>g. g_id g = HashToken S (tq_refresh req)) (grants w) = Some g"
  shows "masked ErrInvalidGrant (RefreshGrant_Get (HashToken S (tq_refresh req))) w = (Inr g, w)"
  using assms by (simp add: masked_def tryE_def RefreshGrant_Get_def query_row_def exec_def returnE_def)

lemma Introspect_active:
  assumes "Introspect S token j w = (Inr r, w')" "ir_active r"
  shows "\<exists>t \<in> set (tokens w). t_status t = TokenActive \<and> clock w < t_expires t \<and> ir_exp r = unix_sec (t_expires t)
    \<and> (token = '''' \<longrightarrow> t_jti t = j)
    \<and> (token \<noteq> '''' \<longrightarrow> (\<exists>jwks x. sv_jwks S (published_keys w) = Inr jwks
         \<and> sv_verify S (clock w) token jwks = Some x \<and> vt_jti x = t_jti t \<and> ir_sub r = vt_sub x))"
proof -
  have ledger: "\<exists>t \<in> set (tokens v). t_jti t = jti \<and> t_status t = TokenActive \<and> clock v < t_expires t
      \<and> ir_exp r = unix_sec (t_expires t) \<and> ir_sub r = sub"
    if "introspect_ledger jti sub tier v = (Inr r, w')" for jti sub tier v
    using that assms(2)
    by (auto simp: introspect_ledger_def tryE_def IssuedToken_Get_def query_row_def exec_def returnE_def inactive_def
        bindE_def nowE_def getE_def split: if_splits option.splits dest!: find_Some_mem)
  show ?thesis
  proof (cases "token = ''''")
    case True
    then show ?thesis using assms(1) ledger[of j "''''" "''''" w] by (fastforce simp: Introspect_def)
  next
    case False
    then obtain jwks v where jw: "currentJWKS S w = (Inr jwks, v)"
      and rest: "(case sv_verify S (clock v) token jwks of None \<Rightarrow> returnE inactive
        | Some tok \<Rightarrow> introspect_ledger (vt_jti tok) (vt_sub tok)
            (case vt_tier tok of Some (JStr t) \<Rightarrow> t | _ \<Rightarrow> '''')) v = (Inr r, w')"
      using assms(1) by (auto simp: Introspect_def bindE_Inr nowE_Inr)
    have v: "tokens v = tokens w" "clock v = clock w" "sv_jwks S (published_keys w) = Inr jwks"
      using jw unfolding published_keys_def by (auto simp: currentJWKS_def Keys_PublicJWKSKeys_def IssuerKey_ListByStatus_def bindE_Inr query_Inr
          liftE_Inr returnE_Inr)
    obtain x where x: "sv_verify S (clock v) token jwks = Some x"
      using rest assms(2) by (cases "sv_verify S (clock v) token jwks") (auto simp: returnE_Inr inactive_def)
    then obtain t where "t \<in> set (tokens v)" "t_jti t = vt_jti x" "t_status t = TokenActive" "clock v < t_expires t"
        "ir_exp r = unix_sec (t_expires t)" "ir_sub r = vt_sub x"
      using ledger[of "vt_jti x" "vt_sub x" _ v] rest by fastforce
    then show ?thesis using x v False by (intro bexI[of _ t]) auto
  qed
qed

lemma dead_is_inactive:
  assumes "dead_token jti w" "Introspect S token j w = (Inr r, w')"
    and "token = '''' \<Longrightarrow> j = jti"
    and "\<And>jwks x. sv_verify S (clock w) token jwks = Some x \<Longrightarrow> token \<noteq> '''' \<Longrightarrow> vt_jti x = jti"
  shows "\<not> ir_active r"
proof
  assume "ir_active r"
  from Introspect_active[OF assms(2) this] obtain t where "t \<in> set (tokens w)" "t_status t = TokenActive" "t_jti t = jti"
    using assms(3,4) by metis
  then show False using assms(1) by (auto simp: dead_token_def)
qed

lemma holder_closed:
  "\<forall>t \<in> set (set_where (\<lambda>t. t_sch t = sch \<and> t_status t = TokenActive) (revoke_token at) ts).
     t_sch t = sch \<longrightarrow> t_status t \<noteq> TokenActive"
  "\<forall>g \<in> set (set_where (\<lambda>g. g_sch g = sch \<and> g_status g \<noteq> GrantRevoked) (set_grant GrantRevoked) gs).
     g_sch g = sch \<longrightarrow> g_status g \<noteq> GrantActive"
  unfolding mem_set_where Ball_def by (auto simp: revoke_token_def)

lemma adminRevokeMember_Reply:
  assumes "adminRevokeMember S ip sch su u w = (Inr (Reply n), w')"
  shows "shut_out sch w'"
proof -
  obtain v0 v1 v2 v3 v4 t g sb where run: "requireStepUp S u su w = (Inr (), v0)"
    "Blacklist_Add \<lparr>b_sch = sch, b_reason = Some ''admin revoke'', b_created = clock v0\<rparr> v0 = (Inr (), v1)"
    "IssuedToken_RevokeByStakeCredential sch (clock v0) v1 = (Inr t, v2)"
    "RefreshGrant_RevokeByStakeCredential sch v2 = (Inr g, v3)"
    "Sub_CancelByStakeCredential sch v3 = (Inr sb, v4)" "audit u ip ''member.revoke'' sch v4 = (Inr (), w')"
    using assms by (auto simp: adminRevokeMember_def or_refuse_def tryE_def returnE_Inr bindE_Inr nowE_Inr
        split: prod.splits sum.splits)
  have "b_sch ` set (banned v1) = insert sch (b_sch ` set (banned v0))"
    using Blacklist_Add_run(1)[of "\<lparr>b_sch = sch, b_reason = Some ''admin revoke'', b_created = clock v0\<rparr>" v0]
      run(2) Blacklist_Add_Inr_up[OF run(2)] by simp
  then have in_list: "sch \<in> b_sch ` set (banned v1)" by simp
  have v2: "banned v2 = banned v1" "tokens v2 = set_where (\<lambda>t. t_sch t = sch \<and> t_status t = TokenActive)
      (revoke_token (clock v0)) (tokens v1)"
    using run(3) by (simp_all add: IssuedToken_RevokeByStakeCredential_def update_count_Inr)
  have v3: "banned v3 = banned v2" "tokens v3 = tokens v2"
      "grants v3 = set_where (\<lambda>g. g_sch g = sch \<and> g_status g \<noteq> GrantRevoked) (set_grant GrantRevoked) (grants v2)"
    using run(4) by (simp_all add: RefreshGrant_RevokeByStakeCredential_def update_count_Inr)
  have "shut_out sch v3" unfolding shut_out_def v3 v2 by (intro conjI in_list holder_closed)
  moreover have "same_ledger v3 v4" "same_ledger v4 w'"
    using movesD[of same_ledger "Sub_CancelByStakeCredential sch", OF ledger_writes(12) run(5)]
      movesD[of same_ledger "audit u ip ''member.revoke'' sch", OF ledger_audit run(6)] by simp_all
  ultimately show ?thesis by (simp add: same_ledger_def shut_out_def)
qed

end
