(* ===== verification/Guarantees.thy ===== *)
theory Guarantees
  imports Serving
begin

text \<open>
  What the running service guarantees, over whole requests, whole histories and arbitrary
  interleavings of atomic steps: the theorems rest on the interpretations of \<open>service\<close> in
  \<open>Serving\<close> and on the inversion lemmas of \<open>Issuance\<close>. A sample deployment with one pool,
  one cached member, one client and one signing key shows that they are not vacuous.
\<close>

section \<open>A member of the sample deployment\<close>

definition sample_row :: stake_cache where
  "sample_row = \<lparr>sc_sch = sample_sch, sc_network = ''mainnet'', sc_epoch = 448, sc_pool = Some ''poola'',
     sc_stake = None, sc_rewards = None, sc_epochs = 0, sc_source = ''koios'', sc_fetched = 0\<rparr>"

definition sample_attestor :: attestor_config where
  "sample_attestor = \<lparr>ac_id = ''p'', ac_kind = KindPoolStake, ac_label = '''',
     ac_params = RawDoc (JObj [(''pool_id'', JStr ''poola''), (''network'', JStr ''mainnet'')]),
     ac_status = ''active'', ac_created = 0, ac_updated = 0\<rparr>"

definition sample_client :: oauth_client where
  "sample_client = \<lparr>cl_id = ''app'', cl_name = ''App'', cl_type = ClientPublic, cl_secret = None,
     cl_redirects = [''https://rp''], cl_audiences = [''rp''], cl_status = ''active'', cl_created = 0\<rparr>"

definition no_http :: http where "no_http req = Inl ErrDB"

definition member_server :: server where
  "member_server = wired sample_server no_http ''''"

definition member_world :: world where
  "member_world = sample_world\<lparr>scache := [sample_row], attestors := [sample_attestor],
     clients := [sample_client], ikeys := [sample_key ''k1'' KeyActive]\<rparr>"

text \<open>A world in which the sample credential is an active member.\<close>

definition admits :: "world \<Rightarrow> bool" where
  "admits w \<longleftrightarrow> faults w = [] \<and> clock w = 1700000000 * second \<and> scache w = [sample_row]
     \<and> attestors w = [sample_attestor] \<and> banned w = [] \<and> clients w = [sample_client]
     \<and> ikeys w = [sample_key ''k1'' KeyActive] \<and> tier_rules w = None"

lemma member_world_admits [simp]: "admits member_world"
  by (simp add: admits_def member_world_def sample_world_def empty_world_def)

lemma no_fault_run [simp]: "faults w = [] \<Longrightarrow> query f w = (Inr (f w), w)"
  "faults w = [] \<Longrightarrow> query_row g w = (case g w of None \<Rightarrow> (Inl ErrNotFound, w) | Some x \<Rightarrow> (Inr x, w))"
  by (auto simp: query_def exec_def getE_def query_row_def split: option.splits)

lemma sample_attestors:
  assumes "admits w"
  shows "attestorsFor no_http '''' w = (Inr [pool_attestor \<lparr>po_id = ''p'',
     po_params = \<lparr>pp_pool = ''poola'', pp_network = ''mainnet''\<rparr>, po_src = network_source no_http '''' ''mainnet''\<rparr>], w)"
proof -
  have "Attestor_ListActive w = (Inr [sample_attestor], w)"
    using assms unfolding Attestor_ListActive_def admits_def by (elim conjE) (simp add: order_attestors_def sample_attestor_def)
  then show ?thesis
    by (simp add: attestorsFor_def bindE_def liftE_def sample_attestor_def Registry_Build_def DefaultRegistry_def
      Registry_Register_def NewRegistry_def BuildPoolStake_def decode_pool_params_def json_string_def json_field_def
      srcFor_def pool_attestor_def to_lower_def char_lower_def)
qed

lemma sample_evaluate:
  assumes "admits w"
  shows "\<exists>res. evaluate member_server sample_sch w = (Inr res, w) \<and> representativeState res = StateActive"
proof -
  have w: "faults w = []" "clock w = 1700000000 * second" "scache w = [sample_row]" "banned w = []"
    using assms by (simp_all add: admits_def)
  have src: "network_source no_http '''' ''mainnet'' sample_sch w = (Inr (cachedToSnapshot sample_sch 448 sample_row), w)"
    using w by (simp add: network_source_def Let_def bindE_def nowE_def getE_def Cached_Snapshot_def sample_epoch
      tryE_def Cache_Get_def sample_row_def returnE_def)
  have st: "DeriveState (Some (cachedToSnapshot sample_sch 448 sample_row)) ''poola'' = StateActive"
    by (simp add: DeriveState_active cachedToSnapshot_def sample_row_def derefStr_def)
  show ?thesis
    using w st by (simp add: evaluate_def bindE_def Blacklist_Has_def member_server_def wired_def sample_attestors[OF assms]
      Evaluate_def PoolStake_Attest_def src returnE_def representativeState_def aggregate_def Let_def
      pool_attestation_def FactAnyHeld_def FactAnyActive_def FactTotalActiveStake_def boolStr_def update_conv'
      put_facts_def PoolFactKey_def anyStateActive_def has_suffix_def)
qed

lemma member_server_sel [simp]:
  "sv_cose member_server = sample_cose ''n''" "sv_keys member_server = sample_keys"
  "HashToken member_server t = hex_encode (bytes_of t)" "sv_codeTTL member_server = 60 * second"
  "sv_accessTTL member_server = 900 * second" "sv_refreshTTL member_server = 2400 * hour"
  "sv_sign member_server kid priv typ claims = Inr ''jwt''" "sv_sha256 member_server b = b"
  by (simp_all add: member_server_def wired_def HashToken_def)

lemma wired_sel [simp]:
  "sv_cose (wired S http k) = sv_cose S" "sv_keys (wired S http k) = sv_keys S"
  "HashToken (wired S http k) t = HashToken S t" "sv_codeTTL (wired S http k) = sv_codeTTL S"
  "sv_verify (wired S http k) = sv_verify S" "pkceS256 (wired S http k) v = pkceS256 S v"
  "sv_refreshTTL (wired S http k) = sv_refreshTTL S"
  by (simp_all add: wired_def HashToken_def pkceS256_def)

lemma sample_attest:
  assumes "admits w"
  shows "\<exists>a. attest member_server sample_sch w = (Inr a, w) \<and> oa_state a = StateActive"
proof -
  obtain res where res: "evaluate member_server sample_sch w = (Inr res, w)" "representativeState res = StateActive"
    using sample_evaluate[OF assms] by blast
  have "faults w = []" using assms by (simp add: admits_def)
  then show ?thesis
    by (simp add: attest_def bindE_def res Let_def firstPartyTier_def Issuer_GetTierRules_def tryE_def returnE_def
        split: option.split)
qed

lemma sample_signer:
  assumes "admits w"
  shows "Keys_ActiveSigner sample_keys w = (Inr \<lparr>sg_kid = ''k1'', sg_priv = [5]\<rparr>, w)"
  using assms unfolding admits_def
  by (elim conjE) (simp add: Keys_ActiveSigner_def bindE_def IssuerKey_ListByStatus_def keys_with_def order_by_def
      sample_key_def Let_def liftE_def returnE_def Cipher_Decrypt_def nonce_size_def sample_keys_def)

lemma bind_now: "bindE nowE f w = f (clock w) w"
  by (simp add: bindE_def nowE_def getE_def)

lemma authenticateGrant_ledger: "moves same_ledger (authenticateGrant S g req)"
  unfolding authenticateGrant_def by (auto split: option.splits intro!: ledger_rules ledger_reads)

lemma bind_refused:
  assumes "bindE m f v = (Inl e, w')" "moves same_ledger m"
    and "\<And>x u. f x u = (Inl e, w') \<Longrightarrow> same_ledger u w'"
  shows "same_ledger v w'"
proof (cases "m v")
  case (Pair q u)
  have vu: "same_ledger v u" using movesD[of same_ledger m, OF assms(2) Pair] .
  show ?thesis
  proof (cases q)
    case (Inl e')
    then show ?thesis using assms(1) Pair vu by (simp add: bindE_def)
  next
    case (Inr x)
    then have "same_ledger u w'" using assms(1,3) Pair by (simp add: bindE_def)
    then show ?thesis using vu ledger.trans by blast
  qed
qed

lemma refused_keeps_ledger:
  assumes "bindE (authenticateGrant (wired S http k) g req)
      (\<lambda>_. gated (wired S http k) sch (rotate_and_mint (wired S http k) g)) v = (Inl e, w')"
  shows "same_ledger v w'"
proof -
  let ?S = "wired S http k"
  have att: "moves same_ledger (attest ?S sch)"
    by (rule moves_mono[OF issuer.attest_cache]) (rule only_cache_ledger)
  have rot: "rotate_and_mint ?S g a sg u = (Inl e, w') \<Longrightarrow> same_ledger u w'" for a sg u
    unfolding rotate_and_mint_def by (auto dest!: with_tx_Inl simp: same_ledger_def)
  have sg: "bindE (Keys_ActiveSigner E) (rotate_and_mint ?S g a) u = (Inl e, w') \<Longrightarrow> same_ledger u w'" for E a u
    by (erule bind_refused[OF _ ledger_signer]) (rule rot)
  have gate: "gated ?S sch (rotate_and_mint ?S g) u = (Inl e, w') \<Longrightarrow> same_ledger u w'" for u
    unfolding gated_def
    by (erule bind_refused[OF _ att]) (auto simp: failE_def ledger.refl split: if_splits intro: sg)
  show ?thesis by (rule bind_refused[OF assms authenticateGrant_ledger gate])
qed

section \<open>Interleavings\<close>

text \<open>C12: Every request, whatever its parameters and whatever statements fail, is a sequence of
  atomic steps on the grant table: creations of grants that were not rotated from another,
  guarded rotations, closures and revocations, and steps that leave the table alone.\<close>

theorem requests_are_steps:
  "(unit_step (wired S http apiKey))\<^sup>*\<^sup>* w (snd (handle (wired S http apiKey) req w))"
  using lineage.handle_moves[of S http apiKey req] by (simp add: moves_def steps_def)

text \<open>C11: Under every interleaving of the atomic steps of all requests, and every pattern of
  database failures, the rotation chains stay well formed; so a refresh token and all those
  rotated from it never include two that are usable.\<close>

theorem one_refresh_token_per_family:
  assumes "(unit_step S)\<^sup>*\<^sup>* w v" "chains_ok (grants w)"
  shows "chains_ok (grants v) \<and> (\<forall>r. \<forall>g \<in> set (grants v). \<forall>h \<in> set (grants v).
     g_status g = GrantActive \<and> g_status h = GrantActive
     \<and> (r, g_id g) \<in> (grant_edge (grants v))\<^sup>* \<and> (r, g_id h) \<in> (grant_edge (grants v))\<^sup>* \<longrightarrow> g = h)"
proof -
  have "chains_ok (grants v)" using steps_chains[of S w v] assms by (simp add: steps_def)
  then show ?thesis using one_active_per_chain by blast
qed

lemma one_refresh_token_per_family_witness:
  "let v = snd (RefreshGrant_SetStatus ''g1'' GrantRevoked (empty_world\<lparr>grants := sample_chain\<rparr>))
   in chains_ok (grants v) \<and> map g_status (grants v) = [GrantRevoked, GrantActive]"
proof -
  let ?w = "empty_world\<lparr>grants := sample_chain\<rparr>"
  let ?v = "snd (RefreshGrant_SetStatus ''g1'' GrantRevoked ?w)"
  have "chains_ok (grants ?w)" by (simp add: chains_ok_def sample_chain_def sample_grant_def)
  moreover have "(unit_step S)\<^sup>*\<^sup>* ?w ?v" for S by (rule r_into_rtranclp, rule unit_step.close) simp
  ultimately have "chains_ok (grants ?v)" using one_refresh_token_per_family[of undefined ?w ?v] by blast
  moreover have "map g_status (grants ?v) = [GrantRevoked, GrantActive]"
    by (simp add: RefreshGrant_SetStatus_def update_rows_def modify_def exec_def empty_world_def faulty_def skip_def
        sample_chain_def sample_grant_def set_where_def)
  ultimately show ?thesis by (simp add: Let_def)
qed

lemma revoke_token_id [simp]: "t_jti (revoke_token at t) = t_jti t" "t_status (revoke_token at t) = TokenRevoked"
  by (simp_all add: revoke_token_def)

section \<open>Bans and revocations\<close>


definition step_up_world :: world where
  "step_up_world = empty_world\<lparr>nonces := [login_nonce NonceStepUp]\<rparr>"

lemma sample_ban:
  "\<exists>n w1. adminRevokeMember sample_server '''' ''aa'' sample_step_up sample_admin step_up_world = (Inr (Reply n), w1)"
proof -
  let ?w = step_up_world
  let ?v = "?w\<lparr>nonces := set_where (nonce_open ''n'') (nonce_stamp (clock ?w)) (nonces ?w)\<rparr>"
  have sel: "faults ?w = []" "clock ?w = 0" "u_key sample_admin = sample_sch"
    by (simp_all add: step_up_world_def empty_world_def sample_admin_def)
  have step: "Wallet_Verify (sample_cose ''n'') NonceStepUp ''00'' ''n'' '''' ?w = (Inr sample_sch, ?v)"
    by (rule sample_verify_run[where n = "login_nonce NonceStepUp"])
       (simp_all add: step_up_world_def login_nonce_def nonce_check_def empty_world_def second_def)
  show ?thesis using sel
    by (simp add: adminRevokeMember_def or_refuse_def tryE_def requireStepUp_def Admin_VerifyStepUp_def masked_def bindE_def
        sample_step_up_def step returnE_def guardE_def nowE_def getE_def Blacklist_Add_def upsert_row_def modify_def exec_def
        IssuedToken_RevokeByStakeCredential_def update_count_def RefreshGrant_RevokeByStakeCredential_def
        Sub_CancelByStakeCredential_def audit_def RandomID_def random_bytes_def ignoreE_run)
qed


text \<open>C15: Once an access token has been revoked, introspection of it answers inactive for ever,
  whether it is asked by its id or by the token itself.\<close>

theorem revoked_token_stays_inactive:
  assumes rev: "Revoke S token hint w = (Inr (), w1)"
    and jwt: "count_char (CHR ''.'') token = 2" "hint \<noteq> ''refresh_token''" "sv_jti S token = Some jti" "jti \<noteq> ''''"
    and issued: "jti \<in> t_jti ` set (tokens w)"
    and later: "serves (wired S http apiKey) w1 v"
    and ask: "Introspect S asked j v = (Inr r, v')"
    and same: "asked = '''' \<Longrightarrow> j = jti"
      "\<And>jwks x. asked \<noteq> '''' \<Longrightarrow> sv_verify S (clock v) asked jwks = Some x \<Longrightarrow> vt_jti x = jti"
  shows "\<not> ir_active r"
proof -
  have "token \<noteq> ''''" using jwt(1) by (auto simp: count_char_def)
  then have "IssuedToken_Revoke jti (clock w) w = (Inr (), w1)"
    using rev jwt by (simp add: Revoke_def Let_def bindE_def nowE_def getE_def)
  then have tok: "tokens w1 = set_where (\<lambda>t. t_jti t = jti) (revoke_token (clock w)) (tokens w)"
    by (simp add: IssuedToken_Revoke_def update_rows_Inr)
  have "dead_token jti w1" unfolding dead_token_def
  proof
    obtain t where "t \<in> set (tokens w)" "t_jti t = jti" using issued by auto
    then have "revoke_token (clock w) t \<in> set (tokens w1)" unfolding tok mem_set_where by blast
    then show "jti \<in> t_jti ` set (tokens w1)" using \<open>t_jti t = jti\<close> by (metis image_eqI revoke_token_id)
    show "\<forall>t \<in> set (tokens w1). t_jti t = jti \<longrightarrow> t_status t \<noteq> TokenActive"
      unfolding tok Ball_def mem_set_where by (auto simp: revoke_token_def)
  qed
  then have "dead_token jti v" using revocation.history[OF later] by (simp add: stays_dead_def)
  then show ?thesis using ask same by (rule dead_is_inactive)
qed

definition sample_token :: issued_token where
  "sample_token = \<lparr>t_jti = ''j'', t_sch = ''aa'', t_kind = TokenAccess, t_aud = ''rp'', t_kid = ''k1'', t_client = None,
     t_status = TokenActive, t_issued = 0, t_expires = 100, t_redeemed = None, t_revoked = None\<rparr>"

lemma Introspect_by_id: "\<exists>r v. Introspect S '''' j w = (Inr r, v)"
  by (simp add: Introspect_def introspect_ledger_def tryE_def bind_now returnE_def split: prod.split sum.split)

definition jwt_server :: server where
  "jwt_server = sample_server\<lparr>sv_jti := (\<lambda>_. Some ''j'')\<rparr>"

lemma revoked_token_stays_inactive_witness:
  "let w = empty_world\<lparr>tokens := [sample_token]\<rparr>;
       w1 = snd (Revoke jwt_server ''a.b.c'' '''' w)
   in (\<exists>r v. Introspect jwt_server '''' ''j'' w = (Inr r, v) \<and> ir_active r)
      \<and> (\<exists>r v. Introspect jwt_server '''' ''j'' w1 = (Inr r, v) \<and> \<not> ir_active r)"
proof -
  let ?w = "empty_world\<lparr>tokens := [sample_token]\<rparr>"
  let ?w1 = "snd (Revoke jwt_server ''a.b.c'' '''' ?w)"
  have w: "faults ?w = []" "tokens ?w = [sample_token]" "clock ?w = 0" by (simp_all add: empty_world_def)
  have "\<exists>r v. Introspect jwt_server '''' ''j'' ?w = (Inr r, v) \<and> ir_active r" using w
    by (simp add: Introspect_def introspect_ledger_def tryE_def IssuedToken_Get_def sample_token_def bind_now returnE_def)
  moreover have dots: "count_char (CHR ''.'') ''a.b.c'' = 2" by (simp add: count_char_def)
  have rev: "Revoke jwt_server ''a.b.c'' '''' ?w = (Inr (), ?w1)"
    by (simp add: Revoke_def dots jwt_server_def bind_now IssuedToken_Revoke_def update_rows_def modify_def exec_def w)
  obtain r v where ask: "Introspect jwt_server '''' ''j'' ?w1 = (Inr r, v)"
    using Introspect_by_id by blast
  have "serves (wired jwt_server no_http '''') ?w1 ?w1" by (rule serves.start)
  from revoked_token_stays_inactive[OF rev dots _ _ _ _ this ask, where jti = "''j''"]
  have "\<not> ir_active r" using w by (simp add: jwt_server_def sample_token_def)
  ultimately show ?thesis using ask by (auto simp: Let_def)
qed

text \<open>A positive introspection answer is backed by the ledger: a row of an active token that
  has not expired at that time, the one the caller named or the one the verified token
  names, and the answer carries its expiry and the token's subject.\<close>

theorem Introspect_active_sound:
  assumes "Introspect S token j w = (Inr r, w')" "ir_active r"
  shows "\<exists>t \<in> set (tokens w). t_status t = TokenActive \<and> clock w < t_expires t \<and> ir_exp r = unix_sec (t_expires t)
    \<and> (token = '''' \<longrightarrow> t_jti t = j)
    \<and> (token \<noteq> '''' \<longrightarrow> (\<exists>jwks x. sv_jwks S (published_keys w) = Inr jwks
         \<and> sv_verify S (clock w) token jwks = Some x \<and> vt_jti x = t_jti t \<and> ir_sub r = vt_sub x))"
  using assms by (rule Introspect_active)

lemma Introspect_active_sound_witness:
  "\<exists>r v. Introspect sample_server '''' ''j'' (empty_world\<lparr>tokens := [sample_token]\<rparr>) = (Inr r, v)
     \<and> ir_active r \<and> ir_exp r = unix_sec 100"
proof -
  let ?w = "empty_world\<lparr>tokens := [sample_token]\<rparr>"
  have w: "faults ?w = []" "tokens ?w = [sample_token]" "clock ?w = 0" by (simp_all add: empty_world_def)
  then obtain r v where run: "Introspect sample_server '''' ''j'' ?w = (Inr r, v)" "ir_active r"
    by (simp add: Introspect_def introspect_ledger_def tryE_def IssuedToken_Get_def sample_token_def bind_now returnE_def)
  have "t_expires t = 100" if "t \<in> set (tokens ?w)" for t using that by (simp add: sample_token_def)
  then show ?thesis using Introspect_active_sound[OF run] run by metis
qed

section \<open>Refresh tokens\<close>

lemma tokenRefresh_usable:
  assumes "faults w = []" "find (\<lambda>g. g_id g = HashToken S (tq_refresh req)) (grants w) = Some g"
    and "g_status g = GrantActive" "\<And>e. g_expires g = Some e \<Longrightarrow> clock w \<le> e"
  shows "tokenRefresh S req w
    = bindE (authenticateGrant S g req) (\<lambda>_. gated S (g_sch g) (rotate_and_mint S g)) w"
proof -
  have "\<not> (case g_expires g of None \<Rightarrow> False | Some e \<Rightarrow> after (clock w) e)"
    using assms(4) by (auto split: option.splits)
  then show ?thesis using assms(3) unfolding gated_def tokenRefresh_def
    by (simp add: bindE_def[of "masked _ _"] refresh_dispatch[OF assms(1,2)] bind_now)
qed


text \<open>C13: Presenting a refresh token that was already rotated is answered with invalid_grant, and
  revokes that grant and every grant rotated from it, however often, and no other.\<close>

theorem replay_revokes_family:
  assumes found: "find (\<lambda>g. g_id g = HashToken S (tq_refresh req)) (grants w) = Some g"
    and rotated: "g_status g = GrantRotated"
    and up: "faults w = []" and ok: "chains_ok (grants w)"
  shows "\<exists>w'. tokenRefresh S req w = (Inl ErrInvalidGrant, w')
    \<and> grants w' = map (\<lambda>h. if (g_id g, g_id h) \<in> (grant_edge (grants w))\<^sup>* then h\<lparr>g_status := GrantRevoked\<rparr> else h)
        (grants w)"
proof -
  have "parents_first {} (grants w)" using ok by (simp add: chains_ok_def)
  then obtain w' where run: "RefreshGrant_RevokeChain (g_id g) w = (Inr (), w')"
    using RevokeChain_quiet[OF up] by blast
  have "tokenRefresh S req w = (Inl ErrInvalidGrant, w')"
    by (simp add: tokenRefresh_def bindE_def refresh_dispatch[OF up found] nowE_def getE_def rotated ignoreE_run run failE_def
        del: RefreshGrant_RevokeChain_def)
  then show ?thesis using RevokeChain_Inr[OF run] by (simp add: set_where_def family_def set_grant_def)
qed

definition refresh_request :: "string \<Rightarrow> token_request" where
  "refresh_request token = \<lparr>tq_grant = ''refresh_token'', tq_code = '''', tq_client = ''app'', tq_secret = '''',
     tq_verifier = '''', tq_redirect = '''', tq_refresh = token, tq_device = ''''\<rparr>"

definition stored :: "string \<Rightarrow> string" where "stored token = hex_encode (bytes_of token)"

lemma stored_inj [simp]: "stored a = stored b \<longleftrightarrow> a = b"
  by (metis stored_def hex_decode_encode option.inject string_of_bytes_of)

definition rotated_once :: "refresh_grant list" where
  "rotated_once = [sample_grant (stored ''a'') None GrantRotated, sample_grant (stored ''b'') (Some (stored ''a'')) GrantActive]"

lemma replay_revokes_family_witness:
  "\<exists>w'. tokenRefresh sample_server (refresh_request ''a'') (empty_world\<lparr>grants := rotated_once\<rparr>) = (Inl ErrInvalidGrant, w')
     \<and> map g_status (grants w') = [GrantRevoked, GrantRevoked]"
proof -
  let ?w = "empty_world\<lparr>grants := rotated_once\<rparr>"
  let ?g = "sample_grant (stored ''a'') None GrantRotated"
  have ok: "chains_ok (grants ?w)" by (auto simp: chains_ok_def rotated_once_def sample_grant_def)
  have g: "find (\<lambda>g. g_id g = HashToken sample_server (tq_refresh (refresh_request ''a''))) (grants ?w) = Some ?g"
    "g_status ?g = GrantRotated" "faults ?w = []"
    by (simp_all add: rotated_once_def sample_grant_def refresh_request_def stored_def empty_world_def)
  have "(stored ''a'', stored ''b'') \<in> grant_edge (grants ?w)"
    by (simp add: grant_edge_def rotated_once_def sample_grant_def)
  then have "(stored ''a'', stored ''b'') \<in> (grant_edge (grants ?w))\<^sup>*" by blast
  then show ?thesis using replay_revokes_family[OF g ok]
    by (auto simp: rotated_once_def sample_grant_def)
qed

text \<open>Revoking a token that was already rotated closes that row only: the grant rotated from it
  stays usable, and a later replay of the revoked token, which would have revoked the whole
  family, no longer changes anything.\<close>

theorem revoking_rotated_disarms_replay:
  assumes found: "find (\<lambda>g. g_id g = HashToken S token) (grants w) = Some g" and rotated: "g_status g = GrantRotated"
    and up: "faults w = []" and tok: "token \<noteq> ''''" "tq_refresh req = token"
  shows "\<exists>w1. Revoke S token ''refresh_token'' w = (Inr (), w1)
    \<and> grants w1 = set_where (\<lambda>h. g_id h = HashToken S token) (set_grant GrantRevoked) (grants w)
    \<and> tokenRefresh S req w1 = (Inl ErrInvalidGrant, w1)"
proof -
  have id: "g_id g = HashToken S token" using find_Some_mem[OF found] by simp
  let ?w1 = "grants_update (set_where (\<lambda>h. g_id h = HashToken S token) (set_grant GrantRevoked)) w"
  have run: "Revoke S token ''refresh_token'' w = (Inr (), ?w1)" using up tok(1)
    by (simp add: Revoke_def Let_def tryE_def RefreshGrant_Get_def found id RefreshGrant_SetStatus_def update_rows_def
        modify_def exec_def)
  have first: "find (\<lambda>h. g_id h = i) (set_where P (set_grant st) gs)
      = map_option (\<lambda>h. if P h then set_grant st h else h) (find (\<lambda>h. g_id h = i) gs)" for i P st gs
    by (induction gs) (auto simp: set_where_def)
  have now: "find (\<lambda>h. g_id h = HashToken S (tq_refresh req)) (grants ?w1) = Some (set_grant GrantRevoked g)"
    by (simp add: tok(2) first found id)
  have "faults ?w1 = []" using up by simp
  then have "tokenRefresh S req ?w1 = (Inl ErrInvalidGrant, ?w1)"
    by (simp add: tokenRefresh_def bindE_def refresh_dispatch[OF _ now] nowE_def getE_def failE_def)
  then show ?thesis using run by (intro exI[of _ ?w1]) simp
qed

text \<open>C18: A refresh that is refused although the grant is active and unexpired (wrong secret or
  device, membership lost, no signing key, a lost race, a database failure) leaves every
  grant and every token as it was, so the member can try again with the same token.\<close>

theorem refused_refresh_keeps_grant:
  assumes run: "tokenRefresh (wired S http apiKey) req w = (Inl e, w')"
    and found: "find (\<lambda>g. g_id g = HashToken S (tq_refresh req)) (grants w) = Some g"
    and usable: "g_status g = GrantActive" "\<And>t. g_expires g = Some t \<Longrightarrow> clock w \<le> t"
  shows "grants w' = grants w \<and> tokens w' = tokens w"
proof -
  let ?S = "wired S http apiKey"
  obtain q v where get: "masked ErrInvalidGrant (RefreshGrant_Get (HashToken S (tq_refresh req))) w = (q, v)" by force
  have wv: "same_ledger w v"
    using movesD[of same_ledger _ w q v, OF ledger_masked[OF ledger_reads(3)] get] .
  show ?thesis
  proof (cases q)
    case (Inl e')
    then have "w' = v" using run get by (simp add: tokenRefresh_def bindE_def)
    then show ?thesis using wv by (simp add: same_ledger_def)
  next
    case (Inr g')
    then have g: "g' = g" "clock v = clock w"
      using get found by (auto simp: masked_Inr RefreshGrant_Get_def query_row_Inr)
    have "tokenRefresh ?S req w = bindE nowE (\<lambda>now.
        if (case g_expires g of None \<Rightarrow> False | Some e \<Rightarrow> after now e) then
          bindE (ignoreE (RefreshGrant_SetStatus (g_id g) GrantExpired)) (\<lambda>_. failE ErrInvalidGrant)
        else bindE (authenticateGrant ?S g req) (\<lambda>_. gated ?S (g_sch g) (rotate_and_mint ?S g))) v"
      using get Inr g(1) usable(1) unfolding gated_def by (simp add: tokenRefresh_def bindE_def[of "masked _ _"])
    moreover have "\<not> (case g_expires g of None \<Rightarrow> False | Some e \<Rightarrow> after (clock v) e)"
      using usable(2) g(2) by (auto split: option.splits)
    ultimately have rest: "bindE (authenticateGrant ?S g req) (\<lambda>_. gated ?S (g_sch g) (rotate_and_mint ?S g)) v = (Inl e, w')"
      using run by (simp add: bind_now)
    have "same_ledger v w'" using rest by (rule refused_keeps_ledger)
    then show ?thesis using wv by (simp add: same_ledger_def)
  qed
qed

lemma refused_refresh_keeps_grant_witness:
  "\<exists>w'. tokenRefresh (wired sample_server no_http '''') (refresh_request ''b'') (empty_world\<lparr>grants := rotated_once\<rparr>)
     = (Inl ErrNotEligible, w') \<and> map g_status (grants w') = [GrantRotated, GrantActive]"
proof -
  let ?w = "empty_world\<lparr>grants := rotated_once\<rparr>"
  let ?S = "wired sample_server no_http ''''"
  let ?g = "sample_grant (stored ''b'') (Some (stored ''a'')) GrantActive"
  have w: "faults ?w = []" "attestors ?w = []" "banned ?w = []" "clock ?w = 0" by (simp_all add: empty_world_def)
  have g: "find (\<lambda>g. g_id g = HashToken ?S (tq_refresh (refresh_request ''b''))) (grants ?w) = Some ?g"
    by (simp add: rotated_once_def sample_grant_def refresh_request_def stored_def[symmetric])
  have ev: "evaluate ?S sch ?w = (Inr (aggregate \<lparr>ar_atts = [], ar_held = False, ar_facts = []\<rparr>), ?w)" for sch
    using w by (simp add: evaluate_def bindE_def Blacklist_Has_def wired_def attestorsFor_def Attestor_ListActive_def
        order_attestors_def liftE_def Evaluate_def returnE_def)
  have "representativeState (aggregate \<lparr>ar_atts = [], ar_held = False, ar_facts = []\<rparr>) = StateNone"
    by (simp add: representativeState_def aggregate_def Let_def FactAnyHeld_def FactAnyActive_def FactTotalActiveStake_def
        boolStr_def anyStateActive_def update_conv' has_suffix_def)
  then have att: "\<exists>a. attest ?S sch ?w = (Inr a, ?w) \<and> oa_state a = StateNone" for sch
    by (simp add: attest_def bindE_def ev Let_def returnE_def)
  have sel: "g_status ?g = GrantActive" "g_ctype ?g = ClientPublic" "g_device ?g = []" "g_expires ?g = Some 1000"
    by (simp_all add: sample_grant_def)
  have auth: "authenticateGrant ?S ?g (refresh_request ''b'') ?w = (Inr (), ?w)"
    using sel by (simp add: authenticateGrant_def bindE_def returnE_def)
  have run: "tokenRefresh ?S (refresh_request ''b'') ?w = (Inl ErrNotEligible, ?w)"
    using att[of "g_sch ?g"] sel(4) w(4)
    by (subst tokenRefresh_usable[OF w(1) g sel(1)]) (auto simp: bindE_def auth gated_def failE_def)
  have "clock ?w \<le> t" if "g_expires ?g = Some t" for t using that sel(4) w(4) by simp
  have "find (\<lambda>g. g_id g = HashToken sample_server (tq_refresh (refresh_request ''b''))) (grants ?w) = Some ?g"
    using g by (simp only: wired_sel)
  from refused_refresh_keeps_grant[OF run this sel(1) \<open>\<And>t. g_expires ?g = Some t \<Longrightarrow> clock ?w \<le> t\<close>]
  show ?thesis using run by (intro exI[of _ ?w]) (simp add: rotated_once_def sample_grant_def)
qed

section \<open>Authorization and exchange\<close>

text \<open>An authorization code is issued only for a registered, active client with a registered
  redirect URI and an allowed audience, with a PKCE challenge, to the holder of the key that
  signed the nonce, who is not banned and holds a credential; exactly one code is stored,
  under its hash and bound to all of these, and no token or grant changes.\<close>

theorem Authorize_sound:
  assumes "Authorize (wired S http apiKey) req w = (Inr code, w')"
  shows "\<exists>c sch res v v'. find (\<lambda>c. cl_id c = rq_client req) (clients w) = Some c \<and> cl_status c = ''active''
    \<and> rq_redirect req \<in> set (cl_redirects c) \<and> (rq_aud req = '''' \<or> rq_aud req \<in> set (cl_audiences c))
    \<and> rq_challenge req \<noteq> ''''
    \<and> Wallet_Verify (sv_cose S) NonceIssue (rq_cosekey req) (rq_nonce req) (rq_signature req) (skip w) = (Inr sch, v)
    \<and> evaluate (wired S http apiKey) sch v = (Inr res, v') \<and> representativeState res \<noteq> StateNone
    \<and> sch \<notin> b_sch ` set (banned w)
    \<and> codes w' = codes w @ [\<lparr>c_code = HashToken S code, c_client = rq_client req, c_sch = sch,
         c_aud = rq_aud req, c_scope = rq_scope req, c_redirect = rq_redirect req,
         c_challenge = Some (rq_challenge req), c_expires = clock w + sv_codeTTL S, c_consumed = None,
         c_created = clock w\<rparr>]
    \<and> HashToken S code \<notin> c_code ` set (codes w) \<and> clients w' = clients w
    \<and> tokens w' = tokens w \<and> grants w' = grants w"
  using issuer.Authorize_Inr[OF assms] by (simp only: wired_sel)

definition sample_request :: authorize_request where
  "sample_request = \<lparr>rq_client = ''app'', rq_redirect = ''https://rp'', rq_state = ''s'', rq_aud = ''rp'', rq_scope = [],
     rq_nonce = ''n'', rq_cosekey = ''00'', rq_signature = '''', rq_challenge = b64url (bytes_of ''v''), rq_device = ''''\<rparr>"

definition login_member :: world where
  "login_member = member_world\<lparr>nonces := [login_nonce NonceIssue]\<rparr>"

lemma login_member_admits: "admits (login_member\<lparr>nonces := ns\<rparr>)"
  by (simp add: admits_def login_member_def member_world_def sample_world_def empty_world_def)

lemma admits_update [simp]:
  "admits (w\<lparr>nonces := ns\<rparr>) = admits w" "admits (w\<lparr>codes := cs\<rparr>) = admits w" "admits (w\<lparr>draws := d\<rparr>) = admits w"
  "admits (w\<lparr>grants := gs\<rparr>) = admits w" "admits (w\<lparr>tokens := ts\<rparr>) = admits w"
  by (simp_all add: admits_def)

lemma sample_authorize:
  "\<exists>code ns. Authorize member_server sample_request login_member
     = (Inr code, login_member\<lparr>nonces := ns, draws := 32, codes := [\<lparr>c_code = stored code, c_client = ''app'',
         c_sch = sample_sch, c_aud = ''rp'', c_scope = [], c_redirect = ''https://rp'',
         c_challenge = Some (b64url (bytes_of ''v'')), c_expires = 1700000060 * second, c_consumed = None,
         c_created = 1700000000 * second\<rparr>]\<rparr>)"
proof -
  let ?w = login_member
  have sel: "faults ?w = []" "clock ?w = 1700000000 * second" "clients ?w = [sample_client]" "codes ?w = []" "draws ?w = 0"
    by (simp_all add: login_member_def member_world_def sample_world_def empty_world_def)
  obtain ns where wal: "Wallet_Verify (sample_cose ''n'') NonceIssue ''00'' ''n'' '''' ?w = (Inr sample_sch, ?w\<lparr>nonces := ns\<rparr>)"
    using sample_verify_run[of ?w "login_nonce NonceIssue" NonceIssue] sel
    by (simp add: login_member_def login_nonce_def nonce_check_def second_def)
  have b64: "b64url (bytes_of ''v'') \<noteq> ''''" by (simp add: bytes_of_def)
  obtain res where ev: "evaluate member_server sample_sch (?w\<lparr>nonces := ns\<rparr>) = (Inr res, ?w\<lparr>nonces := ns\<rparr>)"
      "representativeState res = StateActive"
    using sample_evaluate[OF login_member_admits] by blast
  have val: "ValidateClient ''app'' ''https://rp'' ''rp'' ?w = (Inr sample_client, ?w)"
    by (simp add: ValidateClient_def tryE_def OAuthClient_Get_def sel sample_client_def returnE_def)
  show ?thesis
    by (simp add: Authorize_def sample_request_def bindE_def val masked_def tryE_def wal returnE_def ev RandomToken_def
        random_bytes_def nowE_def getE_def AuthCode_Create_def insert_row_def exec_def sel b64 stored_def second_def)
       (rule exI[of _ ns], rule world.equality, simp_all add: sel)
qed

lemma Authorize_sound_witness:
  "\<exists>code w'. Authorize (wired sample_server no_http '''') sample_request login_member = (Inr code, w')
     \<and> length (codes w') = 1 \<and> sample_sch \<notin> b_sch ` set (banned login_member)"
proof -
  obtain code w' where run: "Authorize (wired sample_server no_http '''') sample_request login_member = (Inr code, w')"
    using sample_authorize unfolding member_server_def by blast
  have "codes login_member = []" "banned login_member = []"
    by (simp_all add: login_member_def member_world_def sample_world_def empty_world_def)
  then show ?thesis using Authorize_sound[OF run] run by auto
qed

text \<open>C17: A code is exchanged only with the verifier whose hash is its PKCE challenge, by the client
  and for the redirect URI it was issued to, unused and unexpired, with the client's secret
  if it has one, and while its holder still is a member and not banned: the membership check
  of this very exchange, made after the code was consumed, finds a state other than none, and
  what it finds is what the token is minted with. One access token and
  one root refresh grant are added for that holder, and every row of the code is consumed.\<close>

theorem code_exchange_sound:
  assumes "tokenAuthCode (wired S http apiKey) req w = (Inr r, w')"
  shows "\<exists>code client p jti dev. find (\<lambda>c. c_code c = HashToken S (tq_code req)) (codes w) = Some code
    \<and> c_consumed code = None \<and> clock w \<le> c_expires code
    \<and> c_client code = tq_client req \<and> c_redirect code = tq_redirect req
    \<and> tq_verifier req \<noteq> '''' \<and> c_challenge code = Some (pkceS256 S (tq_verifier req))
    \<and> find (\<lambda>c. cl_id c = tq_client req) (clients w) = Some client
    \<and> (cl_type client = ClientConfidential \<longrightarrow> cl_secret client = Some (HashToken S (tq_secret req)))
    \<and> c_sch code \<notin> b_sch ` set (banned w)
    \<and> (\<exists>n v'. attest (wired S http apiKey) (c_sch code) (w\<lparr>codes := codes w', faults := drop n (faults w)\<rparr>)
           = (Inr (mp_att p), v')) \<and> oa_state (mp_att p) \<noteq> StateNone
    \<and> mp_sch p = c_sch code \<and> mp_aud p = c_aud code \<and> mp_from p = None
    \<and> tokens w' = tokens w @ [minted_token (wired S http apiKey) p (clock w) jti]
    \<and> grants w' = grants w @ [minted_grant (wired S http apiKey) p (clock w) dev (tr_refresh r)]
    \<and> (\<forall>c \<in> set (codes w'). c_code c = HashToken S (tq_code req) \<longrightarrow> c_consumed c \<noteq> None)"
proof -
  let ?S = "wired S http apiKey"
  obtain code client p n v' jti dev where
    found: "find (\<lambda>c. c_code c = HashToken S (tq_code req)) (codes w) = Some code"
      "code_check (clock w) code = Inr ()" "c_client code = tq_client req" "c_redirect code = tq_redirect req"
      "find (\<lambda>c. cl_id c = tq_client req) (clients w) = Some client"
      "authenticateClient ?S client code req = Inr ()"
    and att: "attest ?S (c_sch code) (w\<lparr>codes := codes w', faults := drop n (faults w)\<rparr>) = (Inr (mp_att p), v')"
      "oa_state (mp_att p) \<noteq> StateNone" "c_sch code \<notin> b_sch ` set (banned w)"
    and p: "mp_sch p = c_sch code" "mp_aud p = c_aud code" "mp_from p = None"
    and rows: "tokens w' = tokens w @ [minted_token ?S p (clock w) jti]"
      "grants w' = grants w @ [minted_grant ?S p (clock w) dev (tr_refresh r)]"
      "codes w' = set_where (code_open (HashToken S (tq_code req))) (code_stamp (clock w)) (codes w)"
    using issuer.tokenAuthCode_Inr[OF assms] unfolding wired_sel by (elim exE conjE) (rule that; simp)
  have pkce: "tq_verifier req \<noteq> ''''" "c_challenge code = Some (pkceS256 S (tq_verifier req))"
    "cl_type client = ClientConfidential \<longrightarrow> cl_secret client = Some (HashToken S (tq_secret req))"
    using found(6) by (auto simp: authenticateClient_def split: if_splits)
  have used: "\<forall>c \<in> set (codes w'). c_code c = HashToken S (tq_code req) \<longrightarrow> c_consumed c \<noteq> None"
    unfolding rows(3) Ball_def mem_set_where code_open_def code_stamp_def by auto
  show ?thesis
    by (intro exI[of _ code] exI[of _ client] exI[of _ p] exI[of _ jti] exI[of _ dev] conjI exI[of _ n]
        exI[of _ v'] found pkce used att p rows) (use found(2) in \<open>auto simp: code_check_Inr\<close>)
qed

definition sample_code_row :: auth_code where
  "sample_code_row = \<lparr>c_code = stored ''c'', c_client = ''app'', c_sch = sample_sch, c_aud = ''rp'', c_scope = [],
     c_redirect = ''https://rp'', c_challenge = Some (b64url (bytes_of ''v'')), c_expires = 1700000060 * second,
     c_consumed = None, c_created = 1700000000 * second\<rparr>"

definition exchange_request :: token_request where
  "exchange_request = \<lparr>tq_grant = ''authorization_code'', tq_code = ''c'', tq_client = ''app'', tq_secret = '''',
     tq_verifier = ''v'', tq_redirect = ''https://rp'', tq_refresh = '''', tq_device = ''''\<rparr>"

definition exchange_world :: world where
  "exchange_world = member_world\<lparr>codes := [sample_code_row]\<rparr>"

lemma sample_hex [simp]: "hex_decode sample_sch = Some (replicate 28 7)"
  by (simp add: sample_sch_def del: replicate.simps)

lemma sample_mint:
  assumes "faults w = []" "tokens w = []" "stored (b64url (map (entropy w) [draws w + 16 ..< draws w + 48])) \<notin> g_id ` set (grants w)"
    and "mp_sch p = sample_sch" "mp_device p = ''''"
  shows "\<exists>r v. mint member_server p w = (Inr r, v) \<and> faults v = []"
  using assms
  by (simp add: mint_def nowE_def getE_def Let_def bindE_def RandomID_def random_bytes_def returnE_def liftE_def bound_device_def
      SignAccessToken_def IssuedToken_Create_def insert_row_def exec_def RandomToken_def RefreshGrant_Create_def
      stored_def[symmetric] add.commute)

lemma sample_exchange: "\<exists>r v. tokenAuthCode member_server exchange_request exchange_world = (Inr r, v)"
proof -
  let ?w = exchange_world
  have sel: "faults ?w = []" "clock ?w = 1700000000 * second" "clients ?w = [sample_client]" "codes ?w = [sample_code_row]"
    "tokens ?w = []" "grants ?w = []"
    by (simp_all add: exchange_world_def member_world_def sample_world_def empty_world_def)
  obtain cs where cons: "AuthCode_Consume (stored ''c'') (clock ?w) ?w = (Inr sample_code_row, ?w\<lparr>codes := cs\<rparr>)"
    using AuthCode_Consume_fresh[of ?w "stored ''c''" sample_code_row "clock ?w"] sel
    by (simp add: sample_code_row_def code_check_def second_def)
  have adm: "admits (?w\<lparr>codes := cs\<rparr>)" by (simp add: exchange_world_def)
  obtain a where att: "attest member_server sample_sch (?w\<lparr>codes := cs\<rparr>) = (Inr a, ?w\<lparr>codes := cs\<rparr>)" "oa_state a = StateActive"
    using sample_attest[OF adm] by blast
  have auth: "authenticateClient member_server sample_client sample_code_row exchange_request = Inr ()"
    by (simp add: authenticateClient_def sample_client_def sample_code_row_def exchange_request_def pkceS256_def)
  let ?p = "\<lparr>mp_sch = sample_sch, mp_aud = ''rp'', mp_ctype = ClientPublic, mp_client = Some ''app'', mp_att = a,
      mp_device = '''', mp_from = None, mp_signer = \<lparr>sg_kid = ''k1'', sg_priv = [5]\<rparr>\<rparr>"
  obtain r v where mi: "mint member_server ?p (?w\<lparr>codes := cs\<rparr>) = (Inr r, v)"
    using sample_mint[of "?w\<lparr>codes := cs\<rparr>" ?p] sel by auto
  have row: "c_client sample_code_row = ''app''" "c_redirect sample_code_row = ''https://rp''" "c_sch sample_code_row = sample_sch"
    "c_aud sample_code_row = ''rp''" by (simp_all add: sample_code_row_def)
  have cl: "cl_id sample_client = ''app''" "cl_type sample_client = ClientPublic" by (simp_all add: sample_client_def)
  have rq: "tq_code exchange_request = ''c''" "tq_client exchange_request = ''app''"
    "tq_redirect exchange_request = ''https://rp''" "tq_device exchange_request = ''''" by (simp_all add: exchange_request_def)
  have steps: "masked ErrInvalidGrant (AuthCode_Consume (stored ''c'') (clock ?w)) ?w = (Inr sample_code_row, ?w\<lparr>codes := cs\<rparr>)"
      "masked ErrInvalidClientCreds (OAuthClient_Get ''app'') (?w\<lparr>codes := cs\<rparr>) = (Inr sample_client, ?w\<lparr>codes := cs\<rparr>)"
    using cons sel cl by (simp_all add: masked_Inr OAuthClient_Get_def)
  have "tokenAuthCode member_server exchange_request ?w = (Inr r, v)"
    by (simp add: tokenAuthCode_def bindE_def nowE_def getE_def rq stored_def[symmetric] steps row liftE_def auth att
        sample_signer[OF adm] cl mi)
  then show ?thesis by blast
qed

lemma code_exchange_sound_witness:
  "\<exists>r w'. tokenAuthCode (wired sample_server no_http '''') exchange_request exchange_world = (Inr r, w')
     \<and> length (tokens w') = 1 \<and> (\<forall>c \<in> set (codes w'). c_code c = stored ''c'' \<longrightarrow> c_consumed c \<noteq> None)"
proof -
  obtain r w' where run: "tokenAuthCode (wired sample_server no_http '''') exchange_request exchange_world = (Inr r, w')"
    using sample_exchange unfolding member_server_def by blast
  have "tokens exchange_world = []" "HashToken sample_server (tq_code exchange_request) = stored ''c''"
    by (simp_all add: exchange_world_def member_world_def sample_world_def empty_world_def exchange_request_def stored_def)
  then show ?thesis using code_exchange_sound[OF run] run by auto
qed

text \<open>C16: A refresh succeeds only for an active, unexpired grant, with the secret of a confidential
  client or the bound device key of a public one, while its holder still is a member and not
  banned: the membership check of this very refresh, on the tables as they are, finds a state
  other than none, and what it finds is what the token is minted with. The grant becomes rotated, its successor names it and inherits holder and
  audience, and one access token is added for that holder.\<close>

theorem refresh_sound:
  assumes "tokenRefresh (wired S http apiKey) req w = (Inr r, w')"
  shows "\<exists>g p jti dev. find (\<lambda>g. g_id g = HashToken S (tq_refresh req)) (grants w) = Some g
    \<and> g_status g = GrantActive \<and> (\<forall>e. g_expires g = Some e \<longrightarrow> clock w \<le> e)
    \<and> (g_ctype g = ClientConfidential \<longrightarrow> (\<exists>cid client. g_client g = Some cid
         \<and> find (\<lambda>c. cl_id c = cid) (clients w) = Some client
         \<and> cl_secret client = Some (HashToken S (tq_secret req))))
    \<and> (g_ctype g = ClientPublic \<longrightarrow> g_device g \<noteq> [] \<longrightarrow> hex_decode (tq_device req) = Some (g_device g))
    \<and> g_sch g \<notin> b_sch ` set (banned w)
    \<and> (\<exists>n v'. attest (wired S http apiKey) (g_sch g) (w\<lparr>faults := drop n (faults w)\<rparr>) = (Inr (mp_att p), v'))
    \<and> oa_state (mp_att p) \<noteq> StateNone
    \<and> mp_sch p = g_sch g \<and> mp_aud p = g_aud g \<and> mp_from p = Some (g_id g)
    \<and> tokens w' = tokens w @ [minted_token (wired S http apiKey) p (clock w) jti]
    \<and> grants w' = set_where (grant_open (g_id g)) (set_grant GrantRotated) (grants w)
        @ [minted_grant (wired S http apiKey) p (clock w) dev (tr_refresh r)]"
  using issuer.tokenRefresh_Inr[OF assms] unfolding wired_sel by blast


definition sample_refresh :: refresh_grant where
  "sample_refresh = (sample_grant (stored ''r'') None GrantActive)\<lparr>g_sch := sample_sch, g_expires := None\<rparr>"

lemma sample_rotation:
  "\<exists>r v. tokenRefresh member_server (refresh_request ''r'') (member_world\<lparr>grants := [sample_refresh]\<rparr>) = (Inr r, v)"
proof -
  let ?w = "member_world\<lparr>grants := [sample_refresh]\<rparr>"
  let ?v = "?w\<lparr>grants := set_where (grant_open (stored ''r'')) (set_grant GrantRotated) [sample_refresh]\<rparr>"
  have sel: "faults ?w = []" "tokens ?w = []" "draws ?w = 0" "clock ?w = 1700000000 * second" "grants ?w = [sample_refresh]"
    "entropy ?w = (\<lambda>i. of_nat i)"
    by (simp_all add: member_world_def sample_world_def empty_world_def)
  have g: "g_id sample_refresh = stored ''r''" "g_sch sample_refresh = sample_sch" "g_status sample_refresh = GrantActive"
    "g_device sample_refresh = []" "g_ctype sample_refresh = ClientPublic" "g_expires sample_refresh = None"
    by (simp_all add: sample_refresh_def sample_grant_def)
  have found: "find (\<lambda>g. g_id g = HashToken member_server (tq_refresh (refresh_request ''r''))) (grants ?w) = Some sample_refresh"
    by (simp add: g refresh_request_def stored_def)
  have adm: "admits ?w" by simp
  obtain a where att: "attest member_server sample_sch ?w = (Inr a, ?w)" "oa_state a = StateActive"
    using sample_attest[OF adm] by blast
  let ?p = "\<lparr>mp_sch = sample_sch, mp_aud = g_aud sample_refresh, mp_ctype = ClientPublic, mp_client = g_client sample_refresh,
      mp_att = a, mp_device = '''', mp_from = Some (stored ''r''), mp_signer = \<lparr>sg_kid = ''k1'', sg_priv = [5]\<rparr>\<rparr>"
  have "length (b64url (map (entropy ?v) [draws ?v + 16 ..< draws ?v + 48])) \<noteq> length ''r''"
    by (simp add: member_world_def sample_world_def empty_world_def upt_rec)
  then have new: "b64url (map (entropy ?v) [draws ?v + 16 ..< draws ?v + 48]) \<noteq> ''r''" by metis
  have "stored (b64url (map (entropy ?v) [draws ?v + 16 ..< draws ?v + 48])) \<notin> g_id ` set (grants ?v)"
    using new by (simp add: set_where_def g)
  then obtain r v where mi: "mint member_server ?p ?v = (Inr r, v)" "faults v = []"
    using sample_mint[of ?v ?p] sel by auto
  have auth: "authenticateGrant member_server sample_refresh (refresh_request ''r'') ?w = (Inr (), ?w)"
    by (simp add: authenticateGrant_def bindE_def returnE_def g)
  have "RefreshGrant_RotateIfActive (stored ''r'') ?w = (Inr True, ?v)"
    using sel(1) by (simp add: RefreshGrant_RotateIfActive_def update_count_def bindE_def exec_def returnE_def g grant_open_def)
  then have "rotate_and_mint member_server sample_refresh a \<lparr>sg_kid = ''k1'', sg_priv = [5]\<rparr> ?w = (Inr r, v)"
    using mi sel(1) by (simp add: rotate_and_mint_def with_tx_def bindE_def g)
  then have "tokenRefresh member_server (refresh_request ''r'') ?w = (Inr r, v)"
    by (subst tokenRefresh_usable[OF sel(1) found g(3)])
       (simp_all add: g bindE_def auth gated_def att sample_signer[OF adm])
  then show ?thesis by blast
qed

lemma refresh_sound_witness:
  "\<exists>r w'. tokenRefresh (wired sample_server no_http '''') (refresh_request ''r'') (member_world\<lparr>grants := [sample_refresh]\<rparr>)
     = (Inr r, w') \<and> length (grants w') = 2"
proof -
  obtain r w' where run: "tokenRefresh (wired sample_server no_http '''') (refresh_request ''r'')
      (member_world\<lparr>grants := [sample_refresh]\<rparr>) = (Inr r, w')"
    using sample_rotation unfolding member_server_def by blast
  show ?thesis using refresh_sound[OF run] run by auto
qed

end
