(* ===== verification/Telegram.thy ===== *)
theory Telegram
  imports Push Guarantees
begin

text \<open>
  The Telegram bots: the command processor and the polling worker of
  \<open>worker/telegram/telegram.go\<close>, the decoding of updates of \<open>transport_botapi.go\<close>.
  The answers of the Bot API come from outside. The endless loop of the worker is given as
  one turn; logging is left out. The first claims are about single messages, the last is
  about the polling loop.
\<close>

section \<open>Updates\<close>

record update =
  up_id :: int
  up_user :: string
  up_chat :: string
  up_text :: string

definition parseCommand :: "string \<Rightarrow> string \<times> string" where
  "parseCommand txt =
     (let t = trim_space txt in
      if t = '''' then ('''', '''')
      else (case split2 (CHR '' '') t of (first, rest) \<Rightarrow>
        (fst (split2 (CHR ''@'') (to_lower first)),
         case rest of None \<Rightarrow> '''' | Some r \<Rightarrow> trim_space r)))"

section \<open>The processor\<close>

record processor =
  tp_pool :: string
  tp_channel :: string
  tp_elig :: evaluator

definition NewInstanceProcessor :: "evaluator \<Rightarrow> string \<Rightarrow> string \<Rightarrow> processor" where
  "NewInstanceProcessor elig pool channel = \<lparr>tp_pool = pool, tp_channel = channel, tp_elig = elig\<rparr>"

definition NewProcessor :: "evaluator \<Rightarrow> string \<Rightarrow> processor" where
  "NewProcessor elig pool = NewInstanceProcessor elig pool ''''"

definition lookup :: "processor \<Rightarrow> string \<Rightarrow> subscription io" where
  "lookup p user =
     (if tp_channel p \<noteq> '''' then Sub_GetByInstanceUser (tp_channel p) user
      else Sub_GetByChannelUser (tp_pool p) ''telegram'' user)"

text \<open>The replies; the long dash and the warning sign are their UTF-8 bytes.\<close>

definition dash :: string where "dash = [CHR '' '', CHR 0xE2, CHR 0x80, CHR 0x94, CHR '' '']"
definition newline :: string where "newline = [CHR 0x0A]"

definition helpText :: string where
  "helpText = ''Commands:'' @ newline @ ''/start <code>'' @ dash @ ''activate your membership'' @ newline
     @ ''/status'' @ dash @ ''show your subscription'' @ newline
     @ ''/unsubscribe'' @ dash @ ''stop receiving messages'' @ newline @ ''/help'' @ dash @ ''this message''"

definition sub_status_text :: "sub_status \<Rightarrow> string" where
  "sub_status_text st = (case st of SubActive \<Rightarrow> ''active'' | SubDowngraded \<Rightarrow> ''downgraded''
     | SubCancelled \<Rightarrow> ''cancelled'' | SubExpired \<Rightarrow> ''expired'')"

text \<open>\<open>t.Format("2006-01-02")\<close> of a time in UTC, as the store reads it.\<close>

definition date_text :: "instant \<Rightarrow> string" where
  "date_text t = (case civil_of_days (unix_sec t div 86400) of
     (y, m, d) \<Rightarrow> pad 4 y @ ''-'' @ pad 2 m @ ''-'' @ pad 2 d)"

definition status_text :: "subscription \<Rightarrow> string" where
  "status_text sess =
     ''Tier: '' @ s_tier sess @ newline @ ''Status: '' @ sub_status_text (s_status sess) @ newline
     @ ''Last verified: '' @ date_text (s_verified sess) @ newline
     @ ''Valid through: '' @ date_text (s_expires sess) @ '' (auto-renews while you stay delegated)''
     @ (case s_grace sess of None \<Rightarrow> ''''
        | Some t \<Rightarrow> newline @ [CHR 0xE2, CHR 0x9A, CHR 0xA0, CHR 0xEF, CHR 0xB8, CHR 0x8F] @ '' Expiring on ''
            @ date_text t @ dash @ ''we no longer see an active delegation. Re-delegate to your pool to keep your membership.'')"

definition consume_refusal :: "err \<Rightarrow> string" where
  "consume_refusal e =
     (if e = ErrConsumed then ''This activation code has already been used.''
      else if e = ErrExpired then ''This activation code has expired. Please generate a new one.''
      else ''Invalid activation code.'')"

definition subscribed_text :: "string \<Rightarrow> string" where
  "subscribed_text tier =
     ''Subscribed! Tier: '' @ tier @ ''. You'' @ [CHR 0x27] @ ''ll receive updates here. (zero on-chain lookup at delivery)''"

text \<open>
  \<open>activate\<close>: the code is burned first, then membership is evaluated again. An instance
  recorded with the code takes precedence over the bot's own.
\<close>

definition bound_session :: "processor \<Rightarrow> update \<Rightarrow> activation_code \<Rightarrow> string \<Rightarrow> string \<Rightarrow> instant \<Rightarrow> subscription" where
  "bound_session p up rec i tier now = \<lparr>s_id = i, s_pool = tp_pool p, s_sch = a_sch rec,
     s_channel = (if a_channel rec \<noteq> '''' then a_channel rec else tp_channel p), s_ctype = ''telegram'',
     s_user = up_user up, s_account = None, s_status = SubActive, s_tier = tier, s_topics = [], s_ents = [],
     s_created = now, s_verified = now, s_expires = now + SubscriptionTTL, s_grace = None, s_cancelled = None\<rparr>"

definition bind_session :: "processor \<Rightarrow> update \<Rightarrow> activation_code \<Rightarrow> string \<Rightarrow> string io" where
  "bind_session p up rec tier =
     bindE nowE (\<lambda>now.
     bindE RandomID (\<lambda>i.
     tryE (Sub_Upsert (bound_session p up rec i tier now)) (\<lambda>r. case r of
         Inl e \<Rightarrow> returnE ''Could not save your subscription. Please try again later.''
       | Inr _ \<Rightarrow> returnE (subscribed_text tier))))"

definition activate :: "server \<Rightarrow> processor \<Rightarrow> update \<Rightarrow> string \<Rightarrow> string io" where
  "activate S p up code =
     (if code = '''' then returnE ''Please provide an activation code: /start <code>''
      else bindE nowE (\<lambda>now.
        tryE (ActivationCode_Consume (HashToken S code) ''telegram'' (tp_channel p) now) (\<lambda>r. case r of
            Inl e \<Rightarrow> returnE (consume_refusal e)
          | Inr rec \<Rightarrow> tryE (tp_elig p (a_sch rec)) (\<lambda>q. case q of
              Inl e \<Rightarrow> returnE ''Could not verify membership right now. Please try again later.''
            | Inr (st, tier) \<Rightarrow>
                if st = StateNone then returnE ''Your stake no longer qualifies for membership.''
                else bind_session p up rec tier))))"

definition bot_status :: "processor \<Rightarrow> update \<Rightarrow> string io" where
  "bot_status p up = tryE (lookup p (up_user up)) (\<lambda>r. case r of
       Inl e \<Rightarrow> returnE ''You are not subscribed. Use /start <code> to activate.''
     | Inr sess \<Rightarrow> returnE (status_text sess))"

definition unsubscribe :: "processor \<Rightarrow> update \<Rightarrow> string io" where
  "unsubscribe p up = tryE (lookup p (up_user up)) (\<lambda>r. case r of
       Inl e \<Rightarrow> returnE ''You are not subscribed.''
     | Inr sess \<Rightarrow> tryE (Sub_SetStatus (s_id sess) SubCancelled) (\<lambda>q. case q of
         Inl e \<Rightarrow> returnE ''Could not unsubscribe. Please try again later.''
       | Inr _ \<Rightarrow> returnE ''You have been unsubscribed.''))"

definition Handle :: "server \<Rightarrow> processor \<Rightarrow> update \<Rightarrow> string io" where
  "Handle S p up = (case parseCommand (up_text up) of (cmd, arg) \<Rightarrow>
     if cmd = ''/start'' \<or> cmd = ''/activate'' then activate S p up arg
     else if cmd = ''/status'' then bot_status p up
     else if cmd = ''/unsubscribe'' then unsubscribe p up
     else returnE helpText)"

section \<open>The Bot API\<close>

datatype api_error = ApiStatus string nat | ApiOther string

text \<open>The error text of \<open>APIStatusError\<close>, and the search for a text within another.\<close>

fun api_text :: "api_error \<Rightarrow> string" where
  "api_text (ApiStatus method st) = ''telegram '' @ method @ '': status '' @ nat_string st"
| "api_text (ApiOther txt) = txt"

definition ErrNotConfigured :: api_error where
  "ErrNotConfigured = ApiOther ''telegram: bot token not configured''"

text \<open>A call: the token, the method and the parameters give a failed exchange (its text) or the
  status and the body.\<close>

type_synonym bot_api = "string \<Rightarrow> string \<Rightarrow> (string \<times> string) list \<Rightarrow> (string + nat \<times> raw_message) outside"

definition api_call :: "bot_api \<Rightarrow> string \<Rightarrow> string \<Rightarrow> (string \<times> string) list \<Rightarrow> (raw_message \<Rightarrow> 'a option)
    \<Rightarrow> (api_error + 'a) outside" where
  "api_call api tok method q decode w =
     (if tok = '''' then (Inl ErrNotConfigured, w)
      else (case api tok method q w of (r, w') \<Rightarrow>
        ((case r of
            Inl txt \<Rightarrow> Inl (ApiOther txt)
          | Inr (st, body) \<Rightarrow>
              if st \<noteq> 200 then Inl (ApiStatus method st)
              else (case decode body of None \<Rightarrow> Inl (ApiOther ''encoding/json'') | Some x \<Rightarrow> Inr x)), w')))"

text \<open>Decoding: an integer of 64 bits, the nested structs of an update, and the list.\<close>

definition in_int64 :: "int \<Rightarrow> bool" where
  "in_int64 n \<longleftrightarrow> - (2 ^ 63) \<le> n \<and> n < 2 ^ 63"

definition json_int64 :: "json option \<Rightarrow> int option" where
  "json_int64 j = (case j of None \<Rightarrow> Some 0 | Some JNull \<Rightarrow> Some 0
     | Some (JNum s) \<Rightarrow> (case big_parse s of Some n \<Rightarrow> if in_int64 n then Some n else None | None \<Rightarrow> None)
     | _ \<Rightarrow> None)"

definition decode_id :: "json option \<Rightarrow> int option" where
  "decode_id j = (case json_struct j of None \<Rightarrow> None | Some kvs \<Rightarrow> json_int64 (json_field ''id'' kvs))"

definition decode_update :: "json \<Rightarrow> update option" where
  "decode_update j = (case json_struct (Some j) of None \<Rightarrow> None | Some kvs \<Rightarrow>
     (case (json_int64 (json_field ''update_id'' kvs), json_struct (json_field ''message'' kvs)) of
        (Some i, Some m) \<Rightarrow>
          (case (json_string (json_field ''text'' m), decode_id (json_field ''from'' m), decode_id (json_field ''chat'' m)) of
             (Some t, Some u, Some c) \<Rightarrow> Some \<lparr>up_id = i, up_user = big_string u, up_chat = big_string c, up_text = t\<rparr>
           | _ \<Rightarrow> None)
      | _ \<Rightarrow> None))"

fun decode_all :: "json list \<Rightarrow> update list option" where
  "decode_all [] = Some []"
| "decode_all (j # js) = (case (decode_update j, decode_all js) of
     (Some u, Some us) \<Rightarrow> Some (u # us) | _ \<Rightarrow> None)"

definition decode_updates :: "raw_message \<Rightarrow> update list option" where
  "decode_updates raw = (case raw of RawDoc doc \<Rightarrow>
       (case json_struct (Some doc) of None \<Rightarrow> None | Some kvs \<Rightarrow>
          (case (json_flag (json_field ''ok'' kvs), json_field ''result'' kvs) of
             (Some _, None) \<Rightarrow> Some []
           | (Some _, Some JNull) \<Rightarrow> Some []
           | (Some _, Some (JArr js)) \<Rightarrow> decode_all js
           | _ \<Rightarrow> None))
     | _ \<Rightarrow> None)"

definition GetUpdates :: "bot_api \<Rightarrow> string \<Rightarrow> int \<Rightarrow> (api_error + update list) outside" where
  "GetUpdates api tok offset w =
     (if tok = '''' then (Inr [], w)
      else api_call api tok ''getUpdates''
        [(''timeout'', ''30''), (''offset'', big_string offset), (''allowed_updates'', ''[\"message\"]'')] decode_updates w)"

definition decode_ok :: "raw_message \<Rightarrow> unit option" where
  "decode_ok raw = (case raw of RawDoc doc \<Rightarrow>
       (case json_struct (Some doc) of None \<Rightarrow> None
        | Some kvs \<Rightarrow> map_option (\<lambda>_. ()) (json_flag (json_field ''ok'' kvs)))
     | _ \<Rightarrow> None)"

definition SendMessage :: "bot_api \<Rightarrow> string \<Rightarrow> sender" where
  "SendMessage api tok chat txt = noted chat txt (\<lambda>w.
     (case api_call api tok ''sendMessage'' [(''chat_id'', chat), (''text'', txt)] decode_ok w of
        (Inl e, w') \<Rightarrow> (Some (api_text e), w')
      | (Inr _, w') \<Rightarrow> (None, w')))"

section \<open>The worker\<close>

definition isConflict :: "api_error \<Rightarrow> bool" where
  "isConflict e = (case e of ApiStatus _ st \<Rightarrow> st = 409 | ApiOther txt \<Rightarrow> sublist ''status 409'' txt)"

definition conflictBackoff :: duration where "conflictBackoff = 30 * second"
definition pollInterval :: duration where "pollInterval = second"

definition getUpdatesBackoff :: "api_error \<Rightarrow> duration \<Rightarrow> duration" where
  "getUpdatesBackoff e interval = (if isConflict e then conflictBackoff else interval)"

record bot =
  bt_proc :: processor
  bt_poll :: "int \<Rightarrow> (api_error + update list) outside"
  bt_send :: sender

definition NewWorker :: "processor \<Rightarrow> bot_api \<Rightarrow> string \<Rightarrow> bot" where
  "NewWorker p api tok = \<lparr>bt_proc = p, bt_poll = GetUpdates api tok, bt_send = SendMessage api tok\<rparr>"

text \<open>\<open>offset\<close> is a Go \<open>int\<close> of 64 bits, so the addition wraps.\<close>

definition next_offset :: "int \<Rightarrow> int \<Rightarrow> int" where
  "next_offset offset i = (if i \<ge> offset then signed_take_bit 63 (i + 1) else offset)"

definition authentic :: "update \<Rightarrow> bool" where
  "authentic up \<longleftrightarrow> up_user up \<noteq> '''' \<and> up_user up \<noteq> ''0''"

fun bot_batch :: "server \<Rightarrow> bot \<Rightarrow> int \<Rightarrow> update list \<Rightarrow> int io" where
  "bot_batch S b offset [] = returnE offset"
| "bot_batch S b offset (up # ups) =
     (let offset' = next_offset offset (up_id up) in
      if \<not> authentic up then bot_batch S b offset' ups
      else bindE (Handle S (bt_proc b) up) (\<lambda>reply.
           bindE (ask (bt_send b (up_chat up) reply)) (\<lambda>_.
           bot_batch S b offset' ups)))"

text \<open>One turn: the offset and the time to sleep, if any, before the next.\<close>

definition bot_turn :: "server \<Rightarrow> bot \<Rightarrow> int \<Rightarrow> (int \<times> duration option) io" where
  "bot_turn S b offset =
     bindE (ask (bt_poll b offset)) (\<lambda>r. case r of
         Inl e \<Rightarrow> returnE (offset, Some (getUpdatesBackoff e pollInterval))
       | Inr ups \<Rightarrow> bindE (bot_batch S b offset ups) (\<lambda>offset'.
           returnE (offset', if ups = [] then Some pollInterval else None)))"

text \<open>A life of a worker: \<open>n\<close> turns from offset 0.\<close>

fun bot_life :: "server \<Rightarrow> bot \<Rightarrow> nat \<Rightarrow> int \<Rightarrow> int io" where
  "bot_life S b 0 offset = returnE offset"
| "bot_life S b (Suc n) offset = bindE (bot_turn S b offset) (\<lambda>(offset', _). bot_life S b n offset')"

section \<open>What a message can change\<close>

text \<open>Only subscriptions of the sender, activation codes and the stake cache.\<close>

definition bot_touch :: "string \<Rightarrow> world \<Rightarrow> world \<Rightarrow> bool" where
  "bot_touch user w w' \<longleftrightarrow>
     w' = w\<lparr>subs := subs w', activations := activations w', scache := scache w', faults := faults w', draws := draws w'\<rparr>
     \<and> (distinct (map s_id (subs w)) \<longrightarrow> distinct (map s_id (subs w'))
         \<and> filter (\<lambda>x. s_user x \<noteq> user) (subs w') = filter (\<lambda>x. s_user x \<noteq> user) (subs w))"

lemma bot_touch_eq: "bot_touch user w w' \<Longrightarrow>
    w' = w\<lparr>subs := subs w', activations := activations w', scache := scache w', faults := faults w', draws := draws w'\<rparr>"
  by (simp add: bot_touch_def)

interpretation touch: io_rel "bot_touch user" for user
proof
  fix w v u assume 1: "bot_touch user w v" and 2: "bot_touch user v u"
  have "u = w\<lparr>subs := subs u, activations := activations u, scache := scache u, faults := faults u, draws := draws u\<rparr>"
    by (subst bot_touch_eq[OF 2], subst bot_touch_eq[OF 1]) simp
  then show "bot_touch user w u" using 1 2 by (simp add: bot_touch_def)
qed (simp_all add: bot_touch_def)

lemma touch_cache:
  assumes "only_cache w w'"
  shows "bot_touch user w w'"
proof -
  have "w' = w\<lparr>scache := scache w', faults := faults w', draws := draws w'\<rparr>" using assms by (simp add: only_cache_def)
  also have "\<dots> = w\<lparr>subs := subs w, activations := activations w, scache := scache w', faults := faults w', draws := draws w'\<rparr>"
    by simp
  finally show ?thesis using only_cache_tables(5,11)[OF assms] unfolding bot_touch_def by simp
qed

lemma set_where_others:
  assumes "\<And>r. P r \<Longrightarrow> \<not> Q r \<and> \<not> Q (f r)"
  shows "filter Q (set_where P f rs) = filter Q rs"
  using assms by (induction rs) (auto simp: set_where_def)

lemma touch_upsert: "moves (bot_touch (s_user x)) (Sub_Upsert x)"
  unfolding Sub_Upsert_def
proof (rule touch.exec)
  fix w :: world
  have ids: "map s_id (set_where (same_instance_user x) (merge_sub x) (subs w)) = map s_id (subs w)"
    by (rule set_where_key) (simp add: merge_sub_def)
  have "filter (\<lambda>y. s_user y \<noteq> s_user x) (set_where (same_instance_user x) (merge_sub x) (subs w))
      = filter (\<lambda>y. s_user y \<noteq> s_user x) (subs w)"
    by (rule set_where_others) (simp add: same_instance_user_def merge_sub_def)
  then show "bot_touch (s_user x) w (snd (if \<exists>r \<in> set (subs w). same_instance_user x r
      then (Inr (), subs_update (set_where (same_instance_user x) (merge_sub x)) w)
      else if s_id x \<in> s_id ` set (subs w) then (Inl ErrDB, w) else (Inr (), subs_update (\<lambda>rs. rs @ [x]) w)))"
    using ids by (simp add: bot_touch_def)
qed

lemma touch_consume: "moves (bot_touch user) (ActivationCode_Consume code ct ch t)"
  unfolding ActivationCode_Consume_def
  by (intro touch.tx touch.bind touch.query_row touch.pure_steps touch.update_count moves_when) (simp add: bot_touch_def)

lemma lookup_user: "lookup p user w = (Inr x, w') \<Longrightarrow> x \<in> set (subs w) \<and> s_user x = user \<and> w' = skip w"
  by (auto simp: lookup_def Sub_GetByInstanceUser_def Sub_GetByChannelUser_def query_row_Inr
      dest!: find_Some_mem split: if_splits)

lemma lookup_moves: "io_rel R \<Longrightarrow> moves R (lookup p user)"
  unfolding lookup_def Sub_GetByInstanceUser_def Sub_GetByChannelUser_def
  by (intro moves_when io_rel.query_row)

lemma touch_status: "moves (bot_touch (up_user up)) (bot_status p up)"
  unfolding bot_status_def
  by (intro touch.try_ lookup_moves touch.io_rel_axioms) (auto split: sum.splits intro: touch.pure_steps)

lemma touch_unsubscribe: "moves (bot_touch (up_user up)) (unsubscribe p up)"
  unfolding moves_def
proof
  fix w
  obtain r v where look: "lookup p (up_user up) w = (r, v)" by force
  have 1: "bot_touch (up_user up) w v" by (rule movesD[OF lookup_moves[OF touch.io_rel_axioms] look])
  show "bot_touch (up_user up) w (snd (unsubscribe p up w))"
  proof (cases r)
    case (Inl e)
    then show ?thesis using look 1 by (simp add: unsubscribe_def tryE_def returnE_def)
  next
    case (Inr x)
    have x: "x \<in> set (subs w)" "s_user x = up_user up" "v = skip w" using lookup_user look Inr by blast+
    have own: "s_user y = up_user up" if "distinct (map s_id (subs w))" "y \<in> set (subs w)" "s_id y = s_id x" for y
      using that x by (metis distinct_map inj_onD)
    obtain q u where set: "Sub_SetStatus (s_id x) SubCancelled v = (q, u)" by force
    have ids: "map s_id (set_where (\<lambda>y. s_id y = s_id x) (\<lambda>y. y\<lparr>s_status := SubCancelled\<rparr>) (subs w)) = map s_id (subs w)"
      by (rule set_where_key) simp
    have "filter (\<lambda>y. s_user y \<noteq> up_user up)
        (set_where (\<lambda>y. s_id y = s_id x) (\<lambda>y. y\<lparr>s_status := SubCancelled\<rparr>) (subs w))
        = filter (\<lambda>y. s_user y \<noteq> up_user up) (subs w)" if d: "distinct (map s_id (subs w))"
    proof -
      have "filter (\<lambda>y. s_user y \<noteq> up_user up)
        (set_where (\<lambda>y. s_id y = s_id x) (\<lambda>y. y\<lparr>s_status := SubCancelled\<rparr>) ys)
        = filter (\<lambda>y. s_user y \<noteq> up_user up) ys" if "set ys \<subseteq> set (subs w)" for ys
        using that own[OF d] by (induction ys) (auto simp: set_where_def)
      then show ?thesis by simp
    qed
    then have "bot_touch (up_user up) w u" using set x(3) ids
      by (cases "faulty v") (auto simp: Sub_SetStatus_def update_rows_def modify_def exec_def bot_touch_def skip_def)
    then show ?thesis using look Inr set
      by (auto simp: unsubscribe_def tryE_def returnE_def split: sum.splits)
  qed
qed

context attesting
begin

lemma Attest_cache: "moves only_cache (Attest S sch)"
  unfolding Attest_def by (intro cache.bind attest_cache cache.pure_steps)

lemma touch_activate:
  assumes elig: "tp_elig p = Attest S"
  shows "moves (bot_touch (up_user up)) (activate S p up code)"
proof -
  have att: "moves (bot_touch (up_user up)) (Attest S sch)" for sch
    using moves_mono[OF Attest_cache touch_cache] .
  have bind: "moves (bot_touch (up_user up)) (bind_session p up rec tier)" for rec tier
  proof -
    have "moves (bot_touch (up_user up)) (Sub_Upsert (bound_session p up rec i tier now))" for i now
      using touch_upsert[of "bound_session p up rec i tier now"] by (simp add: bound_session_def)
    then show ?thesis unfolding bind_session_def
      by (intro touch.steps) (auto split: sum.splits intro: touch.pure_steps)
  qed
  show ?thesis unfolding activate_def elig
    by (auto intro!: moves_when touch.steps touch_consume att bind split: sum.splits prod.splits)
qed

lemma touch_Handle: "tp_elig p = Attest S \<Longrightarrow> moves (bot_touch (up_user up)) (Handle S p up)"
  unfolding Handle_def
  by (auto intro!: moves_when touch_activate touch_status touch_unsubscribe touch.pure_steps split: prod.splits)

end

section \<open>Guarantees of the processor\<close>

text \<open>C29: Whatever a user writes to a bot and whatever fails while it is handled, only rows of that
  user change among the subscriptions, in their order and with unique ids, and besides the
  subscriptions only activation codes and the stake cache change.\<close>

theorem messages_touch_own_rows:
  assumes run: "Handle (wired S http key) (NewInstanceProcessor (Attest (wired S http key)) pool ch) up w = (r, w')"
    and ids: "distinct (map s_id (subs w))"
  shows "distinct (map s_id (subs w'))
    \<and> filter (\<lambda>x. s_user x \<noteq> up_user up) (subs w') = filter (\<lambda>x. s_user x \<noteq> up_user up) (subs w)
    \<and> w' = w\<lparr>subs := subs w', activations := activations w', scache := scache w', faults := faults w', draws := draws w'\<rparr>"
proof -
  have "moves (bot_touch (up_user up)) (Handle (wired S http key) (NewInstanceProcessor (Attest (wired S http key)) pool ch) up)"
    by (rule issuer.touch_Handle) (simp add: NewInstanceProcessor_def)
  then have "bot_touch (up_user up) w w'" using movesD run by blast
  then show ?thesis using ids by (simp add: bot_touch_def)
qed

lemma Consume_tables: "ActivationCode_Consume code ct ch t w = (r, w') \<Longrightarrow> subs w' = subs w \<and> clock w' = clock w"
  unfolding ActivationCode_Consume_def
  by (auto simp: with_tx_def bindE_def query_row_def exec_def liftE_def update_count_def failE_def returnE_def
      split: option.splits sum.splits prod.splits if_splits)

text \<open>Either nothing is stored, or the session is, as a new row or merged into the old one.\<close>

lemma bind_session_rows:
  assumes run: "bind_session p up rec tier w = (r, w')" and change: "subs w' \<noteq> subs w"
  shows "\<exists>i. let x = bound_session p up rec i tier (clock w) in
    subs w' = (if \<exists>y \<in> set (subs w). same_instance_user x y
       then set_where (same_instance_user x) (merge_sub x) (subs w) else subs w @ [x])
    \<and> activations w' = activations w \<and> r = Inr (subscribed_text tier)"
proof -
  obtain i u where rid: "RandomID w = (Inr i, u)" "subs u = subs w" "activations u = activations w"
    by (simp add: RandomID_def bindE_def random_bytes_def returnE_def)
  let ?x = "bound_session p up rec i tier (clock w)"
  obtain z v where up: "Sub_Upsert ?x u = (z, v)" by force
  have z: "(r, w') = ((case z of Inl _ \<Rightarrow> Inr ''Could not save your subscription. Please try again later.''
      | Inr _ \<Rightarrow> Inr (subscribed_text tier)), v)"
    using run rid up by (simp add: bind_session_def bindE_def nowE_def getE_def tryE_def returnE_def split: sum.splits)
  have "subs v = subs w" if "z = Inl e" for e
    using up that rid by (auto simp: Sub_Upsert_def exec_def split: if_splits)
  then obtain o1 where z1: "z = Inr o1" using change z by (cases z) auto
  have "subs v = (if \<exists>y \<in> set (subs w). same_instance_user ?x y
       then set_where (same_instance_user ?x) (merge_sub ?x) (subs w) else subs w @ [?x])"
    "activations v = activations w"
    using up z1 rid by (auto simp: Sub_Upsert_def exec_def skip_def split: if_splits)
  then show ?thesis using z z1 by (intro exI[of _ i]) (simp add: Let_def)
qed

lemma activate_inversion:
  assumes elig: "tp_elig p = Attest S" and host: "attesting S"
    and run: "activate S p up code w = (r, w')" and change: "subs w' \<noteq> subs w"
  obtains rec w1 st tier w2 x i where
    "ActivationCode_Consume (HashToken S code) ''telegram'' (tp_channel p) (clock w) w = (Inr rec, w1)"
    "Attest S (a_sch rec) w1 = (Inr (st, tier), w2)" "st \<noteq> StateNone"
    "x = bound_session p up rec i tier (clock w)"
    "subs w' = (if \<exists>y \<in> set (subs w). same_instance_user x y
       then set_where (same_instance_user x) (merge_sub x) (subs w) else subs w @ [x])"
    "activations w' = activations w1" "r = Inr (subscribed_text tier)"
proof -
  have code: "code \<noteq> ''''" using run change by (auto simp: activate_def returnE_def)
  note unfold = activate_def bindE_def nowE_def getE_def tryE_def returnE_def
  obtain q w1 where con: "ActivationCode_Consume (HashToken S code) ''telegram'' (tp_channel p) (clock w) w = (q, w1)" by force
  have w1: "subs w1 = subs w" "clock w1 = clock w" using Consume_tables[OF con] by auto
  have "\<exists>rec. q = Inr rec" using run con w1 code change by (cases q) (auto simp: unfold)
  then obtain rec where rec: "q = Inr rec" by blast
  obtain a w2 where att: "Attest S (a_sch rec) w1 = (a, w2)" by force
  note w2 = only_cache_tables[OF movesD[OF attesting.Attest_cache[OF host] att]]
  have "\<exists>st tier. a = Inr (st, tier) \<and> st \<noteq> StateNone"
    using run con att w1 w2 rec code elig change by (cases a) (auto simp: unfold split: if_splits)
  then obtain st tier where st: "a = Inr (st, tier)" "st \<noteq> StateNone" by blast
  have bs: "bind_session p up rec tier w2 = (r, w')" using run con att rec st code elig by (simp add: unfold)
  have same: "subs w2 = subs w" "activations w2 = activations w1" "clock w2 = clock w" using w1 w2 by simp_all
  obtain i where "let x = bound_session p up rec i tier (clock w) in
      subs w' = (if \<exists>y \<in> set (subs w). same_instance_user x y
         then set_where (same_instance_user x) (merge_sub x) (subs w) else subs w @ [x])
      \<and> activations w' = activations w1 \<and> r = Inr (subscribed_text tier)"
    using bind_session_rows[OF bs, unfolded same] change by blast
  then show thesis using that[OF con[unfolded rec] att[unfolded st(1)] st(2) refl] by (simp add: Let_def)
qed

text \<open>An activation that stores a subscription finds its code open and leaves it closed.\<close>

lemma activation_sound_step:
  assumes run: "activate (wired S http key) (NewInstanceProcessor (Attest (wired S http key)) pool ch) up code w = (r, w')"
    and change: "subs w' \<noteq> subs w"
  shows "has_open (activation_open (HashToken (wired S http key) code)) (activations w)
    \<and> \<not> has_open (activation_open (HashToken (wired S http key) code)) (activations w')"
proof -
  let ?S = "wired S http key" and ?p = "NewInstanceProcessor (Attest (wired S http key)) pool ch"
  have "tp_elig ?p = Attest ?S" by (simp add: NewInstanceProcessor_def)
  from activate_inversion[OF this issuer.attesting_axioms run change] obtain rec w1 where
    con: "ActivationCode_Consume (HashToken ?S code) ''telegram'' (tp_channel ?p) (clock w) w = (Inr rec, w1)"
    and acts: "activations w' = activations w1" by metis
  then show ?thesis
    using activation_once.needs_live[of "HashToken ?S code" "(''telegram'', tp_channel ?p, clock w)" w rec w1]
      activation_once.kills[of "HashToken ?S code" "(''telegram'', tp_channel ?p, clock w)" w rec w1] by simp
qed

text \<open>C28: A subscription comes into being only by an activation code that was issued for this channel
  type and bot, was unused and unexpired, and whose holder is a member at that moment; the
  code is used up by it, the row is the sender's, for the code's instance and holder, active
  with the tier of that evaluation, and the sender is told so.\<close>

theorem activation_sound:
  assumes run: "activate (wired S http key) (NewInstanceProcessor (Attest (wired S http key)) pool ch) up code w = (r, w')"
    and change: "subs w' \<noteq> subs w"
  shows "\<exists>a st tier w1 w2 x.
    find (\<lambda>a. a_code a = HashToken (wired S http key) code) (activations w) = Some a
    \<and> a_ctype a = ''telegram'' \<and> (ch = '''' \<or> a_channel a = '''' \<or> a_channel a = ch)
    \<and> a_consumed a = None \<and> clock w \<le> a_expires a
    \<and> snd (ActivationCode_Consume (HashToken (wired S http key) code) ''telegram'' ch (clock w) w) = w1
    \<and> Attest (wired S http key) (a_sch a) w1 = (Inr (st, tier), w2) \<and> st \<noteq> StateNone
    \<and> activations w' = set_where (activation_open (a_code a)) (activation_stamp (clock w)) (activations w)
    \<and> x \<in> set (subs w') \<and> s_user x = up_user up \<and> s_sch x = a_sch a \<and> s_status x = SubActive \<and> s_tier x = tier
    \<and> s_channel x = (if a_channel a \<noteq> '''' then a_channel a else ch) \<and> s_grace x = None
    \<and> r = Inr (subscribed_text tier)"
proof -
  let ?S = "wired S http key" and ?p = "NewInstanceProcessor (Attest (wired S http key)) pool ch"
  have p: "tp_elig ?p = Attest ?S" "tp_channel ?p = ch" by (simp_all add: NewInstanceProcessor_def)
  obtain rec w1 st tier w2 x i where
    con: "ActivationCode_Consume (HashToken ?S code) ''telegram'' ch (clock w) w = (Inr rec, w1)" and
    att: "Attest ?S (a_sch rec) w1 = (Inr (st, tier), w2)" "st \<noteq> StateNone" and
    x: "x = bound_session ?p up rec i tier (clock w)" and
    rows: "subs w' = (if \<exists>y \<in> set (subs w). same_instance_user x y
       then set_where (same_instance_user x) (merge_sub x) (subs w) else subs w @ [x])" and
    acts: "activations w' = activations w1" and r: "r = Inr (subscribed_text tier)"
    using activate_inversion[OF p(1) issuer.attesting_axioms run change] unfolding p(2) by metis
  obtain a where a: "find (\<lambda>a. a_code a = HashToken ?S code) (activations w) = Some a"
      "activation_check ''telegram'' ch (clock w) a = Inr ()" "rec = a\<lparr>a_status := ActivationConsumed\<rparr>"
      "activations w1 = set_where (activation_open (HashToken ?S code)) (activation_stamp (clock w)) (activations w)"
    using ActivationCode_Consume_Inr[OF con] by blast
  have code: "a_code a = HashToken ?S code" using a(1) by (auto dest: find_Some_mem)
  have "\<exists>y. y \<in> set (subs w') \<and> s_user y = up_user up \<and> s_sch y = a_sch a \<and> s_status y = SubActive \<and> s_tier y = tier
      \<and> s_channel y = (if a_channel a \<noteq> '''' then a_channel a else ch) \<and> s_grace y = None"
  proof (cases "\<exists>y \<in> set (subs w). same_instance_user x y")
    case True
    then obtain y where y: "y \<in> set (subs w)" "same_instance_user x y" by blast
    then have "merge_sub x y \<in> set (subs w')" using rows by (auto simp: mem_set_where)
    then show ?thesis using y(2) a(3)
      by (intro exI[of _ "merge_sub x y"]) (simp add: merge_sub_def same_instance_user_def x bound_session_def NewInstanceProcessor_def)
  next
    case False
    then show ?thesis using rows a(3) by (intro exI[of _ x]) (simp add: x bound_session_def NewInstanceProcessor_def)
  qed
  then obtain y where y: "y \<in> set (subs w')" "s_user y = up_user up" "s_sch y = a_sch a" "s_status y = SubActive"
    "s_tier y = tier" "s_channel y = (if a_channel a \<noteq> '''' then a_channel a else ch)" "s_grace y = None" by blast
  have "a_ctype a = ''telegram'' \<and> (ch = '''' \<or> a_channel a = '''' \<or> a_channel a = ch)
      \<and> a_consumed a = None \<and> clock w \<le> a_expires a"
    using a(2) by (auto simp: activation_check_Inr)
  then show ?thesis using a att acts r code y con
    by (intro exI[of _ a] exI[of _ st] exI[of _ tier] exI[of _ w1] exI[of _ w2] exI[of _ y]) simp
qed

text \<open>A code binds at most one account: once an activation has stored a subscription, no later
  activation with the same code changes any, whatever has happened to the service in between
  short of issuing the code again.\<close>

theorem code_binds_once:
  assumes first: "activate (wired S http key) (NewInstanceProcessor (Attest (wired S http key)) pool ch) up code w = (r, w')"
    and bound: "subs w' \<noteq> subs w"
    and between: "no_new_open activations (activation_open (HashToken (wired S http key) code)) w' v"
    and again: "activate (wired S http key) (NewInstanceProcessor (Attest (wired S http key)) pool' ch') up' code v = (q, v')"
  shows "subs v' = subs v"
proof (rule ccontr)
  assume "subs v' \<noteq> subs v"
  from activation_sound_step[OF first bound] activation_sound_step[OF again this]
  show False using between by (auto simp: no_new_open_def)
qed

text \<open>A user who unsubscribes from an instance gets no further broadcast of it: when the bot
  confirms it, the row of this user and instance is cancelled and no job is addressed to it.\<close>

theorem unsubscribed_gets_nothing:
  assumes run: "unsubscribe (NewInstanceProcessor elig pool ch) up w = (Inr ''You have been unsubscribed.'', w')"
    and ch: "ch \<noteq> ''''" and key: "distinct (map (\<lambda>x. (s_channel x, s_user x)) (subs w))"
  shows "(\<exists>x \<in> set (subs w'). s_channel x = ch \<and> s_user x = up_user up)
    \<and> (\<forall>x \<in> set (subs w'). s_channel x = ch \<and> s_user x = up_user up \<longrightarrow>
          s_status x = SubCancelled \<and> (\<forall>job. \<not> addressed job x))"
proof -
  let ?p = "NewInstanceProcessor elig pool ch"
  obtain r v where look: "lookup ?p (up_user up) w = (r, v)" by force
  obtain x where x: "r = Inr x"
    using run look by (cases r) (auto simp: unsubscribe_def tryE_def returnE_def)
  have row: "x \<in> set (subs w)" "s_channel x = ch" "s_user x = up_user up" "v = skip w"
    using look ch unfolding x by (auto simp: lookup_def NewInstanceProcessor_def Sub_GetByInstanceUser_def query_row_Inr dest!: find_Some_mem)
  obtain q u where set: "Sub_SetStatus (s_id x) SubCancelled v = (q, u)" by force
  have "q = Inr ()" "w' = u" using run look set x
    by (cases q; auto simp: unsubscribe_def tryE_def returnE_def)+
  then have subs: "subs w' = set_where (\<lambda>y. s_id y = s_id x) (\<lambda>y. y\<lparr>s_status := SubCancelled\<rparr>) (subs w)"
    using set row(4) by (auto simp: Sub_SetStatus_def update_rows_Inr)
  have only: "y = x" if "y \<in> set (subs w)" "s_channel y = ch" "s_user y = up_user up" for y
    using key that row by (auto simp: distinct_map inj_on_def)
  have "x\<lparr>s_status := SubCancelled\<rparr> \<in> set (subs w')" using row(1) by (auto simp: subs mem_set_where)
  moreover have "s_status y = SubCancelled" if "y \<in> set (subs w')" "s_channel y = ch" "s_user y = up_user up" for y
    using that only unfolding subs mem_set_where by auto
  ultimately show ?thesis using row by (auto simp: addressed_def intro!: bexI[of _ "x\<lparr>s_status := SubCancelled\<rparr>"])
qed

text \<open>A temporary failure of the evaluation uses the code up: the reply asks the user to try again,
  and trying again is answered with the refusal of a used code.\<close>

theorem retry_after_outage_refused:
  assumes elig: "tp_elig p = Attest S" and host: "attesting S"
    and run: "activate S p up code w = (Inr ''Could not verify membership right now. Please try again later.'', w')"
    and quiet: "faults w' = []"
  shows "fst (activate S p up code w') = Inr ''This activation code has already been used.''"
proof -
  note unfold = activate_def bindE_def nowE_def getE_def tryE_def returnE_def
  have code: "code \<noteq> ''''" using run by (auto simp: activate_def returnE_def)
  obtain q w1 where con: "ActivationCode_Consume (HashToken S code) ''telegram'' (tp_channel p) (clock w) w = (q, w1)" by force
  have "\<exists>rec. q = Inr rec" using run con code by (cases q) (auto simp: unfold consume_refusal_def split: if_splits)
  then obtain rec where rec: "q = Inr rec" by blast
  obtain a w2 where att: "Attest S (a_sch rec) w1 = (a, w2)" by force
  note w2 = only_cache_tables[OF movesD[OF attesting.Attest_cache[OF host] att]]
  have "w' = w2"
  proof (cases a)
    case (Inl e)
    then show ?thesis using run con att rec code elig by (auto simp: unfold)
  next
    case (Inr sttier)
    obtain st tier where st: "sttier = (st, tier)" by force
    have "fst (bind_session p up rec tier w2) \<noteq> Inr ''Could not verify membership right now. Please try again later.''"
      by (auto simp: bind_session_def bindE_def nowE_def getE_def tryE_def RandomID_def random_bytes_def returnE_def
          subscribed_text_def split: sum.splits prod.splits)
    then show ?thesis using run con att rec code elig Inr st by (auto simp: unfold split: if_splits)
  qed
  obtain a0 where a0: "find (\<lambda>a. a_code a = HashToken S code) (activations w) = Some a0"
      "activation_check ''telegram'' (tp_channel p) (clock w) a0 = Inr ()"
      "activations w1 = set_where (activation_open (HashToken S code)) (activation_stamp (clock w)) (activations w)"
    using ActivationCode_Consume_Inr[OF con[unfolded rec]] by blast
  have "activation_open (HashToken S code) a0"
    using a0(1,2) by (auto simp: activation_open_def activation_check_Inr dest: find_Some_mem)
  then have "find (\<lambda>a. a_code a = HashToken S code) (activations w') = Some (activation_stamp (clock w) a0)"
    unfolding \<open>w' = w2\<close> w2 a0(3) set_where_def using a0(1)
    by (subst find_map_key) (simp_all add: activation_stamp_def)
  moreover have "activation_check ''telegram'' (tp_channel p) t (activation_stamp (clock w) a0) = Inl ErrConsumed" for t
    using a0(2) by (auto simp: activation_check_def activation_stamp_def split: if_splits)
  ultimately have "fst (ActivationCode_Consume (HashToken S code) ''telegram'' (tp_channel p) (clock w') w') = Inl ErrConsumed"
    using quiet by (simp add: ActivationCode_Consume_def with_tx_def bindE_def query_row_def exec_def liftE_def)
  then show ?thesis using code by (auto simp: unfold consume_refusal_def split: prod.splits)
qed

section \<open>The polling loop\<close>

text \<open>The updates that the turns of a worker take from the Bot API, in order.\<close>

fun bot_taken :: "server \<Rightarrow> bot \<Rightarrow> nat \<Rightarrow> int \<Rightarrow> world \<Rightarrow> update list" where
  "bot_taken S b 0 offset w = []"
| "bot_taken S b (Suc n) offset w =
     (case bt_poll b offset w of (r, _) \<Rightarrow> (case r of Inl _ \<Rightarrow> [] | Inr ups \<Rightarrow> ups))
     @ (case bot_turn S b offset w of (Inr (offset', _), w') \<Rightarrow> bot_taken S b n offset' w' | _ \<Rightarrow> [])"

lemma Handle_replies: "\<exists>t w'. Handle S p up w = (Inr t, w')"
  by (auto simp: Handle_def activate_def bot_status_def unsubscribe_def bind_session_def bindE_def tryE_def returnE_def
      nowE_def getE_def RandomID_def random_bytes_def split: prod.splits sum.splits if_splits)

lemma bot_batch_offset: "\<exists>w'. bot_batch S b offset ups w = (Inr (foldl next_offset offset (map up_id ups)), w')"
proof (induction ups arbitrary: offset w)
  case (Cons up ups)
  obtain t v where "Handle S (bt_proc b) up w = (Inr t, v)" using Handle_replies by blast
  then show ?case using Cons.IH by (auto simp: Let_def bindE_def ask_def)
qed (simp add: returnE_def)

lemma next_offset_in_range: "offset \<le> i \<Longrightarrow> in_int64 i \<Longrightarrow> i < 2 ^ 63 - 1 \<Longrightarrow> next_offset offset i = i + 1"
  by (simp add: next_offset_def in_int64_def signed_take_bit_int_eq_self)

text \<open>What the Bot API promises for an offset: updates from there on, in increasing order.\<close>

definition ordered_from :: "int \<Rightarrow> update list \<Rightarrow> bool" where
  "ordered_from offset ups \<longleftrightarrow> sorted_wrt (<) (map up_id ups)
     \<and> (\<forall>u \<in> set ups. offset \<le> up_id u \<and> 0 \<le> up_id u \<and> up_id u < 2 ^ 63 - 1)"

lemma foldl_next_offset:
  "ordered_from offset ups \<Longrightarrow> offset \<le> foldl next_offset offset (map up_id ups)
     \<and> (\<forall>u \<in> set ups. up_id u < foldl next_offset offset (map up_id ups))"
proof (induction ups arbitrary: offset)
  case (Cons u us)
  have n: "next_offset offset (up_id u) = up_id u + 1"
    using Cons.prems by (intro next_offset_in_range) (auto simp: ordered_from_def in_int64_def)
  have "ordered_from (up_id u + 1) us" using Cons.prems by (auto simp: ordered_from_def)
  from Cons.IH[OF this] show ?case using Cons.prems by (auto simp: n ordered_from_def)
qed simp

lemma bot_taken_ordered:
  assumes api: "\<And>k w ups w'. bt_poll b k w = (Inr ups, w') \<Longrightarrow> ordered_from k ups"
  shows "sorted_wrt (<) (map up_id (bot_taken S b n offset w)) \<and> (\<forall>u \<in> set (bot_taken S b n offset w). offset \<le> up_id u)"
proof (induction n arbitrary: offset w)
  case (Suc n)
  obtain r v where poll: "bt_poll b offset w = (r, v)" by force
  show ?case
  proof (cases r)
    case (Inl e)
    then show ?thesis using Suc.IH[of offset v] poll by (simp add: bot_turn_def bindE_def ask_def returnE_def)
  next
    case (Inr ups)
    let ?next = "foldl next_offset offset (map up_id ups)"
    note ord = api[OF poll[unfolded Inr]]
    obtain v' where "bot_batch S b offset ups v = (Inr ?next, v')" using bot_batch_offset by blast
    then have "bot_taken S b (Suc n) offset w = ups @ bot_taken S b n ?next v'"
      using poll Inr by (simp add: bot_turn_def bindE_def ask_def returnE_def)
    then have taken: "bot_taken S b (Suc n) offset w = ups @ bot_taken S b n ?next v'" .
    note rest = Suc.IH[of ?next v'] and here = foldl_next_offset[OF ord]
    have "up_id u < up_id u'" if "u \<in> set ups" "u' \<in> set (bot_taken S b n ?next v')" for u u'
      using rest here that by (meson order.strict_trans2)
    moreover have "offset \<le> up_id u" if "u \<in> set (bot_taken S b n ?next v')" for u
      using rest here that by (meson order_trans)
    ultimately show ?thesis using rest ord unfolding taken by (auto simp: sorted_wrt_append ordered_from_def)
  qed
qed simp

text \<open>A worker handles every update at most once: as long as the Bot API answers an offset with
  updates from there on in increasing order, the updates taken in any number of turns have
  strictly increasing ids, whatever fails in between.\<close>

theorem updates_handled_once:
  assumes "\<And>k w ups w'. bt_poll b k w = (Inr ups, w') \<Longrightarrow> ordered_from k ups"
  shows "sorted_wrt (<) (map up_id (bot_taken S b n offset w)) \<and> distinct (bot_taken S b n offset w)"
proof -
  have "sorted_wrt (<) (map up_id (bot_taken S b n offset w))" by (rule bot_taken_ordered[THEN conjunct1]) (rule assms)
  moreover from this have "distinct (map up_id (bot_taken S b n offset w))" by (simp add: strict_sorted_iff)
  ultimately show ?thesis by (simp add: distinct_map)
qed

definition sample_update :: "int \<Rightarrow> string \<Rightarrow> update" where
  "sample_update i txt = \<lparr>up_id = i, up_user = ''42'', up_chat = ''42'', up_text = txt\<rparr>"

definition sample_bot :: "server \<Rightarrow> bot" where
  "sample_bot S = \<lparr>bt_proc = NewInstanceProcessor (Attest S) ''p'' ''c1'',
     bt_poll = (\<lambda>k w. (Inr (if k \<le> 7 then [sample_update 7 ''/help''] else []), w)), bt_send = (\<lambda>_ _. heard (\<lambda>_. None))\<rparr>"

lemma updates_handled_once_witness:
  "map up_id (bot_taken member_server (sample_bot member_server) 3 0 empty_world) = [7] \<and> distinct (bot_taken member_server (sample_bot member_server) 3 0 empty_world)"
proof -
  have ord: "ordered_from k ups" if "bt_poll (sample_bot member_server) k w = (Inr ups, w')" for k w ups w'
    using that by (auto simp: sample_bot_def ordered_from_def sample_update_def split: if_splits)
  have once: "sorted_wrt (<) (map up_id (bot_taken member_server (sample_bot member_server) 3 0 empty_world))
      \<and> distinct (bot_taken member_server (sample_bot member_server) 3 0 empty_world)"
    by (rule updates_handled_once) (rule ord)
  have "parseCommand ''/help'' = (''/help'', '''')" by code_simp
  moreover have "authentic (sample_update 7 ''/help'')" by (simp add: authentic_def sample_update_def)
  ultimately have "map up_id (bot_taken member_server (sample_bot member_server) 3 0 empty_world) = [7]"
    by (simp add: numeral_3_eq_3 bot_turn_def bindE_def ask_def returnE_def sample_bot_def sample_update_def heard_def
        Handle_def next_offset_def)
  then show ?thesis using once by blast
qed

section \<open>Witnesses\<close>

definition bot_code :: activation_code where
  "bot_code = \<lparr>a_code = hex_encode (bytes_of ''abc''), a_sch = sample_sch, a_channel = ''c1'', a_ctype = ''telegram'',
     a_status = ActivationActive, a_expires = 1700000600 * second, a_consumed = None, a_created = 0\<rparr>"

definition bot_world :: world where
  "bot_world = member_world\<lparr>activations := [bot_code]\<rparr>"

definition sample_processor :: processor where
  "sample_processor = NewInstanceProcessor (Attest member_server) ''p'' ''c1''"

lemma sample_activation:
  "\<exists>t w'. activate member_server sample_processor (sample_update 1 ''/start abc'') ''abc'' bot_world = (Inr t, w')
     \<and> length (subs w') = 1 \<and> faults w' = []"
proof -
  have w: "faults bot_world = []" "clock bot_world = 1700000000 * second" "activations bot_world = [bot_code]" "subs bot_world = []"
    using member_world_admits by (simp_all add: bot_world_def admits_def member_world_def sample_world_def empty_world_def)
  define w1 where "w1 = bot_world\<lparr>activations := set_where (activation_open (hex_encode (bytes_of ''abc'')))
      (activation_stamp (1700000000 * second)) [bot_code]\<rparr>"
  have con: "ActivationCode_Consume (HashToken member_server ''abc'') ''telegram'' ''c1'' (1700000000 * second) bot_world
      = (Inr (bot_code\<lparr>a_status := ActivationConsumed\<rparr>), w1)"
    unfolding w1_def using w
    by (subst ActivationCode_Consume_fresh[of _ _ bot_code]) (simp_all add: bot_code_def activation_check_def second_def)
  have "admits w1" using member_world_admits by (simp add: admits_def w1_def bot_world_def)
  then obtain a where a: "attest member_server sample_sch w1 = (Inr a, w1)" "oa_state a = StateActive"
    using sample_attest by blast
  then have att: "Attest member_server sample_sch w1 = (Inr (StateActive, oa_tier a), w1)"
    by (simp add: Attest_def bindE_def returnE_def)
  have w1: "faults w1 = []" "subs w1 = []" using w by (simp_all add: w1_def)
  have "activate member_server sample_processor (sample_update 1 ''/start abc'') ''abc'' bot_world
      = bind_session sample_processor (sample_update 1 ''/start abc'') (bot_code\<lparr>a_status := ActivationConsumed\<rparr>) (oa_tier a) w1"
    using con att w by (simp add: activate_def bind_now tryE_def sample_processor_def NewInstanceProcessor_def bot_code_def)
  moreover obtain i d where "RandomID w1 = (Inr i, w1\<lparr>draws := d\<rparr>)"
    by (simp add: RandomID_def bindE_def random_bytes_def returnE_def)
  ultimately show ?thesis using w1
    by (simp add: bind_session_def bind_now bindE_def[of RandomID] returnE_def tryE_def Sub_Upsert_def exec_def)
qed

lemma activation_sound_witness:
  "\<exists>t w' x. activate member_server sample_processor (sample_update 1 ''/start abc'') ''abc'' bot_world = (Inr t, w')
     \<and> x \<in> set (subs w') \<and> s_user x = ''42'' \<and> s_sch x = sample_sch \<and> s_channel x = ''c1''"
proof -
  obtain t w' where run: "activate member_server sample_processor (sample_update 1 ''/start abc'') ''abc'' bot_world = (Inr t, w')"
    "length (subs w') = 1" using sample_activation by blast
  have new: "subs w' \<noteq> subs bot_world" using run(2)
    by (auto simp: bot_world_def member_world_def sample_world_def empty_world_def)
  have "activations bot_world = [bot_code]" by (simp add: bot_world_def)
  then show ?thesis
    using activation_sound[OF run(1)[unfolded member_server_def sample_processor_def] new] run(1)
    by (auto simp: bot_code_def sample_update_def split: if_splits)
qed

lemma code_binds_once_witness:
  "\<exists>t w' q v'. activate member_server sample_processor (sample_update 1 ''/start abc'') ''abc'' bot_world = (Inr t, w')
     \<and> activate member_server sample_processor (sample_update 2 ''/start abc'') ''abc'' w' = (q, v') \<and> subs v' = subs w'"
proof -
  obtain t w' where run: "activate member_server sample_processor (sample_update 1 ''/start abc'') ''abc'' bot_world = (Inr t, w')"
    "length (subs w') = 1" using sample_activation by blast
  obtain q v' where again: "activate member_server sample_processor (sample_update 2 ''/start abc'') ''abc'' w' = (q, v')" by force
  have new: "subs w' \<noteq> subs bot_world" using run(2)
    by (auto simp: bot_world_def member_world_def sample_world_def empty_world_def)
  have "subs v' = subs w'"
    using code_binds_once[OF run(1)[unfolded member_server_def sample_processor_def] new _
        again[unfolded member_server_def sample_processor_def]] by (simp add: no_new_open_def)
  then show ?thesis using run(1) again by blast
qed

lemma messages_touch_own_rows_witness:
  "\<exists>r w'. Handle member_server sample_processor (sample_update 1 ''/unsubscribe'')
       (empty_world\<lparr>subs := [(sample_subscriber ''42'' ''gold''), (sample_subscriber ''43'' ''gold'')]\<rparr>) = (r, w')
     \<and> filter (\<lambda>x. s_user x \<noteq> ''42'') (subs w') = [sample_subscriber ''43'' ''gold'']"
proof -
  let ?w = "empty_world\<lparr>subs := [(sample_subscriber ''42'' ''gold''), (sample_subscriber ''43'' ''gold'')]\<rparr>"
  obtain r w' where run: "Handle member_server sample_processor (sample_update 1 ''/unsubscribe'') ?w = (r, w')" by force
  have "distinct (map s_id (subs ?w))" by (simp add: sample_subscriber_def)
  from messages_touch_own_rows[OF run[unfolded member_server_def sample_processor_def] this]
  show ?thesis using run by (simp add: sample_update_def sample_subscriber_def)
qed

lemma unsubscribed_gets_nothing_witness:
  "\<exists>w'. unsubscribe sample_processor (sample_update 1 ''/unsubscribe'') (empty_world\<lparr>subs := [sample_subscriber ''42'' ''gold'']\<rparr>)
       = (Inr ''You have been unsubscribed.'', w')
     \<and> (\<forall>x \<in> set (subs w'). s_channel x = ''c1'' \<and> s_user x = ''42'' \<longrightarrow> \<not> addressed sample_job x)"
proof -
  let ?w = "empty_world\<lparr>subs := [sample_subscriber ''42'' ''gold'']\<rparr>"
  obtain w' where run: "unsubscribe sample_processor (sample_update 1 ''/unsubscribe'') ?w = (Inr ''You have been unsubscribed.'', w')"
    by (simp add: unsubscribe_def tryE_def lookup_def sample_processor_def NewInstanceProcessor_def Sub_GetByInstanceUser_def
        sample_subscriber_def sample_update_def empty_world_def Sub_SetStatus_def update_rows_def modify_def exec_def returnE_def)
  have "distinct (map (\<lambda>x. (s_channel x, s_user x)) (subs ?w))" by simp
  from unsubscribed_gets_nothing[OF run[unfolded sample_processor_def] _ this]
  show ?thesis using run by (auto simp: sample_update_def)
qed

end
