(* ===== verification/StoredTime.thy ===== *)
theory StoredTime
  imports TimeText
begin

text \<open>
  The text of a time column (\<open>ts\<close> and \<open>parseTS\<close> of \<open>store/sqlhelpers.go\<close>): what
  \<open>time.Format\<close> writes and \<open>time.Parse\<close> reads with the layout RFC3339Nano. Two facts justify
  the treatment of time columns in the rest of the development: a stored time is read back as
  it was written, and comparing two columns as text, as the SQL statements do, is comparing
  \<open>ts_key\<close>.

  Both hold for the years 0 to 9999, where the text has fixed width. \<open>parseTS\<close> is the parser
  of this layout (\<open>parseRFC3339\<close> of Go's library); the spellings that Go's general parser
  accepts beyond it are never written by the service and count as errors here.
\<close>

section \<open>Writing and reading\<close>

definition ts :: "instant \<Rightarrow> string" where
  "ts t = stamp (unix_sec t) @ frac_text (nat (t mod second))"

definition days_of_civil :: "int \<Rightarrow> int \<Rightarrow> int \<Rightarrow> int" where
  "days_of_civil y m d =
     (let y' = (if m > 2 then y else y - 1); mp = (if m > 2 then m - 3 else m + 9)
      in 365 * y' + y' div 4 - y' div 100 + y' div 400 + (153 * mp + 2) div 5 + d - 1 - 719468)"

definition leap :: "int \<Rightarrow> bool" where
  "leap y \<longleftrightarrow> 4 dvd y \<and> (\<not> 100 dvd y \<or> 400 dvd y)"

definition days_in :: "int \<Rightarrow> int \<Rightarrow> int" where
  "days_in m y = (if m = 2 then (if leap y then 29 else 28) else if m = 4 \<or> m = 6 \<or> m = 9 \<or> m = 11 then 30 else 31)"

definition field :: "nat \<Rightarrow> nat \<Rightarrow> string \<Rightarrow> int option" where
  "field i n s = map_option int (digits_val 0 (take n (drop i s)))"

text \<open>The digits after the point, as nanoseconds: at most nine count.\<close>

definition nanos :: "string \<Rightarrow> nat option" where
  "nanos ds = digits_val 0 (take 9 (ds @ replicate 9 (CHR ''0'')))"

definition zone_offset :: "string \<Rightarrow> int option" where
  "zone_offset z =
     (if z = ''Z'' then Some 0
      else if length z = 6 \<and> (hd z = CHR ''+'' \<or> hd z = CHR ''-'') \<and> z ! 3 = CHR '':'' then
        (case (field 1 2 z, field 4 2 z) of
           (Some h, Some m) \<Rightarrow> if h \<le> 23 \<and> m \<le> 59
              then Some ((if hd z = CHR ''-'' then -1 else 1) * (h * 60 + m) * 60) else None
         | _ \<Rightarrow> None)
      else None)"

definition is_digit :: "char \<Rightarrow> bool" where "is_digit c \<longleftrightarrow> digit_val c \<noteq> None"

definition split_fraction :: "string \<Rightarrow> string \<times> string" where
  "split_fraction s =
     (if 2 \<le> length s \<and> hd s = CHR ''.'' \<and> is_digit (s ! 1)
      then (takeWhile is_digit (tl s), dropWhile is_digit (tl s)) else ('''', s))"

definition parseTS :: "string \<Rightarrow> instant option" where
  "parseTS s =
     (if length s < 19 then None
      else (case (field 0 4 s, field 5 2 s, field 8 2 s, field 11 2 s, field 14 2 s, field 17 2 s) of
        (Some y, Some mo, Some d, Some h, Some mi, Some sec) \<Rightarrow>
          if 1 \<le> mo \<and> mo \<le> 12 \<and> 1 \<le> d \<and> d \<le> days_in mo y \<and> h \<le> 23 \<and> mi \<le> 59 \<and> sec \<le> 59
             \<and> s ! 4 = CHR ''-'' \<and> s ! 7 = CHR ''-'' \<and> s ! 10 = CHR ''T'' \<and> s ! 13 = CHR '':'' \<and> s ! 16 = CHR '':''
          then (case split_fraction (drop 19 s) of (ds, z) \<Rightarrow>
            (case (nanos ds, zone_offset z) of
               (Some ns, Some off) \<Rightarrow>
                 Some ((days_of_civil y mo d * 86400 + h * 3600 + mi * 60 + sec - off) * second + int ns)
             | _ \<Rightarrow> None))
          else None
      | _ \<Rightarrow> None))"

text \<open>The instants of the years 0 to 9999.\<close>

definition four_digit_year :: "instant \<Rightarrow> bool" where
  "four_digit_year t \<longleftrightarrow> (case civil_of_days (unix_sec t div 86400) of (y, _, _) \<Rightarrow> 0 \<le> y \<and> y \<le> 9999)"

section \<open>The calendar\<close>

lemma div_within: "0 < n \<Longrightarrow> \<exists>k. a div n = k \<and> n * k \<le> a \<and> a < n * k + n" for a n :: int
  using mult_div_mod_eq[of n a] pos_mod_bound[of n a] pos_mod_sign[of n a] by (intro exI[of _ "a div n"]) linarith

lemma march_parts:
  assumes "march_of_days days = (y, mp, d)"
  obtains doe c q yr doy where
    "0 \<le> doe" "doe < 146097" "0 \<le> c" "c \<le> 3" "0 \<le> q" "q \<le> 24" "0 \<le> yr" "yr \<le> 3"
    "doe = 36524 * c + 1461 * q + 365 * yr + doy" "0 \<le> doy" "doy \<le> 365"
    "doy = 365 \<Longrightarrow> yr = 3 \<and> (q = 24 \<longrightarrow> c = 3)"
    "y = (days + 719468) div 146097 * 400 + 100 * c + 4 * q + yr" "doe = (days + 719468) mod 146097"
    "mp = (5 * doy + 2) div 153" "d = doy - (153 * mp + 2) div 5 + 1"
proof -
  define doe where "doe = (days + 719468) mod 146097"
  define c where "c = min 3 (doe div 36524)"
  define r where "r = doe - 36524 * c"
  define q where "q = r div 1461"
  define r2 where "r2 = r mod 1461"
  define yr where "yr = min 3 (r2 div 365)"
  define doy where "doy = r2 - 365 * yr"
  have doe: "0 \<le> doe" "doe < 146097" by (simp_all add: doe_def)
  have c: "0 \<le> c" "c \<le> 3" using doe by (auto simp: c_def pos_imp_zdiv_nonneg_iff)
  have r: "0 \<le> r" "r \<le> 36524" "r = 36524 \<longrightarrow> c = 3"

  proof -
    obtain k where k: "doe div 36524 = k" "36524 * k \<le> doe" "doe < 36524 * k + 36524"
      using div_within[of 36524 doe] by simp
    show "0 \<le> r" "r \<le> 36524" "r = 36524 \<longrightarrow> c = 3"
      using doe k(2,3) unfolding r_def c_def k(1) by linarith+
  qed
  have q: "0 \<le> q" "q \<le> 24" "0 \<le> r2" "r2 < 1461" "r = 1461 * q + r2" using r unfolding q_def r2_def by simp_all
  have yr: "0 \<le> yr" "yr \<le> 3" using q by (auto simp: yr_def pos_imp_zdiv_nonneg_iff)
  have doy: "0 \<le> doy" "doy \<le> 365" "doy = 365 \<longrightarrow> yr = 3 \<and> r2 = 1460" 
  proof -
    obtain k where k: "r2 div 365 = k" "365 * k \<le> r2" "r2 < 365 * k + 365"
      using div_within[of 365 r2] by simp
    show "0 \<le> doy" "doy \<le> 365" "doy = 365 \<longrightarrow> yr = 3 \<and> r2 = 1460"
      using q(3,4) k(2,3) unfolding doy_def yr_def k(1) by linarith+
  qed
  have eq: "march_of_days days = ((days + 719468) div 146097 * 400 + 100 * c + 4 * q + yr, (5 * doy + 2) div 153,
      doy - (153 * ((5 * doy + 2) div 153) + 2) div 5 + 1)"
    unfolding march_of_days_def Let_def doy_def yr_def r2_def q_def r_def c_def doe_def by (rule refl)
  have "doy = 365 \<Longrightarrow> yr = 3 \<and> (q = 24 \<longrightarrow> c = 3)" using doy(3) q(5) r(3) by auto
  note e = assms[unfolded eq prod.inject]
  note mp = e[THEN conjunct2, THEN conjunct1]
  have "y = (days + 719468) div 146097 * 400 + 100 * c + 4 * q + yr" by (rule e[THEN conjunct1, symmetric])
  have "mp = (5 * doy + 2) div 153" by (rule mp[symmetric])
  have "d = doy - (153 * mp + 2) div 5 + 1"
    by (rule e[THEN conjunct2, THEN conjunct2, unfolded mp, symmetric])
  have "doe = 36524 * c + 1461 * q + 365 * yr + doy" using q(5) by (simp add: doy_def r_def)
  show thesis by (rule that[of doe c q yr doy]) (fact | fact doe_def)+
qed

definition year_start :: "int \<Rightarrow> int" where
  "year_start y = 365 * y + y div 4 - y div 100 + y div 400"

lemma year_start_parts:
  assumes "0 \<le> c" "c \<le> 3" "0 \<le> q" "q \<le> 24" "0 \<le> yr" "yr \<le> 3"
  shows "year_start (e * 400 + 100 * c + 4 * q + yr) = 146097 * e + 36524 * c + 1461 * q + 365 * yr"
proof -
  let ?y = "e * 400 + 100 * c + 4 * q + yr"
  have "?y div 4 = 100 * e + 25 * c + q" by (rule int_div_pos_eq[of _ _ _ yr]) (use assms in simp_all)
  moreover have "?y div 100 = 4 * e + c" by (rule int_div_pos_eq[of _ _ _ "4 * q + yr"]) (use assms in simp_all)
  moreover have "?y div 400 = e" by (rule int_div_pos_eq[of _ _ _ "100 * c + 4 * q + yr"]) (use assms in simp_all)
  ultimately show ?thesis by (simp add: year_start_def)
qed

lemma year_start_next:
  assumes "0 \<le> c" "c \<le> 3" "0 \<le> q" "q \<le> 24" "0 \<le> yr" "yr \<le> 3"
  shows "year_start (e * 400 + 100 * c + 4 * q + yr + 1) - year_start (e * 400 + 100 * c + 4 * q + yr)
    = (if yr = 3 \<and> (q = 24 \<longrightarrow> c = 3) then 366 else 365)"
proof -
  consider "yr < 3" | "yr = 3" "q < 24" | "yr = 3" "q = 24" "c < 3" | "yr = 3" "q = 24" "c = 3" using assms by linarith
  then show ?thesis
  proof cases
    case 1
    then show ?thesis using year_start_parts[of c q "yr + 1" e] year_start_parts[OF assms, of e] assms by (simp add: algebra_simps)
  next
    case 2
    then show ?thesis using year_start_parts[of c "q + 1" 0 e] year_start_parts[OF assms, of e] assms by (simp add: algebra_simps)
  next
    case 3
    then show ?thesis using year_start_parts[of "c + 1" 0 0 e] year_start_parts[OF assms, of e] assms by (simp add: algebra_simps)
  next
    case 4
    then show ?thesis using year_start_parts[of 0 0 0 "e + 1"] year_start_parts[OF assms, of e] assms by (simp add: algebra_simps)
  qed
qed

text \<open>Days in the months from March on; the last one depends on the year.\<close>

definition month_len :: "int \<Rightarrow> int" where
  "month_len mp = (if mp = 1 \<or> mp = 3 \<or> mp = 6 \<or> mp = 8 then 30 else if mp = 11 then 29 else 31)"

lemma month_of_doy:
  assumes "0 \<le> doy" "doy \<le> 365" "mp = (5 * doy + 2) div 153" "d = doy - (153 * mp + 2) div 5 + 1"
  shows "0 \<le> mp" "mp \<le> 11" "1 \<le> d" "d \<le> month_len mp" "doy = (153 * mp + 2) div 5 + d - 1"
proof -
  have b: "153 * mp \<le> 5 * doy + 2" "5 * doy + 2 < 153 * mp + 153"
    using div_within[of 153 "5 * doy + 2"] assms(3) by simp_all
  then show mp: "0 \<le> mp" "mp \<le> 11" using assms(1,2) by linarith+
  then have "mp = 0 \<or> mp = 1 \<or> mp = 2 \<or> mp = 3 \<or> mp = 4 \<or> mp = 5 \<or> mp = 6 \<or> mp = 7 \<or> mp = 8
    \<or> mp = 9 \<or> mp = 10 \<or> mp = 11" by presburger
  then show "1 \<le> d" "d \<le> month_len mp" using b assms(1,2,4) by (elim disjE; simp add: month_len_def)+
  show "doy = (153 * mp + 2) div 5 + d - 1" using assms(4) by simp
qed

lemma march_spec:
  assumes "march_of_days days = (y, mp, d)"
  shows "0 \<le> mp" "mp \<le> 11" "1 \<le> d" "d \<le> month_len mp"
    "days + 719468 = year_start y + (153 * mp + 2) div 5 + d - 1"
    "days + 719468 < year_start (y + 1)"
    "mp = 11 \<and> d = 29 \<Longrightarrow> leap (y + 1)"
proof -
  obtain doe c q yr doy where p: "0 \<le> doe" "doe < 146097" "0 \<le> c" "c \<le> 3" "0 \<le> q" "q \<le> 24" "0 \<le> yr" "yr \<le> 3"
    "doe = 36524 * c + 1461 * q + 365 * yr + doy" "0 \<le> doy" "doy \<le> 365"
    "doy = 365 \<Longrightarrow> yr = 3 \<and> (q = 24 \<longrightarrow> c = 3)"
    "y = (days + 719468) div 146097 * 400 + 100 * c + 4 * q + yr" "doe = (days + 719468) mod 146097"
    "mp = (5 * doy + 2) div 153" "d = doy - (153 * mp + 2) div 5 + 1"
    by (rule march_parts[OF assms]) (rule that; assumption)
  define e where "e = (days + 719468) div 146097"
  have y: "y = e * 400 + 100 * c + 4 * q + yr" using p(13) by (simp add: e_def)
  note m = month_of_doy[OF p(10,11,15,16)]
  show "0 \<le> mp" "mp \<le> 11" "1 \<le> d" "d \<le> month_len mp" by (rule m)+
  have days: "days + 719468 = 146097 * e + doe" by (simp add: e_def p(14))
  have start: "year_start y = 146097 * e + 36524 * c + 1461 * q + 365 * yr"
    unfolding y by (rule year_start_parts) (rule p)+
  show "days + 719468 = year_start y + (153 * mp + 2) div 5 + d - 1" using days start p(9) m(5) by simp
  have "year_start (y + 1) - year_start y = (if yr = 3 \<and> (q = 24 \<longrightarrow> c = 3) then 366 else 365)"
    unfolding y by (rule year_start_next) (rule p)+
  moreover have "days + 719468 = year_start y + doy" using days start p(9) by simp
  ultimately show "days + 719468 < year_start (y + 1)" using p(11,12) by (cases "doy = 365") (auto split: if_splits)
  show "leap (y + 1)" if "mp = 11 \<and> d = 29"
  proof -
    have "doy = 365" using that m(5) by simp
    then have yr: "yr = 3" "q = 24 \<longrightarrow> c = 3" using p(12) by blast+
    show ?thesis
    proof (cases "q = 24")
      case True
      then have "y + 1 = 400 * (e + 1)" using y yr by simp
      then show ?thesis by (simp add: leap_def)
    next
      case False
      have "y + 1 = 4 * (100 * e + 25 * c + q + 1)" using y yr(1) by simp
      moreover have "(y + 1) mod 100 = 4 * (q + 1)"
        by (rule int_mod_pos_eq[of _ _ "4 * e + c"]) (use y yr(1) False p(5,6) in simp_all)
      ultimately show ?thesis using p(5) unfolding leap_def dvd_eq_mod_eq_0[of 100] by (metis dvd_triv_left add_nonneg_eq_0_iff mult_eq_0_iff zero_le_one zero_neq_numeral one_neq_zero)
    qed
  qed
qed

lemma civil_spec:
  assumes "civil_of_days days = (y, m, d)"
  shows "1 \<le> m" "m \<le> 12" "1 \<le> d" "d \<le> days_in m y" "days_of_civil y m d = days"
proof -
  obtain ym mp dd where march: "march_of_days days = (ym, mp, dd)" by (cases "march_of_days days")
  then have eq: "d = dd" "y = (if mp < 10 then ym else ym + 1)" "m = (if mp < 10 then mp + 3 else mp - 9)"
    using assms by (auto simp: civil_of_days_def split: if_splits)
  note s = march_spec[OF march]
  show "1 \<le> m" "m \<le> 12" "1 \<le> d" using s eq by auto
  show "d \<le> days_in m y"
    using s(1,2,4,7) eq by (cases "dd = 29") (auto simp: days_in_def month_len_def split: if_splits)
  have "365 * ym + ym div 4 - ym div 100 + ym div 400 + (153 * mp + 2) div 5 + dd - 1 - 719468 = days"
    using s(5) unfolding year_start_def by linarith
  then show "days_of_civil y m d = days"
    using s(1,2) eq by (auto simp: days_of_civil_def Let_def algebra_simps)
qed

lemma year_start_mono: "y \<le> y' \<Longrightarrow> year_start y \<le> year_start y'"
proof (cases "y = y'")
  case False
  assume "y \<le> y'"
  obtain a b c where n: "y div 4 = a" "4 * a \<le> y" "y div 100 = b" "y < 100 * b + 100" "y div 400 = c" "400 * c \<le> y"
    using div_within[of 4 y] div_within[of 100 y] div_within[of 400 y] by auto
  obtain a' b' c' where n': "y' div 4 = a'" "y' < 4 * a' + 4" "y' div 100 = b'" "100 * b' \<le> y'" "y' div 400 = c'" "y' < 400 * c' + 400"
    using div_within[of 4 y'] div_within[of 100 y'] div_within[of 400 y'] by auto
  show ?thesis using False \<open>y \<le> y'\<close> n(2,4,6) n'(2,4,6) unfolding year_start_def n(1,3,5) n'(1,3,5) by linarith
qed simp

lemma month_start_next: "0 \<le> mp \<Longrightarrow> mp \<le> 10 \<Longrightarrow> (153 * mp + 2) div 5 + month_len mp = (153 * (mp + 1) + 2) div 5"
proof -
  assume "0 \<le> mp" "mp \<le> 10"
  then have "mp = 0 \<or> mp = 1 \<or> mp = 2 \<or> mp = 3 \<or> mp = 4 \<or> mp = 5 \<or> mp = 6 \<or> mp = 7 \<or> mp = 8
    \<or> mp = 9 \<or> mp = 10" by presburger
  then show ?thesis by (elim disjE) (simp_all add: month_len_def)
qed

lemma march_mono:
  assumes "march_of_days a = (y, mp, d)" "march_of_days b = (y', mp', d')" "a < b"
  shows "y < y' \<or> y = y' \<and> (mp < mp' \<or> mp = mp' \<and> d < d')"
proof (rule ccontr)
  assume "\<not> ?thesis"
  then consider "y' < y" | "y = y'" "mp' < mp" | "y = y'" "mp = mp'" "d' \<le> d" by linarith
  then show False
  proof cases
    case 1
    then have "year_start (y' + 1) \<le> year_start y" by (intro year_start_mono) simp
    moreover have "0 \<le> (153 * mp + 2) div 5" using march_spec(1)[OF assms(1)] by (simp add: pos_imp_zdiv_nonneg_iff)
    ultimately show False using march_spec(3,5)[OF assms(1)] march_spec(6)[OF assms(2)] assms(3) by linarith
  next
    case 2
    have "(153 * mp' + 2) div 5 + month_len mp' = (153 * (mp' + 1) + 2) div 5"
      using month_start_next[of mp'] march_spec(1)[OF assms(2)] march_spec(2)[OF assms(1)] 2 by simp
    moreover have "(153 * (mp' + 1) + 2) div 5 \<le> (153 * mp + 2) div 5" using 2 by (intro zdiv_mono1) simp_all
    ultimately show False
      using march_spec(3,5)[OF assms(1)] march_spec(4,5)[OF assms(2)] assms(3) 2(1) by simp
  next
    case 3
    then show False using march_spec(5)[OF assms(1)] march_spec(5)[OF assms(2)] assms(3) by simp
  qed
qed

lemma civil_mono:
  assumes "civil_of_days a = (y, m, d)" "civil_of_days b = (y', m', d')" "a < b"
  shows "y < y' \<or> y = y' \<and> (m < m' \<or> m = m' \<and> d < d')"
proof -
  obtain ya mp da yb mp' db where march: "march_of_days a = (ya, mp, da)" "march_of_days b = (yb, mp', db)"
    by (metis prod_cases3)
  have eq: "d = da" "y = (if mp < 10 then ya else ya + 1)" "m = (if mp < 10 then mp + 3 else mp - 9)"
      "d' = db" "y' = (if mp' < 10 then yb else yb + 1)" "m' = (if mp' < 10 then mp' + 3 else mp' - 9)"
    using assms march by (auto simp: civil_of_days_def split: if_splits)
  show ?thesis
    using march_mono[OF march assms(3)] march_spec(1,2)[OF march(1)] march_spec(1,2)[OF march(2)] eq
    by (auto split: if_splits)
qed

section \<open>Fixed-width decimals\<close>

fun fixed :: "nat \<Rightarrow> nat \<Rightarrow> string" where
  "fixed 0 n = []"
| "fixed (Suc k) n = fixed k (n div 10) @ [digit_char (n mod 10)]"

lemma length_fixed [simp]: "length (fixed k n) = k"
  by (induction k arbitrary: n) auto

lemma fixed_zero: "fixed k 0 = replicate k (digit_char 0)"
  by (induction k) (simp_all add: replicate_append_same)

lemma pad_fixed: "n < 10 ^ k \<Longrightarrow> 0 < k \<Longrightarrow> replicate (k - length (nat_string n)) (digit_char 0) @ nat_string n = fixed k n"
proof (induction k arbitrary: n)
  case (Suc k)
  show ?case
  proof (cases "n < 10")
    case True
    then show ?thesis by (simp add: nat_string.simps[of n] fixed_zero)
  next
    case False
    then have "n div 10 < 10 ^ k" using Suc.prems(1) by (simp add: less_mult_imp_div_less mult.commute)
    moreover have "0 < k" using Suc.prems(1) False by (cases k) auto
    ultimately have "replicate (k - length (nat_string (n div 10))) (digit_char 0) @ nat_string (n div 10) = fixed k (n div 10)"
      by (rule Suc.IH)
    then show ?thesis using False by (simp add: nat_string.simps[of n])
  qed
qed simp

lemma digit_zero: "CHR ''0'' = digit_char 0"
  by code_simp

lemma pad_eq_fixed: "0 \<le> n \<Longrightarrow> n < 10 ^ k \<Longrightarrow> 0 < k \<Longrightarrow> pad k n = fixed k (nat n)"
  using pad_fixed[of "nat n" k] by (simp add: pad_def Let_def digit_zero nat_less_iff)

lemma digits_val_fixed: "n < 10 ^ k \<Longrightarrow> digits_val 0 (fixed k n) = Some n"
proof (induction k arbitrary: n)
  case (Suc k)
  then have "n div 10 < 10 ^ k" by (simp add: less_mult_imp_div_less mult.commute)
  then show ?case using Suc.IH by (simp add: digits_val_append digit_val_char)
qed simp

lemma digit_char_less: "i < 10 \<Longrightarrow> j < 10 \<Longrightarrow> digit_char i < digit_char j \<longleftrightarrow> i < j"
  by (simp add: digit_char_def less_char_def of_char_of)

text \<open>Texts of equal length compare as their parts do.\<close>

lemma append_less:
  "length a = length a' \<Longrightarrow> a @ b < a' @ b' \<longleftrightarrow> a < a' \<or> a = a' \<and> b < (b' :: string)"
  by (induction a a' rule: list_induct2) auto

lemma fixed_inj: "m < 10 ^ k \<Longrightarrow> n < 10 ^ k \<Longrightarrow> fixed k m = fixed k n \<longleftrightarrow> m = n"
  using digits_val_fixed by (metis option.inject)

lemma fixed_less: "m < 10 ^ k \<Longrightarrow> n < 10 ^ k \<Longrightarrow> fixed k m < fixed k n \<longleftrightarrow> m < n"
proof (induction k arbitrary: m n)
  case (Suc k)
  have d: "m div 10 < 10 ^ k" "n div 10 < 10 ^ k" using Suc.prems by (simp_all add: less_mult_imp_div_less mult.commute)
  have eq: "fixed k (m div 10) = fixed k (n div 10) \<longleftrightarrow> m div 10 = n div 10"
    by (rule fixed_inj[OF d])
  have "fixed (Suc k) m < fixed (Suc k) n \<longleftrightarrow>
      m div 10 < n div 10 \<or> m div 10 = n div 10 \<and> m mod 10 < n mod 10"
    using Suc.IH[OF d] eq by (simp add: append_less digit_char_less)
  also have "\<dots> \<longleftrightarrow> m < n"
  proof -
    have parts: "\<exists>a r. x div 10 = a \<and> x mod 10 = r \<and> x = 10 * a + r \<and> r < 10" for x :: nat by simp
    obtain a r b s where ab: "m div 10 = a" "m mod 10 = r" "m = 10 * a + r" "r < 10"
        "n div 10 = b" "n mod 10 = s" "n = 10 * b + s" "s < 10"
      using parts[of m] parts[of n] by blast
    show ?thesis unfolding ab(1,2,5,6) using ab(3,4,7,8) by linarith
  qed
  finally show ?case .
qed simp


section \<open>The order of stored times\<close>

lemma sod_parts:
  fixes secs :: int
  obtains h mi s where "secs mod 86400 div 3600 = h" "secs mod 86400 div 60 mod 60 = mi" "secs mod 86400 mod 60 = s"
    "secs mod 86400 = 3600 * h + 60 * mi + s" "0 \<le> h" "h \<le> 23" "0 \<le> mi" "mi \<le> 59" "0 \<le> s" "s \<le> 59"
proof -
  define x where "x = secs mod 86400"
  have x: "0 \<le> x" "x < 86400" by (simp_all add: x_def)
  have parts: "\<exists>k. z div 60 = k \<and> z mod 60 = z - 60 * k \<and> 60 * k \<le> z \<and> z < 60 * k + 60" for z :: int
    using div_within[of 60 z] minus_mult_div_eq_mod[of z 60] by fastforce
  obtain u where u: "x div 60 = u" "x mod 60 = x - 60 * u" "60 * u \<le> x" "x < 60 * u + 60"
    using parts[of x] by blast
  obtain h where h: "u div 60 = h" "u mod 60 = u - 60 * h" "60 * h \<le> u" "u < 60 * h + 60"
    using parts[of u] by blast
  have "x div 3600 = h" using zdiv_zmult2_eq[of 60 x 60] u(1) h(1) by simp
  then show thesis
    using that[of h "u - 60 * h" "x - 60 * u"] u h x unfolding x_def[symmetric] by (simp add: algebra_simps)
qed

definition civil_year :: "int \<Rightarrow> bool" where
  "civil_year secs \<longleftrightarrow> (case civil_of_days (secs div 86400) of (y, _, _) \<Rightarrow> 0 \<le> y \<and> y \<le> 9999)"

lemma four_digit_year_iff: "four_digit_year t \<longleftrightarrow> civil_year (unix_sec t)"
  by (simp add: four_digit_year_def civil_year_def)

lemma days_in_le: "days_in m y \<le> 31"
  by (simp add: days_in_def)

lemma stamp_fixed:
  assumes "civil_of_days (secs div 86400) = (y, m, d)" "civil_year secs"
  shows "stamp secs = fixed 4 (nat y) @ ''-'' @ fixed 2 (nat m) @ ''-'' @ fixed 2 (nat d) @ ''T''
      @ fixed 2 (nat (secs mod 86400 div 3600)) @ '':'' @ fixed 2 (nat (secs mod 86400 div 60 mod 60)) @ '':''
      @ fixed 2 (nat (secs mod 86400 mod 60))"
    "0 \<le> y" "y \<le> 9999" "1 \<le> m" "m \<le> 12" "1 \<le> d" "d \<le> days_in m y" "d \<le> 31" "days_of_civil y m d = secs div 86400"
proof -
  show y: "0 \<le> y" "y \<le> 9999" using assms by (simp_all add: civil_year_def)
  show md: "1 \<le> m" "m \<le> 12" "1 \<le> d" "d \<le> days_in m y" "days_of_civil y m d = secs div 86400"
    by (rule civil_spec[OF assms(1)])+
  then show "d \<le> 31" using days_in_le[of m y] by simp
  obtain h mi s where p: "secs mod 86400 div 3600 = h" "secs mod 86400 div 60 mod 60 = mi" "secs mod 86400 mod 60 = s"
      "0 \<le> h" "h \<le> 23" "0 \<le> mi" "mi \<le> 59" "0 \<le> s" "s \<le> 59" by (rule sod_parts)
  show "stamp secs = fixed 4 (nat y) @ ''-'' @ fixed 2 (nat m) @ ''-'' @ fixed 2 (nat d) @ ''T''
      @ fixed 2 (nat (secs mod 86400 div 3600)) @ '':'' @ fixed 2 (nat (secs mod 86400 div 60 mod 60)) @ '':''
      @ fixed 2 (nat (secs mod 86400 mod 60))"
    using y md(1-3) \<open>d \<le> 31\<close> p(4-9) unfolding stamp_def Let_def assms(1) p(1-3) by (simp add: pad_eq_fixed)
qed

lemma stamp_less_if:
  assumes "civil_year a" "civil_year b" "a < b"
  shows "stamp a < stamp b"
proof -
  obtain y m d where ca: "civil_of_days (a div 86400) = (y, m, d)" by (metis prod_cases3)
  obtain y' m' d' where cb: "civil_of_days (b div 86400) = (y', m', d')" by (metis prod_cases3)
  note sa = stamp_fixed[OF ca assms(1)] and sb = stamp_fixed[OF cb assms(2)]
  obtain h mi s where p: "a mod 86400 div 3600 = h" "a mod 86400 div 60 mod 60 = mi" "a mod 86400 mod 60 = s"
      "a mod 86400 = 3600 * h + 60 * mi + s" "0 \<le> h" "h \<le> 23" "0 \<le> mi" "mi \<le> 59" "0 \<le> s" "s \<le> 59" by (rule sod_parts)
  obtain h' mi' s' where p': "b mod 86400 div 3600 = h'" "b mod 86400 div 60 mod 60 = mi'" "b mod 86400 mod 60 = s'"
      "b mod 86400 = 3600 * h' + 60 * mi' + s'" "0 \<le> h'" "h' \<le> 23" "0 \<le> mi'" "mi' \<le> 59" "0 \<le> s'" "s' \<le> 59" by (rule sod_parts)
  have "(y < y' \<or> y = y' \<and> (m < m' \<or> m = m' \<and> d < d'))
      \<or> (y, m, d) = (y', m', d') \<and> (h < h' \<or> h = h' \<and> (mi < mi' \<or> mi = mi' \<and> s < s'))"
  proof (cases "a div 86400 < b div 86400")
    case True
    then show ?thesis using civil_mono[OF ca cb] by blast
  next
    case False
    then have same: "a div 86400 = b div 86400" using zdiv_mono1[of a b 86400] assms(3) by simp
    then have "a mod 86400 < b mod 86400"
      using assms(3) by (metis add_less_cancel_left mult_div_mod_eq)
    then show ?thesis using same ca cb p(4-10) p'(4-10) by auto
  qed
  then show ?thesis
    unfolding sa(1) sb(1) p(1-3) p'(1-3)
    using sa(2-6,8) sb(2-6,8) p(5-10) p'(5-10)
    by (simp add: append_less fixed_less fixed_inj nat_less_iff eq_nat_nat_iff) auto
qed

lemma length_stamp: "civil_year secs \<Longrightarrow> length (stamp secs) = 19"
proof -
  assume y: "civil_year secs"
  obtain y m d where c: "civil_of_days (secs div 86400) = (y, m, d)" by (metis prod_cases3)
  show ?thesis using stamp_fixed(1)[OF c y] by simp
qed

lemma stamp_order:
  assumes "civil_year a" "civil_year b"
  shows "stamp a < stamp b \<longleftrightarrow> a < b" "stamp a = stamp b \<longleftrightarrow> a = b"
  using stamp_less_if[OF assms] stamp_less_if[OF assms(2,1)] by (cases a b rule: linorder_cases; auto)+

lemma ts_less_text:
  assumes "four_digit_year a" "four_digit_year b"
  shows "ts a < ts b \<longleftrightarrow> ts_less a b"
  using assms length_stamp stamp_order[of "unix_sec a" "unix_sec b"]
  by (auto simp: ts_def append_less four_digit_year_iff ts_less_def ts_key_def)

section \<open>Reading back\<close>

lemma frac_digits_fixed: "n < 10 ^ 9 \<Longrightarrow> frac_digits n = fixed 9 n"
proof -
  have "fixed k n = map (\<lambda>i. digit_char (n div 10 ^ (k - 1 - i) mod 10)) [0 ..< k]" for k n
  proof (induction k arbitrary: n)
    case (Suc k)
    have "n div 10 div 10 ^ (k - 1 - i) = n div 10 ^ (k - i)" if "i < k" for i
      using that by (simp add: div_mult2_eq[symmetric] power_Suc[symmetric] Suc_diff_Suc del: power_Suc)
    then show ?case using Suc.IH[of "n div 10"] by simp
  qed simp
  then show ?thesis by (simp add: frac_digits_def)
qed

lemma stripped:
  obtains ds j where "frac_digits n = ds @ replicate j (CHR ''0'')" "length ds + j = 9"
    "rev (dropWhile (\<lambda>c. c = CHR ''0'') (rev (frac_digits n))) = ds"
proof -
  let ?P = "\<lambda>c. c = CHR ''0''" and ?f = "frac_digits n"
  have "?f = rev (dropWhile ?P (rev ?f)) @ rev (takeWhile ?P (rev ?f))"
    by (metis rev_append rev_rev_ident takeWhile_dropWhile_id)
  moreover have "takeWhile ?P (rev ?f) = replicate (length (takeWhile ?P (rev ?f))) (CHR ''0'')"
    by (rule replicate_eqI) (auto dest: set_takeWhileD)
  ultimately have "?f = rev (dropWhile ?P (rev ?f)) @ replicate (length (takeWhile ?P (rev ?f))) (CHR ''0'')"
    by (metis rev_replicate)
  then show thesis by (rule that[OF _ _ refl]) (metis frac_digits_def length_append length_map length_replicate length_rev
      length_upt diff_zero takeWhile_dropWhile_id add.commute)
qed

lemma is_digit_fixed: "c \<in> set (fixed k n) \<Longrightarrow> is_digit c"
  by (induction k arbitrary: n) (auto simp: is_digit_def digit_val_char)

lemma nanos_frac:
  assumes "n < 10 ^ 9"
  shows "case split_fraction (frac_text n) of (ds, z) \<Rightarrow> nanos ds = Some n \<and> z = ''Z''"
proof (cases "n = 0")
  case True
  have "nanos '''' = Some 0" using digits_val_fixed[of 0 9] by (simp add: nanos_def fixed_zero digit_zero)
  then show ?thesis using True by (simp add: frac_text_def split_fraction_def)
next
  case False
  obtain ds j where ds: "frac_digits n = ds @ replicate j (CHR ''0'')" "length ds + j = 9"
      "rev (dropWhile (\<lambda>c. c = CHR ''0'') (rev (frac_digits n))) = ds" by (rule stripped)
  have spelt: "frac_text n = CHR ''.'' # ds @ ''Z''" using False ds(3) by (simp add: frac_text_def)
  have digits: "\<forall>c \<in> set ds. is_digit c"
    using ds(1) frac_digits_fixed[OF assms] is_digit_fixed by (metis UnI1 set_append)
  have "ds \<noteq> []"
  proof
    assume "ds = []"
    then have "fixed 9 n = fixed 9 0" using ds frac_digits_fixed[OF assms] by (simp add: fixed_zero digit_zero)
    then show False using False fixed_inj[OF assms, of 0] by simp
  qed
  then obtain c ds' where c: "ds = c # ds'" by (cases ds) auto
  have z: "\<not> is_digit (CHR ''Z'')" by code_simp
  have "takeWhile is_digit (ds @ ''Z'') = ds" "dropWhile is_digit (ds @ ''Z'') = ''Z''"
    using digits z by (simp_all add: takeWhile_append2 dropWhile_append2)
  then have split: "split_fraction (frac_text n) = (ds, ''Z'')"
    using digits c by (simp add: spelt split_fraction_def)
  have "take 9 (ds @ replicate 9 (CHR ''0'')) = frac_digits n"
    using ds(1,2) by (simp add: min_def) 
  then have "nanos ds = Some n" using digits_val_fixed[OF assms] frac_digits_fixed[OF assms] by (simp add: nanos_def)
  then show ?thesis by (simp add: split)
qed

lemma field_fixed:
  assumes "s = a @ fixed k n @ r" "length a = i" "n < 10 ^ k"
  shows "field i k s = Some (int n)"
  using assms by (simp add: field_def digits_val_fixed)

lemma parseTS_stamp:
  assumes y: "civil_year secs" and n: "n < 10 ^ 9"
  shows "parseTS (stamp secs @ frac_text n) = Some (secs * second + int n)"
proof -
  obtain y m d where c: "civil_of_days (secs div 86400) = (y, m, d)" by (metis prod_cases3)
  obtain h mi s where p: "secs mod 86400 div 3600 = h" "secs mod 86400 div 60 mod 60 = mi" "secs mod 86400 mod 60 = s"
      "secs mod 86400 = 3600 * h + 60 * mi + s" "0 \<le> h" "h \<le> 23" "0 \<le> mi" "mi \<le> 59" "0 \<le> s" "s \<le> 59" by (rule sod_parts)
  note st = stamp_fixed[OF c y]
  define F where "F = frac_text n"
  have spelt: "stamp secs @ F = fixed 4 (nat y) @ ''-'' @ fixed 2 (nat m) @ ''-'' @ fixed 2 (nat d) @ ''T''
      @ fixed 2 (nat h) @ '':'' @ fixed 2 (nat mi) @ '':'' @ fixed 2 (nat s) @ F"
    by (simp add: st(1) p(1-3))
  let ?s = "stamp secs @ F"
  have fields: "field 0 4 ?s = Some y" "field 5 2 ?s = Some m" "field 8 2 ?s = Some d"
      "field 11 2 ?s = Some h" "field 14 2 ?s = Some mi" "field 17 2 ?s = Some s"
    using field_fixed[of ?s "''''" 4 "nat y" _ 0] field_fixed[of ?s "fixed 4 (nat y) @ ''-''" 2 "nat m" _ 5]
      field_fixed[of ?s "fixed 4 (nat y) @ ''-'' @ fixed 2 (nat m) @ ''-''" 2 "nat d" _ 8]
      field_fixed[of ?s "fixed 4 (nat y) @ ''-'' @ fixed 2 (nat m) @ ''-'' @ fixed 2 (nat d) @ ''T''" 2 "nat h" _ 11]
      field_fixed[of ?s "fixed 4 (nat y) @ ''-'' @ fixed 2 (nat m) @ ''-'' @ fixed 2 (nat d) @ ''T'' @ fixed 2 (nat h) @ '':''" 2 "nat mi" _ 14]
      field_fixed[of ?s "fixed 4 (nat y) @ ''-'' @ fixed 2 (nat m) @ ''-'' @ fixed 2 (nat d) @ ''T'' @ fixed 2 (nat h) @ '':'' @ fixed 2 (nat mi) @ '':''" 2 "nat s" _ 17]
      st(2-6,8) p(5-10) unfolding spelt by (simp_all add: nat_less_iff)
  have seps: "?s ! 4 = CHR ''-''" "?s ! 7 = CHR ''-''" "?s ! 10 = CHR ''T''" "?s ! 13 = CHR '':''" "?s ! 16 = CHR '':''"
    unfolding spelt by (simp_all add: nth_append)
  have len: "\<not> length ?s < 19" "drop 19 ?s = F" using length_stamp[OF y] by simp_all
  obtain ds z where split: "split_fraction F = (ds, z)" by fastforce
  have frac: "nanos ds = Some n" "z = ''Z''" using nanos_frac[OF n] split by (simp_all add: F_def)
  have secs: "secs div 86400 * 86400 + h * 3600 + mi * 60 + s = secs"
    using p(4) div_mult_mod_eq[of secs 86400] by simp
  show ?thesis
    unfolding F_def[symmetric] parseTS_def fields seps len split
    using st(4-7) p(6,8,10) frac secs length_stamp[OF y] by (simp add: zone_offset_def st(9) split: prod.split)
qed

lemma parse_ts: "four_digit_year t \<Longrightarrow> parseTS (ts t) = Some t"
proof -
  assume y: "four_digit_year t"
  have "nat (t mod second) < 10 ^ 9" by (simp add: second_def nat_less_iff)
  then have "parseTS (ts t) = Some (unix_sec t * second + int (nat (t mod second)))"
    using y unfolding ts_def by (intro parseTS_stamp) (simp add: four_digit_year_iff)
  moreover have "unix_sec t * second + int (nat (t mod second)) = t" by (simp add: unix_sec_def second_def)
  ultimately show ?thesis by simp
qed

lemma ts_nonempty: "four_digit_year t \<Longrightarrow> ts t \<noteq> ''''"
  using length_stamp[of "unix_sec t"] by (auto simp: ts_def four_digit_year_iff)

lemma stamp_chars:
  assumes "civil_year secs" "c \<in> set (stamp secs)"
  shows "is_digit c \<or> c \<in> {CHR ''-'', CHR ''T'', CHR '':''}"
proof -
  obtain y m d where civil: "civil_of_days (secs div 86400) = (y, m, d)" by (metis prod_cases3)
  show ?thesis using assms(2) unfolding stamp_fixed(1)[OF civil assms(1)] by (auto dest: is_digit_fixed)
qed

lemma frac_chars:
  assumes "n < 10 ^ 9" "c \<in> set (frac_text n)"
  shows "is_digit c \<or> c \<in> {CHR ''.'', CHR ''Z''}"
  using assms frac_digits_fixed[OF assms(1)] is_digit_fixed[of c 9 n]
  by (auto simp: frac_text_def split: if_splits dest!: set_dropWhileD)

lemma ts_plain: "four_digit_year t \<Longrightarrow> CHR ''|'' \<notin> set (ts t)"
proof
  assume y: "four_digit_year t" and c: "CHR ''|'' \<in> set (ts t)"
  have bar: "\<not> is_digit (CHR ''|'')" by code_simp
  have "nat (t mod second) < 10 ^ 9" by (simp add: second_def nat_less_iff)
  then show False
    using c y bar stamp_chars[of "unix_sec t" "CHR ''|''"] frac_chars[of "nat (t mod second)" "CHR ''|''"]
    by (auto simp: ts_def four_digit_year_iff)
qed

section \<open>Guarantees\<close>

text \<open>C26: A stored time is read back as it was written, to the nanosecond, and comparing two stored
  times as text, which is what the SQL statements do, is the comparison \<open>ts_less\<close> used for
  every time column of the model; it is exact except within one second.\<close>

theorem stored_time_faithful:
  assumes "four_digit_year a" "four_digit_year b"
  shows "parseTS (ts a) = Some a \<and> (ts a < ts b \<longleftrightarrow> ts_less a b) \<and> (ts a = ts b \<longleftrightarrow> a = b)
    \<and> (unix_sec a \<noteq> unix_sec b \<longrightarrow> (ts a < ts b \<longleftrightarrow> a < b))"
proof -
  have less: "ts a < ts b \<longleftrightarrow> ts_less a b" by (rule ts_less_text[OF assms])
  have mono: "unix_sec x < unix_sec y \<longrightarrow> x < y" for x y
    using zdiv_mono1[of y x second] by (auto simp: unix_sec_def second_def)
  have "ts a < ts b \<longleftrightarrow> a < b" if "unix_sec a \<noteq> unix_sec b"
    using that less mono[of a b] mono[of b a] ts_less_seconds[of a b] ts_less_not_later[of a b] by force
  then show ?thesis using parse_ts assms less by (metis option.inject)
qed

lemma stored_time_faithful_witness:
  "ts (1700000000 * second) < ts (1700000001 * second) \<and> parseTS (ts (1700000000 * second)) = Some (1700000000 * second)"
proof -
  have "four_digit_year (1700000000 * second)" "four_digit_year (1700000001 * second)" by code_simp+
  moreover have "unix_sec (1700000000 * second) \<noteq> unix_sec (1700000001 * second)"
      "1700000000 * second < 1700000001 * second" by (simp_all add: unix_sec_def second_def)
  ultimately show ?thesis using stored_time_faithful[of "1700000000 * second" "1700000001 * second"] by blast
qed

end
