(* ===== verification/Supervisor.thy ===== *)
theory Supervisor
  imports Telegram StoredTime
begin

text \<open>
  The supervisor of the Telegram bots (\<open>worker/telegram/supervisor.go\<close>), and the factory of
  workers and the grace notifier that \<open>cmd/issuer\<close> wires to it. A turn of the supervisor is
  a read of the active instances, and two loops over Go maps whose order is arbitrary; it is
  a parameter here.
\<close>

section \<open>The supervisor\<close>

text \<open>\<open>t.UTC().Format(time.RFC3339Nano)\<close>\<close>

definition rfc3339_nano :: "instant \<Rightarrow> string" where
  "rfc3339_nano t = ts t"

definition fingerprintOf :: "channel_config \<Rightarrow> string" where
  "fingerprintOf inst = ch_status inst @ ''|'' @ rfc3339_nano (ch_updated inst)"

text \<open>
  Each worker that was ever started has a number; \<open>fl_running\<close> is the map of the supervisor,
  an instance's current worker and the fingerprint it was started with. To cancel a worker
  marks it as stopped.
\<close>

record 'r worker =
  wk_inst :: string
  wk_print :: string
  wk_runner :: 'r
  wk_stopped :: bool

record 'r fleet =
  fl_running :: "string \<rightharpoonup> nat \<times> string"
  fl_workers :: "'r worker list"

definition desired :: "string \<Rightarrow> (string \<rightharpoonup> channel_config) option io" where
  "desired pool = tryE (Channel_ListActive pool ''telegram'') (\<lambda>r. case r of
       Inl _ \<Rightarrow> returnE None
     | Inr active \<Rightarrow> returnE (Some (map_of (rev (map (\<lambda>c. (ch_id c, c)) active)))))"

definition stale :: "(string \<rightharpoonup> channel_config) \<Rightarrow> string \<Rightarrow> string \<Rightarrow> bool" where
  "stale want i fp \<longleftrightarrow> (case want i of None \<Rightarrow> True | Some inst \<Rightarrow> fingerprintOf inst \<noteq> fp)"

definition cancel_worker :: "nat \<Rightarrow> 'r fleet \<Rightarrow> 'r fleet" where
  "cancel_worker k F = F\<lparr>fl_workers := (fl_workers F)[k := (fl_workers F ! k)\<lparr>wk_stopped := True\<rparr>]\<rparr>"

definition start_worker :: "string \<Rightarrow> string \<Rightarrow> 'r \<Rightarrow> 'r fleet \<Rightarrow> 'r fleet" where
  "start_worker i fp r F = F\<lparr>fl_running := (fl_running F)(i \<mapsto> (length (fl_workers F), fp)),
     fl_workers := fl_workers F @ [\<lparr>wk_inst = i, wk_print = fp, wk_runner = r, wk_stopped = False\<rparr>]\<rparr>"

text \<open>The two loops of \<open>reconcile\<close>; the ids are given in the order in which Go visits the maps.\<close>

fun stop_stale :: "(string \<rightharpoonup> channel_config) \<Rightarrow> string list \<Rightarrow> 'r fleet \<Rightarrow> 'r fleet" where
  "stop_stale want [] F = F"
| "stop_stale want (i # is) F = stop_stale want is (case fl_running F i of
       None \<Rightarrow> F
     | Some (k, fp) \<Rightarrow>
         if stale want i fp then (cancel_worker k F)\<lparr>fl_running := (fl_running F)(i := None)\<rparr> else F)"

fun start_missing :: "(channel_config \<Rightarrow> 'r result) \<Rightarrow> (string \<rightharpoonup> channel_config) \<Rightarrow> string list \<Rightarrow> 'r fleet \<Rightarrow> 'r fleet" where
  "start_missing factory want [] F = F"
| "start_missing factory want (i # is) F = start_missing factory want is (case want i of
       None \<Rightarrow> F
     | Some inst \<Rightarrow>
         if fl_running F i \<noteq> None then F
         else (case factory inst of Inl _ \<Rightarrow> F | Inr r \<Rightarrow> start_worker i (fingerprintOf inst) r F))"

text \<open>The orders are functions of the sets of ids the maps hold.\<close>

type_synonym visit = "string set \<Rightarrow> string list"

definition reconcile_fleet :: "(channel_config \<Rightarrow> 'r result) \<Rightarrow> visit \<Rightarrow> visit \<Rightarrow> string \<Rightarrow> 'r fleet \<Rightarrow> 'r fleet io" where
  "reconcile_fleet factory ord1 ord2 pool F =
     bindE (desired pool) (\<lambda>want. case want of
         None \<Rightarrow> returnE F
       | Some m \<Rightarrow> returnE (start_missing factory m (ord2 (dom m)) (stop_stale m (ord1 (dom (fl_running F))) F)))"

text \<open>The end of \<open>Run\<close>: every running worker is cancelled.\<close>

fun shutdown :: "string list \<Rightarrow> 'r fleet \<Rightarrow> 'r fleet" where
  "shutdown [] F = F"
| "shutdown (i # is) F = shutdown is (case fl_running F i of None \<Rightarrow> F | Some (k, _) \<Rightarrow> cancel_worker k F)"

section \<open>The wiring\<close>

definition bot_factory :: "server \<Rightarrow> key_env option \<Rightarrow> bot_api \<Rightarrow> string \<Rightarrow> channel_config \<Rightarrow> bot result" where
  "bot_factory S cipher api pool inst = (case instanceToken cipher inst of
       Inl e \<Rightarrow> Inl e
     | Inr tok \<Rightarrow> Inr (NewWorker (NewInstanceProcessor (Attest S) pool (ch_id inst)) api tok))"

definition graceNotifier :: "key_env option \<Rightarrow> bot_api \<Rightarrow> notifier" where
  "graceNotifier cipher api sess msg =
     (if s_ctype sess \<noteq> ''telegram'' then returnE ()
      else bindE (Channel_Get (s_channel sess)) (\<lambda>inst.
           bindE (liftE (instanceToken cipher inst)) (\<lambda>tok.
           bindE (ask (SendMessage api tok (s_user sess) msg)) (\<lambda>r.
           case r of None \<Rightarrow> returnE () | Some e \<Rightarrow> failE (ErrMsg e)))))"

section \<open>The supervisor keeps one worker per instance\<close>

definition live_of :: "string \<Rightarrow> 'r fleet \<Rightarrow> 'r worker list" where
  "live_of i F = filter (\<lambda>x. wk_inst x = i \<and> \<not> wk_stopped x) (fl_workers F)"

definition fleet_ok :: "'r fleet \<Rightarrow> bool" where
  "fleet_ok F \<longleftrightarrow>
     (\<forall>i k fp. fl_running F i = Some (k, fp) \<longrightarrow> k < length (fl_workers F) \<and> \<not> wk_stopped (fl_workers F ! k)
        \<and> wk_inst (fl_workers F ! k) = i \<and> wk_print (fl_workers F ! k) = fp)
     \<and> (\<forall>k < length (fl_workers F). \<not> wk_stopped (fl_workers F ! k)
        \<longrightarrow> (\<exists>fp. fl_running F (wk_inst (fl_workers F ! k)) = Some (k, fp)))"

lemma filter_single:
  assumes "k < length xs" and "\<And>j. j < length xs \<Longrightarrow> P (xs ! j) \<longleftrightarrow> j = k"
  shows "filter P xs = [xs ! k]"
proof -
  have "\<not> P x" if "x \<in> set (take k xs)" for x
    using that assms by (auto simp: in_set_conv_nth)
  moreover have "\<not> P x" if "x \<in> set (drop (Suc k) xs)" for x
    using that assms by (auto simp: in_set_conv_nth)
  moreover have "filter P xs = filter P (take k xs) @ filter P [xs ! k] @ filter P (drop (Suc k) xs)"
    using id_take_nth_drop[OF assms(1)] by (metis append_Cons append_Nil filter_append)
  ultimately show ?thesis using assms by (simp add: filter_False)
qed

lemma live_of_running:
  assumes ok: "fleet_ok F"
  shows "live_of i F = (case fl_running F i of None \<Rightarrow> [] | Some (k, _) \<Rightarrow> [fl_workers F ! k])"
proof (cases "fl_running F i")
  case None
  then have "\<not> (wk_inst x = i \<and> \<not> wk_stopped x)" if "x \<in> set (fl_workers F)" for x
    using that ok unfolding fleet_ok_def in_set_conv_nth by (metis option.distinct(1))
  then show ?thesis using None by (simp add: live_of_def filter_empty_conv)
next
  case (Some p)
  obtain k fp where p: "p = (k, fp)" by force
  have k: "k < length (fl_workers F)" "\<not> wk_stopped (fl_workers F ! k)" "wk_inst (fl_workers F ! k) = i"
    using ok Some p by (auto simp: fleet_ok_def)
  have "j = k" if "j < length (fl_workers F)" "wk_inst (fl_workers F ! j) = i" "\<not> wk_stopped (fl_workers F ! j)" for j
  proof -
    obtain fp' where "fl_running F (wk_inst (fl_workers F ! j)) = Some (j, fp')"
      using ok \<open>j < length (fl_workers F)\<close> \<open>\<not> wk_stopped (fl_workers F ! j)\<close> unfolding fleet_ok_def by blast
    then show ?thesis using Some p \<open>wk_inst (fl_workers F ! j) = i\<close> by simp
  qed
  then have "(wk_inst (fl_workers F ! j) = i \<and> \<not> wk_stopped (fl_workers F ! j)) = (j = k)" if "j < length (fl_workers F)" for j
    using k that by blast
  then have "live_of i F = [fl_workers F ! k]" unfolding live_of_def by (intro filter_single k(1))
  then show ?thesis using Some p by simp
qed

lemma live_of_empty: "fleet_ok F \<Longrightarrow> live_of i F = [] \<longleftrightarrow> fl_running F i = None"
  by (cases "fl_running F i") (auto simp: live_of_running)

lemma live_of_mem: "fleet_ok F \<Longrightarrow> x \<in> set (live_of i F) \<Longrightarrow>
    \<exists>k fp. fl_running F i = Some (k, fp) \<and> x = fl_workers F ! k \<and> live_of i F = [x]"
  by (cases "fl_running F i") (auto simp: live_of_running)

lemma start_worker_ok:
  assumes ok: "fleet_ok F" and new: "fl_running F i = None"
  shows "fleet_ok (start_worker i fp r F)"
proof -
  let ?n = "length (fl_workers F)" and ?G = "start_worker i fp r F"
  have at: "fl_workers ?G ! k = (if k < ?n then fl_workers F ! k
      else \<lparr>wk_inst = i, wk_print = fp, wk_runner = r, wk_stopped = False\<rparr>)" if "k \<le> ?n" for k
    using that by (auto simp: start_worker_def nth_append)
  have "wk_inst (fl_workers F ! k) \<noteq> i" if "k < ?n" "\<not> wk_stopped (fl_workers F ! k)" for k
    using ok new that unfolding fleet_ok_def by (metis option.distinct(1))
  then show ?thesis using ok new unfolding fleet_ok_def
    by (auto simp: at start_worker_def nth_append less_Suc_eq split: if_splits)
qed

lemma cancel_worker_ok:
  assumes ok: "fleet_ok F" and run: "fl_running F i = Some (k, fp)"
  shows "fleet_ok ((cancel_worker k F)\<lparr>fl_running := (fl_running F)(i := None)\<rparr>)"
proof -
  have k: "k < length (fl_workers F)" "wk_inst (fl_workers F ! k) = i" using ok run by (auto simp: fleet_ok_def)
  have "k' \<noteq> k" if "fl_running F j = Some (k', fp')" "j \<noteq> i" for j k' fp'
    using ok that k unfolding fleet_ok_def by metis
  moreover have "wk_inst (fl_workers F ! j) \<noteq> i" if "j < length (fl_workers F)" "\<not> wk_stopped (fl_workers F ! j)" "j \<noteq> k" for j
    using ok that run unfolding fleet_ok_def by (metis option.inject prod.inject)
  ultimately show ?thesis using ok k unfolding fleet_ok_def
    by (auto simp: cancel_worker_def nth_list_update)
qed

text \<open>What the two loops do to the map of running workers, in whatever order they visit it.\<close>

lemma stop_stale_spec:
  "fleet_ok F \<Longrightarrow> fleet_ok (stop_stale want is F)
     \<and> (\<forall>i. fl_running (stop_stale want is F) i = (case fl_running F i of None \<Rightarrow> None
          | Some (k, fp) \<Rightarrow> if i \<in> set is \<and> stale want i fp then None else Some (k, fp)))
     \<and> (\<forall>i k fp. fl_running (stop_stale want is F) i = Some (k, fp)
          \<longrightarrow> fl_workers (stop_stale want is F) ! k = fl_workers F ! k)"
proof (induction "is" arbitrary: F)
  case Nil
  then show ?case by (auto split: option.splits)
next
  case (Cons j js)
  show ?case
  proof (cases "\<exists>k fp. fl_running F j = Some (k, fp) \<and> stale want j fp")
    case False
    then have "stop_stale want (j # js) F = stop_stale want js F" by (auto split: option.splits)
    then show ?thesis using Cons.IH[OF Cons.prems] False by (auto split: option.splits)
  next
    case True
    then obtain k fp where k: "fl_running F j = Some (k, fp)" "stale want j fp" by blast
    let ?G = "(cancel_worker k F)\<lparr>fl_running := (fl_running F)(j := None)\<rparr>"
    have step: "stop_stale want (j # js) F = stop_stale want js ?G" using k by simp
    have other: "fl_workers ?G ! k' = fl_workers F ! k'" if "fl_running ?G i = Some (k', fp')" for i k' fp'
    proof -
      have "i \<noteq> j" "fl_running F i = Some (k', fp')" using that by (auto split: if_splits)
      then have "k' \<noteq> k" using Cons.prems k(1) unfolding fleet_ok_def by metis
      then show ?thesis by (simp add: cancel_worker_def)
    qed
    note IH = Cons.IH[OF cancel_worker_ok[OF Cons.prems k(1)]]
    have run: "fl_running (stop_stale want js ?G) i = (case fl_running F i of None \<Rightarrow> None
          | Some (k, fp) \<Rightarrow> if i \<in> set (j # js) \<and> stale want i fp then None else Some (k, fp))" for i
      using conjunct1[OF conjunct2[OF IH], rule_format, of i] k by (cases "fl_running F i") auto
    have "fl_workers (stop_stale want js ?G) ! k' = fl_workers F ! k'"
      if "fl_running (stop_stale want js ?G) i = Some (k', fp')" for i k' fp'
    proof -
      have "fl_running ?G i = Some (k', fp')" using that conjunct1[OF conjunct2[OF IH], rule_format, of i]
        by (auto split: option.splits if_splits)
      from other[OF this] show ?thesis using conjunct2[OF conjunct2[OF IH], rule_format, OF that] by simp
    qed
    then show ?thesis unfolding step using conjunct1[OF IH] run by (intro conjI allI impI) assumption+
  qed
qed

lemma start_missing_spec:
  "fleet_ok F \<Longrightarrow> fleet_ok (start_missing factory want is F)
     \<and> (\<exists>new. fl_workers (start_missing factory want is F) = fl_workers F @ new)
     \<and> (\<forall>i. case fl_running F i of
           Some p \<Rightarrow> fl_running (start_missing factory want is F) i = Some p
         | None \<Rightarrow> (case (if i \<in> set is then want i else None) of
             None \<Rightarrow> fl_running (start_missing factory want is F) i = None
           | Some inst \<Rightarrow> (case factory inst of
               Inl _ \<Rightarrow> fl_running (start_missing factory want is F) i = None
             | Inr r \<Rightarrow> (\<exists>k. fl_running (start_missing factory want is F) i = Some (k, fingerprintOf inst)
                 \<and> wk_runner (fl_workers (start_missing factory want is F) ! k) = r))))"
proof (induction "is" arbitrary: F)
  case Nil
  then show ?case by (auto split: option.splits)
next
  case (Cons j js)
  show ?case
  proof (cases "\<exists>inst r. fl_running F j = None \<and> want j = Some inst \<and> factory inst = Inr r")
    case False
    then have step: "start_missing factory want (j # js) F = start_missing factory want js F"
      by (auto split: option.splits sum.splits)
    note IH = Cons.IH[OF Cons.prems]
    have "case fl_running F i of
           Some p \<Rightarrow> fl_running (start_missing factory want js F) i = Some p
         | None \<Rightarrow> (case (if i \<in> set (j # js) then want i else None) of
             None \<Rightarrow> fl_running (start_missing factory want js F) i = None
           | Some inst \<Rightarrow> (case factory inst of
               Inl _ \<Rightarrow> fl_running (start_missing factory want js F) i = None
             | Inr r \<Rightarrow> (\<exists>k. fl_running (start_missing factory want js F) i = Some (k, fingerprintOf inst)
                 \<and> wk_runner (fl_workers (start_missing factory want js F) ! k) = r)))" for i
      using conjunct2[OF conjunct2[OF IH], rule_format, of i] False
      by (auto split: option.splits sum.splits if_splits)
    then show ?thesis unfolding step using IH by (intro conjI allI) blast+
  next
    case True
    then obtain inst r where new: "fl_running F j = None" "want j = Some inst" "factory inst = Inr r" by blast
    let ?fp = "fingerprintOf inst" let ?G = "start_worker j ?fp r F"
    have step: "start_missing factory want (j # js) F = start_missing factory want js ?G" using new by simp
    note IH = Cons.IH[OF start_worker_ok[OF Cons.prems new(1), of ?fp r]]
    have G: "fl_running ?G = (fl_running F)(j \<mapsto> (length (fl_workers F), ?fp))"
      "fl_workers ?G = fl_workers F @ [\<lparr>wk_inst = j, wk_print = ?fp, wk_runner = r, wk_stopped = False\<rparr>]"
      by (simp_all add: start_worker_def)
    obtain more where more: "fl_workers (start_missing factory want js ?G) = fl_workers ?G @ more" using IH by blast
    have runner: "wk_runner (fl_workers (start_missing factory want js ?G) ! length (fl_workers F)) = r"
      unfolding more G(2) by (simp add: nth_append)
    have "case fl_running F i of
           Some p \<Rightarrow> fl_running (start_missing factory want js ?G) i = Some p
         | None \<Rightarrow> (case (if i \<in> set (j # js) then want i else None) of
             None \<Rightarrow> fl_running (start_missing factory want js ?G) i = None
           | Some inst \<Rightarrow> (case factory inst of
               Inl _ \<Rightarrow> fl_running (start_missing factory want js ?G) i = None
             | Inr r \<Rightarrow> (\<exists>k. fl_running (start_missing factory want js ?G) i = Some (k, fingerprintOf inst)
                 \<and> wk_runner (fl_workers (start_missing factory want js ?G) ! k) = r)))" for i
      using conjunct2[OF conjunct2[OF IH], rule_format, of i] new runner unfolding G(1)
      by (cases "i = j") (auto split: option.splits sum.splits if_splits)
    moreover have "\<exists>new. fl_workers (start_missing factory want js ?G) = fl_workers F @ new"
      unfolding more G(2) by simp
    ultimately show ?thesis unfolding step using conjunct1[OF IH] by (intro conjI allI)
  qed
qed

lemma desired_run: "desired pool w =
    (if faulty w then (Inr None, skip w)
     else (Inr (Some (map_of (rev (map (\<lambda>c. (ch_id c, c)) (sort_key ch_name (filter (live_channel pool ''telegram'') (channels w))))))), skip w))"
  by (simp add: desired_def tryE_def Channel_ListActive_def query_def exec_def getE_def returnE_def)

lemma wanted:
  assumes "distinct (map ch_id cs)"
  shows "map_of (rev (map (\<lambda>c. (ch_id c, c)) (sort_key ch_name (filter P cs)))) i = Some inst
    \<longleftrightarrow> inst \<in> set cs \<and> P inst \<and> ch_id inst = i"
proof -
  let ?xs = "rev (map (\<lambda>c. (ch_id c, c)) (sort_key ch_name (filter P cs)))"
  have "distinct (map ch_id (sort_key ch_name (filter P cs)))"
    using assms unfolding distinct_map by (auto simp: inj_on_def)
  then have "distinct (map fst ?xs)" by (simp add: rev_map[symmetric] comp_def)
  then have "map_of ?xs i = Some inst \<longleftrightarrow> (i, inst) \<in> set ?xs" by simp
  then show ?thesis by auto
qed

lemma loops_spec:
  fixes factory :: "channel_config \<Rightarrow> 'r result" and want :: "string \<rightharpoonup> channel_config" and F G :: "'r fleet"
  assumes ok: "fleet_ok F" and visit: "set is = dom (fl_running F)" "set js = dom want"
    and G_def: "G = start_missing factory want js (stop_stale want is F)"
  shows "fleet_ok G"
    and "want i = None \<Longrightarrow> live_of i G = []"
    and "want i = Some inst \<Longrightarrow> x \<in> set (live_of i F) \<Longrightarrow> wk_print x = fingerprintOf inst \<Longrightarrow> live_of i G = [x]"
    and "want i = Some inst \<Longrightarrow> \<forall>x \<in> set (live_of i F). wk_print x \<noteq> fingerprintOf inst \<Longrightarrow>
      (case factory inst of Inl _ \<Rightarrow> live_of i G = []
       | Inr r \<Rightarrow> \<exists>x. live_of i G = [x] \<and> wk_runner x = r \<and> wk_print x = fingerprintOf inst)"
proof -
  let ?H = "stop_stale want is F"
  note stop = stop_stale_spec[OF ok, of want "is"]
  note start = start_missing_spec[OF conjunct1[OF stop], of factory want js, folded G_def]
  note H = conjunct1[OF conjunct2[OF stop], rule_format, of i]
  note kept = conjunct2[OF conjunct2[OF stop], rule_format, of i]
  note S = conjunct2[OF conjunct2[OF start], rule_format, of i]
  obtain new where new: "fl_workers G = fl_workers ?H @ new" using start by blast
  show okG: "fleet_ok G" using start by blast
  have inH: "k < length (fl_workers ?H)" if "fl_running ?H i = Some (k, fp)" for k fp
    using conjunct1[OF stop] that by (auto simp: fleet_ok_def)
  have vis: "fl_running F i = Some p \<Longrightarrow> i \<in> set is" for p using visit by auto
  show "live_of i G = []" if w: "want i = None"
  proof -
    have "fl_running ?H i = None" using H vis w by (auto simp: stale_def split: option.splits)
    then have "fl_running G i = None" using S w by (auto split: if_splits)
    then show ?thesis by (simp add: live_of_running[OF okG])
  qed
  show "live_of i G = [x]" if w: "want i = Some inst" and x: "x \<in> set (live_of i F)" "wk_print x = fingerprintOf inst"
  proof -
    obtain k fp where k: "fl_running F i = Some (k, fp)" "x = fl_workers F ! k"
      using live_of_mem[OF ok x(1)] by blast
    then have "fp = fingerprintOf inst" using ok x(2) by (auto simp: fleet_ok_def)
    then have h: "fl_running ?H i = Some (k, fp)" using H k(1) w by (simp add: stale_def)
    then have "fl_running G i = Some (k, fp)" using S by simp
    moreover have "fl_workers G ! k = x" using new inH[OF h] kept[OF h] k(2) by (simp add: nth_append)
    ultimately show ?thesis by (simp add: live_of_running[OF okG])
  qed
  show "case factory inst of Inl _ \<Rightarrow> live_of i G = []
       | Inr r \<Rightarrow> \<exists>x. live_of i G = [x] \<and> wk_runner x = r \<and> wk_print x = fingerprintOf inst"
    if w: "want i = Some inst" and none: "\<forall>x \<in> set (live_of i F). wk_print x \<noteq> fingerprintOf inst"
  proof -
    have "stale want i fp" if "fl_running F i = Some (k, fp)" for k fp
    proof -
      have "wk_print (fl_workers F ! k) = fp" using ok that by (auto simp: fleet_ok_def)
      then show ?thesis using none that w by (auto simp: stale_def live_of_running[OF ok])
    qed
    then have h: "fl_running ?H i = None" using H vis by (auto split: option.splits)
    have j: "i \<in> set js" using visit w by auto
    show ?thesis
    proof (cases "factory inst")
      case (Inl e)
      then show ?thesis using S h j w by (simp add: live_of_running[OF okG])
    next
      case (Inr r)
      then obtain k where "fl_running G i = Some (k, fingerprintOf inst)" "wk_runner (fl_workers G ! k) = r"
        using S h j w by auto
      moreover have "wk_print (fl_workers G ! k) = fingerprintOf inst"
        using okG calculation(1) by (auto simp: fleet_ok_def)
      ultimately show ?thesis using Inr by (simp add: live_of_running[OF okG])
    qed
  qed
qed

text \<open>C30: After every turn of the supervisor, whatever the order in which it visits its maps, each
  instance has at most one worker that was not told to stop. If the list of instances could
  be read, an instance that is gone or disabled has none, a worker whose instance was not
  edited is kept, and an instance that is new or was edited gets a fresh worker bound to its
  own token and id, or none when its token cannot be read; if the list could not be read,
  nothing changes.\<close>

theorem supervisor_tracks:
  fixes F :: "bot fleet"
  assumes ok: "fleet_ok F" and ch: "channels_ok (channels w)"
    and ord: "\<And>A. finite A \<Longrightarrow> set (ord1 A) = A \<and> set (ord2 A) = A" and fin: "finite (dom (fl_running F))"
    and run: "reconcile_fleet (bot_factory S cipher api pool) ord1 ord2 pool F w = (r, w')"
  shows "\<exists>G. r = Inr G \<and> fleet_ok G \<and> finite (dom (fl_running G)) \<and> (\<forall>i. length (live_of i G) \<le> 1)
    \<and> (faulty w \<longrightarrow> G = F)
    \<and> (\<not> faulty w \<longrightarrow> (\<forall>i.
        ((\<nexists>inst. inst \<in> set (channels w) \<and> live_channel pool ''telegram'' inst \<and> ch_id inst = i) \<longrightarrow> live_of i G = [])
        \<and> (\<forall>inst. inst \<in> set (channels w) \<and> live_channel pool ''telegram'' inst \<and> ch_id inst = i \<longrightarrow>
            (if \<exists>x \<in> set (live_of i F). wk_print x = fingerprintOf inst then live_of i G = live_of i F
             else (case instanceToken cipher inst of
                 Inl _ \<Rightarrow> live_of i G = []
               | Inr tok \<Rightarrow> \<exists>x. live_of i G = [x] \<and> wk_print x = fingerprintOf inst
                   \<and> wk_runner x = NewWorker (NewInstanceProcessor (Attest S) pool i) api tok)))))"
proof (cases "faulty w")
  case True
  then have "r = Inr F" using run by (simp add: reconcile_fleet_def bindE_def desired_run returnE_def)
  then show ?thesis using True ok fin by (auto simp: live_of_running[OF ok] split: option.splits)
next
  case False
  define want where "want = map_of (rev (map (\<lambda>c. (ch_id c, c))
      (sort_key ch_name (filter (live_channel pool ''telegram'') (channels w)))))"
  define G where "G = start_missing (bot_factory S cipher api pool) want (ord2 (dom want))
      (stop_stale want (ord1 (dom (fl_running F))) F)"
  have r: "r = Inr G"
    using run False by (simp add: reconcile_fleet_def bindE_def desired_run returnE_def want_def G_def)
  have want: "want i = Some inst \<longleftrightarrow> inst \<in> set (channels w) \<and> live_channel pool ''telegram'' inst \<and> ch_id inst = i" for i inst
    using ch wanted unfolding want_def channels_ok_def by blast
  have fw: "finite (dom want)" unfolding want_def by (rule finite_dom_map_of)
  have visit: "set (ord1 (dom (fl_running F))) = dom (fl_running F)" "set (ord2 (dom want)) = dom want"
    using ord[OF fin] ord[OF fw] by blast+
  note spec = loops_spec[OF ok visit G_def]
  have at_most: "length (live_of i G) \<le> 1" for i using live_of_running[OF spec(1)] by (auto split: option.splits)
  have "i \<in> dom want" if "i \<in> dom (fl_running G)" for i
    using that spec(2)[of i] live_of_empty[OF spec(1), of i] by (cases "want i") (simp_all add: domIff)
  then have "dom (fl_running G) \<subseteq> dom want" by (rule subsetI)
  then have finG: "finite (dom (fl_running G))" using fw by (rule finite_subset)
  have gone: "live_of i G = []"
    if "\<nexists>inst. inst \<in> set (channels w) \<and> live_channel pool ''telegram'' inst \<and> ch_id inst = i" for i
    using spec(2)[of i] that want by (metis not_None_eq)
  have there: "if \<exists>x \<in> set (live_of i F). wk_print x = fingerprintOf inst then live_of i G = live_of i F
             else (case instanceToken cipher inst of
                 Inl _ \<Rightarrow> live_of i G = []
               | Inr tok \<Rightarrow> \<exists>x. live_of i G = [x] \<and> wk_print x = fingerprintOf inst
                   \<and> wk_runner x = NewWorker (NewInstanceProcessor (Attest S) pool i) api tok)"
    if "inst \<in> set (channels w) \<and> live_channel pool ''telegram'' inst \<and> ch_id inst = i" for i inst
  proof (cases "\<exists>x \<in> set (live_of i F). wk_print x = fingerprintOf inst")
    case True
    then obtain x where x: "x \<in> set (live_of i F)" "wk_print x = fingerprintOf inst" by blast
    have "live_of i F = [x]" using live_of_mem[OF ok x(1)] by blast
    then show ?thesis using True spec(3)[OF _ x] that want by simp
  next
    case False
    then show ?thesis using spec(4)[of i inst] that want
      by (auto simp: bot_factory_def split: sum.splits)
  qed
  show ?thesis using r spec(1) finG at_most False gone there by blast
qed

definition sample_instance :: channel_config where
  "sample_instance = \<lparr>ch_id = ''c1'', ch_pool = ''p'', ch_type = ''telegram'', ch_name = ''main'',
     ch_config = tg_json \<lparr>tg_token = hex_encode (replicate 12 0 @ bytes_of ''12:ab''), tg_user = ''bot''\<rparr>,
     ch_status = ''active'', ch_created = 0, ch_updated = 0\<rparr>"

lemma sample_instance_token: "instanceToken (Some sample_keys) sample_instance = Inr ''12:ab''"
proof -
  have ne: "hex_encode (replicate 12 0 @ b) \<noteq> ''''" for b
    by (metis append_is_Nil_conv hex_decode_encode hex_decode.simps(1) option.inject replicate_empty zero_neq_numeral)
  moreover have dec: "DecodeToken sample_keys (tg_json \<lparr>tg_token = hex_encode (n @ b), tg_user = u\<rparr>) = Inr (string_of b)"
    if "length n = 12" "hex_encode (n @ b) \<noteq> ''''" for n b u
    using that by (simp add: DecodeToken_def decode_tg_json Cipher_Decrypt_def nonce_size_def sample_keys_def)
  ultimately have "DecodeToken sample_keys (ch_config sample_instance) = Inr ''12:ab''"
    unfolding sample_instance_def channel_config.select_convs by (subst dec[OF _ ne]) simp_all
  then show ?thesis by (simp add: instanceToken_def)
qed

definition silent_api :: bot_api where
  "silent_api tok method q w = (Inl ''no route'', w)"

lemma supervisor_tracks_witness:
  "\<exists>G w'. reconcile_fleet (bot_factory member_server (Some sample_keys) silent_api ''p'') sorted_list_of_set sorted_list_of_set ''p''
       \<lparr>fl_running = Map.empty, fl_workers = []\<rparr> (empty_world\<lparr>channels := [sample_instance]\<rparr>) = (Inr G, w')
     \<and> fleet_ok G \<and> (\<exists>x. live_of ''c1'' G = [x])"
proof -
  let ?F = "\<lparr>fl_running = Map.empty, fl_workers = []\<rparr> :: bot fleet" and ?w = "empty_world\<lparr>channels := [sample_instance]\<rparr>"
  obtain r w' where run: "reconcile_fleet (bot_factory member_server (Some sample_keys) silent_api ''p'') sorted_list_of_set
      sorted_list_of_set ''p'' ?F ?w = (r, w')" by force
  have "fleet_ok ?F" "channels_ok (channels ?w)" "finite (dom (fl_running ?F))"
    by (simp_all add: fleet_ok_def channels_ok_def)
  from supervisor_tracks[OF this(1,2) _ this(3) run] obtain G where G: "r = Inr G" "fleet_ok G"
    and live: "\<not> faulty ?w \<longrightarrow> (\<forall>inst. inst \<in> set (channels ?w) \<and> live_channel ''p'' ''telegram'' inst \<and> ch_id inst = ''c1'' \<longrightarrow>
            (if \<exists>x \<in> set (live_of ''c1'' ?F). wk_print x = fingerprintOf inst then live_of ''c1'' G = live_of ''c1'' ?F
             else (case instanceToken (Some sample_keys) inst of
                 Inl _ \<Rightarrow> live_of ''c1'' G = []
               | Inr tok \<Rightarrow> \<exists>x. live_of ''c1'' G = [x] \<and> wk_print x = fingerprintOf inst
                   \<and> wk_runner x = NewWorker (NewInstanceProcessor (Attest member_server) ''p'' ''c1'') silent_api tok)))"
    by (auto simp: set_sorted_list_of_set)
  have "\<not> faulty ?w" by (simp add: empty_world_def)
  moreover have "live_channel ''p'' ''telegram'' sample_instance" "ch_id sample_instance = ''c1''"
    by (simp_all add: live_channel_def sample_instance_def)
  ultimately have "\<exists>x. live_of ''c1'' G = [x]"
    using live[rule_format, of sample_instance] sample_instance_token by (auto simp: live_of_def)
  then show ?thesis using run G by blast
qed

section \<open>Fingerprints\<close>

lemma bar_split: "CHR ''|'' \<notin> set t \<Longrightarrow> CHR ''|'' \<notin> set t' \<Longrightarrow>
    s @ CHR ''|'' # t = s' @ CHR ''|'' # t' \<longleftrightarrow> s = s' \<and> t = t'"
proof
  assume plain: "CHR ''|'' \<notin> set t" "CHR ''|'' \<notin> set t'" and eq: "s @ CHR ''|'' # t = s' @ CHR ''|'' # t'"
  have cut: "takeWhile (\<lambda>c. c \<noteq> CHR ''|'') (rev (a @ CHR ''|'' # b)) = rev b" if "CHR ''|'' \<notin> set b" for a b
    unfolding rev_append rev.simps append_assoc using that by (subst takeWhile_append2) auto
  have "rev t = rev t'" using cut[OF plain(1), of s] cut[OF plain(2), of s'] eq by simp
  then show "s = s' \<and> t = t'" using eq by simp
qed simp

text \<open>The fingerprint of an instance changes exactly when its status or the time of its last
  change does; so a turn of the supervisor keeps a worker only if nothing was saved since it
  was started.\<close>

theorem fingerprint_exact:
  assumes "four_digit_year (ch_updated a)" "four_digit_year (ch_updated b)"
  shows "fingerprintOf a = fingerprintOf b \<longleftrightarrow> ch_status a = ch_status b \<and> ch_updated a = ch_updated b"
proof -
  have "ts (ch_updated a) = ts (ch_updated b) \<longleftrightarrow> ch_updated a = ch_updated b"
    using parse_ts[OF assms(1)] parse_ts[OF assms(2)] by (metis option.inject)
  then show ?thesis
    using bar_split[OF ts_plain[OF assms(1)] ts_plain[OF assms(2)]] by (simp add: fingerprintOf_def rfc3339_nano_def)
qed

lemma fingerprint_exact_witness:
  "\<exists>a b :: channel_config. fingerprintOf a \<noteq> fingerprintOf b"
proof -
  let ?c = "\<lambda>t. \<lparr>ch_id = ''c'', ch_pool = '''', ch_type = ''telegram'', ch_name = '''', ch_config = RawEmpty,
     ch_status = ''active'', ch_created = 0, ch_updated = t\<rparr>"
  have y: "four_digit_year (1700000000 * second)" "four_digit_year (1700000001 * second)" by code_simp+
  have "fingerprintOf (?c (1700000000 * second)) \<noteq> fingerprintOf (?c (1700000001 * second))"
    using fingerprint_exact[of "?c (1700000000 * second)" "?c (1700000001 * second)"] y by (simp add: second_def)
  then show ?thesis by blast
qed

end
