(* ===== verification/Manage.thy ===== *)
theory Manage
  imports Supervisor
begin

text \<open>
  The admin resources (\<open>httpapi/handlers_admin_resources.go\<close> and
  \<open>handlers_admin_attestors.go\<close>) besides those that change credentials, which are in the
  theory \<open>Admin\<close>: members, pool and tier rules, attestors, subscriptions, channels, push jobs,
  clients, and the audit log. A request body is the first JSON value of the request; a reply is
  a status or the values the handler would render.
\<close>

text \<open>\<open>url.PathUnescape\<close>\<close>

fun path_unescape :: "string \<Rightarrow> string option" where
  "path_unescape [] = Some []"
| "path_unescape (c # cs) =
     (if c = CHR ''%'' then (case cs of
          a # b # r \<Rightarrow> (case (hex_val a, hex_val b) of
              (Some x, Some y) \<Rightarrow> map_option (\<lambda>t. char_of (16 * x + y) # t) (path_unescape r)
            | _ \<Rightarrow> None)
        | _ \<Rightarrow> None)
      else map_option (\<lambda>t. c # t) (path_unescape cs))"

definition attestorIDParam :: "string \<Rightarrow> string" where
  "attestorIDParam i = (case path_unescape i of None \<Rightarrow> i | Some d \<Rightarrow> d)"

definition ptrIfSet :: "string \<Rightarrow> string option" where
  "ptrIfSet s = (if s = '''' then None else Some s)"

section \<open>Dependencies\<close>

text \<open>A chain source as the roster route sees it: its lister, if it can enumerate delegators.\<close>

type_synonym roster = "(string \<Rightarrow> int \<Rightarrow> string list result) option"

record deps =
  dp_pool :: string
  dp_cipher :: "key_env option"
  dp_chain :: "roster option"
  dp_srcFor :: "(string \<Rightarrow> roster option result) option"

abbreviation refuse :: "nat \<Rightarrow> 'a reply io" where "refuse n \<equiv> returnE (Refused n)"
abbreviation done_with :: "'a \<Rightarrow> 'a reply io" where "done_with x \<equiv> returnE (Reply x)"

definition notFoundElse :: "err \<Rightarrow> nat" where
  "notFoundElse e = (if e = ErrNotFound then 404 else 500)"

section \<open>Members, pool and tier rules\<close>

fun roster_of :: "string list \<Rightarrow> subscription list \<Rightarrow> (string \<times> string \<times> string) list" where
  "roster_of seen [] = []"
| "roster_of seen (x # xs) =
     (if s_sch x \<in> set seen then roster_of seen xs
      else (s_sch x, s_tier x, s_ctype x) # roster_of (s_sch x # seen) xs)"

definition adminMembers :: "deps \<Rightarrow> (string \<times> string \<times> string) list reply io" where
  "adminMembers D = or_refuse serverError (Sub_ListActive (dp_pool D)) (\<lambda>xs. done_with (roster_of [] xs))"

fun primary_of :: "attestor_config list \<Rightarrow> string \<times> string" where
  "primary_of [] = ('''', '''')"
| "primary_of (c # cs) =
     (if ac_kind c \<noteq> KindPoolStake then primary_of cs
      else (case decode_pool_params (ac_params c) of
          None \<Rightarrow> primary_of cs
        | Some p \<Rightarrow>
            if pp_pool p = '''' then primary_of cs
            else (pp_pool p, if pp_network p = '''' then ''mainnet'' else pp_network p)))"

definition primaryPool :: "(string \<times> string) io" where
  "primaryPool = tryE Attestor_ListActive (\<lambda>r. case r of
       Inl _ \<Rightarrow> returnE ('''', '''') | Inr cfgs \<Rightarrow> returnE (primary_of cfgs))"

definition primaryPoolID :: "string io" where
  "primaryPoolID = bindE primaryPool (\<lambda>(i, _). returnE i)"

definition adminGetPool :: "deps \<Rightarrow> (string \<times> string \<times> raw_message) reply io" where
  "adminGetPool D = or_refuse serverError Issuer_GetTierRules (\<lambda>tr.
     bindE primaryPool (\<lambda>(_, network). done_with (dp_pool D, network, tr)))"

definition adminSetTierRules :: "deps \<Rightarrow> string \<Rightarrow> raw_message \<Rightarrow> admin_user \<Rightarrow> raw_message reply io" where
  "adminSetTierRules D ip body u = (case body_struct body of
       None \<Rightarrow> refuse 400
     | Some kvs \<Rightarrow>
         let rules = json_raw (json_field ''tier_rules'' kvs) in
         if raw_is_empty rules then refuse 400
         else (case Validate rules of
             Inl _ \<Rightarrow> refuse 400
           | Inr _ \<Rightarrow> or_refuse serverError (Issuer_SetTierRules rules) (\<lambda>_.
               bindE (audit u ip ''pool.tier_rules_set'' (dp_pool D)) (\<lambda>_. done_with rules))))"

text \<open>The page: a positive decimal of 64 bits, else the first.\<close>

definition page_param :: "string \<Rightarrow> int" where
  "page_param p = (case big_parse p of None \<Rightarrow> 0 | Some n \<Rightarrow> if in_int64 n \<and> n > 0 then n else 0)"

definition roster_source :: "deps \<Rightarrow> string \<Rightarrow> roster option" where
  "roster_source D network = (case dp_srcFor D of
       None \<Rightarrow> dp_chain D
     | Some pick \<Rightarrow> (case pick network of Inr (Some s) \<Rightarrow> Some s | _ \<Rightarrow> dp_chain D))"

definition adminDelegators :: "deps \<Rightarrow> string \<Rightarrow> (string list \<times> int) reply io" where
  "adminDelegators D pageq = bindE primaryPool (\<lambda>(poolID, network).
     if poolID = '''' then refuse 404
     else (case roster_source D network of
         Some (Some lister) \<Rightarrow>
           or_refuse serverError (liftE (lister poolID (page_param pageq))) (\<lambda>hs. done_with (hs, page_param pageq))
       | _ \<Rightarrow> refuse 501))"

section \<open>Attestors\<close>

definition validateAttestorInput :: "string \<Rightarrow> raw_message \<Rightarrow> unit result" where
  "validateAttestorInput kind params =
     (if kind = KindPoolStake then (case decode_pool_params params of
          None \<Rightarrow> Inl (ErrMsg ''invalid params'')
        | Some p \<Rightarrow>
            if trim_space (pp_pool p) = '''' then Inl (ErrMsg ''pool_id is required'')
            else if pp_network p = ''mainnet'' \<or> pp_network p = ''preprod'' \<or> pp_network p = ''preview'' then Inr ()
            else Inl (ErrMsg ''network is required (mainnet|preprod|preview)''))
      else Inl (ErrMsg ''unsupported attestor kind''))"

definition attestorLabelExists :: "string \<Rightarrow> string \<Rightarrow> string \<Rightarrow> bool io" where
  "attestorLabelExists kind label excludeID = bindE Attestor_List (\<lambda>cfgs.
     returnE (\<exists>c \<in> set cfgs. ac_kind c = kind \<and> ac_label c = label \<and> ac_id c \<noteq> excludeID))"

definition adminListAttestors :: "(string \<times> string \<times> string \<times> raw_message \<times> string) list reply io" where
  "adminListAttestors = or_refuse serverError Attestor_List (\<lambda>cfgs.
     done_with (map (\<lambda>c. (ac_id c, ac_kind c, ac_label c, paramsOrEmpty (ac_params c), ac_status c)) cfgs))"

definition adminCreateAttestor :: "string \<Rightarrow> raw_message \<Rightarrow> admin_user \<Rightarrow> string reply io" where
  "adminCreateAttestor ip body u = (case body_struct body of
       None \<Rightarrow> refuse 400
     | Some kvs \<Rightarrow> (case (body_string ''kind'' kvs, body_string ''label'' kvs) of
         (Some kind, Some label) \<Rightarrow>
           let params = json_raw (json_field ''params'' kvs) in
           if label = '''' then refuse 400
           else (case validateAttestorInput kind params of
               Inl _ \<Rightarrow> refuse 400
             | Inr _ \<Rightarrow>
           or_refuse serverError (attestorLabelExists kind label '''') (\<lambda>dup.
           if dup then refuse 409
           else
           bindE nowE (\<lambda>now.
           bindE RandomID (\<lambda>i.
           or_refuse serverError (Attestor_Create \<lparr>ac_id = i, ac_kind = kind, ac_label = label, ac_params = params,
               ac_status = ''active'', ac_created = now, ac_updated = now\<rparr>) (\<lambda>_.
           bindE (audit u ip ''attestor.create'' i) (\<lambda>_. done_with i))))))
       | _ \<Rightarrow> refuse 400))"

text \<open>The fields of the update body, and the row after them (\<open>None\<close>: unknown status).\<close>

definition attestor_patch :: "raw_message \<Rightarrow> (string option \<times> raw_message \<times> string option) option" where
  "attestor_patch body = (case body_struct body of None \<Rightarrow> None | Some kvs \<Rightarrow>
     (case (json_opt_string (json_field ''label'' kvs), json_opt_string (json_field ''status'' kvs)) of
        (Some l, Some s) \<Rightarrow> Some (l, json_raw (json_field ''params'' kvs), s) | _ \<Rightarrow> None))"

definition patched_attestor :: "string option \<times> raw_message \<times> string option \<Rightarrow> attestor_config \<Rightarrow> attestor_config option" where
  "patched_attestor patch cur = (case patch of (label, params, status) \<Rightarrow>
     let a = cur\<lparr>ac_label := (case label of None \<Rightarrow> ac_label cur | Some l \<Rightarrow> l),
                 ac_params := (if raw_is_empty params then ac_params cur else params)\<rparr>
     in (case status of
           None \<Rightarrow> Some a
         | Some s \<Rightarrow> if s = ''active'' \<or> s = ''disabled'' then Some (a\<lparr>ac_status := s\<rparr>) else None))"

definition adminUpdateAttestor :: "string \<Rightarrow> string \<Rightarrow> raw_message \<Rightarrow> admin_user \<Rightarrow> string reply io" where
  "adminUpdateAttestor ip rawid body u = (let i = attestorIDParam rawid in case attestor_patch body of
       None \<Rightarrow> refuse 400
     | Some patch \<Rightarrow>
         or_refuse notFoundElse (Attestor_Get i) (\<lambda>cur. case patched_attestor patch cur of
           None \<Rightarrow> refuse 400
         | Some a \<Rightarrow> (case validateAttestorInput (ac_kind a) (ac_params a) of
             Inl _ \<Rightarrow> refuse 400
           | Inr _ \<Rightarrow>
         or_refuse serverError (attestorLabelExists (ac_kind a) (ac_label a) i) (\<lambda>dup.
         if dup then refuse 409
         else
         bindE nowE (\<lambda>now.
         or_refuse serverError (Attestor_Update (a\<lparr>ac_updated := now\<rparr>)) (\<lambda>_.
         bindE (audit u ip ''attestor.update'' i) (\<lambda>_. done_with i)))))))"

text \<open>Any other error than a missing row is a server error.\<close>

definition adminDeleteAttestor :: "string \<Rightarrow> string \<Rightarrow> admin_user \<Rightarrow> string reply io" where
  "adminDeleteAttestor ip rawid u = (let i = attestorIDParam rawid in
     or_refuse notFoundElse (Attestor_Delete i) (\<lambda>_.
     bindE (audit u ip ''attestor.delete'' i) (\<lambda>_. done_with i)))"

section \<open>Subscriptions\<close>

definition adminSubscriptions :: "deps \<Rightarrow> subscription list reply io" where
  "adminSubscriptions D = or_refuse serverError (Sub_ListActive (dp_pool D)) done_with"

definition adminCancelSub :: "string \<Rightarrow> string \<Rightarrow> admin_user \<Rightarrow> unit reply io" where
  "adminCancelSub ip i u = or_refuse serverError (Sub_SetStatus i SubCancelled) (\<lambda>_.
     bindE (audit u ip ''subscription.cancel'' i) (\<lambda>_. done_with ()))"

section \<open>Channels\<close>

text \<open>
  \<open>[]rune(s)\<close>: the UTF-8 sequences of a text, each by its bytes; a byte that does not start a
  valid sequence is the replacement character.
\<close>

definition byte_in :: "nat \<Rightarrow> nat \<Rightarrow> char \<Rightarrow> bool" where
  "byte_in lo hi c \<longleftrightarrow> lo \<le> of_char c \<and> of_char c \<le> hi"

definition second_range :: "nat \<Rightarrow> nat \<times> nat" where
  "second_range b = (if b = 0xE0 then (0xA0, 0xBF) else if b = 0xED then (0x80, 0x9F)
     else if b = 0xF0 then (0x90, 0xBF) else if b = 0xF4 then (0x80, 0x8F) else (0x80, 0xBF))"

definition sequence_size :: "nat \<Rightarrow> nat" where
  "sequence_size b = (if b < 0x80 then 1 else if 0xC2 \<le> b \<and> b \<le> 0xDF then 2
     else if 0xE0 \<le> b \<and> b \<le> 0xEF then 3 else if 0xF0 \<le> b \<and> b \<le> 0xF4 then 4 else 0)"

definition valid_sequence :: "string \<Rightarrow> bool" where
  "valid_sequence s = (case s of
       [] \<Rightarrow> False
     | c # cs \<Rightarrow> let b = of_char c :: nat in
         length s = sequence_size b
         \<and> (case cs of [] \<Rightarrow> True | d # ds \<Rightarrow> (case second_range b of (lo, hi) \<Rightarrow> byte_in lo hi d)
              \<and> list_all (byte_in 0x80 0xBF) ds))"

definition replacement_rune :: string where
  "replacement_rune = [CHR 0xEF, CHR 0xBF, CHR 0xBD]"

function runes :: "string \<Rightarrow> string list" where
  "runes [] = []"
| "runes (c # cs) = (let n = sequence_size (of_char c); q = take n (c # cs) in
     if valid_sequence q then q # runes (drop n (c # cs)) else replacement_rune # runes cs)"
  by pat_completeness auto
termination
proof (relation "measure length", goal_cases)
  case (2 c cs n q)
  then have "0 < n" by (cases n) (auto simp: valid_sequence_def)
  then show ?case by simp
qed simp_all

text \<open>The masking dot and the ellipsis are three bytes each.\<close>

definition TokenHint :: "string \<Rightarrow> string" where
  "TokenHint plain =
     (if plain = '''' then ''''
      else let r = runes plain in
        if length r \<le> 8 then concat (replicate (length r) [CHR 0xE2, CHR 0x80, CHR 0xA2])
        else concat (take 4 r) @ [CHR 0xE2, CHR 0x80, CHR 0xA6] @ concat (drop (length r - 4) r))"

record channel_view =
  cv_id :: string
  cv_type :: string
  cv_name :: string
  cv_status :: string
  cv_configured :: bool
  cv_user :: "string option"
  cv_hint :: "string option"

definition channelView :: "channel_config \<Rightarrow> string \<Rightarrow> channel_view" where
  "channelView c tokenHint = \<lparr>cv_id = ch_id c, cv_type = ch_type c, cv_name = ch_name c, cv_status = ch_status c,
     cv_configured = (ch_status c = ''active''),
     cv_user = (if ch_type c = ''telegram'' then Some (DecodeUsername (ch_config c)) else None),
     cv_hint = (if ch_type c = ''telegram'' then Some tokenHint else None)\<rparr>"

definition channelTokenHint :: "deps \<Rightarrow> channel_config \<Rightarrow> string" where
  "channelTokenHint D c = (if ch_type c \<noteq> ''telegram'' then ''''
     else (case dp_cipher D of
         None \<Rightarrow> ''''
       | Some E \<Rightarrow> (case DecodeToken E (ch_config c) of Inl _ \<Rightarrow> '''' | Inr tok \<Rightarrow> TokenHint tok)))"

definition adminListChannels :: "deps \<Rightarrow> channel_view list reply io" where
  "adminListChannels D = or_refuse serverError (Channel_List (dp_pool D)) (\<lambda>cs.
     done_with (map (\<lambda>c. channelView c (channelTokenHint D c)) cs))"

text \<open>The inbound configuration of a bot; an absent one is all zero.\<close>

definition inbound_config :: "raw_message \<Rightarrow> (string \<times> string) option" where
  "inbound_config raw = (if raw_is_empty raw then Some ('''', '''')
     else (case body_struct raw of None \<Rightarrow> None | Some kvs \<Rightarrow>
       (case (body_string ''bot_token'' kvs, body_string ''bot_username'' kvs) of
          (Some t, Some n) \<Rightarrow> Some (t, n) | _ \<Rightarrow> None)))"

definition encodeChannelConfig :: "deps \<Rightarrow> string \<Rightarrow> raw_message \<Rightarrow> raw_message option \<Rightarrow> raw_message reply io" where
  "encodeChannelConfig D ctype inb prior =
     (if ctype \<noteq> ''telegram'' then done_with inb
      else (case dp_cipher D of
          None \<Rightarrow> refuse 501
        | Some E \<Rightarrow> (case inbound_config inb of
            None \<Rightarrow> refuse 400
          | Some (tok, user) \<Rightarrow>
              let username = (if user = '''' then (case prior of None \<Rightarrow> '''' | Some p \<Rightarrow> DecodeUsername p) else user);
                  token = (if tok \<noteq> '''' then Some tok
                           else (case prior of
                               None \<Rightarrow> None
                             | Some p \<Rightarrow> (case DecodeToken E p of
                                 Inl _ \<Rightarrow> None | Inr old \<Rightarrow> if old = '''' then None else Some old)))
              in (case token of
                  None \<Rightarrow> refuse 400
                | Some t \<Rightarrow> or_refuse serverError (EncodeConfig E t username) done_with))))"

text \<open>The rest of a handler after a helper that may have written the response.\<close>

definition unless_refused :: "'a reply io \<Rightarrow> ('a \<Rightarrow> 'b reply io) \<Rightarrow> 'b reply io" where
  "unless_refused m k = bindE m (\<lambda>r. case r of Refused n \<Rightarrow> refuse n | Reply x \<Rightarrow> k x)"

definition adminCreateChannel :: "deps \<Rightarrow> string \<Rightarrow> raw_message \<Rightarrow> admin_user \<Rightarrow> string reply io" where
  "adminCreateChannel D ip body u = (case body_struct body of
       None \<Rightarrow> refuse 400
     | Some kvs \<Rightarrow> (case (body_string ''channel_type'' kvs, body_string ''name'' kvs) of
         (Some ctype, Some name) \<Rightarrow>
           if name = '''' then refuse 400
           else if \<not> ValidChannelType ctype then refuse 400
           else
           unless_refused (encodeChannelConfig D ctype (json_raw (json_field ''config'' kvs)) None) (\<lambda>config.
           bindE nowE (\<lambda>now.
           bindE RandomID (\<lambda>i.
           or_refuse (\<lambda>e. if e = ErrConflict then 409 else 500) (Channel_Create \<lparr>ch_id = i, ch_pool = dp_pool D,
               ch_type = ctype, ch_name = name, ch_config = config, ch_status = ''active'', ch_created = now, ch_updated = now\<rparr>) (\<lambda>_.
           bindE (audit u ip ''channel.create'' i) (\<lambda>_. done_with i)))))
       | _ \<Rightarrow> refuse 400))"

definition channel_patch :: "raw_message \<Rightarrow> (string option \<times> string option \<times> raw_message) option" where
  "channel_patch body = (case body_struct body of None \<Rightarrow> None | Some kvs \<Rightarrow>
     (case (json_opt_string (json_field ''name'' kvs), json_opt_string (json_field ''status'' kvs)) of
        (Some n, Some s) \<Rightarrow> Some (n, s, json_raw (json_field ''config'' kvs)) | _ \<Rightarrow> None))"

definition adminUpdateChannel :: "deps \<Rightarrow> string \<Rightarrow> string \<Rightarrow> raw_message \<Rightarrow> admin_user \<Rightarrow> channel_view reply io" where
  "adminUpdateChannel D ip i body u = or_refuse notFoundElse (Channel_Get i) (\<lambda>inst.
     case channel_patch body of
       None \<Rightarrow> refuse 400
     | Some (name, status, cfg) \<Rightarrow>
         if status \<noteq> None \<and> status \<noteq> Some ''active'' \<and> status \<noteq> Some ''disabled'' then refuse 400
         else
         unless_refused (if raw_is_empty cfg then done_with (ch_config inst)
             else encodeChannelConfig D (ch_type inst) cfg (Some (ch_config inst))) (\<lambda>config.
         bindE nowE (\<lambda>now.
         let c = inst\<lparr>ch_name := (case name of Some n \<Rightarrow> if n \<noteq> '''' then n else ch_name inst | None \<Rightarrow> ch_name inst),
                      ch_status := (case status of Some s \<Rightarrow> s | None \<Rightarrow> ch_status inst),
                      ch_config := config, ch_updated := now\<rparr> in
         or_refuse serverError (Channel_Upsert c) (\<lambda>_.
         bindE (audit u ip ''channel.update'' i) (\<lambda>_. done_with (channelView c (channelTokenHint D c)))))))"

definition setChannelStatus :: "string \<Rightarrow> string \<Rightarrow> string \<Rightarrow> admin_user \<Rightarrow> string reply io" where
  "setChannelStatus ip i status u = or_refuse notFoundElse (Channel_Get i) (\<lambda>_.
     bindE nowE (\<lambda>now.
     or_refuse serverError (Channel_SetStatus i status now) (\<lambda>_.
     bindE (audit u ip (''channel.'' @ (if status = ''active'' then ''enable''
         else if status = ''disabled'' then ''disable'' else '''')) i) (\<lambda>_. done_with i))))"

definition adminEnableChannel :: "string \<Rightarrow> string \<Rightarrow> admin_user \<Rightarrow> string reply io" where
  "adminEnableChannel ip i u = setChannelStatus ip i ''active'' u"

definition adminDisableChannel :: "string \<Rightarrow> string \<Rightarrow> admin_user \<Rightarrow> string reply io" where
  "adminDisableChannel ip i u = setChannelStatus ip i ''disabled'' u"

definition adminDeleteChannel :: "string \<Rightarrow> string \<Rightarrow> admin_user \<Rightarrow> nat reply io" where
  "adminDeleteChannel ip i u = or_refuse notFoundElse (Channel_Get i) (\<lambda>_.
     or_refuse serverError (Sub_CancelByChannelID i) (\<lambda>cancelled.
     or_refuse serverError (Channel_Delete i) (\<lambda>_.
     bindE (audit u ip ''channel.delete'' i) (\<lambda>_. done_with cancelled))))"

section \<open>Push jobs, clients and the audit log\<close>

definition adminListPushJobs :: "deps \<Rightarrow> push_job list reply io" where
  "adminListPushJobs D = or_refuse serverError (Job_ListByPool (dp_pool D) 100) done_with"

record job_body =
  pb_title :: string
  pb_content :: string
  pb_ctype :: string
  pb_channel :: string
  pb_tier :: string
  pb_topic :: string
  pb_ent :: string

definition decode_job_body :: "raw_message \<Rightarrow> job_body option" where
  "decode_job_body body = (case body_struct body of None \<Rightarrow> None | Some kvs \<Rightarrow>
     (case (body_string ''title'' kvs, body_string ''content'' kvs, body_string ''channel_type'' kvs,
            body_string ''channel_id'' kvs, json_struct (json_field ''target'' kvs)) of
        (Some t, Some c, Some ct, Some ci, Some tg) \<Rightarrow>
          (case (body_string ''tier'' tg, body_string ''topic'' tg, body_string ''entitlement'' tg) of
             (Some ti, Some tp, Some en) \<Rightarrow> Some \<lparr>pb_title = t, pb_content = c, pb_ctype = ct, pb_channel = ci,
               pb_tier = ti, pb_topic = tp, pb_ent = en\<rparr>
           | _ \<Rightarrow> None)
      | _ \<Rightarrow> None))"

definition job_of :: "deps \<Rightarrow> job_body \<Rightarrow> string \<Rightarrow> string \<Rightarrow> instant \<Rightarrow> push_job" where
  "job_of D b i by now = \<lparr>j_id = i, j_pool = dp_pool D, j_title = pb_title b, j_content = pb_content b,
     j_channel = ptrIfSet (pb_channel b), j_ctype = pb_ctype b, j_topic = ptrIfSet (pb_topic b),
     j_ent = ptrIfSet (pb_ent b), j_tier = ptrIfSet (pb_tier b), j_status = PushScheduled, j_scheduled = None,
     j_by = by, j_created = now\<rparr>"

definition adminCreatePushJob :: "deps \<Rightarrow> string \<Rightarrow> raw_message \<Rightarrow> admin_user \<Rightarrow> string reply io" where
  "adminCreatePushJob D ip body u = (case decode_job_body body of
       None \<Rightarrow> refuse 400
     | Some b \<Rightarrow>
         if pb_title b = '''' then refuse 400
         else if \<not> ValidChannelType (pb_ctype b) then refuse 400
         else
         unless_refused
           (if pb_channel b = '''' then done_with ()
            else tryE (Channel_Get (pb_channel b)) (\<lambda>r. case r of
                Inl _ \<Rightarrow> refuse 400
              | Inr inst \<Rightarrow> if ch_status inst \<noteq> ''active'' \<or> ch_type inst \<noteq> pb_ctype b then refuse 400 else done_with ())) (\<lambda>_.
         bindE RandomID (\<lambda>i.
         bindE nowE (\<lambda>now.
         or_refuse serverError (Job_Create (job_of D b i (u_id u) now)) (\<lambda>_.
         bindE (audit u ip ''push.create'' i) (\<lambda>_. done_with i))))))"

definition adminListClients :: "oauth_client list reply io" where
  "adminListClients = or_refuse serverError OAuthClient_List (\<lambda>cs. done_with (map (\<lambda>c. c\<lparr>cl_secret := None\<rparr>) cs))"

definition adminAudit :: "audit_log list reply io" where
  "adminAudit = or_refuse serverError (Audit_Recent 200) done_with"

section \<open>Routes\<close>

text \<open>The routes of \<open>mountAdminResources\<close> that are not in \<open>admin_op\<close>.\<close>

datatype manage_op =
    GetMembers | GetDelegators string | GetPool | SetTierRules raw_message
  | ListAttestors | CreateAttestor raw_message | UpdateAttestor string raw_message | DeleteAttestor string
  | GetSubscriptions | CancelSubscription string
  | ListChannels | CreateChannel raw_message | UpdateChannel string raw_message
  | EnableChannel string | DisableChannel string | DeleteChannel string
  | ListPushJobs | CreatePushJob raw_message | ListClients | GetAudit

fun manageRole :: "manage_op \<Rightarrow> admin_role" where
  "manageRole GetMembers = RoleViewer"
| "manageRole (GetDelegators p) = RoleViewer"
| "manageRole GetPool = RoleViewer"
| "manageRole ListAttestors = RoleViewer"
| "manageRole GetSubscriptions = RoleViewer"
| "manageRole ListChannels = RoleViewer"
| "manageRole ListClients = RoleOwner"
| "manageRole GetAudit = RoleOwner"
| "manageRole op = RoleOperator"

fun manage_handler :: "deps \<Rightarrow> string \<Rightarrow> manage_op \<Rightarrow> admin_user \<Rightarrow> unit reply io" where
  "manage_handler D ip GetMembers u = acknowledge (adminMembers D)"
| "manage_handler D ip (GetDelegators page) u = acknowledge (adminDelegators D page)"
| "manage_handler D ip GetPool u = acknowledge (adminGetPool D)"
| "manage_handler D ip (SetTierRules body) u = acknowledge (adminSetTierRules D ip body u)"
| "manage_handler D ip ListAttestors u = acknowledge adminListAttestors"
| "manage_handler D ip (CreateAttestor body) u = acknowledge (adminCreateAttestor ip body u)"
| "manage_handler D ip (UpdateAttestor i body) u = acknowledge (adminUpdateAttestor ip i body u)"
| "manage_handler D ip (DeleteAttestor i) u = acknowledge (adminDeleteAttestor ip i u)"
| "manage_handler D ip GetSubscriptions u = acknowledge (adminSubscriptions D)"
| "manage_handler D ip (CancelSubscription i) u = acknowledge (adminCancelSub ip i u)"
| "manage_handler D ip ListChannels u = acknowledge (adminListChannels D)"
| "manage_handler D ip (CreateChannel body) u = acknowledge (adminCreateChannel D ip body u)"
| "manage_handler D ip (UpdateChannel i body) u = acknowledge (adminUpdateChannel D ip i body u)"
| "manage_handler D ip (EnableChannel i) u = acknowledge (adminEnableChannel ip i u)"
| "manage_handler D ip (DisableChannel i) u = acknowledge (adminDisableChannel ip i u)"
| "manage_handler D ip (DeleteChannel i) u = acknowledge (adminDeleteChannel ip i u)"
| "manage_handler D ip ListPushJobs u = acknowledge (adminListPushJobs D)"
| "manage_handler D ip (CreatePushJob body) u = acknowledge (adminCreatePushJob D ip body u)"
| "manage_handler D ip ListClients u = acknowledge adminListClients"
| "manage_handler D ip GetAudit u = acknowledge adminAudit"

definition manage_route :: "server \<Rightarrow> deps \<Rightarrow> string \<Rightarrow> string option \<Rightarrow> manage_op \<Rightarrow> unit reply io" where
  "manage_route S D ip cookie op = requireSession S cookie (requireRole (manageRole op) (manage_handler D ip op))"

text \<open>A run of management requests, one after the other.\<close>

fun manage_run :: "server \<Rightarrow> deps \<Rightarrow> (string \<times> string option \<times> manage_op) list \<Rightarrow> world \<Rightarrow> world" where
  "manage_run S D [] w = w"
| "manage_run S D ((ip, cookie, op) # rs) w = manage_run S D rs (snd (manage_route S D ip cookie op w))"

section \<open>The configuration stays valid\<close>

lemma or_refuse_moves: "io_rel R \<Longrightarrow> moves R m \<Longrightarrow> (\<And>x. moves R (k x)) \<Longrightarrow> moves R (or_refuse status m k)"
  unfolding or_refuse_def by (auto split: sum.splits intro!: io_rel.try_ io_rel.pure_steps)

lemma unless_refused_moves: "io_rel R \<Longrightarrow> moves R m \<Longrightarrow> (\<And>x. moves R (k x)) \<Longrightarrow> moves R (unless_refused m k)"
  unfolding unless_refused_def by (auto split: reply.splits intro!: io_rel.bind io_rel.pure_steps)

lemma acknowledge_moves: "io_rel R \<Longrightarrow> moves R m \<Longrightarrow> moves R (acknowledge m)"
  unfolding acknowledge_def by (intro io_rel.bind io_rel.pure_steps)

text \<open>The routes that only read conserve every relation.\<close>

context io_rel
begin

lemmas step_rules = bind try_ pure_steps ignore RandomID query query_row moves_when
  or_refuse_moves[OF io_rel_axioms] unless_refused_moves[OF io_rel_axioms]

lemma reads:
  "moves R (Sub_ListActive p)" "moves R (Issuer_GetTierRules)" "moves R Attestor_List" "moves R Attestor_ListActive"
  "moves R (Attestor_Get i)" "moves R (Channel_Get i)" "moves R (Channel_List p)" "moves R (Job_ListByPool p n)"
  "moves R OAuthClient_List" "moves R (Audit_Recent n)"
  unfolding Sub_ListActive_def Issuer_GetTierRules_def Attestor_List_def Attestor_ListActive_def Attestor_Get_def
    Channel_Get_def Channel_List_def Job_ListByPool_def OAuthClient_List_def Audit_Recent_def
  by (auto split: sum.splits intro!: step_rules)

lemma encode_moves: "moves R (encodeChannelConfig D ctype inb prior)"
  unfolding encodeChannelConfig_def EncodeConfig_def Cipher_Encrypt_def Let_def
  by (auto split: option.splits intro!: step_rules random)

lemma read_handlers:
  "moves R (adminMembers D)" "moves R (adminDelegators D page)" "moves R (adminGetPool D)" "moves R adminListAttestors"
  "moves R (adminSubscriptions D)" "moves R (adminListChannels D)" "moves R (adminListPushJobs D)"
  "moves R adminListClients" "moves R adminAudit"
  unfolding adminMembers_def adminDelegators_def adminGetPool_def adminListAttestors_def adminSubscriptions_def
    adminListChannels_def adminListPushJobs_def adminListClients_def adminAudit_def primaryPool_def
  by (auto split: sum.splits option.splits prod.splits intro!: step_rules reads)

lemma gate_moves:
  assumes "\<And>u. moves R (next u)"
  shows "moves R (requireSession S cookie (requireRole need next))"
  unfolding requireSession_def requireRole_def Admin_Authenticate_def AdminSession_GetValid_def AdminUser_GetByID_def
  by (auto split: option.splits sum.splits intro!: step_rules assms masked_moves[OF io_rel_axioms])

end

text \<open>What a relation has to conserve for every route to conserve it: the writes of the handlers.\<close>

locale managed = io_rel R for R :: "world \<Rightarrow> world \<Rightarrow> bool" +
  assumes log: "moves R (Audit_Append entry)"
    and set_rules: "Validate rules = Inr () \<Longrightarrow> moves R (Issuer_SetTierRules rules)"
    and create_attestor: "validateAttestorInput (ac_kind a) (ac_params a) = Inr () \<Longrightarrow> moves R (Attestor_Create a)"
    and update_attestor: "validateAttestorInput (ac_kind a) (ac_params a) = Inr () \<Longrightarrow> moves R (Attestor_Update a)"
    and delete_attestor: "moves R (Attestor_Delete i)"
    and cancel: "moves R (Sub_SetStatus i SubCancelled)"
    and cancel_channel: "moves R (Sub_CancelByChannelID i)"
    and create_channel: "moves R (Channel_Create c)"
    and upsert_channel: "moves R (Channel_Upsert c)"
    and channel_status: "moves R (Channel_SetStatus i st now)"
    and delete_channel: "moves R (Channel_Delete i)"
    and create_job: "j_status j = PushScheduled \<Longrightarrow> moves R (Job_Create j)"
begin

lemma audit_moves: "moves R (audit u ip action target)"
  unfolding audit_def by (intro bind RandomID pure_steps ignore log)

lemmas writes = set_rules create_attestor update_attestor delete_attestor cancel cancel_channel create_channel
  upsert_channel channel_status delete_channel create_job

lemmas route_rules = step_rules audit_moves writes

lemma config_handlers:
  "moves R (adminSetTierRules D ip body u)" "moves R (adminCreateAttestor ip body u)"
  "moves R (adminUpdateAttestor ip i body u)" "moves R (adminDeleteAttestor ip i u)"
  unfolding adminSetTierRules_def adminCreateAttestor_def adminUpdateAttestor_def adminDeleteAttestor_def
    attestorLabelExists_def Let_def
  by (auto split: sum.splits option.splits intro!: route_rules reads)

lemma channel_handlers:
  "moves R (adminCreateChannel D ip body u)" "moves R (adminUpdateChannel D ip i body u)"
  "moves R (setChannelStatus ip i st u)" "moves R (adminDeleteChannel ip i u)" "moves R (adminCancelSub ip i u)"
  "moves R (adminCreatePushJob D ip body u)"
  unfolding adminCreateChannel_def adminUpdateChannel_def setChannelStatus_def adminDeleteChannel_def adminCancelSub_def
    adminCreatePushJob_def Let_def
  by (auto split: sum.splits option.splits simp: job_of_def intro!: route_rules reads encode_moves)

lemma manage_handler_moves: "moves R (manage_handler D ip op u)"
  by (cases op) (auto simp: adminEnableChannel_def adminDisableChannel_def
      intro!: acknowledge_moves[OF io_rel_axioms] read_handlers config_handlers channel_handlers)

lemma manage_route_moves: "moves R (manage_route S D ip cookie op)"
  unfolding manage_route_def by (intro gate_moves manage_handler_moves)

lemma manage_run_moves: "R w (manage_run S D reqs w)"
proof (induction S D reqs w rule: manage_run.induct)
  case (2 S D ip cookie op rs w)
  have "R w (snd (manage_route S D ip cookie op w))" using manage_route_moves by (simp add: moves_def)
  from trans[OF this 2] show ?case by simp
qed (simp add: refl)

end

section \<open>Three relations\<close>

subsection \<open>Reading changes nothing\<close>

definition same_state :: "world \<Rightarrow> world \<Rightarrow> bool" where
  "same_state w w' \<longleftrightarrow> w' = w\<lparr>faults := faults w', draws := draws w'\<rparr>"

interpretation still: io_rel same_state
proof
  fix w v u assume "same_state w v" "same_state v u"
  then have "v = w\<lparr>faults := faults v, draws := draws v\<rparr>" "u = v\<lparr>faults := faults u, draws := draws u\<rparr>"
    by (simp_all add: same_state_def)
  then have "u = w\<lparr>faults := faults v, draws := draws v\<rparr>\<lparr>faults := faults u, draws := draws u\<rparr>" by simp
  then show "same_state w u" by (simp add: same_state_def)
qed (simp_all add: same_state_def)

fun reads_only :: "manage_op \<Rightarrow> bool" where
  "reads_only GetMembers = True"
| "reads_only (GetDelegators p) = True"
| "reads_only GetPool = True"
| "reads_only ListAttestors = True"
| "reads_only GetSubscriptions = True"
| "reads_only ListChannels = True"
| "reads_only ListPushJobs = True"
| "reads_only ListClients = True"
| "reads_only GetAudit = True"
| "reads_only op = False"

lemma reads_only_still: "reads_only op \<Longrightarrow> moves same_state (manage_handler D ip op u)"
  by (cases op) (auto intro!: acknowledge_moves[OF still.io_rel_axioms] still.read_handlers)

lemma writes_need_operator: "\<not> reads_only op \<Longrightarrow> manageRole op = RoleOperator"
  by (cases op) auto

text \<open>C9: Through the management routes nothing in the database changes, whatever fails, unless the
  request carries the cookie of a valid session whose admin is at least an operator, and the
  route is one that writes.\<close>

theorem management_needs_operator:
  assumes run: "manage_route S D ip cookie op w = (r, w')" and change: "\<not> same_state w w'"
  shows "\<not> reads_only op \<and> (\<exists>c u v. cookie = Some c \<and> Admin_Authenticate S c w = (Inr u, v)
    \<and> AtLeast (u_role u) RoleOperator)"
proof -
  have wr: "\<not> reads_only op"
  proof
    assume "reads_only op"
    then have "moves same_state (manage_route S D ip cookie op)"
      unfolding manage_route_def by (intro still.gate_moves reads_only_still)
    then show False using movesD run change by blast
  qed
  have auth: "same_state w v" if "Admin_Authenticate S c w = (q, v)" for c q v
  proof -
    have "moves same_state (Admin_Authenticate S c)"
      unfolding Admin_Authenticate_def AdminSession_GetValid_def AdminUser_GetByID_def
      by (intro still.step_rules masked_moves[OF still.io_rel_axioms])
    then show ?thesis using movesD that by blast
  qed
  obtain c where c: "cookie = Some c" using run change still.refl
    by (cases cookie) (auto simp: manage_route_def requireSession_def returnE_def)
  obtain q v where q: "Admin_Authenticate S c w = (q, v)" by force
  obtain u where u: "q = Inr u" using run change c q auth[OF q]
    by (cases q) (auto simp: manage_route_def requireSession_def tryE_def returnE_def)
  have "AtLeast (u_role u) (manageRole op)" using run change c q u auth[OF q]
    by (auto simp: manage_route_def requireSession_def requireRole_def tryE_def returnE_def split: if_splits)
  then show ?thesis using wr writes_need_operator c q u by auto
qed

definition sample_deps :: deps where
  "sample_deps = \<lparr>dp_pool = ''p'', dp_cipher = Some sample_keys, dp_chain = None, dp_srcFor = None\<rparr>"

lemma management_needs_operator_witness:
  "\<exists>r w'. let w = empty_world\<lparr>admins := [sample_admin], subs := [sample_subscriber ''s1'' ''gold''],
         asessions := [\<lparr>as_token = hex_encode (bytes_of ''t''), as_admin = ''a1'', as_expires = 10, as_ip = None, as_created = 0\<rparr>]\<rparr> in
     manage_route sample_server sample_deps '''' (Some ''t'') (CancelSubscription ''s1'') w = (r, w')
   \<and> (\<exists>u v. Admin_Authenticate sample_server ''t'' w = (Inr u, v) \<and> AtLeast (u_role u) RoleOperator)"
proof -
  define w where "w = empty_world\<lparr>admins := [sample_admin], subs := [sample_subscriber ''s1'' ''gold''],
         asessions := [\<lparr>as_token = hex_encode (bytes_of ''t''), as_admin = ''a1'', as_expires = 10, as_ip = None, as_created = 0\<rparr>]\<rparr>"
  have sel: "faults w = []" "clock w = 0" "audits w = []" "admins w = [sample_admin]" "subs w = [sample_subscriber ''s1'' ''gold'']"
    "asessions w = [\<lparr>as_token = hex_encode (bytes_of ''t''), as_admin = ''a1'', as_expires = 10, as_ip = None, as_created = 0\<rparr>]"
    by (simp_all add: w_def empty_world_def)
  have adm: "u_id sample_admin = ''a1''" "u_role sample_admin = RoleOperator" by (simp_all add: sample_admin_def)
  obtain r w' where run: "manage_route sample_server sample_deps '''' (Some ''t'') (CancelSubscription ''s1'') w = (r, w')" by force
  have auth: "Admin_Authenticate sample_server ''t'' w = (Inr sample_admin, w)"
    using sel adm by (simp add: Admin_Authenticate_def bindE_def nowE_def getE_def masked_def tryE_def
        AdminSession_GetValid_def query_row_def exec_def returnE_def AdminUser_GetByID_def)
  have "map s_status (subs w') = [SubCancelled]"
    using run sel adm unfolding manage_route_def requireSession_def
    by (simp add: tryE_def auth requireRole_def less_eq_admin_role_def acknowledge_def bindE_def returnE_def
        adminCancelSub_def or_refuse_def Sub_SetStatus_def update_rows_def modify_def exec_def set_where_def sample_subscriber_def
        audit_def RandomID_def random_bytes_def nowE_def getE_def ignoreE_def Audit_Append_def insert_row_def)
      auto
  moreover have "map s_status (subs w) = [SubActive]" using sel by (simp add: sample_subscriber_def)
  moreover have "subs w' = subs w" if "same_state w w'" using arg_cong[OF that[unfolded same_state_def], of subs] by simp
  ultimately have "\<not> same_state w w'" by auto
  from management_needs_operator[OF run this] have "\<exists>u v. Admin_Authenticate sample_server ''t'' w = (Inr u, v) \<and> AtLeast (u_role u) RoleOperator"
    by auto
  then show ?thesis using run by (auto simp: Let_def w_def[symmetric])
qed

subsection \<open>The configuration\<close>

definition attestors_ok :: "attestor_config list \<Rightarrow> bool" where
  "attestors_ok as \<longleftrightarrow> distinct (map ac_id as) \<and> distinct (map (\<lambda>a. (ac_kind a, ac_label a)) as)
     \<and> (\<forall>a \<in> set as. validateAttestorInput (ac_kind a) (ac_params a) = Inr ())"

definition rules_ok :: "raw_message option \<Rightarrow> bool" where
  "rules_ok r = (case r of None \<Rightarrow> True | Some rules \<Rightarrow> Validate rules = Inr ())"

definition config_ok :: "world \<Rightarrow> bool" where
  "config_ok w \<longleftrightarrow> rules_ok (tier_rules w) \<and> attestors_ok (attestors w) \<and> channels_ok (channels w)"

definition keeps_config :: "world \<Rightarrow> world \<Rightarrow> bool" where
  "keeps_config w w' \<longleftrightarrow> (config_ok w \<longrightarrow> config_ok w')"

interpretation config: io_rel keeps_config
  by unfold_locales (simp_all add: keeps_config_def config_ok_def)

lemma keeps_config_same: "tier_rules w' = tier_rules w \<Longrightarrow> attestors w' = attestors w \<Longrightarrow> channels w' = channels w
    \<Longrightarrow> keeps_config w w'"
  by (simp add: keeps_config_def config_ok_def)

lemma valid_input: "validateAttestorInput kind p = Inr () \<Longrightarrow> kind = KindPoolStake \<and> paramsOrEmpty p = p"
  by (auto simp: validateAttestorInput_def paramsOrEmpty_def decode_pool_params_def
      split: if_splits option.splits raw_message.splits)

lemma attestors_ok_update:
  assumes ok: "attestors_ok as" and v: "validateAttestorInput (ac_kind a) (ac_params a) = Inr ()"
    and free: "\<not> (\<exists>r \<in> set as. ac_id r = ac_id a
       \<and> (\<exists>r' \<in> set as. ac_id r' \<noteq> ac_id a \<and> ac_kind r' = ac_kind r \<and> ac_label r' = ac_label a))"
  shows "attestors_ok (set_where (\<lambda>r. ac_id r = ac_id a) (\<lambda>r. r\<lparr>ac_label := ac_label a,
      ac_params := paramsOrEmpty (ac_params a), ac_status := ac_status a, ac_updated := ac_updated a\<rparr>) as)"
    (is "attestors_ok (set_where ?P ?f as)")
proof -
  let ?key = "\<lambda>r. (ac_kind r, ac_label r)"
  have ids: "map ac_id (set_where ?P ?f as) = map ac_id as" by (rule set_where_key) simp
  have kinds: "ac_kind r = KindPoolStake" if "r \<in> set as" for r using ok that valid_input by (auto simp: attestors_ok_def)
  have "inj_on (\<lambda>r. ?key (if ?P r then ?f r else r)) (set as)"
  proof (rule inj_onI)
    fix x y assume x: "x \<in> set as" and y: "y \<in> set as"
      and eq: "?key (if ?P x then ?f x else x) = ?key (if ?P y then ?f y else y)"
    show "x = y"
    proof (cases "?P x = ?P y")
      case True
      then show ?thesis using x y eq ok
        by (cases "?P x") (auto simp: attestors_ok_def distinct_map inj_on_def)
    next
      case False
      then consider "?P x" "\<not> ?P y" | "\<not> ?P x" "?P y" by blast
      then show ?thesis
      proof cases
        case 1
        then have "ac_kind y = ac_kind x" "ac_label y = ac_label a" using eq by simp_all
        then show ?thesis using 1 x y free by blast
      next
        case 2
        then have "ac_kind x = ac_kind y" "ac_label x = ac_label a" using eq by simp_all
        then show ?thesis using 2 x y free by blast
      qed
    qed
  qed
  moreover have "distinct as" using ok by (auto simp: attestors_ok_def distinct_map)
  ultimately have "distinct (map ?key (set_where ?P ?f as))"
    unfolding set_where_def map_map comp_def by (simp add: distinct_map)
  moreover have "validateAttestorInput (ac_kind r) (ac_params r) = Inr ()" if "r \<in> set (set_where ?P ?f as)" for r
    using that ok v kinds valid_input[OF v] unfolding mem_set_where attestors_ok_def by auto
  ultimately show ?thesis using ok ids by (simp add: attestors_ok_def)
qed

text \<open>The operations on channels leave the rest of the configuration alone.\<close>

definition same_rest :: "world \<Rightarrow> world \<Rightarrow> bool" where
  "same_rest w w' \<longleftrightarrow> tier_rules w' = tier_rules w \<and> attestors w' = attestors w"

interpretation rest: io_rel same_rest
  by unfold_locales (simp_all add: same_rest_def)

lemma rest_insert: "moves same_rest (Channel_insert c)"
  unfolding Channel_insert_def by (rule rest.exec) (simp add: same_rest_def)

lemma rest_channels:
  "moves same_rest (Channel_Create c)" "moves same_rest (Channel_Upsert c)"
  "moves same_rest (Channel_SetStatus i st now)" "moves same_rest (Channel_Delete i)"
proof -
  show "moves same_rest (Channel_Create c)" unfolding Channel_Create_def
    by (intro rest.tx rest.bind rest.query moves_when rest.pure_steps rest_insert)
  show "moves same_rest (Channel_Upsert c)" unfolding Channel_Upsert_def
    by (rule rest.exec) (simp add: same_rest_def split: option.split)
  show "moves same_rest (Channel_SetStatus i st now)" unfolding Channel_SetStatus_def
    by (rule rest.update_rows) (simp add: same_rest_def)
  show "moves same_rest (Channel_Delete i)" unfolding Channel_Delete_def
    by (intro rest.bind rest.delete_rows rest.pure_steps) (simp add: same_rest_def)
qed

lemma channels_config: "moves keeps_channels m \<Longrightarrow> moves same_rest m \<Longrightarrow> moves keeps_config m"
  by (auto simp: moves_def keeps_channels_def same_rest_def keeps_config_def config_ok_def)

lemma Validate_no_rules: "Validate no_rules = Inr ()"
  by (simp add: Validate_def no_rules_def)

interpretation config_routes: managed keeps_config
proof (unfold_locales, goal_cases)
  case (1 entry)
  show ?case unfolding Audit_Append_def by (rule config.insert_row) (rule keeps_config_same, simp_all)
next
  case (2 rules)
  then show ?case unfolding Issuer_SetTierRules_def
    by (intro config.modify) (simp add: keeps_config_def config_ok_def rules_ok_def Validate_no_rules)
next
  case (3 a)
  then show ?case unfolding Attestor_Create_def using valid_input[OF 3]
    by (intro config.exec) (auto simp: keeps_config_def config_ok_def attestors_ok_def)
next
  case (4 a)
  have "moves keeps_config (exec (\<lambda>w.
       if (\<exists>r \<in> set (attestors w). ac_id r = ac_id a
            \<and> (\<exists>r' \<in> set (attestors w). ac_id r' \<noteq> ac_id a \<and> ac_kind r' = ac_kind r \<and> ac_label r' = ac_label a))
       then (Inl ErrDB, w)
       else (Inr (length (filter (\<lambda>r. ac_id r = ac_id a) (attestors w))),
             attestors_update (set_where (\<lambda>r. ac_id r = ac_id a)
               (\<lambda>r. r\<lparr>ac_label := ac_label a, ac_params := paramsOrEmpty (ac_params a),
                      ac_status := ac_status a, ac_updated := ac_updated a\<rparr>)) w)))"
    by (rule config.exec) (use attestors_ok_update[OF _ 4] in \<open>simp add: keeps_config_def config_ok_def\<close>)
  then show ?case unfolding Attestor_Update_def notFoundIfNoRows_def
    by (intro config.bind moves_when config.pure_steps)
next
  case (5 i)
  show ?case unfolding Attestor_Delete_def notFoundIfNoRows_def
    by (intro config.bind moves_when config.pure_steps config.delete_rows)
       (simp add: keeps_config_def config_ok_def attestors_ok_def distinct_map_filter_key)
next
  case (6 i)
  show ?case unfolding Sub_SetStatus_def by (rule config.update_rows) (rule keeps_config_same, simp_all)
next
  case (7 i)
  show ?case unfolding Sub_CancelByChannelID_def by (rule config.update_count) (rule keeps_config_same, simp_all)
next
  case (12 j)
  show ?case unfolding Job_Create_def by (rule config.insert_row) (rule keeps_config_same, simp_all)
next
  case (8 c)
  show ?case by (rule channels_config[OF kept_create rest_channels(1)])
next
  case (9 c)
  show ?case by (rule channels_config[OF kept_upsert rest_channels(2)])
next
  case (10 i st now)
  show ?case by (rule channels_config[OF kept_status rest_channels(3)])
next
  case (11 i)
  show ?case by (rule channels_config[OF kept_remove rest_channels(4)])
qed

subsection \<open>The ledger\<close>

interpretation ledger_routes: managed same_ledger
proof (unfold_locales, goal_cases)
  case (3 a)
  show ?case unfolding Attestor_Create_def by (rule ledger.exec) (simp add: same_ledger_def)
next
  case (4 a)
  show ?case unfolding Attestor_Update_def notFoundIfNoRows_def
    by (intro ledger.bind moves_when ledger.pure_steps ledger.exec) (simp add: same_ledger_def)
next
  case (5 i)
  show ?case unfolding Attestor_Delete_def notFoundIfNoRows_def
    by (intro ledger.bind moves_when ledger.pure_steps ledger.delete_rows) (simp add: same_ledger_def)
next
  case (8 c)
  show ?case unfolding Channel_Create_def Channel_insert_def
    by (intro ledger.tx ledger.bind ledger.query moves_when ledger.pure_steps ledger.exec) (simp add: same_ledger_def)
next
  case (9 c)
  show ?case unfolding Channel_Upsert_def by (rule ledger.exec) (simp add: same_ledger_def split: option.split)
next
  case (11 i)
  show ?case unfolding Channel_Delete_def
    by (intro ledger.bind ledger.pure_steps ledger.delete_rows) (simp add: same_ledger_def)
qed (auto simp: Audit_Append_def Issuer_SetTierRules_def Sub_SetStatus_def Sub_CancelByChannelID_def Channel_SetStatus_def
    Job_Create_def same_ledger_def intro!: ledger.insert_row ledger.modify ledger.update_rows ledger.update_count)

section \<open>Guarantees\<close>

text \<open>C8: The stored configuration stays well-formed under every sequence of management requests and
  every pattern of failures: the tier rules are valid, every attestor is a stake pool with a
  pool and a known network, ids are unique and so are labels within a kind and channel names
  within a pool and type.\<close>

theorem management_keeps_config:
  assumes "config_ok w"
  shows "config_ok (manage_run S D reqs w)"
  using assms config_routes.manage_run_moves by (simp add: keeps_config_def)

lemma empty_config_ok [simp]: "config_ok empty_world"
  by (simp add: config_ok_def rules_ok_def attestors_ok_def channels_ok_def empty_world_def)

lemma management_keeps_config_witness:
  "config_ok (manage_run sample_server sample_deps [('''', None, GetPool), ('''', Some ''c'', CreateChannel RawBad)] empty_world)"
  by (rule management_keeps_config) simp

lemma valid_builds:
  "\<forall>a \<in> set as. validateAttestorInput (ac_kind a) (ac_params a) = Inr () \<Longrightarrow>
     \<exists>bs. BuildSet as DefaultRegistry (srcFor http apiKey) = Inr bs \<and> map at_id bs = map ac_id as"
proof (induction as)
  case (Cons a as)
  have v: "validateAttestorInput (ac_kind a) (ac_params a) = Inr ()" using Cons.prems by simp
  have kind: "ac_kind a = KindPoolStake" using valid_input[OF v] by simp
  obtain p where p: "decode_pool_params (ac_params a) = Some p" "trim_space (pp_pool p) \<noteq> ''''"
    using v by (auto simp: validateAttestorInput_def split: if_splits option.splits)
  have "pp_pool p \<noteq> ''''" using p(2) by (auto simp: trim_space_def trim_left_def)
  then have "\<exists>b. Registry_Build DefaultRegistry (ac_kind a) (ac_id a) (ac_params a) (srcFor http apiKey) = Inr b \<and> at_id b = ac_id a"
    using p(1) by (simp add: kind Registry_Build_def DefaultRegistry_def Registry_Register_def BuildPoolStake_def srcFor_def)
  moreover obtain bs where "BuildSet as DefaultRegistry (srcFor http apiKey) = Inr bs" "map at_id bs = map ac_id as"
    using Cons by auto
  ultimately show ?case by auto
qed simp

text \<open>A configuration error can not stop issuance: after any sequence of management requests on a
  valid configuration, the active attestors are all built, in order, so an evaluation never
  fails because of one that can not be.\<close>

theorem managed_attestors_build:
  assumes "config_ok w" and quiet: "faults (manage_run S D reqs w) = []"
  shows "\<exists>as. attestorsFor http apiKey (manage_run S D reqs w) = (Inr as, manage_run S D reqs w)
    \<and> map at_id as = map ac_id (order_attestors (filter (\<lambda>a. ac_status a = ''active'') (attestors (manage_run S D reqs w))))"
proof -
  let ?v = "manage_run S D reqs w" and ?act = "\<lambda>as. order_attestors (filter (\<lambda>a. ac_status a = ''active'') as)"
  have "config_ok ?v" using assms(1) config_routes.manage_run_moves by (simp add: keeps_config_def)
  then have "\<forall>a \<in> set (?act (attestors ?v)). validateAttestorInput (ac_kind a) (ac_params a) = Inr ()"
    by (auto simp: config_ok_def attestors_ok_def order_attestors_def)
  then obtain as where "BuildSet (?act (attestors ?v)) DefaultRegistry (srcFor http apiKey) = Inr as"
      "map at_id as = map ac_id (?act (attestors ?v))" using valid_builds by blast
  then show ?thesis using quiet by (simp add: attestorsFor_def bindE_def Attestor_ListActive_def liftE_def)
qed

lemma managed_attestors_build_witness:
  "\<exists>as. attestorsFor no_http '''' (manage_run sample_server sample_deps [('''', None, GetPool)] (empty_world\<lparr>attestors := [sample_attestor]\<rparr>))
     = (Inr as, manage_run sample_server sample_deps [('''', None, GetPool)] (empty_world\<lparr>attestors := [sample_attestor]\<rparr>))
   \<and> map at_id as = [''p'']"
proof -
  let ?w = "empty_world\<lparr>attestors := [sample_attestor]\<rparr>"
  have run: "manage_run sample_server sample_deps [('''', None, GetPool)] ?w = ?w"
    by (simp add: manage_route_def requireSession_def returnE_def)
  have "config_ok ?w"
    by (simp add: config_ok_def rules_ok_def attestors_ok_def channels_ok_def empty_world_def sample_attestor_def
        validateAttestorInput_def decode_pool_params_def json_string_def json_field_def to_lower_def char_lower_def
        trim_space_def trim_left_def is_space_def)
  from managed_attestors_build[OF this, of sample_server sample_deps "[('''', None, GetPool)]"]
  show ?thesis unfolding run
    by (simp add: empty_world_def order_attestors_def sample_attestor_def)
qed

lemma or_refuse_Reply: "or_refuse st m k w = (Inr (Reply y), w') \<longleftrightarrow>
    (\<exists>x v. m w = (Inr x, v) \<and> k x v = (Inr (Reply y), w'))"
  by (auto simp: or_refuse_def tryE_def returnE_def split: prod.splits sum.splits)

lemma unless_refused_Reply: "unless_refused m k w = (Inr (Reply y), w') \<longleftrightarrow>
    (\<exists>x v. m w = (Inr (Reply x), v) \<and> k x v = (Inr (Reply y), w'))"
  by (auto simp: unless_refused_def bindE_def returnE_def split: prod.splits sum.splits reply.splits)

lemma refuse_not_Reply: "\<not> refuse n w = (Inr (Reply y), w')"
  by (simp add: returnE_def)

lemma audit_tables: "audit u ip action target w = (r, w') \<Longrightarrow>
    r = Inr () \<and> subs w' = subs w \<and> channels w' = channels w \<and> jobs w' = jobs w \<and> clock w' = clock w"
  by (auto simp: audit_def bindE_def RandomID_def random_bytes_def returnE_def nowE_def getE_def ignoreE_run
      Audit_Append_def insert_row_def exec_def)

lemmas reply_success = or_refuse_Reply unless_refused_Reply refuse_not_Reply bindE_Inr

text \<open>C10: A channel that was deleted is silent: when the route confirms the deletion, the instance is
  gone, no subscription of it is active, no broadcast is addressed to any of its rows, and the
  subscriptions of other channels are as they were.\<close>

theorem deleted_channel_is_silent:
  assumes run: "adminDeleteChannel ip i u w = (Inr (Reply n), w')"
  shows "i \<notin> ch_id ` set (channels w')
    \<and> (\<forall>x \<in> set (subs w'). s_channel x = i \<longrightarrow> s_status x \<noteq> SubActive \<and> (\<forall>job. \<not> addressed job x))
    \<and> filter (\<lambda>x. s_channel x \<noteq> i) (subs w') = filter (\<lambda>x. s_channel x \<noteq> i) (subs w)
    \<and> n = length (filter (\<lambda>x. s_channel x = i \<and> s_status x = SubActive) (subs w))"
proof -
  obtain c v1 v2 k v3 m where
    get: "Channel_Get i w = (Inr c, v1)" and can: "Sub_CancelByChannelID i v1 = (Inr n, v2)" and
    del: "Channel_Delete i v2 = (Inr k, v3)" and aud: "audit u ip ''channel.delete'' i v3 = (Inr m, w')"
    using run unfolding adminDeleteChannel_def reply_success by (auto simp: returnE_Inr)
  let ?P = "\<lambda>x. s_channel x = i \<and> s_status x = SubActive"
  have 1: "subs v1 = subs w" using get by (auto simp: Channel_Get_def query_row_Inr)
  have 2: "subs v2 = set_where ?P cancel_sub (subs w)" "n = length (filter ?P (subs w))"
    using can 1 by (auto simp: Sub_CancelByChannelID_def update_count_Inr)
  have 3: "subs v3 = subs v2" "channels v3 = filter (\<lambda>r. ch_id r \<noteq> i) (channels v2)"
    using del by (auto simp: Channel_Delete_def bindE_Inr delete_rows_Inr returnE_Inr)
  have 4: "subs w' = subs v3" "channels w' = channels v3" using audit_tables[OF aud] by simp_all
  have "s_status x \<noteq> SubActive" if "x \<in> set (subs w')" "s_channel x = i" for x
  proof -
    have "x \<in> set (set_where ?P cancel_sub (subs w))" using that(1) by (simp add: 4(1) 3(1) 2(1))
    then obtain y where "x = (if ?P y then cancel_sub y else y)" unfolding set_where_def set_map by blast
    then show ?thesis using that(2) by (cases "?P y") (auto simp: cancel_sub_def)
  qed
  moreover have "filter (\<lambda>x. s_channel x \<noteq> i) (subs w') = filter (\<lambda>x. s_channel x \<noteq> i) (subs w)"
    unfolding 4(1) 3(1) 2(1) by (rule set_where_others) (simp add: cancel_sub_def)
  ultimately show ?thesis using 2(2) 3(2) 4(2) by (auto simp: addressed_def)
qed

lemma deleted_channel_is_silent_witness:
  "\<exists>n w'. adminDeleteChannel '''' ''c1'' sample_admin
       (empty_world\<lparr>channels := [sample_instance], subs := [sample_subscriber ''42'' ''gold'']\<rparr>) = (Inr (Reply n), w')
     \<and> n = 1 \<and> channels w' = []"
proof -
  let ?w = "empty_world\<lparr>channels := [sample_instance], subs := [sample_subscriber ''42'' ''gold'']\<rparr>"
  have inst: "ch_id sample_instance = ''c1''" by (simp add: sample_instance_def)
  obtain n w' where run: "adminDeleteChannel '''' ''c1'' sample_admin ?w = (Inr (Reply n), w')" "length (channels w') = 0"
    by (simp add: adminDeleteChannel_def or_refuse_def tryE_def Channel_Get_def query_row_def exec_def empty_world_def
        inst Sub_CancelByChannelID_def update_count_def Channel_Delete_def delete_rows_def bindE_def returnE_def
        audit_def RandomID_def random_bytes_def nowE_def getE_def ignoreE_run Audit_Append_def insert_row_def faulty_def skip_def)
  then show ?thesis using deleted_channel_is_silent[OF run(1)]
    by (simp add: sample_subscriber_def)
qed

text \<open>A broadcast that an admin creates is delivered: the reply names a job that is stored as given,
  scheduled without a time, and so due at once, and that, if bound to an instance, is bound to
  an active one of its channel type.\<close>

theorem created_job_is_due:
  assumes run: "adminCreatePushJob D ip body u w = (Inr (Reply i), w')"
  shows "\<exists>b j. decode_job_body body = Some b \<and> pb_title b \<noteq> '''' \<and> jobs w' = jobs w @ [j] \<and> j_id j = i
    \<and> j_pool j = dp_pool D \<and> j_title j = pb_title b \<and> j_content j = pb_content b \<and> j_ctype j = pb_ctype b \<and> j_by j = u_id u
    \<and> (\<forall>now. due now j)
    \<and> (\<forall>c. j_channel j = Some c \<longrightarrow> c = pb_channel b
         \<and> (\<exists>inst \<in> set (channels w'). ch_id inst = c \<and> ch_status inst = ''active'' \<and> ch_type inst = j_ctype j))"
proof -
  obtain b where b: "decode_job_body body = Some b" "pb_title b \<noteq> ''''" "ValidChannelType (pb_ctype b)"
    using run by (auto simp: adminCreatePushJob_def refuse_not_Reply split: option.splits if_splits)
  let ?check = "if pb_channel b = '''' then done_with ()
            else tryE (Channel_Get (pb_channel b)) (\<lambda>r. case r of
                Inl _ \<Rightarrow> refuse 400
              | Inr inst \<Rightarrow> if ch_status inst \<noteq> ''active'' \<or> ch_type inst \<noteq> pb_ctype b then refuse 400 else done_with ())"
  have "unless_refused ?check (\<lambda>_.
         bindE RandomID (\<lambda>i.
         bindE nowE (\<lambda>now.
         or_refuse serverError (Job_Create (job_of D b i (u_id u) now)) (\<lambda>_.
         bindE (audit u ip ''push.create'' i) (\<lambda>_. done_with i))))) w = (Inr (Reply i), w')"
    using run b by (simp add: adminCreatePushJob_def)
  then obtain x v1 v2 now v3 k v4 m where
    chk: "?check w = (Inr (Reply x), v1)" and rid: "RandomID v1 = (Inr i, v2)" and
    cre: "Job_Create (job_of D b i (u_id u) now) v3 = (Inr k, v4)" "v3 = v2" and
    aud: "audit u ip ''push.create'' i v4 = (Inr m, w')"
    unfolding reply_success by (auto simp: returnE_Inr nowE_Inr)
  have 1: "jobs v1 = jobs w" "channels v1 = channels w"
    "pb_channel b \<noteq> '''' \<Longrightarrow> \<exists>inst \<in> set (channels w). ch_id inst = pb_channel b \<and> ch_status inst = ''active'' \<and> ch_type inst = pb_ctype b"
    using chk by (auto simp: tryE_def returnE_def Channel_Get_def query_row_def exec_def split: if_splits option.splits dest!: find_Some_mem)
  have 2: "jobs v2 = jobs v1" "channels v2 = channels v1"
    using rid by (auto simp: RandomID_def bindE_Inr random_bytes_def returnE_Inr)
  let ?j = "job_of D b i (u_id u) now"
  have 3: "jobs v4 = jobs v2 @ [?j]" "channels v4 = channels v2"
    using cre by (auto simp: Job_Create_def insert_row_Inr)
  have 4: "jobs w' = jobs v4" "channels w' = channels v4" using audit_tables[OF aud] by simp_all
  have chan: "j_channel ?j = Some c \<longrightarrow> c = pb_channel b
         \<and> (\<exists>inst \<in> set (channels w'). ch_id inst = c \<and> ch_status inst = ''active'' \<and> ch_type inst = j_ctype ?j)" for c
    using 1 2 3 4 by (auto simp: job_of_def ptrIfSet_def)
  have jobs: "jobs w' = jobs w @ [?j]" using 1 2 3 4 by simp
  show ?thesis using b jobs chan by (intro exI[of _ b] exI[of _ ?j]) (simp add: job_of_def due_def)
qed

definition sample_push :: raw_message where
  "sample_push = RawDoc (JObj [(''title'', JStr ''Hi''), (''channel_type'', JStr ''telegram''), (''channel_id'', JStr ''c1'')])"

lemma sample_push_body: "decode_job_body sample_push = Some \<lparr>pb_title = ''Hi'', pb_content = '''', pb_ctype = ''telegram'',
    pb_channel = ''c1'', pb_tier = '''', pb_topic = '''', pb_ent = ''''\<rparr>"
  by code_simp

lemma created_job_is_due_witness:
  "\<exists>i w' j. adminCreatePushJob sample_deps '''' sample_push sample_admin (empty_world\<lparr>channels := [sample_instance]\<rparr>) = (Inr (Reply i), w')
     \<and> jobs w' = [j] \<and> j_id j = i \<and> due 0 j"
proof -
  let ?w = "empty_world\<lparr>channels := [sample_instance]\<rparr>"
  have inst: "ch_id sample_instance = ''c1''" "ch_status sample_instance = ''active''" "ch_type sample_instance = ''telegram''"
    by (simp_all add: sample_instance_def)
  obtain i w' where run: "adminCreatePushJob sample_deps '''' sample_push sample_admin ?w = (Inr (Reply i), w')"
    by (simp add: adminCreatePushJob_def sample_push_body ValidChannelType_def unless_refused_def bindE_def tryE_def Channel_Get_def
        query_row_def exec_def empty_world_def inst returnE_def RandomID_def random_bytes_def nowE_def getE_def or_refuse_def
        Job_Create_def insert_row_def audit_def ignoreE_run faulty_def skip_def)
  then show ?thesis using created_job_is_due[OF run] by (auto simp: empty_world_def)
qed

text \<open>Editing a bot's public name keeps its token: an update whose configuration has no token stores
  the token that was stored, under fresh encryption, with the new name (or the old one when
  none is given), and it succeeds only if there is a token.\<close>

theorem username_edit_keeps_token:
  assumes run: "adminUpdateChannel D ip i body u w = (Inr (Reply v), w')"
    and patch: "channel_patch body = Some (nm, st, cfg)" "\<not> raw_is_empty cfg" "inbound_config cfg = Some ('''', user)"
    and cipher: "dp_cipher D = Some E" and aead: "\<And>n p. aead_open E n (aead_seal E n p) = Some p"
    and row: "find (\<lambda>r. ch_id r = i) (channels w) = Some inst" "ch_type inst = ''telegram''"
  shows "\<exists>tok c. instanceToken (Some E) inst = Inr tok \<and> c \<in> set (channels w') \<and> ch_id c = i
    \<and> instanceToken (Some E) c = Inr tok
    \<and> DecodeUsername (ch_config c) = (if user = '''' then DecodeUsername (ch_config inst) else user)"
proof -
  define name where "name = (if user = '''' then DecodeUsername (ch_config inst) else user)"
  let ?enc = "encodeChannelConfig D ''telegram'' cfg (Some (ch_config inst))"
  obtain v1 config v2 now c v3 m where
    get: "Channel_Get i w = (Inr inst, v1)" and enc: "?enc v1 = (Inr (Reply config), v2)" and
    c: "c = inst\<lparr>ch_name := (case nm of Some n \<Rightarrow> if n \<noteq> '''' then n else ch_name inst | None \<Rightarrow> ch_name inst),
                      ch_status := (case st of Some s \<Rightarrow> s | None \<Rightarrow> ch_status inst),
                      ch_config := config, ch_updated := now\<rparr>" and
    ups: "Channel_Upsert c v2 = (Inr (), v3)" and aud: "audit u ip ''channel.update'' i v3 = (Inr m, w')"
    using run patch(1,2) row unfolding adminUpdateChannel_def or_refuse_Reply
    by (auto simp: Channel_Get_def query_row_Inr unless_refused_Reply or_refuse_Reply refuse_not_Reply bindE_Inr nowE_Inr
        returnE_Inr Let_def split: if_splits)
  have 1: "channels v1 = channels w" using get by (auto simp: Channel_Get_def query_row_Inr)
  obtain tok where tok: "DecodeToken E (ch_config inst) = Inr tok" "tok \<noteq> ''''"
      and run2: "EncodeConfig E tok name v1 = (Inr config, v2)"
    using enc cipher patch(3) unfolding encodeChannelConfig_def name_def
    by (auto simp: Let_def or_refuse_Reply refuse_not_Reply returnE_Inr split: sum.splits if_splits)
  note dec = EncodeConfig_decodes[OF run2 aead]
  have 2: "channels v2 = channels v1"
    using run2 by (auto simp: EncodeConfig_def bindE_Inr Cipher_Encrypt_def random_bytes_def returnE_Inr)
  have id: "ch_id c = i" using row(1) by (auto simp: c dest!: find_Some_mem)
  have "merge_channel c inst \<in> set (channels v3)"
    using ups 1 2 row(1) id by (auto simp: Channel_Upsert_def exec_def mem_set_where dest!: find_Some_mem split: if_splits option.splits)
  then have "merge_channel c inst \<in> set (channels w')" using audit_tables[OF aud] by simp
  moreover have "ch_id (merge_channel c inst) = i" "ch_config (merge_channel c inst) = config"
    using row(1) by (auto simp: merge_channel_def c dest!: find_Some_mem)
  ultimately show ?thesis using tok dec unfolding name_def
    by (intro exI[of _ tok] exI[of _ "merge_channel c inst"]) (simp add: instanceToken_def)
qed

definition rename_body :: raw_message where
  "rename_body = RawDoc (JObj [(''config'', JObj [(''bot_username'', JStr ''new'')])])"

lemma rename_body_patch:
  "channel_patch rename_body = Some (None, None, RawDoc (JObj [(''bot_username'', JStr ''new'')]))"
  "inbound_config (RawDoc (JObj [(''bot_username'', JStr ''new'')])) = Some ('''', ''new'')"
  by code_simp+

lemma username_edit_keeps_token_witness:
  "\<exists>v w' c. adminUpdateChannel sample_deps '''' ''c1'' rename_body sample_admin (empty_world\<lparr>channels := [sample_instance]\<rparr>) = (Inr (Reply v), w')
     \<and> c \<in> set (channels w') \<and> instanceToken (Some sample_keys) c = Inr ''12:ab'' \<and> DecodeUsername (ch_config c) = ''new''"
proof -
  let ?w = "empty_world\<lparr>channels := [sample_instance]\<rparr>"
  have inst: "ch_id sample_instance = ''c1''" "ch_type sample_instance = ''telegram''" by (simp_all add: sample_instance_def)
  have tok: "DecodeToken sample_keys (ch_config sample_instance) = Inr ''12:ab''"
    using sample_instance_token by (simp add: instanceToken_def split: sum.splits if_splits)
  obtain cfg d where enc: "EncodeConfig sample_keys ''12:ab'' ''new'' ?w = (Inr cfg, ?w\<lparr>draws := d\<rparr>)"
    by (simp add: EncodeConfig_def bindE_def Cipher_Encrypt_def random_bytes_def returnE_def)
  have chan: "encodeChannelConfig sample_deps ''telegram'' (RawDoc (JObj [(''bot_username'', JStr ''new'')])) (Some (ch_config sample_instance)) ?w
      = (Inr (Reply cfg), ?w\<lparr>draws := d\<rparr>)"
    using tok enc by (simp add: encodeChannelConfig_def sample_deps_def rename_body_patch or_refuse_def tryE_def returnE_def)
  have get: "Channel_Get ''c1'' ?w = (Inr sample_instance, ?w)"
    by (simp add: Channel_Get_def query_row_def exec_def empty_world_def inst)
  let ?c = "sample_instance\<lparr>ch_config := cfg, ch_updated := 0\<rparr>"
  obtain u where ups: "Channel_Upsert ?c (?w\<lparr>draws := d\<rparr>) = (Inr (), u)"
    by (simp add: Channel_Upsert_def exec_def empty_world_def inst)
  obtain m where aud: "audit sample_admin '''' ''channel.update'' ''c1'' u = (Inr (), m)"
    using audit_tables by (metis surj_pair)
  have clock: "clock empty_world = 0" by (simp add: empty_world_def)
  obtain v w' where run: "adminUpdateChannel sample_deps '''' ''c1'' rename_body sample_admin ?w = (Inr (Reply v), w')"
  proof
    show "adminUpdateChannel sample_deps '''' ''c1'' rename_body sample_admin ?w
        = (Inr (Reply (channelView ?c (channelTokenHint sample_deps ?c))), m)"
      unfolding adminUpdateChannel_def or_refuse_Reply
      by (intro exI[of _ sample_instance] exI[of _ ?w])
         (simp add: get rename_body_patch inst unless_refused_Reply chan bind_now clock Let_def or_refuse_Reply ups bindE_Inr aud returnE_Inr)
  qed
  have "find (\<lambda>r. ch_id r = ''c1'') (channels ?w) = Some sample_instance" by (simp add: inst)
  from username_edit_keeps_token[OF run rename_body_patch(1) _ rename_body_patch(2) _ _ this inst(2), of sample_keys]
  obtain t c where "instanceToken (Some sample_keys) sample_instance = Inr t" "c \<in> set (channels w')"
      "instanceToken (Some sample_keys) c = Inr t" "DecodeUsername (ch_config c) = ''new''"
    by (auto simp: sample_deps_def sample_keys_def)
  then show ?thesis using run sample_instance_token by auto
qed

end
