(* ===== verification/Http.thy ===== *)
theory Http
  imports Manage
begin

text \<open>
  The HTTP handlers (\<open>httpapi/handlers_oauth.go\<close>, \<open>handlers_activation.go\<close>,
  \<open>handlers_verifier.go\<close>, \<open>handlers_verifier_introspect.go\<close>, \<open>handlers_wallet.go\<close>,
  \<open>handlers_channels.go\<close> and the login handlers of \<open>handlers_admin.go\<close>) and the routes of
  \<open>router.go\<close>. A request holds what \<open>net/http\<close> parses: the query, the form or the first JSON
  value of the body, and the headers the handlers look at. A response is the status with the
  values that are rendered.
\<close>

section \<open>Requests and responses\<close>

record http_request =
  hr_query :: "(string \<times> string) list"
  hr_ctype :: string
  hr_json :: raw_message
  hr_form :: "(string \<times> string) list"
  hr_form_ok :: bool
  hr_cookie :: "string option"
  hr_host :: "string option"
  hr_remote :: string
  hr_forwarded :: string
  hr_key :: string

text \<open>\<open>url.Values.Get\<close>: the first value of a name.\<close>

definition value_of :: "string \<Rightarrow> (string \<times> string) list \<Rightarrow> string" where
  "value_of name vs = (case map_of vs name of None \<Rightarrow> '''' | Some v \<Rightarrow> v)"

text \<open>\<open>strings.Fields\<close>\<close>

definition fields_of :: "string \<Rightarrow> string list" where
  "fields_of s = filter (\<lambda>x. x \<noteq> []) (split_on (CHR '' '') (map (\<lambda>c. if is_space c then CHR '' '' else c) s))"

record connect_data =
  cn_client :: string
  cn_redirect :: string
  cn_state :: string
  cn_aud :: string
  cn_scope :: string
  cn_challenge :: string
  cn_device :: string

record bind_data =
  bn_type :: string
  bn_id :: string
  bn_name :: string
  bn_user :: string

text \<open>\<open>SessionBody\<close> also sets the session cookie: its value and whether it is \<open>Secure\<close>.\<close>

datatype http_response =
    ErrorBody nat string string
  | JsonBody "(string \<times> json) list"
  | SessionBody string bool "(string \<times> json) list"
  | RedirectTo string "(string \<times> string) list"
  | ConnectPage connect_data
  | BindPage bind_data
  | KeySet bytes

fun status_of :: "http_response \<Rightarrow> nat" where
  "status_of (ErrorBody n code desc) = n"
| "status_of (RedirectTo uri ps) = 302"
| "status_of r = 200"

text \<open>
  The dependencies of the handlers, with \<open>url.Parse\<close> as the question whether it succeeds,
  \<open>ap_text\<close> the text of an error, and \<open>ap_malformed\<close> the text of the error with which the
  decoding of a token request fails.
\<close>

record api =
  ap_server :: server
  ap_oauth :: bool
  ap_keys :: bool
  ap_wallet :: "duration option"
  ap_admin :: "admin_config option"
  ap_deps :: deps
  ap_trusted :: bool
  ap_secure :: bool
  ap_url :: "string \<Rightarrow> bool"
  ap_text :: "err \<Rightarrow> string"
  ap_malformed :: "http_request \<Rightarrow> string"

definition notImplemented :: "http_response io" where
  "notImplemented = returnE (ErrorBody 501 ''not_implemented'' ''endpoint not yet implemented'')"

definition internalError :: "err \<Rightarrow> http_response" where
  "internalError _ = ErrorBody 500 ''server_error'' ''internal error''"

definition badRequest :: "string \<Rightarrow> http_response" where
  "badRequest desc = ErrorBody 400 ''invalid_request'' desc"

definition or_answer :: "(err \<Rightarrow> http_response) \<Rightarrow> 'a io \<Rightarrow> ('a \<Rightarrow> http_response io) \<Rightarrow> http_response io" where
  "or_answer f m k = tryE m (\<lambda>r. case r of Inl e \<Rightarrow> returnE (f e) | Inr x \<Rightarrow> k x)"

section \<open>Error codes\<close>

fun oauthTokenErrCode :: "err \<Rightarrow> string" where
  "oauthTokenErrCode ErrInvalidGrant = ''invalid_grant''"
| "oauthTokenErrCode ErrUnsupportedGrant = ''unsupported_grant_type''"
| "oauthTokenErrCode ErrInvalidClientCreds = ''invalid_client''"
| "oauthTokenErrCode ErrInvalidClient = ''invalid_client''"
| "oauthTokenErrCode ErrNotEligible = ''not_eligible''"
| "oauthTokenErrCode _ = ''invalid_request''"

definition oauthErrDescription :: "string \<Rightarrow> string" where
  "oauthErrDescription code =
     (if code = ''invalid_grant'' then ''the authorization code or refresh token is invalid, expired, or already used''
      else if code = ''invalid_client'' then ''client authentication failed''
      else if code = ''not_eligible'' then ''the stake credential is not eligible for membership''
      else if code = ''unsupported_grant_type'' then ''unsupported grant_type''
      else if code = ''access_denied'' then ''wallet authorization failed''
      else ''invalid request'')"

fun oauthErrCode :: "err \<Rightarrow> string" where
  "oauthErrCode ErrInvalidClient = ''invalid_client''"
| "oauthErrCode ErrNotEligible = ''not_eligible''"
| "oauthErrCode ErrAccessDenied = ''access_denied''"
| "oauthErrCode _ = ''invalid_request''"

definition writeOAuthErr :: "err \<Rightarrow> http_response" where
  "writeOAuthErr e = ErrorBody (if e = ErrInvalidClient then 401 else 400) (oauthErrCode e)
     (oauthErrDescription (oauthErrCode e))"

section \<open>The issuance plane\<close>

definition connect :: "api \<Rightarrow> http_request \<Rightarrow> http_response io" where
  "connect A r = (if \<not> ap_oauth A then notImplemented
     else let q = (\<lambda>name. value_of name (hr_query r)) in
     if q ''response_type'' \<noteq> ''code''
     then returnE (ErrorBody 400 ''unsupported_response_type'' ''response_type must be code'')
     else or_answer writeOAuthErr (ValidateClient (q ''client_id'') (q ''redirect_uri'') (q ''aud'')) (\<lambda>_.
       returnE (ConnectPage \<lparr>cn_client = q ''client_id'', cn_redirect = q ''redirect_uri'', cn_state = q ''state'',
         cn_aud = q ''aud'', cn_scope = q ''scope'', cn_challenge = q ''code_challenge'', cn_device = q ''device_pubkey''\<rparr>)))"

definition live_telegram :: "channel_config \<Rightarrow> bool" where
  "live_telegram inst \<longleftrightarrow> ch_status inst = ''active'' \<and> ch_type inst = ''telegram''"

definition bindPage :: "api \<Rightarrow> http_request \<Rightarrow> http_response io" where
  "bindPage A r = (if \<not> ap_oauth A then notImplemented
     else let ct = value_of ''channel_type'' (hr_query r);
              cid = value_of ''channel_id'' (hr_query r);
              data = \<lparr>bn_type = (if ct = '''' then ''telegram'' else ct), bn_id = '''', bn_name = '''', bn_user = ''''\<rparr> in
     if cid = '''' then returnE (BindPage data)
     else tryE (Channel_Get cid) (\<lambda>q. case q of
         Inl _ \<Rightarrow> returnE (badRequest ''unknown or inactive channel instance'')
       | Inr inst \<Rightarrow>
           if \<not> live_telegram inst then returnE (badRequest ''unknown or inactive channel instance'')
           else returnE (BindPage (data\<lparr>bn_id := cid, bn_name := ch_name inst, bn_user := DecodeUsername (ch_config inst)\<rparr>))))"

text \<open>\<open>redirectWithParams\<close>: the parameters that are not empty are set in the query of the URI.\<close>

definition redirectWithParams :: "api \<Rightarrow> string \<Rightarrow> (string \<times> string) list \<Rightarrow> http_response" where
  "redirectWithParams A uri params =
     (if \<not> ap_url A uri then badRequest ''bad redirect_uri''
      else RedirectTo uri (filter (\<lambda>(k, v). v \<noteq> '''') params))"

definition decode_authorize :: "(string \<times> json) list \<Rightarrow> authorize_request option" where
  "decode_authorize kvs =
     (case (body_string ''client_id'' kvs, body_string ''redirect_uri'' kvs, body_string ''state'' kvs,
            body_string ''aud'' kvs, json_strings (json_field ''scope'' kvs)) of
        (Some cl, Some ru, Some st, Some au, Some sc) \<Rightarrow>
          (case (body_string ''nonce'' kvs, body_string ''cose_key'' kvs, body_string ''signature'' kvs,
                 body_string ''code_challenge'' kvs, body_string ''device_pubkey'' kvs) of
             (Some n, Some k, Some sg, Some ch, Some dv) \<Rightarrow>
               Some \<lparr>rq_client = cl, rq_redirect = ru, rq_state = st, rq_aud = au, rq_scope = sc, rq_nonce = n,
                 rq_cosekey = k, rq_signature = sg, rq_challenge = ch, rq_device = dv\<rparr>
           | _ \<Rightarrow> None)
      | _ \<Rightarrow> None)"

definition form_authorize :: "(string \<times> string) list \<Rightarrow> authorize_request" where
  "form_authorize vs = (let f = (\<lambda>name. value_of name vs) in
     \<lparr>rq_client = f ''client_id'', rq_redirect = f ''redirect_uri'', rq_state = f ''state'', rq_aud = f ''aud'',
      rq_scope = fields_of (f ''scope''), rq_nonce = f ''nonce'', rq_cosekey = f ''cose_key'',
      rq_signature = f ''signature'', rq_challenge = f ''code_challenge'', rq_device = f ''device_pubkey''\<rparr>)"

definition form_type :: string where "form_type = ''application/x-www-form-urlencoded''"
definition json_type :: string where "json_type = ''application/json''"

text \<open>The submission, or the description of what is wrong with its body.\<close>

definition parseAuthorize :: "http_request \<Rightarrow> string + authorize_request" where
  "parseAuthorize r =
     (if has_prefix (hr_ctype r) form_type then
        (if \<not> hr_form_ok r then Inl ''malformed form body'' else Inr (form_authorize (hr_form r)))
      else (case body_struct (hr_json r) of
          None \<Rightarrow> Inl ''malformed JSON body''
        | Some kvs \<Rightarrow> (case decode_authorize kvs of None \<Rightarrow> Inl ''malformed JSON body'' | Some req \<Rightarrow> Inr req)))"

definition connectAuthorize :: "api \<Rightarrow> http_request \<Rightarrow> http_response io" where
  "connectAuthorize A r = (if \<not> ap_oauth A then notImplemented
     else (case parseAuthorize r of
         Inl desc \<Rightarrow> returnE (badRequest desc)
       | Inr req \<Rightarrow> or_answer
           (\<lambda>e. if e = ErrNotEligible \<or> e = ErrAccessDenied
                then redirectWithParams A (rq_redirect req) [(''error'', oauthErrCode e), (''state'', rq_state req)]
                else writeOAuthErr e)
           (Authorize (ap_server A) req)
           (\<lambda>code. returnE (redirectWithParams A (rq_redirect req) [(''code'', code), (''state'', rq_state req)]))))"

section \<open>The token endpoint\<close>

definition decode_token :: "(string \<times> json) list \<Rightarrow> token_request option" where
  "decode_token kvs =
     (case (body_string ''grant_type'' kvs, body_string ''code'' kvs, body_string ''client_id'' kvs,
            body_string ''client_secret'' kvs) of
        (Some gt, Some co, Some cl, Some se) \<Rightarrow>
          (case (body_string ''code_verifier'' kvs, body_string ''redirect_uri'' kvs,
                 body_string ''refresh_token'' kvs, body_string ''device_pubkey'' kvs) of
             (Some ve, Some ru, Some rt, Some dv) \<Rightarrow>
               Some \<lparr>tq_grant = gt, tq_code = co, tq_client = cl, tq_secret = se, tq_verifier = ve,
                 tq_redirect = ru, tq_refresh = rt, tq_device = dv\<rparr>
           | _ \<Rightarrow> None)
      | _ \<Rightarrow> None)"

definition parseTokenRequest :: "http_request \<Rightarrow> token_request option" where
  "parseTokenRequest r =
     (if has_prefix (hr_ctype r) json_type then
        (case body_struct (hr_json r) of None \<Rightarrow> None | Some kvs \<Rightarrow> decode_token kvs)
      else if \<not> hr_form_ok r then None
      else let f = (\<lambda>name. value_of name (hr_form r)) in
        Some \<lparr>tq_grant = f ''grant_type'', tq_code = f ''code'', tq_client = f ''client_id'',
          tq_secret = f ''client_secret'', tq_verifier = f ''code_verifier'', tq_redirect = f ''redirect_uri'',
          tq_refresh = f ''refresh_token'', tq_device = f ''device_pubkey''\<rparr>)"

definition token_error :: "err \<Rightarrow> http_response" where
  "token_error e = (let code = oauthTokenErrCode e in
     ErrorBody (if code = ''invalid_client'' then 401 else if code = ''not_eligible'' then 403 else 400)
       code (oauthErrDescription code))"

definition token_body :: "token_response \<Rightarrow> http_response" where
  "token_body t = JsonBody
     [(''access_token'', JStr (tr_access t)), (''token_type'', JStr (tr_type t)),
      (''refresh_token'', JStr (tr_refresh t)), (''expires_at'', JStr (rfc3339 (tr_expires t))),
      (''membership'', JObj [(''status'', JStr (tr_status t)), (''tier'', JStr (tr_tier t))])]"

definition oauthToken :: "api \<Rightarrow> http_request \<Rightarrow> http_response io" where
  "oauthToken A r = (if \<not> ap_oauth A then notImplemented
     else (case parseTokenRequest r of
         None \<Rightarrow> returnE (badRequest (ap_malformed A r))
       | Some req \<Rightarrow> or_answer token_error (Token (ap_server A) req) (\<lambda>t. returnE (token_body t))))"

section \<open>The activation plane\<close>

definition activationCreate :: "api \<Rightarrow> http_request \<Rightarrow> http_response io" where
  "activationCreate A r = (if \<not> ap_oauth A then notImplemented
     else (case body_struct (hr_json r) of
         None \<Rightarrow> returnE (badRequest ''malformed JSON body'')
       | Some kvs \<Rightarrow> (case (body_string ''channel_type'' kvs, body_string ''channel_id'' kvs, body_string ''nonce'' kvs,
             body_string ''cose_key'' kvs, body_string ''signature'' kvs) of
           (Some ct, Some ci, Some n, Some k, Some sg) \<Rightarrow>
             if ci = '''' then returnE (badRequest ''channel_id is required'')
             else tryE (Channel_Get ci) (\<lambda>q. case q of
                 Inl _ \<Rightarrow> returnE (badRequest ''unknown or inactive channel instance'')
               | Inr inst \<Rightarrow>
                   if \<not> live_telegram inst then returnE (badRequest ''unknown or inactive channel instance'')
                   else if DecodeUsername (ch_config inst) = ''''
                   then returnE (badRequest ''channel instance has no bot username configured'')
                   else or_answer
                     (\<lambda>e. ErrorBody (if e = ErrNotEligible then 403 else 400) (oauthErrCode e) (ap_text A e))
                     (CreateActivation (ap_server A) ct ci n k sg (DecodeUsername (ch_config inst)))
                     (\<lambda>res. returnE (JsonBody [(''activation_code'', JStr (av_code res)),
                        (''deep_link'', JStr (av_link res)), (''expires_at'', JStr (rfc3339 (av_expires res)))])))
         | _ \<Rightarrow> returnE (badRequest ''malformed JSON body''))))"

definition publicChannel :: "channel_config \<Rightarrow> json" where
  "publicChannel inst = JObj [(''channel_id'', JStr (ch_id inst)), (''name'', JStr (ch_name inst)),
     (''channel_type'', JStr (ch_type inst)), (''bot_username'', JStr (DecodeUsername (ch_config inst)))]"

definition publicChannels :: "api \<Rightarrow> http_response io" where
  "publicChannels A = or_answer internalError (Channel_ListActive (dp_pool (ap_deps A)) ''telegram'') (\<lambda>insts.
     returnE (JsonBody [(''channels'',
       JArr (map publicChannel (filter (\<lambda>inst. DecodeUsername (ch_config inst) \<noteq> '''') insts)))]))"

section \<open>The verifier plane\<close>

definition jwks :: "api \<Rightarrow> http_response io" where
  "jwks A = (if \<not> ap_keys A then notImplemented
     else or_answer internalError Keys_PublicJWKSKeys (\<lambda>pub.
          or_answer internalError (liftE (sv_jwks (ap_server A) pub)) (\<lambda>doc. returnE (KeySet doc))))"

record token_body_fields =
  tb_token :: string
  tb_jti :: string
  tb_hint :: string

text \<open>The error of the decoder is ignored: a field that is not a string stays empty.\<close>

definition lenient_string :: "string \<Rightarrow> (string \<times> json) list \<Rightarrow> string" where
  "lenient_string name kvs = (case body_string name kvs of None \<Rightarrow> '''' | Some s \<Rightarrow> s)"

definition parseTokenBody :: "http_request \<Rightarrow> token_body_fields" where
  "parseTokenBody r =
     (if has_prefix (hr_ctype r) json_type then
        (let kvs = (case body_struct (hr_json r) of None \<Rightarrow> [] | Some kvs \<Rightarrow> kvs) in
         \<lparr>tb_token = lenient_string ''token'' kvs, tb_jti = lenient_string ''jti'' kvs,
          tb_hint = lenient_string ''token_type_hint'' kvs\<rparr>)
      else \<lparr>tb_token = value_of ''token'' (hr_form r), tb_jti = value_of ''jti'' (hr_form r),
            tb_hint = value_of ''token_type_hint'' (hr_form r)\<rparr>)"

text \<open>The fields with \<open>omitempty\<close> are left out when they are zero.\<close>

definition introspection_body :: "introspection \<Rightarrow> (string \<times> json) list" where
  "introspection_body x = [(''active'', JBool (ir_active x))]
     @ (if ir_sub x \<noteq> '''' then [(''sub'', JStr (ir_sub x))] else [])
     @ (if ir_tier x \<noteq> '''' then [(''tier'', JStr (ir_tier x))] else [])
     @ (if ir_exp x \<noteq> 0 then [(''exp'', JNum (big_string (ir_exp x)))] else [])
     @ (if ir_membership x \<noteq> '''' then [(''membership_status'', JStr (ir_membership x))] else [])"

definition introspect :: "api \<Rightarrow> http_request \<Rightarrow> http_response io" where
  "introspect A r = (if \<not> ap_oauth A then notImplemented
     else or_answer internalError (Introspect (ap_server A) (tb_token (parseTokenBody r)) '''') (\<lambda>res.
       returnE (JsonBody (introspection_body res))))"

definition revoke :: "api \<Rightarrow> http_request \<Rightarrow> http_response io" where
  "revoke A r = (if \<not> ap_oauth A then notImplemented
     else or_answer internalError (Revoke (ap_server A) (tb_token (parseTokenBody r)) (tb_hint (parseTokenBody r))) (\<lambda>_.
       returnE (JsonBody [(''revoked'', JBool True)])))"

section \<open>The wallet plane\<close>

definition memberNoncePurpose :: "string \<Rightarrow> nonce_purpose option" where
  "memberNoncePurpose p = (if p = ''issue'' then Some NonceIssue
     else if p = ''activation'' then Some NonceActivation else None)"

definition nonce_body :: "string \<times> instant \<Rightarrow> http_response" where
  "nonce_body x = JsonBody [(''nonce'', JStr (fst x)), (''expires_at'', JStr (rfc3339 (snd x)))]"

definition authChallenge :: "api \<Rightarrow> http_request \<Rightarrow> http_response io" where
  "authChallenge A r = (case ap_wallet A of
       None \<Rightarrow> notImplemented
     | Some ttl \<Rightarrow> (case body_struct (hr_json r) of
         None \<Rightarrow> returnE (badRequest ''malformed JSON body'')
       | Some kvs \<Rightarrow> (case (body_string ''purpose'' kvs, body_string ''stake_address'' kvs) of
           (Some p, Some addr) \<Rightarrow> (case memberNoncePurpose p of
               None \<Rightarrow> returnE (badRequest ''purpose must be issue or activation'')
             | Some purpose \<Rightarrow>
                 if addr = '''' then returnE (badRequest ''stake_address required'')
                 else or_answer (\<lambda>e. badRequest (ap_text A e)) (Wallet_Challenge ttl purpose addr)
                        (\<lambda>x. returnE (nonce_body x)))
         | _ \<Rightarrow> returnE (badRequest ''malformed JSON body''))))"

section \<open>The admin login\<close>

definition peer_ip :: "api \<Rightarrow> http_request \<Rightarrow> string" where
  "peer_ip A r = clientIP (ap_trusted A) (hr_forwarded r) (hr_host r) (hr_remote r)"

text \<open>The address in the body; anything else is refused.\<close>

definition owner_address :: "http_request \<Rightarrow> string option" where
  "owner_address r = (case body_struct (hr_json r) of None \<Rightarrow> None
     | Some kvs \<Rightarrow> (case body_string ''owner_stake_address'' kvs of None \<Rightarrow> None
       | Some a \<Rightarrow> if a = '''' then None else Some a))"

definition adminChallenge :: "api \<Rightarrow> http_request \<Rightarrow> http_response io" where
  "adminChallenge A r = (case ap_admin A of
       None \<Rightarrow> notImplemented
     | Some C \<Rightarrow> (case owner_address r of
         None \<Rightarrow> returnE (badRequest ''owner_stake_address required'')
       | Some a \<Rightarrow> or_answer (\<lambda>_. badRequest ''could not issue challenge'') (Admin_Challenge C a) (\<lambda>x. returnE (nonce_body x))))"

fun writeAdminErr :: "err \<Rightarrow> http_response" where
  "writeAdminErr ErrUnauthorized = ErrorBody 401 ''unauthorized'' ''signature verification failed''"
| "writeAdminErr ErrForbidden = ErrorBody 403 ''forbidden'' ''key is not an authorized admin''"
| "writeAdminErr _ = badRequest ''invalid request''"

fun role_text :: "admin_role \<Rightarrow> string" where
  "role_text RoleOwner = ''owner''"
| "role_text RoleOperator = ''operator''"
| "role_text RoleViewer = ''viewer''"

definition adminVerify :: "api \<Rightarrow> http_request \<Rightarrow> http_response io" where
  "adminVerify A r = (case ap_admin A of
       None \<Rightarrow> notImplemented
     | Some C \<Rightarrow> (case body_struct (hr_json r) of
         None \<Rightarrow> returnE (badRequest ''malformed JSON body'')
       | Some kvs \<Rightarrow> (case (body_string ''nonce'' kvs, body_string ''cose_key'' kvs, body_string ''signature'' kvs) of
           (Some n, Some k, Some sg) \<Rightarrow>
             or_answer writeAdminErr (Admin_Verify (ap_server A) C k n sg (peer_ip A r)) (\<lambda>(token, role).
               returnE (SessionBody token (ap_secure A) [(''role'', JStr (role_text role))]))
         | _ \<Rightarrow> returnE (badRequest ''malformed JSON body''))))"

text \<open>\<open>requireSession\<close> and \<open>requireRole\<close> at the level of responses.\<close>

definition with_session :: "api \<Rightarrow> http_request \<Rightarrow> (admin_user \<Rightarrow> http_response io) \<Rightarrow> http_response io" where
  "with_session A r next = (case ap_admin A of
       None \<Rightarrow> notImplemented
     | Some _ \<Rightarrow> (case hr_cookie r of
         None \<Rightarrow> returnE (ErrorBody 401 ''unauthorized'' ''admin session required'')
       | Some c \<Rightarrow> or_answer (\<lambda>_. ErrorBody 401 ''unauthorized'' ''invalid or expired session'')
           (Admin_Authenticate (ap_server A) c) next))"

definition with_role :: "admin_role \<Rightarrow> (admin_user \<Rightarrow> http_response io) \<Rightarrow> admin_user \<Rightarrow> http_response io" where
  "with_role need next u = (if AtLeast (u_role u) need then next u
     else returnE (ErrorBody 403 ''forbidden'' ''insufficient role''))"

definition adminLogout :: "api \<Rightarrow> http_request \<Rightarrow> http_response io" where
  "adminLogout A r =
     bindE (case hr_cookie r of
         None \<Rightarrow> returnE ()
       | Some c \<Rightarrow> if ap_admin A = None then returnE () else ignoreE (Admin_Logout (ap_server A) c)) (\<lambda>_.
     returnE (SessionBody '''' False [(''logged_out'', JBool True)]))"

definition adminMe :: "admin_user \<Rightarrow> http_response io" where
  "adminMe u = returnE (JsonBody [(''admin_id'', JStr (u_id u)), (''role'', JStr (role_text (u_role u)))])"

definition adminStepUpChallenge :: "api \<Rightarrow> http_request \<Rightarrow> http_response io" where
  "adminStepUpChallenge A r = (case ap_admin A of
       None \<Rightarrow> notImplemented
     | Some C \<Rightarrow> (case owner_address r of
         None \<Rightarrow> returnE (badRequest ''owner_stake_address required'')
       | Some a \<Rightarrow> or_answer (\<lambda>_. badRequest ''could not issue step-up challenge'') (Admin_ChallengeStepUp C a)
           (\<lambda>x. returnE (nonce_body x))))"

section \<open>Routes\<close>

text \<open>The routes of \<open>NewRouter\<close> besides static assets and the resources of the admin plane.\<close>

datatype endpoint =
    Healthz | WalletChallenge | Connect | ConnectAuthorize | OauthToken | Bind | PublicChannels
  | ActivationCreate | JWKS | IntrospectToken | RevokeToken
  | AdminChallenge | AdminVerify | AdminLogout | AdminStepUpChallenge | AdminMe

fun endpoint_route :: "endpoint \<Rightarrow> string \<times> string" where
  "endpoint_route Healthz = (''GET'', ''/healthz'')"
| "endpoint_route WalletChallenge = (''POST'', ''/api/auth/challenge'')"
| "endpoint_route Connect = (''GET'', ''/connect'')"
| "endpoint_route ConnectAuthorize = (''POST'', ''/api/connect/authorize'')"
| "endpoint_route OauthToken = (''POST'', ''/api/oauth/token'')"
| "endpoint_route Bind = (''GET'', ''/bind'')"
| "endpoint_route PublicChannels = (''GET'', ''/api/channels'')"
| "endpoint_route ActivationCreate = (''POST'', ''/api/activation/create'')"
| "endpoint_route JWKS = (''GET'', ''/.well-known/ouropass/jwks.json'')"
| "endpoint_route IntrospectToken = (''POST'', ''/api/oauth/introspect'')"
| "endpoint_route RevokeToken = (''POST'', ''/api/oauth/revoke'')"
| "endpoint_route AdminChallenge = (''POST'', ''/api/admin/auth/challenge'')"
| "endpoint_route AdminVerify = (''POST'', ''/api/admin/auth/verify'')"
| "endpoint_route AdminLogout = (''POST'', ''/api/admin/auth/logout'')"
| "endpoint_route AdminStepUpChallenge = (''POST'', ''/api/admin/auth/step-up/challenge'')"
| "endpoint_route AdminMe = (''GET'', ''/api/admin/me'')"

fun serve_endpoint :: "api \<Rightarrow> endpoint \<Rightarrow> http_request \<Rightarrow> http_response io" where
  "serve_endpoint A Healthz r = returnE (JsonBody [(''status'', JStr ''ok'')])"
| "serve_endpoint A WalletChallenge r = authChallenge A r"
| "serve_endpoint A Connect r = connect A r"
| "serve_endpoint A ConnectAuthorize r = connectAuthorize A r"
| "serve_endpoint A OauthToken r = oauthToken A r"
| "serve_endpoint A Bind r = bindPage A r"
| "serve_endpoint A PublicChannels r = publicChannels A"
| "serve_endpoint A ActivationCreate r = activationCreate A r"
| "serve_endpoint A JWKS r = jwks A"
| "serve_endpoint A IntrospectToken r = introspect A r"
| "serve_endpoint A RevokeToken r = revoke A r"
| "serve_endpoint A AdminChallenge r = adminChallenge A r"
| "serve_endpoint A AdminVerify r = adminVerify A r"
| "serve_endpoint A AdminLogout r = with_session A r (\<lambda>_. adminLogout A r)"
| "serve_endpoint A AdminStepUpChallenge r = with_session A r (\<lambda>_. adminStepUpChallenge A r)"
| "serve_endpoint A AdminMe r = with_session A r (with_role RoleViewer adminMe)"

section \<open>Lemmas\<close>

lemma or_answer_Inr: "or_answer f m k w = (Inr x, w') \<longleftrightarrow>
    (\<exists>e. m w = (Inl e, w') \<and> x = f e) \<or> (\<exists>y v. m w = (Inr y, v) \<and> k y v = (Inr x, w'))"
  by (auto simp: or_answer_def tryE_def returnE_def split: prod.splits sum.splits)

lemma or_answer_moves: "io_rel R \<Longrightarrow> moves R m \<Longrightarrow> (\<And>x. moves R (k x)) \<Longrightarrow> moves R (or_answer f m k)"
  unfolding or_answer_def by (auto split: sum.splits intro!: io_rel.try_ io_rel.pure_steps)

lemma ValidateClient_Inl:
  "ValidateClient cid redirect aud w = (Inl e, w') \<Longrightarrow> e = ErrInvalidClient \<or> e = ErrInvalidRequest \<or> e = ErrDB"
  by (auto simp: ValidateClient_def tryE_def OAuthClient_Get_def query_row_def exec_def failE_def returnE_def
      split: if_splits option.splits)

lemma Authorize_client:
  "Authorize S req w = (r, w') \<Longrightarrow> r = Inl ErrNotEligible \<or> r = Inl ErrAccessDenied \<or> (\<exists>c. r = Inr c) \<Longrightarrow>
     \<exists>c v. ValidateClient (rq_client req) (rq_redirect req) (rq_aud req) w = (Inr c, v)"
proof (cases "ValidateClient (rq_client req) (rq_redirect req) (rq_aud req) w")
  case (Pair q v)
  assume run: "Authorize S req w = (r, w')" and r: "r = Inl ErrNotEligible \<or> r = Inl ErrAccessDenied \<or> (\<exists>c. r = Inr c)"
  show ?thesis
  proof (cases q)
    case (Inl e)
    then have "r = Inl e" using run Pair by (simp add: Authorize_def bindE_def)
    then show ?thesis using r ValidateClient_Inl[of _ _ _ w e v] Pair Inl by auto
  qed (use Pair in blast)
qed

section \<open>Guarantees\<close>

text \<open>C2: The authorization endpoint is no open redirector: the browser is only ever sent to a URI
  that the client named in the submission has registered and while that client is active, and
  it carries a code only if one was stored for that client, redirect URI and audience.\<close>

theorem redirects_only_to_registered:
  assumes api: "ap_server A = wired S http key"
    and run: "connectAuthorize A r w = (Inr (RedirectTo uri ps), w')"
  shows "\<exists>req c. parseAuthorize r = Inr req \<and> rq_redirect req = uri
    \<and> c \<in> set (clients w) \<and> cl_id c = rq_client req \<and> cl_status c = ''active'' \<and> uri \<in> set (cl_redirects c)
    \<and> (\<forall>code. (''code'', code) \<in> set ps \<longrightarrow> (\<exists>row. codes w' = codes w @ [row] \<and> c_code row = HashToken (ap_server A) code
         \<and> c_client row = cl_id c \<and> c_redirect row = uri \<and> c_aud row = rq_aud req))"
proof -
  obtain req where req: "parseAuthorize r = Inr req" using run
    by (cases "parseAuthorize r") (auto simp: connectAuthorize_def notImplemented_def badRequest_def returnE_def split: if_splits)
  let ?f = "\<lambda>e. if e = ErrNotEligible \<or> e = ErrAccessDenied
      then redirectWithParams A (rq_redirect req) [(''error'', oauthErrCode e), (''state'', rq_state req)] else writeOAuthErr e"
  have body: "or_answer ?f (Authorize (ap_server A) req)
      (\<lambda>code. returnE (redirectWithParams A (rq_redirect req) [(''code'', code), (''state'', rq_state req)])) w = (Inr (RedirectTo uri ps), w')"
    using run req by (auto simp: connectAuthorize_def notImplemented_def returnE_def split: if_splits)
  obtain q v where auth: "Authorize (ap_server A) req w = (q, v)" by force
  have red: "RedirectTo uri ps = redirectWithParams A u qs \<Longrightarrow> uri = u \<and> ps = filter (\<lambda>(k, v). v \<noteq> '''') qs" for u qs
    by (auto simp: redirectWithParams_def badRequest_def split: if_splits)
  have q: "(q = Inl ErrNotEligible \<or> q = Inl ErrAccessDenied \<or> (\<exists>c. q = Inr c)) \<and> rq_redirect req = uri
      \<and> (\<forall>code. (''code'', code) \<in> set ps \<longrightarrow> q = Inr code \<and> w' = v)"
    using body auth red by (cases q) (fastforce simp: or_answer_Inr returnE_Inr writeOAuthErr_def split: if_splits)+
  then obtain c u where val: "ValidateClient (rq_client req) uri (rq_aud req) w = (Inr c, u)"
    using Authorize_client[OF auth] by auto
  have c: "find (\<lambda>c. cl_id c = rq_client req) (clients w) = Some c" "cl_status c = ''active''" "uri \<in> set (cl_redirects c)"
    using ValidateClient_Inr[OF val] by simp_all
  have "\<exists>row. codes w' = codes w @ [row] \<and> c_code row = HashToken (ap_server A) code
         \<and> c_client row = cl_id c \<and> c_redirect row = uri \<and> c_aud row = rq_aud req" if "(''code'', code) \<in> set ps" for code
  proof -
    have "Authorize (wired S http key) req w = (Inr code, w')" using q that auth api by auto
    then obtain sch where "codes w' = codes w @ [\<lparr>c_code = HashToken S code, c_client = rq_client req, c_sch = sch,
         c_aud = rq_aud req, c_scope = rq_scope req, c_redirect = rq_redirect req,
         c_challenge = Some (rq_challenge req), c_expires = clock w + sv_codeTTL S, c_consumed = None, c_created = clock w\<rparr>]"
      using Authorize_sound by blast
    then show ?thesis using find_Some_mem[OF c(1)] q api by simp
  qed
  then show ?thesis using req q find_Some_mem[OF c(1)] c by blast
qed

text \<open>A sample deployment of the handlers.\<close>

definition sample_api :: api where
  "sample_api = \<lparr>ap_server = member_server, ap_oauth = True, ap_keys = True, ap_wallet = Some (300 * second),
     ap_admin = Some (sample_config []), ap_deps = sample_deps, ap_trusted = False, ap_secure = True,
     ap_url = (\<lambda>_. True), ap_text = (\<lambda>_. ''driver detail''), ap_malformed = (\<lambda>_. ''malformed'')\<rparr>"

definition blank_request :: http_request where
  "blank_request = \<lparr>hr_query = [], hr_ctype = '''', hr_json = RawEmpty, hr_form = [], hr_form_ok = True,
     hr_cookie = None, hr_host = Some ''10.0.0.1'', hr_remote = ''10.0.0.1:5'', hr_forwarded = '''', hr_key = ''''\<rparr>"

definition sample_submission :: http_request where
  "sample_submission = blank_request\<lparr>hr_ctype := form_type, hr_form :=
     [(''client_id'', ''app''), (''redirect_uri'', ''https://rp''), (''state'', ''s''), (''aud'', ''rp''), (''nonce'', ''n''),
      (''cose_key'', ''00''), (''code_challenge'', b64url (bytes_of ''v''))]\<rparr>"

lemma sample_submission_parsed: "parseAuthorize sample_submission = Inr sample_request"
  by (simp add: parseAuthorize_def sample_submission_def blank_request_def form_type_def has_prefix_def form_authorize_def
      value_of_def fields_of_def sample_request_def)

lemma redirects_only_to_registered_witness:
  "\<exists>ps w' c. connectAuthorize sample_api sample_submission login_member = (Inr (RedirectTo ''https://rp'' ps), w')
     \<and> c \<in> set (clients login_member) \<and> ''https://rp'' \<in> set (cl_redirects c)"
proof -
  obtain code w' where auth: "Authorize member_server sample_request login_member = (Inr code, w')"
    using sample_authorize by blast
  have "rq_redirect sample_request = ''https://rp''" by (simp add: sample_request_def)
  then obtain ps where run: "connectAuthorize sample_api sample_submission login_member = (Inr (RedirectTo ''https://rp'' ps), w')"
    using auth by (simp add: connectAuthorize_def sample_api_def sample_submission_parsed or_answer_def tryE_def returnE_def
        redirectWithParams_def)
  have "ap_server sample_api = wired sample_server no_http ''''" by (simp add: sample_api_def member_server_def)
  from redirects_only_to_registered[OF this run] show ?thesis using run by blast
qed

text \<open>C3: The introspection endpoint is no oracle for token ids: it reports a token as active only when
  the body carries the token itself, which verifies under the published keys and whose row is
  active and not expired; without a token the answer is inactive whatever id the body names,
  and asking never changes the ledger.\<close>

theorem introspection_needs_the_token:
  assumes run: "introspect A r w = (Inr (JsonBody b), w')"
  shows "(tb_token (parseTokenBody r) = '''' \<longrightarrow> b = [(''active'', JBool False)] \<and> w' = w)
    \<and> ((''active'', JBool True) \<in> set b \<longrightarrow> (\<exists>t jwks x. t \<in> set (tokens w) \<and> t_status t = TokenActive \<and> clock w < t_expires t
         \<and> sv_jwks (ap_server A) (published_keys w) = Inr jwks
         \<and> sv_verify (ap_server A) (clock w) (tb_token (parseTokenBody r)) jwks = Some x \<and> vt_jti x = t_jti t))
    \<and> same_ledger w w'"
proof -
  obtain x where x: "Introspect (ap_server A) (tb_token (parseTokenBody r)) '''' w = (Inr x, w')" "b = introspection_body x"
    using run by (auto simp: introspect_def or_answer_Inr notImplemented_def returnE_Inr internalError_def split: if_splits)
  have none: "b = [(''active'', JBool False)] \<and> w' = w" if "tb_token (parseTokenBody r) = ''''"
    using x that by (auto simp: Introspect_def introspect_ledger_def returnE_def inactive_def introspection_body_def)
  have led: "same_ledger w w'" using movesD[of same_ledger _ w] ledger_Introspect x(1) by blast
  have "\<exists>t jwks x. t \<in> set (tokens w) \<and> t_status t = TokenActive \<and> clock w < t_expires t
         \<and> sv_jwks (ap_server A) (published_keys w) = Inr jwks
         \<and> sv_verify (ap_server A) (clock w) (tb_token (parseTokenBody r)) jwks = Some x \<and> vt_jti x = t_jti t"
    if act: "(''active'', JBool True) \<in> set b"
  proof -
    have "ir_active x" using act x(2) by (auto simp: introspection_body_def split: if_splits)
    moreover have "tb_token (parseTokenBody r) \<noteq> ''''" using none act by auto
    ultimately show ?thesis using Introspect_active[OF x(1)] by blast
  qed
  then show ?thesis using none led by blast
qed

definition verifying_api :: api where
  "verifying_api = sample_api\<lparr>ap_server := sample_server\<lparr>
     sv_jwks := (\<lambda>pub. Inr (map (\<lambda>k. word_of_nat (length (pk_kid k))) pub)),
     sv_verify := (\<lambda>now token doc. if token = ''a.b.c'' \<and> doc = [2]
       then Some \<lparr>vt_jti = ''j'', vt_sub = ''s'', vt_tier = None\<rparr> else None)\<rparr>\<rparr>"

lemma introspection_needs_the_token_witness:
  "let r = (\<lambda>name v. blank_request\<lparr>hr_ctype := json_type, hr_json := RawDoc (JObj [(name, JStr v)])\<rparr>);
       w = empty_world\<lparr>tokens := [sample_token], ikeys := [sample_key ''k1'' KeyActive, sample_key ''old'' KeyRetired]\<rparr>
   in (\<exists>b w'. introspect verifying_api (r ''token'' ''a.b.c'') w = (Inr (JsonBody b), w') \<and> (''active'', JBool True) \<in> set b
         \<and> (\<exists>doc x. sv_jwks (ap_server verifying_api) (published_keys w) = Inr doc
              \<and> sv_verify (ap_server verifying_api) (clock w) ''a.b.c'' doc = Some x))
    \<and> introspect verifying_api (r ''jti'' ''j'') w = (Inr (JsonBody [(''active'', JBool False)]), w)"
proof -
  let ?r = "\<lambda>name v. blank_request\<lparr>hr_ctype := json_type, hr_json := RawDoc (JObj [(name, JStr v)])\<rparr>"
  let ?w = "empty_world\<lparr>tokens := [sample_token], ikeys := [sample_key ''k1'' KeyActive, sample_key ''old'' KeyRetired]\<rparr>"
  have tok: "tb_token (parseTokenBody (?r ''jti'' ''j'')) = ''''" "tb_token (parseTokenBody (?r ''token'' ''a.b.c'')) = ''a.b.c''"
    by (simp_all add: parseTokenBody_def has_prefix_def lenient_string_def body_string_def json_string_def json_field_def
        body_struct_def json_struct_def to_lower_def char_lower_def)
  have w: "faults ?w = []" "tokens ?w = [sample_token]" "clock ?w = 0"
      "ikeys ?w = [sample_key ''k1'' KeyActive, sample_key ''old'' KeyRetired]" by (simp_all add: empty_world_def)
  obtain b w' where run: "introspect verifying_api (?r ''token'' ''a.b.c'') ?w = (Inr (JsonBody b), w')"
      "(''active'', JBool True) \<in> set b"
    using w by (simp add: introspect_def verifying_api_def sample_api_def or_answer_def Introspect_def tok currentJWKS_def
        Keys_PublicJWKSKeys_def IssuerKey_ListByStatus_def keys_with_def order_by_def sample_key_def publish_def
        bindE_def nowE_def getE_def liftE_def introspect_ledger_def returnE_def tryE_def IssuedToken_Get_def sample_token_def
        introspection_body_def)
  obtain b' w2 where run': "introspect verifying_api (?r ''jti'' ''j'') ?w = (Inr (JsonBody b'), w2)"
    by (simp add: introspect_def verifying_api_def sample_api_def or_answer_def Introspect_def tok introspect_ledger_def
        returnE_def tryE_def)
  have "introspect verifying_api (?r ''jti'' ''j'') ?w = (Inr (JsonBody [(''active'', JBool False)]), ?w)"
    using introspection_needs_the_token[OF run'] run' tok(1) by simp
  moreover have "\<exists>doc x. sv_jwks (ap_server verifying_api) (published_keys ?w) = Inr doc
      \<and> sv_verify (ap_server verifying_api) (clock ?w) ''a.b.c'' doc = Some x"
    using introspection_needs_the_token[OF run(1), unfolded tok(2)] run(2) by blast
  ultimately show ?thesis unfolding Let_def using run by blast
qed

text \<open>Everything an endpoint says about a failure, besides the three that reflect a text.\<close>

definition public_errors :: "(nat \<times> string \<times> string) list" where
  "public_errors =
     [(501, ''not_implemented'', ''endpoint not yet implemented''), (500, ''server_error'', ''internal error''),
      (400, ''unsupported_response_type'', ''response_type must be code''),
      (401, ''invalid_client'', ''client authentication failed''),
      (400, ''not_eligible'', ''the stake credential is not eligible for membership''),
      (403, ''not_eligible'', ''the stake credential is not eligible for membership''),
      (400, ''access_denied'', ''wallet authorization failed''),
      (400, ''invalid_grant'', ''the authorization code or refresh token is invalid, expired, or already used''),
      (400, ''unsupported_grant_type'', ''unsupported grant_type''),
      (401, ''unauthorized'', ''signature verification failed''), (401, ''unauthorized'', ''admin session required''),
      (401, ''unauthorized'', ''invalid or expired session''),
      (403, ''forbidden'', ''key is not an authorized admin''), (403, ''forbidden'', ''insufficient role'')]
     @ map (\<lambda>desc. (400, ''invalid_request'', desc))
     [''invalid request'', ''unknown or inactive channel instance'', ''bad redirect_uri'', ''malformed form body'',
      ''malformed JSON body'', ''owner_stake_address required'', ''could not issue challenge'',
      ''could not issue step-up challenge'']"

fun discreet :: "http_response \<Rightarrow> bool" where
  "discreet (ErrorBody n code desc) \<longleftrightarrow> (n, code, desc) \<in> set public_errors"
| "discreet (RedirectTo uri ps) \<longleftrightarrow> (\<forall>x. (''error'', x) \<in> set ps \<longrightarrow> x \<in> {''not_eligible'', ''access_denied''})"
| "discreet r \<longleftrightarrow> True"

definition answers :: "(http_response \<Rightarrow> bool) \<Rightarrow> http_response io \<Rightarrow> bool" where
  "answers P m \<longleftrightarrow> (\<forall>w x w'. m w = (Inr x, w') \<longrightarrow> P x)"

lemma answers_rules:
  "P x \<Longrightarrow> answers P (returnE x)"
  "(\<And>e. P (f e)) \<Longrightarrow> (\<And>y. answers P (k y)) \<Longrightarrow> answers P (or_answer f m k)"
  "(\<And>q. answers P (c q)) \<Longrightarrow> answers P (tryE m' c)"
  "(\<And>u. answers P (d u)) \<Longrightarrow> answers P (bindE m'' d)"
  unfolding answers_def or_answer_Inr bindE_Inr returnE_Inr tryE_run by (blast, blast, blast, blast)

lemma discreet_OAuthErr: "discreet (writeOAuthErr e)"
proof -
  have "(if e = ErrInvalidClient then 401 else 400 :: nat, oauthErrCode e)
      \<in> {(401, ''invalid_client''), (400, ''not_eligible''), (400, ''access_denied''), (400, ''invalid_request'')}"
    by (cases e) simp_all
  then show ?thesis unfolding writeOAuthErr_def by (auto simp: oauthErrDescription_def public_errors_def split: if_splits)
qed

lemma discreet_token_error: "discreet (token_error e)"
proof -
  have "oauthTokenErrCode e \<in> {''invalid_grant'', ''unsupported_grant_type'', ''invalid_client'', ''not_eligible'', ''invalid_request''}"
    by (cases e) simp_all
  then show ?thesis unfolding token_error_def Let_def by (auto simp: oauthErrDescription_def public_errors_def)
qed

lemma discreet_admin_error: "discreet (writeAdminErr e)"
proof -
  have "writeAdminErr e \<in> {ErrorBody 401 ''unauthorized'' ''signature verification failed'',
      ErrorBody 403 ''forbidden'' ''key is not an authorized admin'', badRequest ''invalid request''}"
    by (cases e) simp_all
  then show ?thesis by (auto simp: badRequest_def public_errors_def)
qed

lemma discreet_fixed: "answers discreet notImplemented" "discreet (internalError e)"
  by (simp_all add: notImplemented_def internalError_def answers_rules(1) public_errors_def)

lemmas discreet_errors = discreet_fixed discreet_OAuthErr discreet_token_error discreet_admin_error

lemma discreet_bad_request:
  "desc \<in> {''invalid request'', ''unknown or inactive channel instance'', ''bad redirect_uri'', ''malformed form body'',
      ''malformed JSON body'', ''owner_stake_address required'', ''could not issue challenge'',
      ''could not issue step-up challenge''} \<Longrightarrow> discreet (badRequest desc)"
  by (auto simp: badRequest_def public_errors_def)

lemma discreet_redirect:
  "discreet (redirectWithParams A uri [(''code'', c), (''state'', st)])"
  "c \<in> {''not_eligible'', ''access_denied''} \<Longrightarrow> discreet (redirectWithParams A uri [(''error'', c), (''state'', st)])"
  by (auto simp: redirectWithParams_def discreet_bad_request)

lemma parseAuthorize_text: "parseAuthorize r = Inl desc \<Longrightarrow> desc \<in> {''malformed form body'', ''malformed JSON body''}"
  by (auto simp: parseAuthorize_def split: if_splits option.splits)

lemmas discreet_intro = answers_rules discreet_errors discreet_bad_request discreet_redirect

lemma discreet_session: "(\<And>u. answers discreet (next u)) \<Longrightarrow> answers discreet (with_session A r next)"
  unfolding with_session_def
  by (auto split: option.splits intro!: discreet_intro simp: public_errors_def)

lemma discreet_issuance:
  "answers discreet (connect A r)" "answers discreet (connectAuthorize A r)" "answers discreet (bindPage A r)"
proof -
  show "answers discreet (connect A r)"
    unfolding connect_def Let_def by (auto intro!: discreet_intro simp: public_errors_def)
  have "discreet (badRequest desc)" if "parseAuthorize r = Inl desc" for desc
    using parseAuthorize_text[OF that] by (intro discreet_bad_request) auto
  then show "answers discreet (connectAuthorize A r)"
    unfolding connectAuthorize_def by (auto split: sum.splits intro!: answers_rules discreet_errors discreet_redirect)
  have "discreet (badRequest ''unknown or inactive channel instance'')" by (rule discreet_bad_request) simp
  then show "answers discreet (bindPage A r)"
    unfolding bindPage_def Let_def by (auto split: sum.splits intro!: answers_rules discreet_errors)
qed

lemma discreet_token: "parseTokenRequest r \<noteq> None \<Longrightarrow> answers discreet (oauthToken A r)"
  unfolding oauthToken_def by (auto split: option.splits intro!: discreet_intro simp: token_body_def)

lemma discreet_verifier:
  "answers discreet (publicChannels A)" "answers discreet (jwks A)" "answers discreet (introspect A r)" "answers discreet (revoke A r)"
  unfolding publicChannels_def jwks_def introspect_def revoke_def by (auto intro!: discreet_intro)

lemma discreet_admin:
  "answers discreet (adminChallenge A r)" "answers discreet (adminVerify A r)" "answers discreet (adminLogout A r)"
  "answers discreet (adminStepUpChallenge A r)" "answers discreet (with_role RoleViewer adminMe u)"
  unfolding adminChallenge_def adminVerify_def adminLogout_def adminStepUpChallenge_def with_role_def adminMe_def
  by (auto split: option.splits intro!: discreet_intro simp: nonce_body_def public_errors_def)



text \<open>But the activation endpoint answers with the text of whatever error it met.\<close>

theorem activation_reflects_errors:
  assumes "ap_oauth A" and body: "body_struct (hr_json r) = Some kvs"
    and fields: "body_string ''channel_type'' kvs = Some ct" "body_string ''channel_id'' kvs = Some ci" "ci \<noteq> ''''"
      "body_string ''nonce'' kvs = Some n" "body_string ''cose_key'' kvs = Some k" "body_string ''signature'' kvs = Some sg"
    and inst: "Channel_Get ci w = (Inr inst, v)" "live_telegram inst" "DecodeUsername (ch_config inst) \<noteq> ''''"
    and fails: "CreateActivation (ap_server A) ct ci n k sg (DecodeUsername (ch_config inst)) v = (Inl ErrDB, w')"
  shows "activationCreate A r w = (Inr (ErrorBody 400 ''invalid_request'' (ap_text A ErrDB)), w')"
  using assms by (simp add: activationCreate_def tryE_def or_answer_def returnE_def)

text \<open>A nonce from the public challenge endpoint is worth nothing on the admin plane: as long as the
  nonces stay as they are, no login and no step-up succeeds with it, and a wallet check that
  does was for a member purpose and identified the holder of the address in the request.\<close>

theorem public_challenge_is_for_members:
  assumes run: "authChallenge A r w = (Inr (JsonBody ((''nonce'', JStr n) # b)), w')"
    and kept: "nonces v = nonces w'"
  shows "(\<exists>u. Admin_Verify S C k n sig ip v = (Inl ErrUnauthorized, u))
    \<and> (\<exists>u. Admin_VerifyStepUp S k n sig expected v = (Inl ErrUnauthorized, u))
    \<and> (\<forall>p h u. Wallet_Verify E p k n sig v = (Inr h, u) \<longrightarrow> p \<in> {NonceIssue, NonceActivation}
         \<and> (\<exists>kvs addr. body_struct (hr_json r) = Some kvs \<and> body_string ''stake_address'' kvs = Some addr
              \<and> StakeHashFromRewardAddress addr = Inr h))"
proof -
  obtain ttl kvs p addr purpose e where req: "body_struct (hr_json r) = Some kvs" "body_string ''stake_address'' kvs = Some addr"
      "memberNoncePurpose p = Some purpose" "Wallet_Challenge ttl purpose addr w = (Inr (n, e), w')"
    using run by (auto simp: authChallenge_def notImplemented_def returnE_Inr badRequest_def or_answer_Inr nonce_body_def
        split: option.splits if_splits)
  obtain h ns x where h: "StakeHashFromRewardAddress addr = Inr h"
    and row: "nonces w' = ns @ [x]" "n_nonce x = n" "n_purpose x = purpose" "n_bound x = Some h" "n \<notin> n_nonce ` set ns"
    using req(4) by (auto simp: Wallet_Challenge_def bindE_Inr nowE_Inr returnE_Inr AuthNonce_Create_def insert_row_Inr
        failE_Inr split: sum.splits)
  have "find (\<lambda>n. n_nonce n = n_nonce x) ns = None" using row(2,5) unfolding find_None_all by (metis imageI)
  then have found: "find (\<lambda>m. n_nonce m = n) (nonces v) = Some x"
    using kept row(1,2) by (simp add: find_append)
  have purpose: "purpose \<in> {NonceIssue, NonceActivation}" using req(3) by (auto simp: memberNoncePurpose_def split: if_splits)
  have wallet: "p \<in> {NonceIssue, NonceActivation} \<and> h' = h" if V: "Wallet_Verify E p k n sig v = (Inr h', u)" for E p h' u
  proof -
    obtain y where "AuthNonce_Consume n p (clock v) v = (Inr y, u)" "n_bound y = Some h'"
      using Wallet_Verify_Inr[OF V] by blast
    then show ?thesis using AuthNonce_Consume_Inr[of n p "clock v" v y u] found row(3,4) purpose by (auto simp: nonce_check_Inr)
  qed
  have refused: "\<exists>u. masked ErrUnauthorized (Wallet_Verify E p k n sig) v = (Inl ErrUnauthorized, u)"
    if "p \<notin> {NonceIssue, NonceActivation}" for E p
    using wallet[of E p] that
    by (cases "Wallet_Verify E p k n sig v"; cases "fst (Wallet_Verify E p k n sig v)") (auto simp: masked_def tryE_def failE_def)
  have "\<exists>u. Admin_Verify S C k n sig ip v = (Inl ErrUnauthorized, u)"
    using refused[of NonceAdminLogin "sv_cose S"] by (auto simp: Admin_Verify_def bindE_def)
  moreover have "\<exists>u. Admin_VerifyStepUp S k n sig expected v = (Inl ErrUnauthorized, u)"
    using refused[of NonceStepUp "sv_cose S"] by (auto simp: Admin_VerifyStepUp_def bindE_def)
  ultimately show ?thesis using wallet req(1,2) h by blast
qed

lemma public_challenge_is_for_members_witness:
  "\<exists>n b w' u r. authChallenge sample_api r empty_world = (Inr (JsonBody ((''nonce'', JStr n) # b)), w')
     \<and> Admin_Verify sample_server (sample_config []) ''00'' n '''' '''' w' = (Inl ErrUnauthorized, u)"
proof -
  obtain addr where addr: "StakeHashFromRewardAddress addr = Inr (hex_encode (replicate 28 7))"
    using stake_roundtrip[of "hex_encode (replicate 28 7)" "replicate 28 7" "''mainnet''"] by auto
  then have ne: "addr \<noteq> ''''" by (auto simp: StakeHashFromRewardAddress_def trim_space_def trim_left_def)
  let ?r = "blank_request\<lparr>hr_json := RawDoc (JObj [(''purpose'', JStr ''issue''), (''stake_address'', JStr addr)])\<rparr>"
  obtain n b w' where run: "authChallenge sample_api ?r empty_world = (Inr (JsonBody ((''nonce'', JStr n) # b)), w')"
    using addr ne by (simp add: authChallenge_def sample_api_def body_struct_def json_struct_def body_string_def json_string_def
        json_field_def to_lower_def char_lower_def memberNoncePurpose_def or_answer_def tryE_def Wallet_Challenge_def bindE_def
        io_run RandomToken_def random_bytes_def AuthNonce_Create_def insert_row_def exec_def empty_world_def faulty_def
        skip_def nonce_body_def)
  from public_challenge_is_for_members[OF run refl, where C = "sample_config []" and S = sample_server and k = "''00''" and sig = "''''" and ip = "''''"]
  show ?thesis using run by blast
qed

section \<open>From the binding page to the bot\<close>

lemma b64url_chars: "c \<in> set (b64url bs) \<Longrightarrow> \<not> is_space c"
proof -
  have alpha: "\<forall>c \<in> set b64url_alphabet. \<not> is_space c" and len: "length b64url_alphabet = 64" by code_simp+
  have "\<not> is_space (b64url_char i)" for i
    using alpha len by (simp add: b64url_char_def)
  then show "c \<in> set (b64url bs) \<Longrightarrow> \<not> is_space c"
    by (induction bs rule: b64url.induct) auto
qed

lemma RandomToken_text: "RandomToken 16 w = (Inr c, w') \<Longrightarrow> c \<noteq> '''' \<and> (\<forall>x \<in> set c. \<not> is_space x)"
proof -
  assume run: "RandomToken 16 w = (Inr c, w')"
  let ?bs = "map (entropy w) [draws w ..< draws w + 16]"
  have c: "c = b64url ?bs" using run by (simp add: RandomToken_Inr)
  have "length ?bs = 16" by simp
  moreover have "b64url bs \<noteq> ''''" if "bs \<noteq> []" for bs using that by (cases bs rule: b64url.cases) auto
  ultimately show ?thesis unfolding c using b64url_chars by (metis length_0_conv zero_neq_numeral)
qed

lemma parse_start:
  assumes "code \<noteq> ''''" "\<forall>x \<in> set code. \<not> is_space x"
  shows "parseCommand (''/start '' @ code) = (''/start'', code)"
proof -
  have "trim_space (''/start '' @ code) = ''/start '' @ code"
    using assms by (intro trim_space_id) (auto simp: is_space_def)
  moreover have "trim_space code = code" using assms by (intro trim_space_id) auto
  ultimately show ?thesis by (simp add: parseCommand_def split2_def to_lower_def char_lower_def)
qed

lemma CreateActivation_Inr:
  assumes "CreateActivation S ct ci n k sg user w = (Inr res, w')"
  shows "\<exists>sch acts. activations w' = acts @ [\<lparr>a_code = HashToken S (av_code res), a_sch = sch, a_channel = ci,
        a_ctype = (if ct = '''' then ''telegram'' else ct), a_status = ActivationActive,
        a_expires = clock w' + activationTTL, a_consumed = None, a_created = clock w'\<rparr>]
    \<and> HashToken S (av_code res) \<notin> a_code ` set acts
    \<and> av_code res \<noteq> '''' \<and> (\<forall>x \<in> set (av_code res). \<not> is_space x)
    \<and> av_link res = (if (ct = '''' \<or> ct = ''telegram'') \<and> user \<noteq> '''' then ''https://t.me/'' @ user @ ''?start='' @ av_code res else '''')"
  using assms RandomToken_text
  by (auto simp: CreateActivation_def Let_def bindE_Inr nowE_Inr returnE_Inr failE_Inr ActivationCode_Create_def insert_row_Inr
      split: if_splits)

text \<open>The holder of a credential is a member of some tier, whatever became of the activation codes,
  and the next random id is not that of a session.\<close>

definition still_member :: "server \<Rightarrow> string \<Rightarrow> string \<Rightarrow> world \<Rightarrow> bool" where
  "still_member S sch tier v \<longleftrightarrow> (\<forall>acts. \<exists>st u. Attest S sch (v\<lparr>activations := acts\<rparr>) = (Inr (st, tier), u)
     \<and> st \<noteq> StateNone \<and> faults u = [] \<and> (\<forall>i. fst (RandomID u) = Inr i \<longrightarrow> i \<notin> s_id ` set (subs u)))"

lemma upserted_row:
  "\<exists>z \<in> set (if \<exists>y \<in> set rows. same_instance_user x y then set_where (same_instance_user x) (merge_sub x) rows else rows @ [x]).
     s_user z = s_user x \<and> s_sch z = s_sch x \<and> s_status z = s_status x \<and> s_tier z = s_tier x \<and> s_channel z = s_channel x"
proof (cases "\<exists>y \<in> set rows. same_instance_user x y")
  case True
  then obtain y where y: "y \<in> set rows" "same_instance_user x y" by blast
  then have "merge_sub x y \<in> set (set_where (same_instance_user x) (merge_sub x) rows)"
    by (auto simp: mem_set_where)
  then show ?thesis using y by (intro bexI[of _ "merge_sub x y"]) (auto simp: merge_sub_def same_instance_user_def)
qed auto

lemma activate_member:
  assumes quiet: "faults v = []" and code: "code \<noteq> ''''"
    and row: "find (\<lambda>a. a_code a = HashToken S code) (activations v) = Some a"
      "activation_check ''telegram'' (tp_channel p) (clock v) a = Inr ()"
    and elig: "tp_elig p = Attest S" and member: "still_member S (a_sch a) tier v"
  shows "\<exists>v' x. activate S p up code v = (Inr (subscribed_text tier), v') \<and> x \<in> set (subs v')
    \<and> s_user x = up_user up \<and> s_sch x = a_sch a \<and> s_status x = SubActive \<and> s_tier x = tier
    \<and> s_channel x = (if a_channel a \<noteq> '''' then a_channel a else tp_channel p)"
proof -
  let ?v1 = "v\<lparr>activations := set_where (activation_open (HashToken S code)) (activation_stamp (clock v)) (activations v)\<rparr>"
  let ?a = "a\<lparr>a_status := ActivationConsumed\<rparr>"
  have con: "ActivationCode_Consume (HashToken S code) ''telegram'' (tp_channel p) (clock v) v = (Inr ?a, ?v1)"
    by (rule ActivationCode_Consume_fresh[OF quiet row])
  obtain st u where att: "Attest S (a_sch a) ?v1 = (Inr (st, tier), u)" "st \<noteq> StateNone" "faults u = []"
      "\<forall>i. fst (RandomID u) = Inr i \<longrightarrow> i \<notin> s_id ` set (subs u)"
    using member unfolding still_member_def by blast
  have run: "activate S p up code v = bind_session p up ?a tier u"
    using con att code elig by (simp add: activate_def bind_now tryE_def)
  obtain i d where rid: "RandomID u = (Inr i, u\<lparr>draws := d\<rparr>)"
    by (simp add: RandomID_def bindE_def random_bytes_def returnE_def)
  let ?x = "bound_session p up ?a i tier (clock u)"
  have fresh: "s_id ?x \<notin> s_id ` set (subs u)" using att(4) rid by (simp add: bound_session_def)
  let ?rows = "if \<exists>y \<in> set (subs u). same_instance_user ?x y
       then set_where (same_instance_user ?x) (merge_sub ?x) (subs u) else subs u @ [?x]"
  have "\<exists>v'. activate S p up code v = (Inr (subscribed_text tier), v') \<and> subs v' = ?rows"
    unfolding run using rid att(3) fresh
    by (simp add: bind_session_def bind_now bindE_def[of RandomID] returnE_def tryE_def Sub_Upsert_def exec_def)
  then obtain v' where v': "activate S p up code v = (Inr (subscribed_text tier), v')" "subs v' = ?rows" by blast
  obtain z where z: "z \<in> set (subs v')" "s_user z = s_user ?x \<and> s_sch z = s_sch ?x \<and> s_status z = s_status ?x
    \<and> s_tier z = s_tier ?x \<and> s_channel z = s_channel ?x" unfolding v'(2) using upserted_row by blast
  show ?thesis
    by (intro exI[of _ v'] exI[of _ z] conjI v'(1) z(1)) (simp_all only: z(2), simp_all add: bound_session_def)
qed

lemma activation_body_only: "hr_json r' = hr_json r \<Longrightarrow> activationCreate A r' = activationCreate A r"
  by (simp add: activationCreate_def)

lemma activationCreate_Inr:
  assumes "activationCreate A r w = (Inr (JsonBody b), w')"
  shows "\<exists>inst ct n k sg v res. inst \<in> set (channels w) \<and> live_telegram inst \<and> ch_id inst \<noteq> ''''
    \<and> DecodeUsername (ch_config inst) \<noteq> ''''
    \<and> CreateActivation (ap_server A) ct (ch_id inst) n k sg (DecodeUsername (ch_config inst)) v = (Inr res, w')
    \<and> b = [(''activation_code'', JStr (av_code res)), (''deep_link'', JStr (av_link res)),
           (''expires_at'', JStr (rfc3339 (av_expires res)))]"
  using assms
  by (auto simp: activationCreate_def notImplemented_def returnE_Inr badRequest_def tryE_def or_answer_Inr Channel_Get_def
      query_row_def exec_def returnE_def skip_def split: option.splits if_splits dest!: find_Some_mem) blast+

text \<open>C4: From the binding page to the bot: an activation code with a deep link is only handed out for a
  running Telegram instance, the link opens exactly that instance's bot with the code, and
  whoever opens it before the code expires, while its holder is still a member and the
  driver works, gets an active subscription at that instance for the code's holder.\<close>

theorem activation_link_subscribes:
  assumes run: "activationCreate A r w = (Inr (JsonBody ((''activation_code'', JStr code) # (''deep_link'', JStr link) # b)), w')"
    and link: "link \<noteq> ''''" and kept: "activations v = activations w'" "faults v = []" "clock v \<le> clock w' + activationTTL"
    and member: "\<forall>a \<in> set (activations w'). a_code a = HashToken (ap_server A) code \<longrightarrow> still_member (ap_server A) (a_sch a) tier v"
  shows "\<exists>inst a. inst \<in> set (channels w) \<and> live_telegram inst
    \<and> link = ''https://t.me/'' @ DecodeUsername (ch_config inst) @ ''?start='' @ code
    \<and> a \<in> set (activations w') \<and> a_code a = HashToken (ap_server A) code
    \<and> (\<forall>up pool. up_text up = ''/start '' @ code \<longrightarrow> (\<exists>v' x.
         Handle (ap_server A) (NewInstanceProcessor (Attest (ap_server A)) pool (ch_id inst)) up v = (Inr (subscribed_text tier), v')
       \<and> x \<in> set (subs v') \<and> s_user x = up_user up \<and> s_channel x = ch_id inst \<and> s_sch x = a_sch a
       \<and> s_status x = SubActive \<and> s_tier x = tier))"
proof -
  let ?S = "ap_server A"
  obtain inst ct n k sg u res where inst: "inst \<in> set (channels w)" "live_telegram inst" "ch_id inst \<noteq> ''''"
    and ca: "CreateActivation ?S ct (ch_id inst) n k sg (DecodeUsername (ch_config inst)) u = (Inr res, w')"
    and out: "code = av_code res" "link = av_link res"
    using activationCreate_Inr[OF run] by auto
  obtain sch acts where row: "activations w' = acts @ [\<lparr>a_code = HashToken ?S code, a_sch = sch, a_channel = ch_id inst,
        a_ctype = (if ct = '''' then ''telegram'' else ct), a_status = ActivationActive,
        a_expires = clock w' + activationTTL, a_consumed = None, a_created = clock w'\<rparr>]"
    and new: "HashToken ?S code \<notin> a_code ` set acts" and plain: "code \<noteq> ''''" "\<forall>x \<in> set code. \<not> is_space x"
    and url: "link = (if (ct = '''' \<or> ct = ''telegram'') \<and> DecodeUsername (ch_config inst) \<noteq> ''''
        then ''https://t.me/'' @ DecodeUsername (ch_config inst) @ ''?start='' @ code else '''')"
    using CreateActivation_Inr[OF ca] unfolding out by blast
  define a where "a = last (activations w')"
  have ct: "ct = '''' \<or> ct = ''telegram''" using url link by (auto split: if_splits)
  have a: "a \<in> set (activations w')" "a_code a = HashToken ?S code" "a_sch a = sch" "a_channel a = ch_id inst"
      "a_ctype a = ''telegram''" "a_consumed a = None" "a_expires a = clock w' + activationTTL"
    using ct by (auto simp: a_def row)
  have "find (\<lambda>a. a_code a = HashToken ?S code) acts = None"
    using new unfolding find_None_all by (metis imageI)
  then have found: "find (\<lambda>a. a_code a = HashToken ?S code) (activations v) = Some a"
    unfolding kept(1) a_def row by (simp add: find_append)
  have joins: "\<exists>v' x. Handle ?S (NewInstanceProcessor (Attest ?S) pool (ch_id inst)) up v = (Inr (subscribed_text tier), v')
       \<and> x \<in> set (subs v') \<and> s_user x = up_user up \<and> s_channel x = ch_id inst \<and> s_sch x = a_sch a
       \<and> s_status x = SubActive \<and> s_tier x = tier" if "up_text up = ''/start '' @ code" for up pool
  proof -
    let ?p = "NewInstanceProcessor (Attest ?S) pool (ch_id inst)"
    have "Handle ?S ?p up v = activate ?S ?p up code v"
      using that by (simp add: Handle_def parse_start[OF plain, simplified])
    moreover have "activation_check ''telegram'' (tp_channel ?p) (clock v) a = Inr ()"
      using a kept(3) by (simp add: activation_check_Inr NewInstanceProcessor_def)
    moreover have "tp_elig ?p = Attest ?S" by (simp add: NewInstanceProcessor_def)
    moreover have "still_member ?S (a_sch a) tier v" using member a(1,2) by blast
    ultimately show ?thesis using activate_member[OF kept(2) plain(1) found, of ?p tier up] a(4) inst(3) by auto
  qed
  have "link = ''https://t.me/'' @ DecodeUsername (ch_config inst) @ ''?start='' @ code"
    using url link by (auto split: if_splits)
  then show ?thesis using inst(1,2) a(1,2) joins by blast
qed

definition linking_world :: world where
  "linking_world = member_world\<lparr>nonces := [login_nonce NonceActivation], channels := [sample_instance]\<rparr>"

definition linking_request :: http_request where
  "linking_request = blank_request\<lparr>hr_json := RawDoc (JObj
     [(''channel_id'', JStr ''c1''), (''nonce'', JStr ''n''), (''cose_key'', JStr ''00'')])\<rparr>"

lemma sample_instance_sel: "ch_id sample_instance = ''c1''" "live_telegram sample_instance"
    "DecodeUsername (ch_config sample_instance) = ''bot''"
  by (simp_all add: sample_instance_def live_telegram_def DecodeUsername_def decode_tg_json)

lemma linking_world_sel:
  "faults linking_world = []" "clock linking_world = 1700000000 * second" "channels linking_world = [sample_instance]"
  "nonces linking_world = [login_nonce NonceActivation]" "activations linking_world = []" "draws linking_world = 0"
  "subs linking_world = []" "admits linking_world"
  by (simp_all add: linking_world_def member_world_def sample_world_def empty_world_def admits_def)

lemma sample_linking:
  "\<exists>res ns as. CreateActivation member_server '''' ''c1'' ''n'' ''00'' '''' ''bot'' linking_world
     = (Inr res, linking_world\<lparr>nonces := ns, draws := 16, activations := as\<rparr>)
     \<and> av_link res \<noteq> '''' \<and> map a_sch as = [sample_sch]"
proof -
  let ?w = linking_world
  obtain ns where wal: "Wallet_Verify (sample_cose ''n'') NonceActivation ''00'' ''n'' '''' ?w = (Inr sample_sch, ?w\<lparr>nonces := ns\<rparr>)"
    using sample_verify_run[of ?w "login_nonce NonceActivation" NonceActivation] linking_world_sel
    by (simp add: login_nonce_def nonce_check_def second_def)
  have "admits (?w\<lparr>nonces := ns\<rparr>)" using linking_world_sel by simp
  then obtain res where ev: "evaluate member_server sample_sch (?w\<lparr>nonces := ns\<rparr>) = (Inr res, ?w\<lparr>nonces := ns\<rparr>)"
      "representativeState res = StateActive"
    using sample_evaluate by blast
  then have mem: "MembershipOf member_server sample_sch (?w\<lparr>nonces := ns\<rparr>) = (Inr StateActive, ?w\<lparr>nonces := ns\<rparr>)"
    by (simp add: MembershipOf_def bindE_def returnE_def)
  show ?thesis
    by (simp add: CreateActivation_def Let_def bindE_def masked_def tryE_def wal mem returnE_def RandomToken_def random_bytes_def
        nowE_def getE_def ActivationCode_Create_def insert_row_def exec_def linking_world_sel)
       (rule exI[of _ ns], rule exI, rule conjI, rule world.equality, simp_all add: linking_world_sel, simp)
qed

lemma sample_still_member:
  assumes "admits v" "subs v = []"
  shows "\<exists>tier. still_member member_server sample_sch tier v"
proof -
  have none: "Eval no_rules fs = ''''" for fs by (simp add: Eval_def no_rules_def)
  have "\<exists>tier. \<forall>acts. Attest member_server sample_sch (v\<lparr>activations := acts\<rparr>) = (Inr (StateActive, tier), v\<lparr>activations := acts\<rparr>)"
  proof (rule exI, rule allI)
    fix acts
    have w: "admits (v\<lparr>activations := acts\<rparr>)" using assms(1) by (simp add: admits_def)
    obtain res where res: "evaluate member_server sample_sch (v\<lparr>activations := acts\<rparr>) = (Inr res, v\<lparr>activations := acts\<rparr>)"
        "representativeState res = StateActive"
      using sample_evaluate[OF w] by blast
    have "faults (v\<lparr>activations := acts\<rparr>) = []" "tier_rules (v\<lparr>activations := acts\<rparr>) = None" using w by (simp_all add: admits_def)
    then show "Attest member_server sample_sch (v\<lparr>activations := acts\<rparr>)
        = (Inr (StateActive, ''''), v\<lparr>activations := acts\<rparr>)" using none
      by (simp add: Attest_def attest_def bindE_def res Let_def firstPartyTier_def Issuer_GetTierRules_def tryE_def returnE_def)
  qed
  then show ?thesis using assms unfolding still_member_def
    by (auto simp: admits_def)
qed

lemma sample_link_run:
  "\<exists>(res :: activation_result) ns as b. activationCreate sample_api linking_request linking_world
       = (Inr (JsonBody ((''activation_code'', JStr (av_code res)) # (''deep_link'', JStr (av_link res)) # b)),
          linking_world\<lparr>nonces := ns, draws := 16, activations := as\<rparr>)
     \<and> av_link res \<noteq> '''' \<and> map a_sch as = [sample_sch]"
proof -
  obtain res ns as where ca: "CreateActivation member_server '''' ''c1'' ''n'' ''00'' '''' ''bot'' linking_world
     = (Inr res, linking_world\<lparr>nonces := ns, draws := 16, activations := as\<rparr>)" and link: "av_link res \<noteq> ''''"
     and as: "map a_sch as = [sample_sch]" using sample_linking by (elim exE conjE) (rule that)
  have get: "Channel_Get ''c1'' linking_world = (Inr sample_instance, linking_world)"
    using linking_world_sel sample_instance_sel by (simp add: Channel_Get_def)
  have json: "hr_json linking_request = RawDoc (JObj [(''channel_id'', JStr ''c1''), (''nonce'', JStr ''n''), (''cose_key'', JStr ''00'')])"
    by (simp add: linking_request_def)
  obtain b where "activationCreate sample_api linking_request linking_world
       = (Inr (JsonBody ((''activation_code'', JStr (av_code res)) # (''deep_link'', JStr (av_link res)) # b)), linking_world\<lparr>nonces := ns, draws := 16, activations := as\<rparr>)"
    using get ca sample_instance_sel
    by (simp add: activationCreate_def sample_api_def json body_struct_def json_struct_def body_string_def json_string_def
        json_field_def to_lower_def char_lower_def tryE_def or_answer_def returnE_def)
  then show ?thesis using link as
    by (intro exI[of _ res] exI[of _ ns] exI[of _ as] exI[of _ b] conjI)
qed

lemma activation_link_subscribes_witness:
  "\<exists>code link b w' v' t. activationCreate sample_api linking_request linking_world
       = (Inr (JsonBody ((''activation_code'', JStr code) # (''deep_link'', JStr link) # b)), w')
     \<and> Handle member_server (NewInstanceProcessor (Attest member_server) ''p'' ''c1'') (sample_update 1 (''/start '' @ code)) w' = (Inr t, v')
     \<and> (\<exists>x \<in> set (subs v'). s_user x = ''42'' \<and> s_status x = SubActive)"
proof -
  obtain res :: activation_result and ns as b where run: "activationCreate sample_api linking_request linking_world
       = (Inr (JsonBody ((''activation_code'', JStr (av_code res)) # (''deep_link'', JStr (av_link res)) # b)),
          linking_world\<lparr>nonces := ns, draws := 16, activations := as\<rparr>)" and link: "av_link res \<noteq> ''''"
     and as: "map a_sch as = [sample_sch]" using sample_link_run by (elim exE conjE) (rule that)
  let ?w' = "linking_world\<lparr>nonces := ns, draws := 16, activations := as\<rparr>"
  have w': "faults ?w' = []" "subs ?w' = []" "admits ?w'" using linking_world_sel by (simp_all add: admits_def)
  obtain tier where "still_member member_server sample_sch tier ?w'" using sample_still_member[OF w'(3,2)] by blast
  moreover have "a_sch a = sample_sch" if "a \<in> set as" for a
    using that arg_cong[OF as, of set] by auto
  ultimately have member: "\<forall>a \<in> set (activations ?w'). a_code a = HashToken (ap_server sample_api) (av_code res)
      \<longrightarrow> still_member (ap_server sample_api) (a_sch a) tier ?w'" by (simp add: sample_api_def)
  have ttl: "clock ?w' \<le> clock ?w' + activationTTL" by (simp add: activationTTL_def duration_defs)
  obtain inst where inst: "inst \<in> set (channels linking_world)" and opens: "\<forall>up pool. up_text up = ''/start '' @ av_code res \<longrightarrow> (\<exists>v' x.
         Handle (ap_server sample_api) (NewInstanceProcessor (Attest (ap_server sample_api)) pool (ch_id inst)) up ?w' = (Inr (subscribed_text tier), v')
       \<and> x \<in> set (subs v') \<and> s_user x = up_user up \<and> s_status x = SubActive)"
    using activation_link_subscribes[OF run link refl w'(1) ttl member] by blast
  have "ch_id inst = ''c1''" using inst linking_world_sel sample_instance_sel by simp
  moreover have "up_text (sample_update 1 (''/start '' @ av_code res)) = ''/start '' @ av_code res"
    "up_user (sample_update 1 (''/start '' @ av_code res)) = ''42''" by (simp_all add: sample_update_def)
  ultimately show ?thesis using opens[rule_format, of "sample_update 1 (''/start '' @ av_code res)" "''p''"] run
    by (simp add: sample_api_def) blast
qed

section \<open>The endpoints and the ledger\<close>

lemma ledger_evaluate: "moves same_ledger (evaluate (wired S http key) sch)"
  by (rule moves_mono[OF issuer.evaluate_cache only_cache_ledger])

lemma ledger_Authorize: "moves same_ledger (Authorize (wired S http key) req)"
  unfolding Authorize_def
  by (intro ledger_rules ledger_ValidateClient ledger_wallet ledger_evaluate ledger_writes ledger.RandomToken)

lemma ledger_CreateActivation: "moves same_ledger (CreateActivation (wired S http key) ct ch n k sg user)"
  unfolding CreateActivation_def Let_def MembershipOf_def
  by (intro ledger_rules ledger_wallet ledger_evaluate ledger_writes ledger.RandomToken)

lemmas ledger_answer = or_answer_moves[OF ledger.io_rel_axioms]

lemma ledger_channels: "moves same_ledger (Channel_Get i)" "moves same_ledger (Channel_ListActive p t)"
  unfolding Channel_Get_def Channel_ListActive_def by (rule ledger.query_row ledger.query)+

lemma ledger_logout: "moves same_ledger (Admin_Logout S tok)"
  unfolding Admin_Logout_def AdminSession_Delete_def by (intro ledger_rules ledger.delete_rows) (simp add: same_ledger_def)

lemma ledger_session:
  "(\<And>u. moves same_ledger (next u)) \<Longrightarrow> moves same_ledger (with_session A r next)"
  unfolding with_session_def notImplemented_def
  by (auto split: option.splits intro!: ledger_rules ledger_answer ledger_authenticate)

text \<open>Only the token and the revocation endpoint touch the ledger.\<close>

lemma endpoint_ledger:
  assumes "ap_server A = wired S http key" "e \<notin> {OauthToken, RevokeToken}"
  shows "moves same_ledger (serve_endpoint A e r)"
  using assms
  by (cases e)
     (auto simp: authChallenge_def connect_def connectAuthorize_def bindPage_def publicChannels_def activationCreate_def
        jwks_def introspect_def adminChallenge_def adminVerify_def adminLogout_def adminStepUpChallenge_def adminMe_def
        with_role_def notImplemented_def Admin_Challenge_def Admin_ChallengeStepUp_def Keys_PublicJWKSKeys_def Let_def
      split: option.splits sum.splits
      intro!: ledger_rules ledger_answer ledger_Challenge ledger_ValidateClient ledger_Authorize ledger_CreateActivation
        ledger_channels ledger_Introspect ledger_login ledger_logout ledger_session ledger_reads)

lemma answer_snd: "snd (or_answer f m (\<lambda>x. returnE (g x)) w) = snd (m w)"
  by (simp add: or_answer_def tryE_def returnE_def split: prod.splits sum.splits)

lemma void_snd: "snd (void m w) = snd (m w)"
  by (simp add: void_def bindE_def returnE_def split: prod.splits sum.splits)

lemma endpoint_serves:
  assumes api: "ap_server A = wired S http key" and hist: "serves (wired S http key) w v"
  shows "serves (wired S http key) w (snd (serve_endpoint A e r v))"
proof -
  let ?S = "wired S http key"
  have token: "snd (oauthToken A r v) = (if \<not> ap_oauth A then v else (case parseTokenRequest r of None \<Rightarrow> v
      | Some req \<Rightarrow> snd (handle ?S (TokenReq req) v)))"
    by (simp add: oauthToken_def notImplemented_def returnE_def[of _ v] answer_snd void_snd api split: option.split)
  have rev: "snd (revoke A r v) = (if \<not> ap_oauth A then v else
      snd (handle ?S (RevokeReq (tb_token (parseTokenBody r)) (tb_hint (parseTokenBody r))) v))"
    by (simp add: revoke_def notImplemented_def returnE_def[of _ v] answer_snd api)
  show ?thesis
  proof (cases "e \<in> {OauthToken, RevokeToken}")
    case True
    then show ?thesis using hist serves.request[OF hist]
      by (auto simp: token rev simp del: handle.simps split: option.split)
  next
    case False
    have "same_ledger v (snd (serve_endpoint A e r v))" using endpoint_ledger[OF api False] by (simp add: moves_def)
    then show ?thesis by (rule serves.outside[OF hist])
  qed
qed

end
