(* ===== verification/Middleware.thy ===== *)
theory Middleware
  imports Http
begin

text \<open>
  The middleware before the handlers (\<open>httpapi/middleware/middleware.go\<close>) as \<open>router.go\<close> puts
  it: the rate limiter per address and the replay of idempotent requests. The token bucket of
  \<open>golang.org/x/time/rate\<close> is a parameter: a full bucket, and the question whether an event is
  allowed at a time, with the bucket after it. A request reads the clock of the world.
\<close>

section \<open>Rate limiting\<close>

record 'l bucket =
  bk_full :: 'l
  bk_allow :: "instant \<Rightarrow> 'l \<Rightarrow> bool \<times> 'l"

type_synonym 'l clients = "string \<rightharpoonup> 'l \<times> instant"

definition limiter_ttl :: duration where "limiter_ttl = 10 * minute"

definition evict :: "duration \<Rightarrow> instant \<Rightarrow> (string \<rightharpoonup> 'x \<times> instant) \<Rightarrow> string \<rightharpoonup> 'x \<times> instant" where
  "evict ttl now m k = (case m k of None \<Rightarrow> None | Some (x, t) \<Rightarrow> if now - t > ttl then None else Some (x, t))"

definition limiterFor :: "'l bucket \<Rightarrow> instant \<Rightarrow> string \<Rightarrow> 'l clients \<Rightarrow> 'l \<times> 'l clients" where
  "limiterFor B now ip m = (let c = (case m ip of None \<Rightarrow> bk_full B | Some (l, _) \<Rightarrow> l)
     in (c, evict limiter_ttl now (m(ip \<mapsto> (c, now)))))"

definition remote_ip :: "http_request \<Rightarrow> string" where
  "remote_ip r = (case hr_host r of None \<Rightarrow> hr_remote r | Some h \<Rightarrow> h)"

text \<open>The bucket is shared by reference: \<open>Allow\<close> changes the one in the map.\<close>

definition limit_step :: "'l bucket \<Rightarrow> instant \<Rightarrow> string \<Rightarrow> 'l clients \<Rightarrow> bool \<times> 'l clients" where
  "limit_step B now ip m = (case limiterFor B now ip m of (l, m') \<Rightarrow>
     (case bk_allow B now l of (ok, l') \<Rightarrow> (ok, m'(ip \<mapsto> (l', now)))))"

section \<open>Idempotency keys\<close>

type_synonym cache = "string \<rightharpoonup> http_response \<times> instant"

definition idem_get :: "duration \<Rightarrow> instant \<Rightarrow> string \<Rightarrow> cache \<Rightarrow> http_response option \<times> cache" where
  "idem_get ttl now key m = (case m key of
       None \<Rightarrow> (None, m)
     | Some (x, t) \<Rightarrow> if now - t > ttl then (None, m(key := None)) else (Some x, m))"

definition idem_put :: "duration \<Rightarrow> instant \<Rightarrow> string \<Rightarrow> http_response \<Rightarrow> cache \<Rightarrow> cache" where
  "idem_put ttl now key x m = (evict ttl now m)(key \<mapsto> (x, now))"

definition cacheable :: "http_response \<Rightarrow> bool" where
  "cacheable x \<longleftrightarrow> 200 \<le> status_of x \<and> status_of x < 300"

definition scoped_key :: "endpoint \<Rightarrow> string \<Rightarrow> string" where
  "scoped_key e key = (case endpoint_route e of (m, path) \<Rightarrow> m @ '' '' @ path @ [CHR 0x00] @ key)"

definition idempotent :: "duration \<Rightarrow> endpoint \<Rightarrow> http_request \<Rightarrow> http_response io \<Rightarrow> cache \<Rightarrow> (http_response \<times> cache) io" where
  "idempotent ttl e r next m =
     (if hr_key r = '''' then bindE next (\<lambda>x. returnE (x, m))
      else let key = scoped_key e (hr_key r) in
      bindE nowE (\<lambda>now. case idem_get ttl now key m of
          (Some x, m') \<Rightarrow> returnE (x, m')
        | (None, m') \<Rightarrow>
            bindE next (\<lambda>x.
            bindE nowE (\<lambda>t.
            returnE (x, if cacheable x then idem_put ttl t key x m' else m')))))"

section \<open>The router\<close>

text \<open>\<open>publicLimit\<close> and \<open>idem\<close>: the routes they are put before.\<close>

fun rate_limited :: "endpoint \<Rightarrow> bool" where
  "rate_limited Healthz = False"
| "rate_limited AdminChallenge = False"
| "rate_limited AdminVerify = False"
| "rate_limited AdminLogout = False"
| "rate_limited AdminStepUpChallenge = False"
| "rate_limited AdminMe = False"
| "rate_limited e = True"

fun replayable :: "endpoint \<Rightarrow> bool" where
  "replayable OauthToken = True"
| "replayable ActivationCreate = True"
| "replayable e = False"

definition idem_ttl :: duration where "idem_ttl = 10 * minute"

record 'l gateway =
  gw_clients :: "'l clients"
  gw_cache :: cache

definition too_many :: http_response where
  "too_many = ErrorBody 429 ''rate_limited'' ''too many requests''"

definition gate :: "api \<Rightarrow> 'l bucket \<Rightarrow> endpoint \<Rightarrow> http_request \<Rightarrow> 'l gateway \<Rightarrow> (http_response \<times> 'l gateway) io" where
  "gate A B e r G =
     bindE nowE (\<lambda>now.
     case (if rate_limited e then limit_step B now (remote_ip r) (gw_clients G) else (True, gw_clients G)) of
       (ok, cs) \<Rightarrow>
         let G' = G\<lparr>gw_clients := cs\<rparr> in
         if \<not> ok then returnE (too_many, G')
         else if replayable e then
           bindE (idempotent idem_ttl e r (serve_endpoint A e r) (gw_cache G)) (\<lambda>(x, m).
             returnE (x, G'\<lparr>gw_cache := m\<rparr>))
         else bindE (serve_endpoint A e r) (\<lambda>x. returnE (x, G')))"

text \<open>
  What happens to the service over time: requests through the gateway, and other changes of
  the world. Time does not run back.
\<close>

inductive passes :: "api \<Rightarrow> 'l bucket \<Rightarrow> 'l gateway \<Rightarrow> world \<Rightarrow> 'l gateway \<Rightarrow> world \<Rightarrow> bool" for A B G w where
  start: "passes A B G w G w"
| request: "passes A B G w H v \<Longrightarrow> gate A B e r H v = (Inr (x, H'), v') \<Longrightarrow> clock v \<le> clock v' \<Longrightarrow> passes A B G w H' v'"
| outside: "passes A B G w H v \<Longrightarrow> clock v \<le> clock v' \<Longrightarrow> passes A B G w H v'"

section \<open>Guarantees\<close>

lemma bind_ok: "m w = (Inr x, v) \<Longrightarrow> bindE m f w = f x v"
  by (simp add: bindE_def)

lemma evict_keeps: "m k = Some (x, t) \<Longrightarrow> now - t \<le> ttl \<Longrightarrow> evict ttl now m k = Some (x, t)"
  by (simp add: evict_def)

lemma idem_get_keeps:
  "m k = Some (x, t) \<Longrightarrow> now - t \<le> ttl \<Longrightarrow> snd (idem_get ttl now key m) k = Some (x, t)
     \<and> (key = k \<longrightarrow> idem_get ttl now key m = (Some x, m))"
  by (auto simp: idem_get_def split: option.splits)

lemma idem_put_keeps:
  "m k = Some (x, t) \<Longrightarrow> now - t \<le> ttl \<Longrightarrow> key \<noteq> k \<Longrightarrow> idem_put ttl now key y m k = Some (x, t)"
  by (simp add: idem_put_def evict_keeps)

text \<open>An entry survives every request as long as it has not expired at its end.\<close>

lemma gate_keeps_entry:
  assumes run: "gate A B e r G w = (Inr (y, G'), w')" and entry: "gw_cache G k = Some (x, t)"
    and time: "clock w \<le> clock w'" "clock w' - t \<le> idem_ttl"
  shows "gw_cache G' k = Some (x, t)"
proof -
  have now: "clock w - t \<le> idem_ttl" using time by simp
  have cache: "gw_cache G' = gw_cache G \<or> (\<exists>m. idempotent idem_ttl e r (serve_endpoint A e r) (gw_cache G) w = (Inr (y, m), w') \<and> gw_cache G' = m)"
    using run by (auto simp: gate_def bind_now Let_def returnE_Inr bindE_Inr split: prod.splits if_splits)
  have "m k = Some (x, t)" if run: "idempotent idem_ttl e r (serve_endpoint A e r) (gw_cache G) w = (Inr (y, m), w')" for m
  proof -
    let ?key = "scoped_key e (hr_key r)"
    obtain h m' where get: "idem_get idem_ttl (clock w) ?key (gw_cache G) = (h, m')" by force
    have m': "m' k = Some (x, t)" "?key = k \<Longrightarrow> h = Some x"
      using idem_get_keeps[where m = "gw_cache G" and k = k and key = ?key, OF entry now] get by auto
    show ?thesis
    proof (cases "?key = k")
      case True
      then show ?thesis using run get m' by (auto simp: idempotent_def Let_def bindE_Inr nowE_Inr returnE_Inr entry split: if_splits)
    next
      case False
      then show ?thesis using run get m' idem_put_keeps[where m = m' and k = k and key = ?key, OF m'(1) time(2) False] entry
        by (auto simp: idempotent_def Let_def bindE_Inr nowE_Inr returnE_Inr split: if_splits option.splits)
    qed
  qed
  then show ?thesis using cache entry by auto
qed

lemma passes_clock: "passes A B G w H v \<Longrightarrow> clock w \<le> clock v"
  by (induction rule: passes.induct) auto

lemma passes_keeps_entry:
  "passes A B G w H v \<Longrightarrow> gw_cache G k = Some (x, t) \<Longrightarrow> clock v - t \<le> idem_ttl \<Longrightarrow> gw_cache H k = Some (x, t)"
proof (induction rule: passes.induct)
  case (request H v e r y H' v')
  then have "gw_cache H k = Some (x, t)" by simp
  then show ?case using gate_keeps_entry[OF request(2) _ request(3)] request by blast
qed auto

text \<open>C6: A request with an idempotency key is carried out once: when the first one under a key was
  answered with success, then whatever happens in between, every request under that key to the
  same endpoint that the limiter lets through is answered with that first response until the
  lifetime has passed, and changes nothing, whatever it carries and whoever sends it.\<close>

theorem replay_returns_first:
  assumes first: "gate A B e r G w = (Inr (x, G1), w1)" and new: "gw_cache G (scoped_key e (hr_key r)) = None"
    and kind: "replayable e" "hr_key r \<noteq> ''''" "cacheable x"
    and later: "passes A B G1 w1 H v" "clock v \<le> clock w1 + idem_ttl"
    and again: "hr_key r' = hr_key r" "fst (limit_step B (clock v) (remote_ip r') (gw_clients H))"
  shows "\<exists>cs. gate A B e r' H v = (Inr (x, H\<lparr>gw_clients := cs\<rparr>), v)"
proof -
  let ?k = "scoped_key e (hr_key r)"
  have lim: "rate_limited e" using kind(1) by (cases e) auto
  have "fst (limit_step B (clock w) (remote_ip r) (gw_clients G))"
  proof (rule ccontr)
    assume "\<not> fst (limit_step B (clock w) (remote_ip r) (gw_clients G))"
    then have "x = too_many" using first lim by (auto simp: gate_def bind_now Let_def returnE_def split: prod.splits)
    then show False using kind(3) by (simp add: cacheable_def too_many_def)
  qed
  then have "\<exists>m. idempotent idem_ttl e r (serve_endpoint A e r) (gw_cache G) w = (Inr (x, m), w1) \<and> gw_cache G1 = m"
    using first lim kind(1) by (auto simp: gate_def bind_now Let_def bindE_Inr returnE_Inr split: prod.splits)
  then have "gw_cache G1 ?k = Some (x, clock w1)"
    using kind new by (auto simp: idempotent_def Let_def bindE_Inr nowE_Inr returnE_Inr idem_get_def idem_put_def)
  then have "gw_cache H ?k = Some (x, clock w1)" using later by (intro passes_keeps_entry[OF later(1)]) auto
  then have "idempotent idem_ttl e r' (serve_endpoint A e r') (gw_cache H) v = (Inr (x, gw_cache H), v)"
    using kind(2) again(1) later(2) by (simp add: idempotent_def Let_def bind_now idem_get_def returnE_def)
  note hit = bind_ok[where m = "idempotent idem_ttl e r' (serve_endpoint A e r') (gw_cache H)" and w = v, OF this]
  obtain cs where "limit_step B (clock v) (remote_ip r') (gw_clients H) = (True, cs)" using again(2) by (metis prod.collapse)
  then show ?thesis using lim kind(1)
    by (intro exI[of _ cs]) (simp add: gate_def bind_now Let_def hit returnE_def)
qed

definition open_bucket :: "unit bucket" where
  "open_bucket = \<lparr>bk_full = (), bk_allow = (\<lambda>_ _. (True, ()))\<rparr>"

definition fresh_gateway :: "unit gateway" where
  "fresh_gateway = \<lparr>gw_clients = Map.empty, gw_cache = Map.empty\<rparr>"

lemma open_gate [simp]: "fst (limit_step open_bucket now ip m)"
  by (simp add: limit_step_def open_bucket_def split: prod.split)

text \<open>The second caller has no wallet, no signature and another address.\<close>

lemma replay_returns_first_witness:
  "\<exists>code b G1 w1 cs. let r = linking_request\<lparr>hr_key := ''k''\<rparr>; stranger = blank_request\<lparr>hr_key := ''k'', hr_host := Some ''10.9.9.9''\<rparr> in
     gate sample_api open_bucket ActivationCreate r fresh_gateway linking_world = (Inr (JsonBody ((''activation_code'', JStr code) # b), G1), w1)
   \<and> gate sample_api open_bucket ActivationCreate stranger G1 w1
       = (Inr (JsonBody ((''activation_code'', JStr code) # b), G1\<lparr>gw_clients := cs\<rparr>), w1)"
proof -
  let ?r = "linking_request\<lparr>hr_key := ''k''\<rparr>" and ?s = "blank_request\<lparr>hr_key := ''k'', hr_host := Some ''10.9.9.9''\<rparr>"
  obtain code b w1 where run: "activationCreate sample_api ?r linking_world = (Inr (JsonBody ((''activation_code'', JStr code) # b)), w1)"
    using sample_link_run activation_body_only[of ?r linking_request sample_api] by (auto simp del: member_server_sel)
  have key: "hr_key ?r = ''k''" by simp
  obtain ok cs0 where lim: "limit_step open_bucket (clock linking_world) (remote_ip ?r) (gw_clients fresh_gateway) = (ok, cs0)" by force
  then have "ok" using open_gate by (metis fst_conv)
  then obtain G1 where first: "gate sample_api open_bucket ActivationCreate ?r fresh_gateway linking_world
      = (Inr (JsonBody ((''activation_code'', JStr code) # b), G1), w1)"
    using run lim by (simp add: gate_def bind_now Let_def idempotent_def key idem_get_def fresh_gateway_def bindE_def nowE_def
        getE_def returnE_def)
  have ttl: "clock w1 \<le> clock w1 + idem_ttl" by (simp add: idem_ttl_def duration_defs)
  have "\<exists>cs. gate sample_api open_bucket ActivationCreate ?s G1 w1
       = (Inr (JsonBody ((''activation_code'', JStr code) # b), G1\<lparr>gw_clients := cs\<rparr>), w1)"
    by (rule replay_returns_first[OF first _ _ _ _ passes.start ttl]) (simp_all add: fresh_gateway_def cacheable_def)
  then show ?thesis using first by (auto simp: Let_def)
qed

text \<open>A failure is not pinned: a request that was answered with anything but success leaves its
  idempotency key free, so a retry under that key is handled anew.\<close>

theorem failed_request_can_be_retried:
  assumes first: "gate A B e r G w = (Inr (x, G1), w1)" and new: "gw_cache G (scoped_key e (hr_key r)) = None"
    and failed: "\<not> cacheable x"
    and again: "hr_key r' = hr_key r" "fst (limit_step B (clock v) (remote_ip r') (gw_clients G1))"
    and answer: "serve_endpoint A e r' v = (Inr y, v')"
  shows "\<exists>G2. gate A B e r' G1 v = (Inr (y, G2), v')"
proof -
  let ?k = "scoped_key e (hr_key r)"
  have free: "gw_cache G1 ?k = None"
    using first new failed
    by (auto simp: gate_def bind_now Let_def returnE_Inr bindE_Inr idempotent_def idem_get_def nowE_Inr
        split: prod.splits if_splits)
  obtain cs where lim: "limit_step B (clock v) (remote_ip r') (gw_clients G1) = (True, cs)" using again(2) by (metis prod.collapse)
  note ok = bind_ok[where m = "serve_endpoint A e r'" and w = v, OF answer]
  have "\<exists>m. idempotent idem_ttl e r' (serve_endpoint A e r') (gw_cache G1) v = (Inr (y, m), v')"
    using free again(1) by (simp add: idempotent_def Let_def bind_now idem_get_def ok) (simp add: returnE_def)
  then obtain m where m: "idempotent idem_ttl e r' (serve_endpoint A e r') (gw_cache G1) v = (Inr (y, m), v')" by blast
  note hit = bind_ok[where m = "idempotent idem_ttl e r' (serve_endpoint A e r') (gw_cache G1)" and w = v, OF m]
  show ?thesis using lim by (simp add: gate_def bind_now Let_def hit ok) (simp add: returnE_def)
qed

lemma failed_request_can_be_retried_witness:
  "\<exists>G1 w1 G2 x y v'. let r = blank_request\<lparr>hr_key := ''k''\<rparr>; retry = linking_request\<lparr>hr_key := ''k''\<rparr> in
     gate sample_api open_bucket ActivationCreate r fresh_gateway linking_world = (Inr (ErrorBody 400 ''invalid_request'' x, G1), w1)
   \<and> gate sample_api open_bucket ActivationCreate retry G1 linking_world = (Inr (JsonBody y, G2), v')"
proof -
  let ?r = "blank_request\<lparr>hr_key := ''k''\<rparr>" and ?s = "linking_request\<lparr>hr_key := ''k''\<rparr>"
  obtain y v' where answer: "serve_endpoint sample_api ActivationCreate ?s linking_world = (Inr (JsonBody y), v')"
    using sample_link_run activation_body_only[of ?s linking_request sample_api] by (auto simp del: member_server_sel)
  obtain ok cs0 where lim: "limit_step open_bucket (clock linking_world) (remote_ip ?r) (gw_clients fresh_gateway) = (ok, cs0)" by force
  then have "ok" using open_gate by (metis fst_conv)
  moreover have "activationCreate sample_api ?r linking_world = (Inr (badRequest ''malformed JSON body''), linking_world)"
    by (simp add: activationCreate_def sample_api_def blank_request_def body_struct_def returnE_def)
  ultimately obtain G1 where first: "gate sample_api open_bucket ActivationCreate ?r fresh_gateway linking_world
      = (Inr (badRequest ''malformed JSON body'', G1), linking_world)"
    using lim by (simp add: gate_def bind_now Let_def idempotent_def idem_get_def fresh_gateway_def bindE_def nowE_def
        getE_def returnE_def blank_request_def badRequest_def cacheable_def)
  have "\<exists>G2. gate sample_api open_bucket ActivationCreate ?s G1 linking_world = (Inr (JsonBody y, G2), v')"
    by (rule failed_request_can_be_retried[OF first _ _ _ _ answer])
       (simp_all add: fresh_gateway_def cacheable_def badRequest_def blank_request_def)
  then show ?thesis using first by (auto simp: Let_def badRequest_def)
qed

text \<open>C7: The limit is per address: a request is turned away exactly when the bucket of its own address
  does not allow it, then nothing else happens, and the bucket of any other address stays as
  it is or, after ten idle minutes, is forgotten.\<close>

theorem limits_are_per_address:
  assumes "rate_limited e" and run: "gate A B e r G w = (Inr (x, G'), w')"
    and own: "l = (case gw_clients G (remote_ip r) of None \<Rightarrow> bk_full B | Some (l, _) \<Rightarrow> l)"
  shows "(\<not> fst (bk_allow B (clock w) l) \<longrightarrow> x = too_many \<and> w' = w \<and> gw_cache G' = gw_cache G)
    \<and> gw_clients G' (remote_ip r) = Some (snd (bk_allow B (clock w) l), clock w)
    \<and> (\<forall>ip. ip \<noteq> remote_ip r \<longrightarrow> gw_clients G' ip = gw_clients G ip
         \<or> (gw_clients G' ip = None \<and> (\<exists>b t. gw_clients G ip = Some (b, t) \<and> clock w - t > limiter_ttl)))"
proof -
  obtain ok l' where al: "bk_allow B (clock w) l = (ok, l')" by force
  let ?cs = "(evict limiter_ttl (clock w) ((gw_clients G)(remote_ip r \<mapsto> (l, clock w))))(remote_ip r \<mapsto> (l', clock w))"
  have "limit_step B (clock w) (remote_ip r) (gw_clients G) = (ok, ?cs)"
    using al by (simp add: limit_step_def limiterFor_def Let_def own)
  then have G': "gw_clients G' = ?cs" "\<not> ok \<longrightarrow> x = too_many \<and> w' = w \<and> gw_cache G' = gw_cache G"
    using run assms(1) by (auto simp: gate_def bind_now Let_def returnE_Inr bindE_Inr split: prod.splits if_splits)
  have "?cs ip = gw_clients G ip \<or> (?cs ip = None \<and> (\<exists>b t. gw_clients G ip = Some (b, t) \<and> clock w - t > limiter_ttl))"
    if "ip \<noteq> remote_ip r" for ip using that by (auto simp: evict_def split: option.splits prod.splits)
  then show ?thesis using G' al by simp
qed

lemma limits_are_per_address_witness:
  "\<exists>x G' w'. gate sample_api open_bucket PublicChannels blank_request fresh_gateway empty_world = (Inr (x, G'), w')
     \<and> gw_clients G' ''10.0.0.1'' = Some ((), 0) \<and> gw_clients G' ''10.9.9.9'' = None"
proof -
  obtain x G' w' where run: "gate sample_api open_bucket PublicChannels blank_request fresh_gateway empty_world = (Inr (x, G'), w')"
  proof -
    obtain cs where lim: "limit_step open_bucket (clock empty_world) (remote_ip blank_request) (gw_clients fresh_gateway) = (True, cs)"
      using open_gate by (metis prod.collapse)
    obtain y v where pub: "publicChannels sample_api empty_world = (Inr y, v)"
      by (simp add: publicChannels_def or_answer_def tryE_def Channel_ListActive_def empty_world_def faulty_def returnE_def)
    note hit = bind_ok[where m = "publicChannels sample_api" and w = empty_world, OF pub]
    have "gate sample_api open_bucket PublicChannels blank_request fresh_gateway empty_world
        = (Inr (y, fresh_gateway\<lparr>gw_clients := cs\<rparr>), v)"
      using lim by (simp add: gate_def bind_now Let_def hit) (simp add: returnE_def)
    then show thesis by (rule that)
  qed
  have ip: "remote_ip blank_request = ''10.0.0.1''" by (simp add: remote_ip_def blank_request_def)
  from limits_are_per_address[OF _ run refl] have "gw_clients G' ''10.0.0.1'' = Some ((), 0)" "gw_clients G' ''10.9.9.9'' = None"
    by (auto simp: ip fresh_gateway_def empty_world_def)
  then show ?thesis using run by blast
qed

text \<open>Two requests in flight under one key are both carried out: each finds the key free before
  either has stored its response.\<close>

lemma duplicates_in_flight: "m key = None \<Longrightarrow> idem_get ttl now key m = (None, m)"
  by (simp add: idem_get_def)

end
