(* ===== verification/Platform.thy ===== *)
theory Platform
  imports Middleware
begin

text \<open>
  The whole service as \<open>cmd/issuer\<close> wires it: requests through the gateway, the admin plane,
  messages to the bots, turns of the push worker, of the reconciler and of the nonce
  collector, and time, interleaved in any order. All of it is a history of the theory
  \<open>Serving\<close>, so what holds over histories (the lineage of grants, bans, revocations) holds
  for the running service.
\<close>

section \<open>The service\<close>

datatype event =
    HttpRequest endpoint http_request
  | Credentials http_request step_up admin_op
  | Management http_request manage_op
  | Message string update
  | Broadcasts
  | Reconciliation
  | NonceGC
  | Tick instant

text \<open>A Bot API whose answers are read from the tape of outside inputs.\<close>

definition taped_api :: "(nat \<Rightarrow> string \<Rightarrow> string \<Rightarrow> (string \<times> string) list \<Rightarrow> string + nat \<times> raw_message) \<Rightarrow> bot_api" where
  "taped_api f tok method q = heard (\<lambda>i. f i tok method q)"

record 'l platform =
  pf_api :: api
  pf_bucket :: "'l bucket"
  pf_month :: "instant \<Rightarrow> string"
  pf_default :: "nat \<Rightarrow> string \<Rightarrow> string \<Rightarrow> string option"
  pf_bots :: "string \<Rightarrow> nat \<Rightarrow> string \<Rightarrow> string \<Rightarrow> string option"
  pf_halt :: "nat \<Rightarrow> bool"
  pf_botapi :: "nat \<Rightarrow> string \<Rightarrow> string \<Rightarrow> (string \<times> string) list \<Rightarrow> string + nat \<times> raw_message"
  pf_epoch :: "string \<Rightarrow> instant \<Rightarrow> 64 word result"

record 'l running =
  rn_gateway :: "'l gateway"
  rn_cursor :: cursor
  rn_world :: world

definition networksFor :: "string list io" where
  "networksFor = bindE Attestor_ListActive (\<lambda>cfgs. returnE (DistinctNetworks cfgs))"

definition wired_reconciler :: "server \<Rightarrow> deps \<Rightarrow> bot_api \<Rightarrow> reconciler" where
  "wired_reconciler S D botapi = \<lparr>rc_pool = dp_pool D, rc_elig = Attest S,
     rc_notifier = Some (graceNotifier (dp_cipher D) botapi)\<rparr>"

definition push_wiring :: "'l platform \<Rightarrow> scheduler" where
  "push_wiring P = wired_scheduler (dp_cipher (ap_deps (pf_api P))) (pf_default P) (pf_bots P) (pf_halt P)"

definition reconciliation_turn :: "'l platform \<Rightarrow> cursor \<Rightarrow> cursor io" where
  "reconciliation_turn P c = bindE nowE (\<lambda>now.
     poll (wired_reconciler (ap_server (pf_api P)) (ap_deps (pf_api P)) (taped_api (pf_botapi P))) networksFor
       (\<lambda>network. pf_epoch P network now) c)"

text \<open>An outcome \<open>Inl\<close> of a turn leaves the memory of the process as it was.\<close>

definition keep_or :: "'a \<Rightarrow> 'a result \<Rightarrow> 'a" where
  "keep_or x r = (case r of Inl _ \<Rightarrow> x | Inr y \<Rightarrow> y)"

fun occur :: "'l platform \<Rightarrow> event \<Rightarrow> 'l running \<Rightarrow> 'l running" where
  "occur P (HttpRequest e r) s = (case gate (pf_api P) (pf_bucket P) e r (rn_gateway s) (rn_world s) of
     (q, w) \<Rightarrow> s\<lparr>rn_gateway := (case q of Inl _ \<Rightarrow> rn_gateway s | Inr (_, G) \<Rightarrow> G), rn_world := w\<rparr>)"
| "occur P (Credentials r su op) s = s\<lparr>rn_world := snd (admin_route (ap_server (pf_api P)) (pf_month P)
     (peer_ip (pf_api P) r) (hr_cookie r) su op (rn_world s))\<rparr>"
| "occur P (Management r op) s = s\<lparr>rn_world := snd (manage_route (ap_server (pf_api P)) (ap_deps (pf_api P))
     (peer_ip (pf_api P) r) (hr_cookie r) op (rn_world s))\<rparr>"
| "occur P (Message ch up) s = s\<lparr>rn_world := snd (Handle (ap_server (pf_api P))
     (NewInstanceProcessor (Attest (ap_server (pf_api P))) (dp_pool (ap_deps (pf_api P))) ch) up (rn_world s))\<rparr>"
| "occur P Broadcasts s = s\<lparr>rn_world := snd (push_turn (push_wiring P) (rn_world s))\<rparr>"
| "occur P Reconciliation s = (case reconciliation_turn P (rn_cursor s) (rn_world s) of
     (q, w) \<Rightarrow> s\<lparr>rn_cursor := keep_or (rn_cursor s) q, rn_world := w\<rparr>)"
| "occur P NonceGC s = s\<lparr>rn_world := snd (Wallet_Purge (rn_world s))\<rparr>"
| "occur P (Tick t) s = s\<lparr>rn_world := (rn_world s)\<lparr>clock := t\<rparr>\<rparr>"

definition happen :: "'l platform \<Rightarrow> event list \<Rightarrow> 'l running \<Rightarrow> 'l running" where
  "happen P es s = fold (occur P) es s"

section \<open>Every event is part of a history\<close>

lemma idempotent_world:
  "snd (idempotent ttl e r m c w) = w \<or> snd (idempotent ttl e r m c w) = snd (m w)"
  by (auto simp: idempotent_def Let_def bindE_def nowE_def getE_def returnE_def split: prod.splits option.splits sum.splits)

lemma gate_world:
  "snd (gate A B e r G w) = w \<or> snd (gate A B e r G w) = snd (serve_endpoint A e r w)"
  using idempotent_world[of idem_ttl e r "serve_endpoint A e r" "gw_cache G" w]
  by (auto simp: gate_def bind_now Let_def bindE_def[of "serve_endpoint A e r"] bindE_def[of "idempotent _ _ _ _ _"] returnE_def
      split: prod.splits sum.splits)

lemma bot_touch_ledger: "bot_touch user w w' \<Longrightarrow> same_ledger w w'"
  by (drule bot_touch_eq, erule ssubst) (simp add: same_ledger_def)

lemma ledger_message:
  "moves same_ledger (Handle (wired S http key) (NewInstanceProcessor (Attest (wired S http key)) pool ch) up)"
proof -
  have "moves (bot_touch (up_user up)) (Handle (wired S http key) (NewInstanceProcessor (Attest (wired S http key)) pool ch) up)"
    by (rule issuer.touch_Handle) (simp add: NewInstanceProcessor_def)
  then show ?thesis using bot_touch_ledger by (rule moves_mono)
qed

lemma ledger_job_status: "moves same_ledger (Job_SetStatus i st)"
  unfolding Job_SetStatus_def by (rule ledger.update_rows) (simp add: same_ledger_def)

lemma ledger_delivery: "moves same_ledger (log_delivery job x a e)"
  unfolding log_delivery_def Delivery_Append_def
  by (intro ledger_rules ledger.RandomID ledger.insert_row) (simp add: same_ledger_def)

lemma ledger_push_turn: "moves same_ledger (push_turn (wired_scheduler cipher f g halt))"
proof -
  let ?P = "wired_scheduler cipher f g halt"
  have run: "moves same_ledger (Push_Run ?P j)" for j
    unfolding Push_Run_def
    by (intro ledger_rules ledger_job_status push_body_moves ledger.unheard_axioms ledger_delivery)
  have "moves same_ledger (drain ?P js)" for js
    by (induction js) (auto intro!: ledger_rules run ask_moves ledger.unheard_axioms)
  then show ?thesis unfolding push_turn_def Job_ListScheduled_def
    by (intro ledger_rules ledger.query)
qed

lemma tape_taped [simp]: "tape_only (taped_api f tok cmd q)"
  by (simp add: taped_api_def)

lemma tape_call: "(\<And>cmd q. tape_only (api tok cmd q)) \<Longrightarrow> tape_only (SendMessage api tok chat txt)"
proof -
  assume tape: "\<And>cmd q. tape_only (api tok cmd q)"
  have call: "\<exists>d ms. snd (api_call api tok cmd q dec w) = w\<lparr>draws := d, outbox := ms\<rparr>" for cmd q dec w
  proof (cases "tok = ''''")
    case True
    then have "snd (api_call api tok cmd q dec w) = w\<lparr>draws := draws w, outbox := outbox w\<rparr>" by (simp add: api_call_def)
    then show ?thesis by blast
  next
    case False
    then have "snd (api_call api tok cmd q dec w) = snd (api tok cmd q w)" by (simp add: api_call_def split: prod.split)
    then show ?thesis using tape[of cmd q] unfolding tape_only_def by simp
  qed
  show "tape_only (SendMessage api tok chat txt)" unfolding SendMessage_def
    by (rule tape_noted, unfold tape_only_def)
       (use call[of "''sendMessage''" "[(''chat_id'', chat), (''text'', txt)]" decode_ok] in
         \<open>auto split: prod.split sum.split; metis snd_conv\<close>)
qed

lemma ledger_notifier: "moves same_ledger (graceNotifier cipher (taped_api f) sess msg)"
  unfolding graceNotifier_def
  by (auto split: option.splits intro!: ledger_rules ledger_channels ask_moves ledger.unheard_axioms tape_call)

lemma ledger_settle:
  assumes "\<And>sess msg. moves same_ledger (notify sess msg)"
  shows "moves same_ledger (settle \<lparr>rc_pool = p, rc_elig = el, rc_notifier = Some notify\<rparr> res st tier sess)"
  using assms unfolding settle_def or_failed_def notifyGrace_def
  by (auto split: option.splits sum.splits intro!: ledger_rules ledger_upserts ledger_writes)

lemma ledger_Attest: "moves same_ledger (Attest (wired S http key) sch)"
  unfolding Attest_def by (intro ledger_rules moves_mono[OF issuer.attest_cache only_cache_ledger])

lemma ledger_Reconcile: "moves same_ledger (Reconcile (wired_reconciler (wired S http key) D (taped_api f)))"
proof -
  let ?R = "wired_reconciler (wired S http key) D (taped_api f)"
  have one: "moves same_ledger (reconcile_one ?R res x)" for res x
    unfolding reconcile_one_def Let_def wired_reconciler_def
    by (auto split: sum.splits intro!: ledger_rules ledger_Attest ledger_settle ledger_notifier)
  have "moves same_ledger (reconcile_loop ?R res xs)" for res xs
    by (induction xs arbitrary: res) (auto intro!: ledger_rules one)
  then show ?thesis unfolding Reconcile_def by (intro ledger_rules ledger_reads)
qed

lemma ledger_turn:
  assumes "ap_server (pf_api P) = wired S http key"
  shows "moves same_ledger (reconciliation_turn P c)"
  unfolding reconciliation_turn_def poll_def networksFor_def Attestor_ListActive_def assms Let_def
  by (auto split: sum.splits prod.splits intro!: ledger_rules ledger.query ledger_Reconcile)

lemma occur_serves:
  assumes api: "ap_server (pf_api P) = wired S http key" and hist: "serves (wired S http key) w (rn_world s)"
  shows "serves (wired S http key) w (rn_world (occur P ev s))"
proof -
  let ?S = "wired S http key"
  have same: "serves ?S w (snd (m (rn_world s)))" if "moves same_ledger m" for m :: "'x io"
    using serves.outside[OF hist] that by (simp add: moves_def)
  have req: "serves ?S w (snd (handle ?S q (rn_world s)))" for q by (rule serves.request[OF hist])
  show ?thesis
  proof (cases ev)
    case (HttpRequest e r)
    have "serves ?S w (snd (gate (pf_api P) (pf_bucket P) e r (rn_gateway s) (rn_world s)))"
      using gate_world[of "pf_api P" "pf_bucket P" e r "rn_gateway s" "rn_world s"] hist endpoint_serves[OF api hist] by metis
    then show ?thesis using HttpRequest by (simp split: prod.split) (metis snd_conv)
  next
    case (Credentials r su op)
    then show ?thesis using req[of "AdminReq (pf_month P) (peer_ip (pf_api P) r) (hr_cookie r) su op"] by (simp add: void_snd api)
  next
    case (Management r op)
    then show ?thesis using same[OF ledger_routes.manage_route_moves] by simp
  next
    case (Message ch up)
    then show ?thesis using same[OF ledger_message] by (simp add: api)
  next
    case Broadcasts
    then show ?thesis using same[OF ledger_push_turn] by (simp add: push_wiring_def)
  next
    case Reconciliation
    then show ?thesis using same[OF ledger_turn[OF api]] by (simp split: prod.split) (metis snd_conv)
  next
    case NonceGC
    then show ?thesis using req[of PurgeReq] by (simp add: void_snd)
  next
    case (Tick t)
    then show ?thesis using serves.outside[OF hist, of "(rn_world s)\<lparr>clock := t\<rparr>"] by (simp add: same_ledger_def)
  qed
qed

lemma happen_serves:
  assumes api: "ap_server (pf_api P) = wired S http key"
  shows "serves (wired S http key) w (rn_world s) \<Longrightarrow> serves (wired S http key) w (rn_world (happen P es s))"
  unfolding happen_def by (induction es arbitrary: s) (auto intro: occur_serves[OF api])

section \<open>Guarantees\<close>

text \<open>Whatever the running service does, in whatever order its requests, admin actions, bot
  messages, broadcasts, reconciliations and collections come and whatever fails, the grants
  change only by the atomic steps of the token service, so a rotation family keeps its shape;
  a revoked token stays revoked; and a banned holder without tokens and grants gets none.\<close>

theorem platform_keeps_guarantees:
  assumes api: "ap_server (pf_api P) = wired S http key"
  shows "serves (wired S http key) (rn_world s) (rn_world (happen P es s))
    \<and> (chains_ok (grants (rn_world s)) \<longrightarrow> chains_ok (grants (rn_world (happen P es s))))
    \<and> (dead_token jti (rn_world s) \<longrightarrow> dead_token jti (rn_world (happen P es s)))
    \<and> (shut_out sch (rn_world s) \<longrightarrow> shut_out sch (rn_world (happen P es s)))"
proof -
  have hist: "serves (wired S http key) (rn_world s) (rn_world (happen P es s))"
    by (rule happen_serves[OF api serves.start])
  then show ?thesis
    using lineage.history[OF hist] revocation.history[OF hist] ban.history[OF hist] steps_chains
    by (auto simp: stays_dead_def stays_shut_def)
qed

definition sample_platform :: "unit platform" where
  "sample_platform = \<lparr>pf_api = sample_api, pf_bucket = open_bucket, pf_month = (\<lambda>_. ''2026-01''), pf_default = (\<lambda>_ _ _. None),
     pf_bots = (\<lambda>_ _ _ _. None), pf_halt = (\<lambda>_. False), pf_botapi = (\<lambda>_ _ _ _. Inl ''no route''), pf_epoch = (\<lambda>_ _. Inr 500)\<rparr>"

lemma platform_keeps_guarantees_witness:
  "let s = \<lparr>rn_gateway = fresh_gateway, rn_cursor = Map.empty,
        rn_world = linking_world\<lparr>banned := [\<lparr>b_sch = ''aa'', b_reason = None, b_created = 0\<rparr>]\<rparr>\<rparr>
   in shut_out ''aa'' (rn_world (happen sample_platform [HttpRequest ActivationCreate linking_request, Reconciliation, Broadcasts] s))"
proof -
  let ?w = "linking_world\<lparr>banned := [\<lparr>b_sch = ''aa'', b_reason = None, b_created = 0\<rparr>]\<rparr>"
  let ?s = "\<lparr>rn_gateway = fresh_gateway, rn_cursor = Map.empty, rn_world = ?w\<rparr>"
  have "shut_out ''aa'' ?w"
    by (simp add: shut_out_def linking_world_def member_world_def sample_world_def empty_world_def)
  moreover have "ap_server (pf_api sample_platform) = wired sample_server no_http ''''"
    by (simp add: sample_platform_def sample_api_def member_server_def)
  ultimately show ?thesis
    using platform_keeps_guarantees[of sample_platform sample_server no_http "''''" ?s _ "''''" "''aa''"] by (simp add: Let_def)
qed

end
