(* ===== verification/Startup.thy ===== *)
theory Startup
  imports Platform Bech32
begin

text \<open>
  From the environment to a running service: \<open>internal/config\<close>, the numbering of SQL
  placeholders, the \<open>stake-hash\<close> command and \<open>buildServices\<close> of \<open>cmd/issuer\<close>.

  \<^item> An environment is a partial map (\<open>os.LookupEnv\<close>); \<open>time.ParseDuration\<close>, which computes
    with floating-point numbers, is the argument \<open>dur\<close> of \<open>Load\<close>. Warnings on the log are
    returned as the list of the variables they name.
  \<^item> An error of \<open>Load\<close> is a constructor per \<open>fmt.Errorf\<close>, without its text.
  \<^item> The cryptographic and HTTP primitives of the service are fields of \<open>primitives\<close>.
\<close>

section \<open>Configuration\<close>

type_synonym environment = "string \<rightharpoonup> string"

record config =
  cf_addr :: string
  cf_shutdown :: duration
  cf_issuer :: string
  cf_scope :: string
  cf_driver :: string
  cf_dsn :: string
  cf_fieldkey :: string
  cf_salt :: string
  cf_chainkey :: string
  cf_owners :: "string list"
  cf_proxy :: bool
  cf_tls :: bool

datatype config_error = BadDuration string | BadDriver string | EmptyDSN | EmptyIssuer

definition defaultAddr :: string where "defaultAddr = '':8080''"
definition defaultShutdownTimeout :: duration where "defaultShutdownTimeout = 15 * second"
definition defaultDBDriver :: string where "defaultDBDriver = ''sqlite''"
definition defaultDBDSN :: string where
  "defaultDBDSN = ''file:ouropass.db?_pragma=busy_timeout(5000)&_pragma=foreign_keys(1)''"

definition env :: "environment \<Rightarrow> string \<Rightarrow> string \<Rightarrow> string" where
  "env E key dflt = (case E key of Some v \<Rightarrow> if v \<noteq> '''' then v else dflt | None \<Rightarrow> dflt)"

definition envBool :: "environment \<Rightarrow> string \<Rightarrow> bool \<Rightarrow> bool" where
  "envBool E key dflt = (case E key of
       None \<Rightarrow> dflt
     | Some v \<Rightarrow>
         if trim_space v = '''' then dflt
         else if to_lower (trim_space v) \<in> {''1'', ''true'', ''yes'', ''on''} then True
         else if to_lower (trim_space v) \<in> {''0'', ''false'', ''no'', ''off''} then False
         else dflt)"

definition splitCSV :: "string \<Rightarrow> string list" where
  "splitCSV s = (if trim_space s = '''' then []
     else filter (\<lambda>v. v \<noteq> '''') (map trim_space (split_on (CHR '','') s)))"

definition validate_config :: "config \<Rightarrow> config_error option" where
  "validate_config c =
     (if cf_driver c \<noteq> ''sqlite'' \<and> cf_driver c \<noteq> ''postgres'' then Some (BadDriver (cf_driver c))
      else if trim_space (cf_dsn c) = '''' then Some EmptyDSN
      else if trim_space (cf_issuer c) = '''' then Some EmptyIssuer
      else None)"

definition deprecatedEnv :: "string list" where
  "deprecatedEnv =
     [''OUROPASS_CHAIN_KIND'', ''OUROPASS_KOIOS_BASE_URL'',
      ''OUROPASS_KOIOS_BASE_URL_MAINNET'', ''OUROPASS_KOIOS_BASE_URL_PREPROD'', ''OUROPASS_KOIOS_BASE_URL_PREVIEW'',
      ''OUROPASS_NODE_SOCKET'', ''OUROPASS_CARDANO_CLI'',
      ''OUROPASS_TELEGRAM_BOT'', ''OUROPASS_TELEGRAM_TOKEN'', ''OUROPASS_NETWORK'']"

definition read_config :: "environment \<Rightarrow> config" where
  "read_config E = \<lparr>cf_addr = env E ''OUROPASS_ADDR'' defaultAddr,
     cf_shutdown = defaultShutdownTimeout,
     cf_issuer = env E ''OUROPASS_ISSUER'' '''', cf_scope = env E ''OUROPASS_ISSUER'' '''',
     cf_driver = env E ''OUROPASS_DB_DRIVER'' defaultDBDriver,
     cf_dsn = env E ''OUROPASS_DB_DSN'' defaultDBDSN,
     cf_fieldkey = env E ''OUROPASS_FIELD_KEY'' '''',
     cf_salt = env E ''OUROPASS_SERVER_SALT'' '''',
     cf_chainkey = env E ''OUROPASS_CHAIN_API_KEY'' '''',
     cf_owners = splitCSV (env E ''OUROPASS_OWNER_KEYS'' ''''),
     cf_proxy = envBool E ''OUROPASS_TRUSTED_PROXY'' False,
     cf_tls = envBool E ''OUROPASS_TLS'' True\<rparr>"

text \<open>\<open>Load\<close>: the variables warned about, and the configuration or the error.\<close>

definition Load :: "(string \<Rightarrow> string + duration) \<Rightarrow> environment \<Rightarrow> string list \<times> (config_error + config)" where
  "Load dur E =
     (filter (\<lambda>k. E k \<noteq> None) deprecatedEnv,
      let c = read_config E; d = env E ''OUROPASS_SHUTDOWN_TIMEOUT'' '''' in
      case (if d = '''' then Inr c else (case dur d of Inl e \<Rightarrow> Inl (BadDuration e) | Inr v \<Rightarrow> Inr (c\<lparr>cf_shutdown := v\<rparr>))) of
        Inl e \<Rightarrow> Inl e
      | Inr c' \<Rightarrow> (case validate_config c' of Some e \<Rightarrow> Inl e | None \<Rightarrow> Inr c'))"

section \<open>Placeholders\<close>

datatype driver = SQLite | Postgres

text \<open>\<open>store.Rebind\<close>: \<open>?\<close> becomes \<open>$1\<close>, \<open>$2\<close>, ... on PostgreSQL.\<close>

fun rebind_from :: "nat \<Rightarrow> string \<Rightarrow> string" where
  "rebind_from n [] = []"
| "rebind_from n (c # cs) =
     (if c = CHR ''?'' then CHR ''$'' # nat_string (Suc n) @ rebind_from (Suc n) cs
      else c # rebind_from n cs)"

definition Rebind :: "driver \<Rightarrow> string \<Rightarrow> string" where
  "Rebind d q = (if d \<noteq> Postgres then q else rebind_from 0 q)"

definition sqlDriverName :: "string \<Rightarrow> string option" where
  "sqlDriverName d = (if d = ''sqlite'' then Some ''sqlite'' else if d = ''postgres'' then Some ''pgx'' else None)"

section \<open>The stake-hash command\<close>

datatype cli = Usage | Failed addr_error | Printed string

definition exit_code :: "cli \<Rightarrow> nat" where
  "exit_code r = (case r of Usage \<Rightarrow> 2 | Failed _ \<Rightarrow> 1 | Printed _ \<Rightarrow> 0)"

definition stakeHashCmd :: "string list \<Rightarrow> cli" where
  "stakeHashCmd args = (case args of
       [a] \<Rightarrow> if a = '''' then Usage
              else (case StakeHashFromRewardAddress a of Inl e \<Rightarrow> Failed e | Inr h \<Rightarrow> Printed h)
     | _ \<Rightarrow> Usage)"

section \<open>Wiring\<close>

record primitives =
  pr_cose :: cose_env
  pr_cipher :: "bytes \<Rightarrow> key_env"
  pr_sha256 :: "bytes \<Rightarrow> bytes"
  pr_hmac :: "bytes \<Rightarrow> bytes \<Rightarrow> bytes"
  pr_sign :: "string \<Rightarrow> bytes \<Rightarrow> string \<Rightarrow> (string \<times> json) list \<Rightarrow> string result"
  pr_jwks :: "public_key list \<Rightarrow> bytes result"
  pr_verify :: "instant \<Rightarrow> string \<Rightarrow> bytes \<Rightarrow> verified_token option"
  pr_jti :: "string \<Rightarrow> string option"
  pr_http :: http
  pr_url :: "string \<Rightarrow> bool"
  pr_text :: "err \<Rightarrow> string"
  pr_malformed :: "Http.http_request \<Rightarrow> string"

datatype wiring_error = BadSalt | BadFieldKey | FieldKeyLength nat

definition nonceTTL :: duration where "nonceTTL = 5 * minute"
definition accessTTL :: duration where "accessTTL = 24 * hour"
definition refreshTTL :: duration where "refreshTTL = 30 * 24 * hour"

definition NewFieldCipher :: "primitives \<Rightarrow> bytes \<Rightarrow> wiring_error + key_env" where
  "NewFieldCipher P key = (if length key \<noteq> 32 then Inl (FieldKeyLength (length key)) else Inr (pr_cipher P key))"

definition NewFieldCipherHex :: "primitives \<Rightarrow> string \<Rightarrow> wiring_error + key_env" where
  "NewFieldCipherHex P keyHex = (case hex_decode keyHex of None \<Rightarrow> Inl BadFieldKey | Some key \<Rightarrow> NewFieldCipher P key)"

text \<open>The roster of a network's chain source: the cached source forwards to Koios.\<close>

definition network_roster :: "http \<Rightarrow> string \<Rightarrow> string \<Rightarrow> roster" where
  "network_roster http apiKey network0 =
     (let network = (if network0 = '''' then ''mainnet'' else network0) in
      Some (Cached_Delegators (Some (Koios_Delegators http (NewKoiosSource (DefaultKoiosBaseURL network) apiKey network)))))"

text \<open>
  \<open>ap_server\<close> bundles the services' primitives, so it is there even when issuance is off;
  the switches \<open>ap_oauth\<close> and \<open>ap_keys\<close> are what the routes test (\<open>deps.OAuth == nil\<close>,
  \<open>deps.Keys == nil\<close>; the admin handlers test \<open>sv_hasKeys\<close> for the latter). Without a field
  key its \<open>sv_keys\<close> belong to no key.
\<close>

definition issuer_server :: "primitives \<Rightarrow> config \<Rightarrow> bytes \<Rightarrow> key_env option \<Rightarrow> server" where
  "issuer_server P cfg salt cipher = New
     \<lparr>sv_cose = pr_cose P, sv_keys = (case cipher of Some k \<Rightarrow> k | None \<Rightarrow> pr_cipher P []),
      sv_hasKeys = (cipher \<noteq> None),
      sv_attestors = attestorsFor (pr_http P) (cf_chainkey cfg),
      sv_issuer = cf_issuer cfg, sv_salt = salt,
      sv_accessTTL = accessTTL, sv_refreshTTL = refreshTTL, sv_codeTTL = 0,
      sv_sha256 = pr_sha256 P, sv_hmac = pr_hmac P, sv_sign = pr_sign P, sv_jwks = pr_jwks P,
      sv_verify = pr_verify P, sv_jti = pr_jti P\<rparr>"

definition buildServices :: "primitives \<Rightarrow> config \<Rightarrow> wiring_error + api" where
  "buildServices P cfg =
     (case (if cf_salt cfg = '''' then Some [] else hex_decode (cf_salt cfg)) of
        None \<Rightarrow> Inl BadSalt
      | Some salt \<Rightarrow>
     (case (if cf_fieldkey cfg = '''' then Inr None else map_sum id Some (NewFieldCipherHex P (cf_fieldkey cfg))) of
        Inl e \<Rightarrow> Inl e
      | Inr cipher \<Rightarrow> Inr
          \<lparr>ap_server = issuer_server P cfg salt cipher,
           ap_oauth = (cipher \<noteq> None \<and> length salt > 0),
           ap_keys = (cipher \<noteq> None),
           ap_wallet = Some nonceTTL,
           ap_admin = Some (Admin_New \<lparr>am_owners = cf_owners cfg, am_pool = cf_scope cfg, am_ttl = 0, am_nonceTTL = nonceTTL\<rparr>),
           ap_deps = \<lparr>dp_pool = cf_scope cfg, dp_cipher = cipher,
             dp_chain = Some (network_roster (pr_http P) (cf_chainkey cfg) ''mainnet''),
             dp_srcFor = Some (\<lambda>network. Inr (Some (network_roster (pr_http P) (cf_chainkey cfg) network)))\<rparr>,
           ap_trusted = cf_proxy cfg, ap_secure = cf_tls cfg,
           ap_url = pr_url P, ap_text = pr_text P, ap_malformed = pr_malformed P\<rparr>))"

section \<open>Lemmas\<close>

lemma splitCSV_clean:
  assumes "v \<in> set (splitCSV s)"
  shows "v \<noteq> '''' \<and> trim_space v = v \<and> CHR '','' \<notin> set v"
proof -
  obtain p where p: "p \<in> set (split_on (CHR '','') s)" "v = trim_space p" "v \<noteq> ''''"
    using assms by (auto simp: splitCSV_def split: if_splits)
  have "set (trim_space p) \<subseteq> set p"
    by (auto simp: trim_space_def trim_left_def dest!: set_dropWhileD)
  then show ?thesis using p split_on_no_sep[OF p(1)] by auto
qed

lemma split_join_on: "xs \<noteq> [] \<Longrightarrow> (\<forall>x \<in> set xs. c \<notin> set x) \<Longrightarrow> split_on c (join_on c xs) = xs"
proof (induction c xs rule: join_on.induct)
  case (2 c x)
  have "c \<notin> set x \<Longrightarrow> split_on c x = [x]" for x by (induction x) auto
  then show ?case using 2 by simp
next
  case (3 c x y zs)
  have "c \<notin> set x \<Longrightarrow> split_on c (x @ c # s) = x # split_on c s" for x s
    by (induction x) auto
  then show ?case using 3 by simp
qed simp

lemma read_config_sel [simp]:
  "cf_scope (read_config E) = cf_issuer (read_config E)"
  "cf_owners (read_config E) = splitCSV (env E ''OUROPASS_OWNER_KEYS'' '''')"
  "cf_tls (read_config E) = envBool E ''OUROPASS_TLS'' True"
  "cf_proxy (read_config E) = envBool E ''OUROPASS_TRUSTED_PROXY'' False"
  by (simp_all add: read_config_def)

lemma Load_Inr:
  "snd (Load dur E) = Inr c \<Longrightarrow> validate_config c = None
     \<and> c = (read_config E)\<lparr>cf_shutdown := cf_shutdown c\<rparr>"
  by (auto simp: Load_def Let_def split: if_splits sum.splits option.splits)

lemma env_deprecated: "k \<in> set deprecatedEnv \<Longrightarrow> k' \<notin> set deprecatedEnv \<Longrightarrow> env (E(k := v)) k' d = env E k' d"
  by (auto simp: env_def)

lemma envBool_deprecated:
  "k \<in> set deprecatedEnv \<Longrightarrow> k' \<notin> set deprecatedEnv \<Longrightarrow> envBool (E(k := v)) k' d = envBool E k' d"
  by (auto simp: envBool_def)

lemma live_variables:
  "\<forall>k \<in> {''OUROPASS_ADDR'', ''OUROPASS_ISSUER'', ''OUROPASS_DB_DRIVER'', ''OUROPASS_DB_DSN'',
     ''OUROPASS_FIELD_KEY'', ''OUROPASS_SERVER_SALT'', ''OUROPASS_CHAIN_API_KEY'', ''OUROPASS_OWNER_KEYS'',
     ''OUROPASS_TRUSTED_PROXY'', ''OUROPASS_TLS'', ''OUROPASS_SHUTDOWN_TIMEOUT''}. k \<notin> set deprecatedEnv"
  by code_simp

lemma read_config_deprecated: "k \<in> set deprecatedEnv \<Longrightarrow> read_config (E(k := v)) = read_config E"
  unfolding read_config_def using live_variables by (simp add: env_deprecated envBool_deprecated)

lemma rebind_from_plain: "CHR ''?'' \<notin> set s \<Longrightarrow> rebind_from n (s @ r) = s @ rebind_from n r"
  by (induction s) auto

text \<open>The pieces between the placeholders, numbered from \<open>n\<close>.\<close>

fun numbered :: "nat \<Rightarrow> string list \<Rightarrow> string" where
  "numbered n [] = []"
| "numbered n (p # ps) = CHR ''$'' # nat_string (Suc n) @ p @ numbered (Suc n) ps"

lemma rebind_from_split:
  "rebind_from n q = (case split_on (CHR ''?'') q of [] \<Rightarrow> [] | p # ps \<Rightarrow> p @ numbered n ps)"
  by (induction q arbitrary: n) (auto split: list.splits)

lemma nat_string_plain: "CHR ''?'' \<notin> set (nat_string n)"
proof
  assume "CHR ''?'' \<in> set (nat_string n)"
  then obtain d where d: "d < 10" "CHR ''?'' = digit_char d" using nat_string_digits by blast
  have "\<forall>d \<in> set [0 ..< 10]. CHR ''?'' \<noteq> digit_char d" by code_simp
  then have "CHR ''?'' \<noteq> digit_char d" using d(1) by (metis atLeastLessThan_iff set_upt zero_le)
  then show False using d(2) by simp
qed

lemma rebind_from_no_placeholder: "CHR ''?'' \<notin> set (rebind_from n q)"
  by (induction q arbitrary: n) (auto simp: nat_string_plain)

lemma hex_encode_owner:
  assumes "length c = 28"
  shows "hex_encode c \<noteq> ''''" "trim_space (hex_encode c) = hex_encode c" "CHR '','' \<notin> set (hex_encode c)"
proof -
  show ne: "hex_encode c \<noteq> ''''" using assms length_hex_encode[of c] by (metis list.size(3) mult_eq_0_iff zero_neq_numeral)
  show "trim_space (hex_encode c) = hex_encode c"
    using hex_encode_no_space ne hd_in_set last_in_set by (intro trim_space_id) blast+
  have "\<forall>n \<in> set [0 ..< 16]. CHR '','' \<noteq> hex_digit n" by code_simp
  then have "n < 16 \<Longrightarrow> CHR '','' \<noteq> hex_digit n" for n by simp
  then show "CHR '','' \<notin> set (hex_encode c)"
    by (induction c rule: hex_encode.induct) (auto simp: less_mult_imp_div_less)
qed

lemma splitCSV_join:
  assumes "\<forall>k \<in> set ks. k \<noteq> '''' \<and> trim_space k = k \<and> CHR '','' \<notin> set k"
  shows "splitCSV (join_on (CHR '','') ks) = ks"
proof (cases ks)
  case (Cons k ks')
  let ?s = "join_on (CHR '','') ks"
  have split: "split_on (CHR '','') ?s = ks" using assms Cons by (intro split_join_on) auto
  have "trim_space ?s \<noteq> ''''"
  proof
    assume "trim_space ?s = ''''"
    moreover have "set k \<subseteq> set ?s" using Cons by (cases ks') auto
    ultimately have "trim_space k = ''''" by (auto simp: trim_space_blank)
    then show False using assms Cons by auto
  qed
  then show ?thesis using assms split by (simp add: splitCSV_def map_idI)
qed (simp add: splitCSV_def trim_space_def trim_left_def)

lemma issuer_server_wired:
  "issuer_server P cfg salt cipher = wired (issuer_server P cfg salt cipher) (pr_http P) (cf_chainkey cfg)"
  by (simp add: issuer_server_def New_def wired_def)

lemma buildServices_Inr:
  assumes "buildServices P cfg = Inr A"
  obtains salt cipher where "ap_server A = issuer_server P cfg salt cipher"
    "(if cf_salt cfg = '''' then Some [] else hex_decode (cf_salt cfg)) = Some salt"
    "(if cf_fieldkey cfg = '''' then Inr None else map_sum id Some (NewFieldCipherHex P (cf_fieldkey cfg))) = Inr cipher"
    "ap_oauth A = (cipher \<noteq> None \<and> length salt > 0)" "ap_keys A = (cipher \<noteq> None)"
    "ap_admin A = Some (Admin_New \<lparr>am_owners = cf_owners cfg, am_pool = cf_scope cfg, am_ttl = 0, am_nonceTTL = nonceTTL\<rparr>)"
  using assms unfolding buildServices_def by (auto split: option.splits sum.splits)

section \<open>Guarantees\<close>

text \<open>What a configuration that loads satisfies: a known driver, a data source and an issuer, one
  first-party scope, which is the issuer; clean owner keys; and the safe defaults of the two
  switches at the edge when their variables are unset or unreadable.\<close>

theorem configuration_checked:
  assumes "snd (Load dur E) = Inr c"
  shows "sqlDriverName (cf_driver c) \<noteq> None \<and> trim_space (cf_dsn c) \<noteq> '''' \<and> trim_space (cf_issuer c) \<noteq> ''''
    \<and> cf_scope c = cf_issuer c
    \<and> (\<forall>k \<in> set (cf_owners c). k \<noteq> '''' \<and> trim_space k = k \<and> CHR '','' \<notin> set k)
    \<and> (\<not> cf_tls c \<longrightarrow> (\<exists>v. E ''OUROPASS_TLS'' = Some v \<and> to_lower (trim_space v) \<in> {''0'', ''false'', ''no'', ''off''}))
    \<and> (cf_proxy c \<longrightarrow> (\<exists>v. E ''OUROPASS_TRUSTED_PROXY'' = Some v
          \<and> to_lower (trim_space v) \<in> {''1'', ''true'', ''yes'', ''on''}))"
proof -
  note c = Load_Inr[OF assms]
  have "cf_scope c = cf_issuer c" "cf_owners c = splitCSV (env E ''OUROPASS_OWNER_KEYS'' '''')"
      and sw: "cf_tls c = envBool E ''OUROPASS_TLS'' True" "cf_proxy c = envBool E ''OUROPASS_TRUSTED_PROXY'' False"
    using arg_cong[OF c[THEN conjunct2], of cf_scope] arg_cong[OF c[THEN conjunct2], of cf_issuer]
      arg_cong[OF c[THEN conjunct2], of cf_owners] arg_cong[OF c[THEN conjunct2], of cf_tls]
      arg_cong[OF c[THEN conjunct2], of cf_proxy] by simp_all
  moreover have "sqlDriverName (cf_driver c) \<noteq> None \<and> trim_space (cf_dsn c) \<noteq> '''' \<and> trim_space (cf_issuer c) \<noteq> ''''"
    using c by (auto simp: validate_config_def sqlDriverName_def split: if_splits)
  moreover have "\<not> cf_tls c \<Longrightarrow> \<exists>v. E ''OUROPASS_TLS'' = Some v \<and> to_lower (trim_space v) \<in> {''0'', ''false'', ''no'', ''off''}"
    by (auto simp: sw envBool_def split: option.splits if_splits)
  moreover have "cf_proxy c \<Longrightarrow> \<exists>v. E ''OUROPASS_TRUSTED_PROXY'' = Some v \<and> to_lower (trim_space v) \<in> {''1'', ''true'', ''yes'', ''on''}"
    by (auto simp: sw envBool_def split: option.splits if_splits)
  ultimately show ?thesis using splitCSV_clean by simp
qed

definition sample_env :: environment where
  "sample_env = [''OUROPASS_ISSUER'' \<mapsto> ''https://p'', ''OUROPASS_FIELD_KEY'' \<mapsto> replicate 64 (CHR ''0''),
     ''OUROPASS_SERVER_SALT'' \<mapsto> ''ab'', ''OUROPASS_TLS'' \<mapsto> '' Off '',
     ''OUROPASS_OWNER_KEYS'' \<mapsto> hex_encode (replicate 28 7)]"

definition no_durations :: "string \<Rightarrow> string + duration" where "no_durations _ = Inl ''bad''"

lemma sample_env_loads: "snd (Load no_durations sample_env) = Inr (read_config sample_env)"
  by code_simp

lemma configuration_checked_witness:
  "snd (Load no_durations sample_env) = Inr (read_config sample_env) \<and> \<not> cf_tls (read_config sample_env)
   \<and> (\<exists>v. sample_env ''OUROPASS_TLS'' = Some v \<and> to_lower (trim_space v) \<in> {''0'', ''false'', ''no'', ''off''})"
proof -
  have "\<not> cf_tls (read_config sample_env)" by code_simp
  then show ?thesis using configuration_checked[OF sample_env_loads] sample_env_loads by simp
qed

text \<open>A variable that was withdrawn is reported and changes nothing else.\<close>

theorem withdrawn_variables_ignored:
  assumes "k \<in> set deprecatedEnv"
  shows "snd (Load dur (E(k := v))) = snd (Load dur E) \<and> (v \<noteq> None \<longrightarrow> k \<in> set (fst (Load dur (E(k := v)))))"
proof -
  have "env (E(k := v)) ''OUROPASS_SHUTDOWN_TIMEOUT'' '''' = env E ''OUROPASS_SHUTDOWN_TIMEOUT'' ''''"
    using assms live_variables by (simp add: env_deprecated)
  then show ?thesis using assms by (simp add: Load_def read_config_deprecated)
qed

lemma withdrawn_variables_ignored_witness:
  "snd (Load no_durations (sample_env(''OUROPASS_NETWORK'' \<mapsto> ''preprod''))) = snd (Load no_durations sample_env)"
proof -
  have "''OUROPASS_NETWORK'' \<in> set deprecatedEnv" by code_simp
  from withdrawn_variables_ignored[OF this] show ?thesis by blast
qed

text \<open>Rebinding a query for PostgreSQL replaces its placeholders, and nothing else, by \<open>$1\<close>,
  \<open>$2\<close>, ... from left to right: it is the text between the placeholders with the numbers in
  between, and no placeholder is left. On SQLite the query is unchanged.\<close>

theorem Rebind_numbers:
  "Rebind Postgres q = hd (split_on (CHR ''?'') q) @ numbered 0 (tl (split_on (CHR ''?'') q))
    \<and> CHR ''?'' \<notin> set (Rebind Postgres q)
    \<and> length (tl (split_on (CHR ''?'') q)) = count_char (CHR ''?'') q
    \<and> Rebind SQLite q = q"
proof -
  have "split_on (CHR ''?'') q \<noteq> []" by simp
  then have "rebind_from 0 q = hd (split_on (CHR ''?'') q) @ numbered 0 (tl (split_on (CHR ''?'') q))"
    by (simp add: rebind_from_split split: list.splits)
  moreover have "CHR ''?'' \<notin> set (Rebind Postgres q)" by (simp add: Rebind_def rebind_from_no_placeholder)
  ultimately show ?thesis by (metis Rebind_def length_split_on length_tl diff_Suc_1 driver.distinct(1))
qed

lemma Rebind_example:
  "Rebind Postgres ''UPDATE t SET a = ? WHERE b = ?'' = ''UPDATE t SET a = $1 WHERE b = $2''"
  by code_simp

text \<open>C19: The documented bootstrap of an owner: what \<open>stake-hash\<close> prints for the stake addresses of
  a set of wallets, joined with commas into \<open>OUROPASS_OWNER_KEYS\<close>, makes exactly these wallets
  the owners of the service that starts, and a login with one of them is an owner's login.\<close>

theorem owner_bootstrap:
  assumes creds: "\<forall>c \<in> set creds. length c = 28"
    and addrs: "list_all2 (\<lambda>c a. stakeAddressFromCredential (hex_encode c) network = Inr a) creds addrs"
    and printed: "list_all2 (\<lambda>a k. stakeHashCmd [a] = Printed k) addrs ks"
    and listed: "E ''OUROPASS_OWNER_KEYS'' = Some (join_on (CHR '','') ks)"
    and up: "snd (Load dur E) = Inr cfg" "buildServices P cfg = Inr A" "ap_admin A = Some M"
  shows "set (am_owners M) = hex_encode ` set creds
    \<and> (\<forall>c \<in> set creds. Admin_Verify (ap_server A) M key nonce sig ip w = (Inr (tok, role), w')
         \<and> fst (Wallet_Verify (sv_cose (ap_server A)) NonceAdminLogin key nonce sig w) = Inr (hex_encode c)
         \<longrightarrow> role = RoleOwner)"
proof -
  have one: "k = hex_encode c" if "length c = 28" "stakeAddressFromCredential (hex_encode c) network = Inr a"
      "stakeHashCmd [a] = Printed k" for c a k
    using stake_roundtrip[of "hex_encode c" c network] that by (auto simp: stakeHashCmd_def split: if_splits sum.splits)
  have ks: "ks = map hex_encode creds"
    using addrs printed creds
  proof (induction creds arbitrary: addrs ks)
    case (Cons c cs)
    then show ?case using one[of c] by (auto simp: list_all2_Cons1)
  qed simp
  have "cf_owners cfg = splitCSV (env E ''OUROPASS_OWNER_KEYS'' '''')"
    using arg_cong[OF Load_Inr[OF up(1), THEN conjunct2], of cf_owners] by simp
  also have "\<dots> = splitCSV (join_on (CHR '','') ks)" by (simp add: env_def listed)
  also have "\<dots> = ks" by (rule splitCSV_join) (use creds hex_encode_owner in \<open>auto simp: ks\<close>)
  finally have owners: "set (am_owners M) = hex_encode ` set creds"
    using up(2,3) creds hex_encode_owner by (auto elim!: buildServices_Inr simp: Admin_New_def ks)
  show ?thesis
  proof (intro conjI ballI impI owners)
    fix c assume c: "c \<in> set creds" and ok: "Admin_Verify (ap_server A) M key nonce sig ip w = (Inr (tok, role), w')
         \<and> fst (Wallet_Verify (sv_cose (ap_server A)) NonceAdminLogin key nonce sig w) = Inr (hex_encode c)"
    then show "role = RoleOwner" using login_sound[OF ok[THEN conjunct1]] owners by fastforce
  qed
qed

definition sample_primitives :: primitives where
  "sample_primitives = \<lparr>pr_cose = sv_cose sample_server, pr_cipher = (\<lambda>_. sample_keys),
     pr_sha256 = sv_sha256 sample_server, pr_hmac = sv_hmac sample_server, pr_sign = sv_sign sample_server,
     pr_jwks = sv_jwks sample_server, pr_verify = sv_verify sample_server, pr_jti = sv_jti sample_server,
     pr_http = no_http, pr_url = ap_url sample_api, pr_text = ap_text sample_api, pr_malformed = ap_malformed sample_api\<rparr>"

lemma sample_env_builds: "\<exists>A. buildServices sample_primitives (read_config sample_env) = Inr A \<and> ap_oauth A"
proof -
  have salt: "cf_salt (read_config sample_env) = ''ab''" "cf_fieldkey (read_config sample_env) = replicate 64 (CHR ''0'')"
    by code_simp+
  have key: "hex_decode (replicate 64 (CHR ''0'')) = Some (replicate 32 0)" "hex_decode ''ab'' = Some [0xab]" by code_simp+
  have "NewFieldCipherHex sample_primitives (cf_fieldkey (read_config sample_env)) = Inr sample_keys"
    by (simp only: NewFieldCipherHex_def salt key option.case) (simp add: NewFieldCipher_def sample_primitives_def)
  moreover have "cf_fieldkey (read_config sample_env) \<noteq> ''''" "cf_salt (read_config sample_env) \<noteq> ''''"
    by (simp_all only: salt) code_simp+
  moreover have "hex_decode (cf_salt (read_config sample_env)) = Some [0xab]" by (simp only: salt key)
  ultimately show ?thesis unfolding buildServices_def by simp
qed

lemma owner_bootstrap_witness:
  "\<exists>a A M. stakeAddressFromCredential (hex_encode (replicate 28 7)) ''mainnet'' = Inr a
     \<and> stakeHashCmd [a] = Printed (hex_encode (replicate 28 7))
     \<and> buildServices sample_primitives (read_config sample_env) = Inr A \<and> ap_admin A = Some M
     \<and> set (am_owners M) = {hex_encode (replicate 28 7)}"
proof -
  obtain a where a: "stakeAddressFromCredential (hex_encode (replicate 28 7)) ''mainnet'' = Inr a"
      "StakeHashFromRewardAddress a = Inr (hex_encode (replicate 28 7))"
    using stake_roundtrip[of "hex_encode (replicate 28 7)" "replicate 28 7" "''mainnet''"] by auto
  then have cmd: "stakeHashCmd [a] = Printed (hex_encode (replicate 28 7))"
    by (auto simp: stakeHashCmd_def StakeHashFromRewardAddress_def trim_space_def trim_left_def)
  obtain A where A: "buildServices sample_primitives (read_config sample_env) = Inr A"
    using sample_env_builds by blast
  then obtain M where M: "ap_admin A = Some M" by (auto elim!: buildServices_Inr)
  have "sample_env ''OUROPASS_OWNER_KEYS'' = Some (join_on (CHR '','') [hex_encode (replicate 28 7)])"
    by (simp add: sample_env_def)
  from owner_bootstrap[OF _ _ _ this sample_env_loads A M, of "[replicate 28 7]" "''mainnet''" "[a]"]
  show ?thesis using a cmd A M by auto
qed

text \<open>C20: Issuance is on exactly when both secrets are set, the field key being 32 bytes in hex; a key
  of any other form keeps the service from starting. While it is off, every route that would
  issue, redeem, introspect or revoke answers 501 and touches nothing.\<close>

theorem issuance_needs_secrets:
  assumes "buildServices P cfg = Inr A"
  shows "(ap_oauth A \<longleftrightarrow> cf_fieldkey cfg \<noteq> '''' \<and> cf_salt cfg \<noteq> '''')
    \<and> (cf_fieldkey cfg \<noteq> '''' \<longrightarrow> (\<exists>key. hex_decode (cf_fieldkey cfg) = Some key \<and> length key = 32))
    \<and> (\<not> ap_oauth A \<longrightarrow> (\<forall>e \<in> {Connect, ConnectAuthorize, OauthToken, Bind, ActivationCreate, IntrospectToken, RevokeToken}.
         \<forall>r w. serve_endpoint A e r w = (Inr (ErrorBody 501 ''not_implemented'' ''endpoint not yet implemented''), w)))
    \<and> (\<forall>r w. cf_fieldkey cfg = '''' \<longrightarrow>
         serve_endpoint A JWKS r w = (Inr (ErrorBody 501 ''not_implemented'' ''endpoint not yet implemented''), w))"
proof -
  obtain salt cipher where b: "(if cf_salt cfg = '''' then Some [] else hex_decode (cf_salt cfg)) = Some salt"
    "(if cf_fieldkey cfg = '''' then Inr None else map_sum id Some (NewFieldCipherHex P (cf_fieldkey cfg))) = Inr cipher"
    "ap_oauth A = (cipher \<noteq> None \<and> length salt > 0)" "ap_keys A = (cipher \<noteq> None)"
    by (rule buildServices_Inr[OF assms]) iprover
  have salt: "length salt > 0 \<longleftrightarrow> cf_salt cfg \<noteq> ''''"
    using b(1) hex_decode_length[of "cf_salt cfg" salt] by (auto split: if_splits)
  have cipher: "cipher \<noteq> None \<longleftrightarrow> cf_fieldkey cfg \<noteq> ''''"
    using b(2) by (cases "NewFieldCipherHex P (cf_fieldkey cfg)") (auto split: if_splits)
  have "\<exists>key. hex_decode (cf_fieldkey cfg) = Some key \<and> length key = 32" if "cf_fieldkey cfg \<noteq> ''''"
    using b(2) that
    by (cases "hex_decode (cf_fieldkey cfg)") (auto simp: NewFieldCipherHex_def NewFieldCipher_def split: if_splits)
  moreover have "\<forall>e \<in> {Connect, ConnectAuthorize, OauthToken, Bind, ActivationCreate, IntrospectToken, RevokeToken}.
         \<forall>r w. serve_endpoint A e r w = (Inr (ErrorBody 501 ''not_implemented'' ''endpoint not yet implemented''), w)"
      if "\<not> ap_oauth A"
    using that by (simp add: connect_def connectAuthorize_def oauthToken_def bindPage_def activationCreate_def
        introspect_def revoke_def notImplemented_def returnE_def)
  moreover have "\<forall>r w. serve_endpoint A JWKS r w = (Inr (ErrorBody 501 ''not_implemented'' ''endpoint not yet implemented''), w)"
      if "cf_fieldkey cfg = ''''"
    using that cipher b(4) by (simp add: jwks_def notImplemented_def returnE_def)
  ultimately show ?thesis using b(3) salt cipher by blast
qed

lemma issuance_needs_secrets_witness:
  "\<exists>A. buildServices sample_primitives ((read_config sample_env)\<lparr>cf_salt := ''''\<rparr>) = Inr A
     \<and> serve_endpoint A OauthToken linking_request empty_world
         = (Inr (ErrorBody 501 ''not_implemented'' ''endpoint not yet implemented''), empty_world)"
proof -
  obtain B where B: "buildServices sample_primitives (read_config sample_env) = Inr B" using sample_env_builds by blast
  obtain cipher where "(if cf_fieldkey (read_config sample_env) = '''' then Inr None
      else map_sum id Some (NewFieldCipherHex sample_primitives (cf_fieldkey (read_config sample_env)))) = Inr cipher"
    by (rule buildServices_Inr[OF B])
  then obtain A where A: "buildServices sample_primitives ((read_config sample_env)\<lparr>cf_salt := ''''\<rparr>) = Inr A"
    unfolding buildServices_def
    by (cases "cf_fieldkey (read_config sample_env) = ''''") auto
  have "\<not> ap_oauth A" using issuance_needs_secrets[OF A] by simp
  then show ?thesis using issuance_needs_secrets[OF A] A by blast
qed

text \<open>The service that starts from an environment: whatever it then does, in whatever order its
  requests, admin actions, bot messages, broadcasts, reconciliations and collections come and
  whatever fails, the grants change only by the atomic steps of the token service, so a
  rotation family keeps its shape; a revoked token stays revoked; and a banned holder
  without tokens and grants gets none. Its tokens name the configured issuer.\<close>

theorem started_service_keeps_guarantees:
  assumes "snd (Load dur E) = Inr cfg" and built: "buildServices P cfg = Inr (pf_api Q)"
  shows "serves (ap_server (pf_api Q)) (rn_world s) (rn_world (happen Q es s))
    \<and> (chains_ok (grants (rn_world s)) \<longrightarrow> chains_ok (grants (rn_world (happen Q es s))))
    \<and> (dead_token jti (rn_world s) \<longrightarrow> dead_token jti (rn_world (happen Q es s)))
    \<and> (shut_out sch (rn_world s) \<longrightarrow> shut_out sch (rn_world (happen Q es s)))
    \<and> sv_issuer (ap_server (pf_api Q)) = env E ''OUROPASS_ISSUER'' ''''"
proof -
  obtain salt cipher where server: "ap_server (pf_api Q) = issuer_server P cfg salt cipher"
    by (rule buildServices_Inr[OF built])
  let ?S = "issuer_server P cfg salt cipher"
  have wired: "ap_server (pf_api Q) = wired ?S (pr_http P) (cf_chainkey cfg)"
    using server issuer_server_wired by simp
  have hist: "serves (wired ?S (pr_http P) (cf_chainkey cfg)) (rn_world s) (rn_world (happen Q es s))"
    by (rule happen_serves[OF wired serves.start])
  have "sv_issuer (ap_server (pf_api Q)) = cf_issuer (read_config E)"
    using arg_cong[OF Load_Inr[OF assms(1), THEN conjunct2], of cf_issuer] by (simp add: server issuer_server_def New_def)
  then have "sv_issuer (ap_server (pf_api Q)) = env E ''OUROPASS_ISSUER'' ''''" by (simp add: read_config_def)
  then show ?thesis
    using hist lineage.history[OF hist] revocation.history[OF hist] ban.history[OF hist] steps_chains
    by (auto simp: stays_dead_def stays_shut_def wired)
qed

lemma started_service_keeps_guarantees_witness:
  "\<exists>A. buildServices sample_primitives (read_config sample_env) = Inr A \<and>
   (let s = \<lparr>rn_gateway = fresh_gateway, rn_cursor = Map.empty,
        rn_world = linking_world\<lparr>banned := [\<lparr>b_sch = ''aa'', b_reason = None, b_created = 0\<rparr>]\<rparr>\<rparr>
    in shut_out ''aa'' (rn_world (happen (sample_platform\<lparr>pf_api := A\<rparr>)
          [HttpRequest ActivationCreate linking_request, Reconciliation, Broadcasts] s)))"
proof -
  let ?w = "linking_world\<lparr>banned := [\<lparr>b_sch = ''aa'', b_reason = None, b_created = 0\<rparr>]\<rparr>"
  let ?s = "\<lparr>rn_gateway = fresh_gateway, rn_cursor = Map.empty, rn_world = ?w\<rparr>"
  obtain A where A: "buildServices sample_primitives (read_config sample_env) = Inr A"
    using sample_env_builds by blast
  then have built: "buildServices sample_primitives (read_config sample_env) = Inr (pf_api (sample_platform\<lparr>pf_api := A\<rparr>))"
    by simp
  have "shut_out ''aa'' ?w"
    by (simp add: shut_out_def linking_world_def member_world_def sample_world_def empty_world_def)
  then show ?thesis
    using started_service_keeps_guarantees[OF sample_env_loads built, of ?s _ "''''" "''aa''"] A by (simp add: Let_def)
qed

end
