(* ===== verification/Migrate.thy ===== *)
theory Migrate
  imports World
begin

text \<open>
  The migrations of \<open>internal/store/migrate.go\<close>: which files run, in which order, statement by
  statement, each file in one transaction with the row that records it.

  \<^item> What a statement does to the tables is the parameter \<open>run\<close> (\<open>None\<close>: the database rejects
    it); the database is any type \<open>'db\<close>, the table \<open>schema_migrations\<close> is kept apart from it.
  \<^item> As in the theory \<open>World\<close>, every statement, \<open>BEGIN\<close> and \<open>COMMIT\<close> takes the next entry of a
    schedule of faults. A process that dies in the middle of a run is a schedule that fails
    from that point on: what is not committed is rolled back.
  \<^item> A directory of the embedded file system is the list of its entries.
\<close>

section \<open>State\<close>

record 'db schema =
  mg_db :: 'db
  mg_versions :: "string list option"
  mg_faults :: "bool list"

datatype node = Folder | Content string

type_synonym filesystem = "string \<rightharpoonup> (string \<times> node) list"

datatype migrate_error =
    EnsureFailed | NoDirectory string | CheckFailed string | ReadFailed string
  | ApplyFailed string | RecordFailed string | TxFailed

type_synonym ('db, 'a) migrating = "'db schema \<Rightarrow> (migrate_error + 'a) \<times> 'db schema"

definition mg_faulty :: "'db schema \<Rightarrow> bool" where
  "mg_faulty s \<longleftrightarrow> mg_faults s \<noteq> [] \<and> hd (mg_faults s)"

definition mg_skip :: "'db schema \<Rightarrow> 'db schema" where
  "mg_skip s = s\<lparr>mg_faults := tl (mg_faults s)\<rparr>"

definition mg_exec :: "migrate_error \<Rightarrow> ('db schema \<Rightarrow> ('a \<times> 'db schema) option) \<Rightarrow> ('db, 'a) migrating" where
  "mg_exec e f s =
     (if mg_faulty s then (Inl e, mg_skip s)
      else (case f (mg_skip s) of None \<Rightarrow> (Inl e, mg_skip s) | Some (x, s') \<Rightarrow> (Inr x, s')))"

definition mg_tx :: "('db, 'a) migrating \<Rightarrow> ('db, 'a) migrating" where
  "mg_tx m s =
     (if mg_faulty s then (Inl TxFailed, mg_skip s)
      else (case m (mg_skip s) of
          (Inl e, s') \<Rightarrow> (Inl e, s\<lparr>mg_faults := mg_faults s'\<rparr>)
        | (Inr x, s') \<Rightarrow> if mg_faulty s' then (Inl TxFailed, s\<lparr>mg_faults := tl (mg_faults s')\<rparr>)
                        else (Inr x, mg_skip s')))"

section \<open>Statements of a file\<close>

text \<open>The line up to its first \<open>--\<close>.\<close>

fun cut_comment :: "string \<Rightarrow> string" where
  "cut_comment (a # b # cs) = (if a = CHR ''-'' \<and> b = CHR ''-'' then [] else a # cut_comment (b # cs))"
| "cut_comment cs = cs"

definition splitStatements :: "string \<Rightarrow> string list" where
  "splitStatements body =
     (let clean = concat (map (\<lambda>line. cut_comment line @ [CHR 0x0A]) (split_on (CHR 0x0A) body))
      in filter (\<lambda>s. trim_space s \<noteq> '''') (split_on (CHR '';'') clean))"

section \<open>Applying migrations\<close>

fun apply_statements :: "(string \<Rightarrow> 'db \<Rightarrow> 'db option) \<Rightarrow> string \<Rightarrow> string list \<Rightarrow> ('db, unit) migrating" where
  "apply_statements run version [] s = (Inr (), s)"
| "apply_statements run version (stmt # rest) s =
     (case mg_exec (ApplyFailed version) (\<lambda>s. map_option (\<lambda>d. ((), s\<lparr>mg_db := d\<rparr>)) (run stmt (mg_db s))) s of
        (Inl e, s') \<Rightarrow> (Inl e, s')
      | (Inr _, s') \<Rightarrow> apply_statements run version rest s')"

text \<open>The version is the primary key of \<open>schema_migrations\<close>.\<close>

definition record_version :: "string \<Rightarrow> ('db, unit) migrating" where
  "record_version version = mg_exec (RecordFailed version) (\<lambda>s. case mg_versions s of
       None \<Rightarrow> None
     | Some vs \<Rightarrow> if version \<in> set vs then None else Some ((), s\<lparr>mg_versions := Some (vs @ [version])\<rparr>))"

definition applyOne :: "(string \<Rightarrow> 'db \<Rightarrow> 'db option) \<Rightarrow> string \<Rightarrow> string \<Rightarrow> ('db, unit) migrating" where
  "applyOne run version body = mg_tx (\<lambda>s. case apply_statements run version (splitStatements body) s of
       (Inl e, s') \<Rightarrow> (Inl e, s')
     | (Inr _, s') \<Rightarrow> record_version version s')"

definition migrationApplied :: "string \<Rightarrow> ('db, bool) migrating" where
  "migrationApplied version = mg_exec (CheckFailed version) (\<lambda>s. case mg_versions s of
       None \<Rightarrow> None
     | Some vs \<Rightarrow> Some (count_list vs version > 0, s))"

definition migration_files :: "(string \<times> node) list \<Rightarrow> string list" where
  "migration_files entries =
     sort (map fst (filter (\<lambda>(name, n). n \<noteq> Folder \<and> has_suffix name ''.sql'') entries))"

definition version_of :: "string \<Rightarrow> string" where
  "version_of name = (if has_suffix name ''.sql'' then take (length name - 4) name else name)"

fun migrate_files :: "(string \<Rightarrow> 'db \<Rightarrow> 'db option) \<Rightarrow> (string \<times> node) list \<Rightarrow> string list \<Rightarrow> ('db, unit) migrating" where
  "migrate_files run entries [] s = (Inr (), s)"
| "migrate_files run entries (name # names) s =
     (case migrationApplied (version_of name) s of
        (Inl e, s1) \<Rightarrow> (Inl e, s1)
      | (Inr True, s1) \<Rightarrow> migrate_files run entries names s1
      | (Inr False, s1) \<Rightarrow>
          (case map_of entries name of
             Some (Content body) \<Rightarrow>
               (case applyOne run (version_of name) body s1 of
                  (Inl e, s2) \<Rightarrow> (Inl e, s2)
                | (Inr _, s2) \<Rightarrow> migrate_files run entries names s2)
           | _ \<Rightarrow> (Inl (ReadFailed name), s1)))"

definition ensure_table :: "('db, unit) migrating" where
  "ensure_table = mg_exec EnsureFailed (\<lambda>s. Some ((), s\<lparr>mg_versions := (case mg_versions s of None \<Rightarrow> Some [] | vs \<Rightarrow> vs)\<rparr>))"

definition MigrateFS :: "(string \<Rightarrow> 'db \<Rightarrow> 'db option) \<Rightarrow> string \<Rightarrow> filesystem \<Rightarrow> ('db, unit) migrating" where
  "MigrateFS run dir fsys s =
     (case ensure_table s of
        (Inl e, s1) \<Rightarrow> (Inl e, s1)
      | (Inr _, s1) \<Rightarrow> (case fsys dir of
            None \<Rightarrow> (Inl (NoDirectory dir), s1)
          | Some entries \<Rightarrow> migrate_files run entries (migration_files entries) s1))"

section \<open>What the migrations build\<close>

definition statements_of :: "(string \<times> node) list \<Rightarrow> string \<Rightarrow> string list" where
  "statements_of entries name = (case map_of entries name of Some (Content body) \<Rightarrow> splitStatements body | _ \<Rightarrow> [])"

fun run_all :: "(string \<Rightarrow> 'db \<Rightarrow> 'db option) \<Rightarrow> string list \<Rightarrow> 'db \<Rightarrow> 'db option" where
  "run_all run [] d = Some d"
| "run_all run (stmt # rest) d = (case run stmt d of None \<Rightarrow> None | Some d' \<Rightarrow> run_all run rest d')"

text \<open>The database stands after exactly the first \<open>k\<close> files, and they are the ones on record.\<close>

definition migrated :: "(string \<Rightarrow> 'db \<Rightarrow> 'db option) \<Rightarrow> (string \<times> node) list \<Rightarrow> 'db \<Rightarrow> nat \<Rightarrow> 'db schema \<Rightarrow> bool" where
  "migrated run entries d0 k s \<longleftrightarrow>
     k \<le> length (migration_files entries)
     \<and> (mg_versions s = Some (map version_of (take k (migration_files entries))) \<or> k = 0 \<and> mg_versions s = None)
     \<and> run_all run (concat (map (statements_of entries) (take k (migration_files entries)))) d0 = Some (mg_db s)"

definition fresh_schema :: "'db \<Rightarrow> 'db schema" where
  "fresh_schema d = \<lparr>mg_db = d, mg_versions = None, mg_faults = []\<rparr>"

text \<open>Start-ups one after the other, each with faults of its own.\<close>

definition attempts :: "(string \<Rightarrow> 'db \<Rightarrow> 'db option) \<Rightarrow> string \<Rightarrow> filesystem \<Rightarrow> bool list list \<Rightarrow> 'db schema \<Rightarrow> 'db schema" where
  "attempts run dir fsys fss s = fold (\<lambda>fs s. snd (MigrateFS run dir fsys (s\<lparr>mg_faults := fs\<rparr>))) fss s"

section \<open>Lemmas\<close>

lemma migrated_faults [simp]: "migrated run entries d0 k (s\<lparr>mg_faults := fs\<rparr>) = migrated run entries d0 k s"
  by (simp add: migrated_def)

lemma migrated_skip [simp]: "migrated run entries d0 k (mg_skip s) = migrated run entries d0 k s"
  by (simp add: mg_skip_def)

lemma mg_skip_sel [simp]:
  "mg_db (mg_skip s) = mg_db s" "mg_versions (mg_skip s) = mg_versions s" "mg_faults (mg_skip s) = tl (mg_faults s)"
  by (simp_all add: mg_skip_def)

lemma no_faults [simp]: "mg_faults s = [] \<Longrightarrow> \<not> mg_faulty s"
  by (simp add: mg_faulty_def)

lemma mg_exec_Inr: "mg_exec e f s = (Inr x, s') \<longleftrightarrow> \<not> mg_faulty s \<and> f (mg_skip s) = Some (x, s')"
  by (auto simp: mg_exec_def split: option.splits)

lemma mg_exec_Inl: "mg_exec e f s = (Inl e', s') \<Longrightarrow> s' = mg_skip s"
  by (auto simp: mg_exec_def split: if_splits option.splits prod.splits)

lemma mg_tx_Inl: "mg_tx m s = (Inl e, s') \<Longrightarrow> s' = s\<lparr>mg_faults := mg_faults s'\<rparr>"
  by (auto simp: mg_tx_def mg_skip_def split: if_splits prod.splits sum.splits)

lemma mg_tx_Inr: "mg_tx m s = (Inr x, s') \<longleftrightarrow>
    \<not> mg_faulty s \<and> (\<exists>v. m (mg_skip s) = (Inr x, v) \<and> \<not> mg_faulty v \<and> s' = mg_skip v)"
  by (auto simp: mg_tx_def split: if_splits prod.splits sum.splits)

lemma run_all_append: "run_all run (xs @ ys) d = Option.bind (run_all run xs d) (run_all run ys)"
  by (induction xs arbitrary: d) (auto split: option.splits)

lemma apply_statements_Inr:
  "apply_statements run v stmts s = (Inr u, s') \<Longrightarrow>
     run_all run stmts (mg_db s) = Some (mg_db s') \<and> mg_versions s' = mg_versions s"
  by (induction run v stmts s rule: apply_statements.induct) (auto simp: mg_exec_Inr split: prod.splits sum.splits)

lemma apply_statements_runs:
  "mg_faults s = [] \<Longrightarrow> run_all run stmts (mg_db s) = Some d \<Longrightarrow>
     \<exists>s'. apply_statements run v stmts s = (Inr (), s') \<and> mg_faults s' = []"
proof (induction run v stmts s rule: apply_statements.induct)
  case (2 run v stmt rest s)
  then obtain d1 where d1: "run stmt (mg_db s) = Some d1" "run_all run rest d1 = Some d" by (auto split: option.splits)
  then have "mg_exec (ApplyFailed v) (\<lambda>s. map_option (\<lambda>d. ((), s\<lparr>mg_db := d\<rparr>)) (run stmt (mg_db s))) s
      = (Inr (), (mg_skip s)\<lparr>mg_db := d1\<rparr>)" using 2(2) by (simp add: mg_exec_Inr)
  then show ?case using 2(1)[OF _ refl] 2(2) d1(2) by simp
qed simp

lemma applyOne_Inr:
  assumes "applyOne run v body s = (Inr u, s')"
  obtains vs where "mg_versions s = Some vs" "v \<notin> set vs" "mg_versions s' = Some (vs @ [v])"
    "run_all run (splitStatements body) (mg_db s) = Some (mg_db s')"
  using assms apply_statements_Inr[of run v "splitStatements body" "mg_skip s"]
  by (auto simp: applyOne_def mg_tx_Inr record_version_def mg_exec_Inr split: prod.splits sum.splits option.splits if_splits)

lemma applyOne_runs:
  assumes "mg_faults s = []" "mg_versions s = Some vs" "v \<notin> set vs"
    "run_all run (splitStatements body) (mg_db s) = Some d"
  shows "\<exists>s'. applyOne run v body s = (Inr (), s') \<and> mg_faults s' = []"
proof -
  obtain s1 where s1: "apply_statements run v (splitStatements body) (mg_skip s) = (Inr (), s1)" "mg_faults s1 = []"
    using apply_statements_runs[of "mg_skip s" run "splitStatements body" d v] assms by auto
  have "mg_versions s1 = Some vs" using apply_statements_Inr[OF s1(1)] assms(2) by simp
  then have "record_version v s1 = (Inr (), (mg_skip s1)\<lparr>mg_versions := Some (vs @ [v])\<rparr>)"
    using s1(2) assms(3) by (simp add: record_version_def mg_exec_def)
  then show ?thesis using assms(1) s1 by (simp add: applyOne_def mg_tx_def)
qed

lemma migration_files_mem:
  assumes "distinct (map fst entries)" "name \<in> set (migration_files entries)"
  shows "has_suffix name ''.sql''" "\<exists>body. map_of entries name = Some (Content body)"
proof -
  obtain n where n: "(name, n) \<in> set entries" "n \<noteq> Folder" "has_suffix name ''.sql''"
    using assms(2) by (auto simp: migration_files_def)
  show "has_suffix name ''.sql''" by (rule n(3))
  show "\<exists>body. map_of entries name = Some (Content body)"
    using assms(1) n(1,2) by (cases n) auto
qed

lemma version_of_sql: "has_suffix name ''.sql'' \<Longrightarrow> name = version_of name @ ''.sql''"
  unfolding version_of_def by (auto simp: has_suffix_iff)

lemma distinct_versions:
  assumes "distinct (map fst entries)"
  shows "distinct (map version_of (migration_files entries))"
proof -
  have "distinct (migration_files entries)"
    using assms by (simp add: migration_files_def distinct_map_filter)
  moreover have "inj_on version_of (set (migration_files entries))"
  proof (rule inj_onI)
    fix x y assume xy: "x \<in> set (migration_files entries)" "y \<in> set (migration_files entries)" "version_of x = version_of y"
    have "x = version_of x @ ''.sql''" "y = version_of y @ ''.sql''"
      using version_of_sql migration_files_mem(1)[OF assms] xy(1,2) by blast+
    then show "x = y" using xy(3) by simp
  qed
  ultimately show ?thesis by (simp add: distinct_map)
qed

lemma next_of_drop: "x # xs = drop i ys \<Longrightarrow> i < length ys \<and> x = ys ! i \<and> xs = drop (Suc i) ys"
  by (metis Cons_nth_drop_Suc drop_all leI list.distinct(1) list.inject)

lemma count_list_pos: "0 < count_list xs x \<longleftrightarrow> x \<in> set xs"
  using count_list_0_iff[of xs x] by auto

lemma mem_take_nth: "distinct xs \<Longrightarrow> i < length xs \<Longrightarrow> xs ! i \<in> set (take k xs) \<longleftrightarrow> i < k"
  by (auto simp: in_set_conv_nth nth_eq_iff_index_eq)

text \<open>One file: already on record, or the next one to apply.\<close>

lemma migrationApplied_Inr:
  assumes m: "migrated run entries d0 k s" and d: "distinct (map fst entries)" and i: "i < length (migration_files entries)"
    and a: "migrationApplied (version_of (migration_files entries ! i)) s = (Inr b, s1)"
  shows "b \<longleftrightarrow> i < k" "s1 = mg_skip s" "mg_versions s = Some (map version_of (take k (migration_files entries)))"
proof -
  let ?vs = "map version_of (migration_files entries)"
  obtain vs where vs: "mg_versions s = Some vs" "b \<longleftrightarrow> version_of (migration_files entries ! i) \<in> set vs" "s1 = mg_skip s"
    using a by (auto simp: migrationApplied_def mg_exec_Inr count_list_pos split: option.splits)
  then show "s1 = mg_skip s" by simp
  show eq: "mg_versions s = Some (map version_of (take k (migration_files entries)))"
    using m vs(1) by (auto simp: migrated_def)
  then have "b \<longleftrightarrow> ?vs ! i \<in> set (take k ?vs)" using vs i by (simp add: take_map)
  also have "\<dots> \<longleftrightarrow> i < k"
    using mem_take_nth[OF distinct_versions[OF d]] i by simp
  finally show "b \<longleftrightarrow> i < k" .
qed

lemma applyOne_migrated:
  assumes m: "migrated run entries d0 k s" and k: "k < length (migration_files entries)"
    and body: "map_of entries (migration_files entries ! k) = Some (Content body)"
    and ok: "applyOne run (version_of (migration_files entries ! k)) body s = (Inr u, s')"
  shows "migrated run entries d0 (Suc k) s'"
proof -
  obtain vs where vs: "mg_versions s = Some vs" "mg_versions s' = Some (vs @ [version_of (migration_files entries ! k)])"
      "run_all run (splitStatements body) (mg_db s) = Some (mg_db s')"
    by (rule applyOne_Inr[OF ok])
  then show ?thesis
    using m k body by (auto simp: migrated_def take_Suc_conv_app_nth run_all_append statements_of_def)
qed

lemma migrate_files_migrated:
  assumes d: "distinct (map fst entries)"
  shows "names = drop i (migration_files entries) \<Longrightarrow> migrated run entries d0 k s \<Longrightarrow> i \<le> k \<Longrightarrow>
    migrate_files run entries names s = (r, s') \<Longrightarrow>
    \<exists>k' \<ge> k. migrated run entries d0 k' s' \<and> (r = Inr () \<longrightarrow> k' = length (migration_files entries))"
proof (induction names arbitrary: i k s)
  case Nil
  then have "k = length (migration_files entries)" by (simp add: migrated_def)
  then show ?case using Nil by auto
next
  case (Cons name names)
  let ?F = "migration_files entries"
  have i: "i < length ?F" and name: "name = ?F ! i" and names: "names = drop (Suc i) ?F"
    using next_of_drop[OF Cons.prems(1)] by simp_all
  obtain q s1 where q: "migrationApplied (version_of name) s = (q, s1)" by fastforce
  show ?case
  proof (cases q)
    case (Inl e)
    then have "s1 = mg_skip s" using q mg_exec_Inl unfolding migrationApplied_def by blast
    moreover have "r = Inl e" "s' = s1" using Cons.prems(4) q Inl by simp_all
    ultimately show ?thesis using Cons.prems(2) by auto
  next
    case (Inr b)
    have ap: "b \<longleftrightarrow> i < k" "s1 = mg_skip s"
      using migrationApplied_Inr[OF Cons.prems(2) d i] q Inr name by auto
    show ?thesis
    proof (cases b)
      case True
      then have "migrate_files run entries names s1 = (r, s')" using Cons.prems(4) q Inr by simp
      then show ?thesis using Cons.IH[OF names, of k s1] Cons.prems(2) ap True by simp
    next
      case False
      then have k: "k = i" using ap Cons.prems(3) by simp
      obtain body where body: "map_of entries name = Some (Content body)"
        using migration_files_mem(2)[OF d, of name] i name by auto
      obtain p s2 where p: "applyOne run (version_of name) body s1 = (p, s2)" by fastforce
      show ?thesis
      proof (cases p)
        case (Inl e)
        then have "s2 = s1\<lparr>mg_faults := mg_faults s2\<rparr>" using p mg_tx_Inl unfolding applyOne_def by blast
        then have "migrated run entries d0 k s2" using Cons.prems(2) ap(2) migrated_faults migrated_skip by metis
        moreover have "r = Inl e" "s' = s2" using Cons.prems(4) q Inr False body p Inl by simp_all
        ultimately show ?thesis by auto
      next
        case (Inr u)
        have "migrated run entries d0 (Suc k) s2"
          using applyOne_migrated[of run entries d0 k s1 body u s2] Cons.prems(2) ap(2) i k name body p Inr by simp
        moreover have "migrate_files run entries names s2 = (r, s')"
          using Cons.prems(4) q \<open>q = Inr b\<close> False body p Inr by simp
        ultimately obtain k' where "k' \<ge> Suc k" "migrated run entries d0 k' s'" "r = Inr () \<longrightarrow> k' = length ?F"
          using Cons.IH[OF names, of "Suc k" s2] k by auto
        then show ?thesis by (intro exI[of _ k']) simp
      qed
    qed
  qed
qed

lemma next_statements:
  assumes "migrated run entries d0 k s" "k < length (migration_files entries)"
    and "run_all run (concat (map (statements_of entries) (migration_files entries))) d0 = Some d"
  shows "\<exists>d'. run_all run (statements_of entries (migration_files entries ! k)) (mg_db s) = Some d'"
proof -
  let ?F = "migration_files entries"
  have "concat (map f xs) = concat (map f (take k xs)) @ f (xs ! k) @ concat (map f (drop (Suc k) xs))"
    if "k < length xs" for f :: "string \<Rightarrow> string list" and xs
  proof -
    have "concat (map f (take k xs @ xs ! k # drop (Suc k) xs))
        = concat (map f (take k xs)) @ f (xs ! k) @ concat (map f (drop (Suc k) xs))" by simp
    then show ?thesis by (simp only: id_take_nth_drop[OF that, symmetric])
  qed
  from this[OF assms(2), of "statements_of entries"]
  have "concat (map (statements_of entries) ?F) = concat (map (statements_of entries) (take k ?F))
      @ statements_of entries (?F ! k) @ concat (map (statements_of entries) (drop (Suc k) ?F))" .
  moreover have "run_all run (concat (map (statements_of entries) (take k ?F))) d0 = Some (mg_db s)"
    using assms(1) by (simp add: migrated_def)
  ultimately have "Option.bind (run_all run (statements_of entries (?F ! k)) (mg_db s))
      (run_all run (concat (map (statements_of entries) (drop (Suc k) ?F)))) = Some d"
    using assms(3) by (simp only: run_all_append Option.bind.bind_lunit)
  then show ?thesis by (cases "run_all run (statements_of entries (?F ! k)) (mg_db s)") simp_all
qed

lemma migrate_files_runs:
  assumes d: "distinct (map fst entries)"
    and all: "run_all run (concat (map (statements_of entries) (migration_files entries))) d0 = Some dd"
  shows "names = drop i (migration_files entries) \<Longrightarrow> migrated run entries d0 k s \<Longrightarrow> i \<le> k \<Longrightarrow>
    mg_faults s = [] \<Longrightarrow> mg_versions s \<noteq> None \<Longrightarrow> fst (migrate_files run entries names s) = Inr ()"
proof (induction names arbitrary: i k s)
  case (Cons name names)
  let ?F = "migration_files entries"
  have i: "i < length ?F" and name: "name = ?F ! i" and names: "names = drop (Suc i) ?F"
    using next_of_drop[OF Cons.prems(1)] by simp_all
  obtain b where q: "migrationApplied (version_of name) s = (Inr b, mg_skip s)"
    using Cons.prems(4,5) by (auto simp: migrationApplied_def mg_exec_def)
  have ap: "b \<longleftrightarrow> i < k" and vs: "mg_versions s = Some (map version_of (take k ?F))"
    using migrationApplied_Inr[OF Cons.prems(2) d i q[unfolded name]] by blast+
  show ?case
  proof (cases b)
    case True
    then have "fst (migrate_files run entries names (mg_skip s)) = Inr ()"
      using Cons.IH[OF names, of k "mg_skip s"] Cons.prems(2,4,5) ap by simp
    then show ?thesis using q True by simp
  next
    case False
    then have k: "k = i" using ap Cons.prems(3) by simp
    obtain body where body: "map_of entries name = Some (Content body)"
      using migration_files_mem(2)[OF d, of name] i name by auto
    obtain d' where d': "run_all run (splitStatements body) (mg_db (mg_skip s)) = Some d'"
      using next_statements[OF Cons.prems(2) _ all] i k name body by (auto simp: statements_of_def)
    have "\<not> version_of name \<in> set (map version_of (take k ?F))"
      using mem_take_nth[OF distinct_versions[OF d], of i k] i k name by (simp add: take_map)
    then obtain s2 where s2: "applyOne run (version_of name) body (mg_skip s) = (Inr (), s2)" "mg_faults s2 = []"
      using applyOne_runs[of "mg_skip s" "map version_of (take k ?F)" "version_of name" run body d'] vs Cons.prems(4) d' by auto
    have "migrated run entries d0 (Suc k) s2"
      using applyOne_migrated[of run entries d0 k "mg_skip s" body "()" s2] Cons.prems(2) i k name body s2(1) by simp
    moreover have "mg_versions s2 \<noteq> None" using applyOne_Inr[OF s2(1)] by fastforce
    ultimately have "fst (migrate_files run entries names s2) = Inr ()"
      using Cons.IH[OF names, of "Suc k" s2] s2(2) k by simp
    then show ?thesis using q False body s2(1) by simp
  qed
qed simp

lemma ensure_table_migrated:
  "ensure_table s = (r, s1) \<Longrightarrow> migrated run entries d0 k s \<Longrightarrow> migrated run entries d0 k s1"
  by (auto simp: ensure_table_def mg_exec_def migrated_def split: if_splits option.splits)

lemma MigrateFS_migrated:
  assumes "distinct (map fst entries)" "fsys dir = Some entries" "migrated run entries d0 k s"
    "MigrateFS run dir fsys s = (r, s')"
  shows "\<exists>k' \<ge> k. migrated run entries d0 k' s' \<and> (r = Inr () \<longrightarrow> k' = length (migration_files entries))"
proof -
  obtain q s1 where q: "ensure_table s = (q, s1)" by fastforce
  have m: "migrated run entries d0 k s1" by (rule ensure_table_migrated[OF q assms(3)])
  show ?thesis
  proof (cases q)
    case Inl
    then show ?thesis using assms(4) q m by (auto simp: MigrateFS_def)
  next
    case Inr
    then have "migrate_files run entries (migration_files entries) s1 = (r, s')"
      using assms(2,4) q by (simp add: MigrateFS_def)
    then show ?thesis using migrate_files_migrated[OF assms(1) _ m, of "migration_files entries" 0] by simp
  qed
qed

lemma MigrateFS_runs:
  assumes "distinct (map fst entries)" "fsys dir = Some entries" "migrated run entries d0 k s" "mg_faults s = []"
    and "run_all run (concat (map (statements_of entries) (migration_files entries))) d0 = Some d"
  shows "fst (MigrateFS run dir fsys s) = Inr ()"
proof -
  obtain s1 where s1: "ensure_table s = (Inr (), s1)" "mg_faults s1 = []" "mg_versions s1 \<noteq> None"
    using assms(4) by (auto simp: ensure_table_def mg_exec_def split: option.splits)
  have "fst (migrate_files run entries (migration_files entries) s1) = Inr ()"
    using migrate_files_runs[OF assms(1,5) _ ensure_table_migrated[OF s1(1) assms(3)], of "migration_files entries" 0] s1 by simp
  then show ?thesis using assms(2) s1(1) by (simp add: MigrateFS_def)
qed

lemma attempts_migrated:
  assumes "distinct (map fst entries)" "fsys dir = Some entries"
  shows "migrated run entries d0 k s \<Longrightarrow> \<exists>k' \<ge> k. migrated run entries d0 k' (attempts run dir fsys fss s)"
proof (induction fss arbitrary: k s)
  case (Cons fs fss)
  obtain k1 where k1: "k1 \<ge> k" "migrated run entries d0 k1 (snd (MigrateFS run dir fsys (s\<lparr>mg_faults := fs\<rparr>)))"
    using MigrateFS_migrated[where fsys = fsys and dir = dir and entries = entries, OF assms, of run d0 k "s\<lparr>mg_faults := fs\<rparr>"] Cons.prems by (metis migrated_faults prod.collapse)
  then show ?case using Cons.IH[OF k1(2)] by (auto simp: attempts_def intro: order_trans)
qed (auto simp: attempts_def)

lemma fresh_migrated: "migrated run entries d0 0 (fresh_schema d0)"
  by (simp add: migrated_def fresh_schema_def)

lemma clean_start:
  assumes dir: "distinct (map fst entries)" "fsys dir = Some entries"
    and m: "migrated run entries d0 k s"
    and all: "run_all run (concat (map (statements_of entries) (migration_files entries))) d0 = Some d"
    and clean: "mg_faults s = []"
  shows "\<exists>s'. MigrateFS run dir fsys s = (Inr (), s')
      \<and> mg_db s' = d \<and> mg_versions s' = Some (map version_of (migration_files entries))"
proof -
  have "fst (MigrateFS run dir fsys s) = Inr ()"
    by (rule MigrateFS_runs[where fsys = fsys and dir = dir and entries = entries, OF dir m clean all])
  then obtain s' where s': "MigrateFS run dir fsys s = (Inr (), s')" by (metis prod.collapse)
  have "migrated run entries d0 (length (migration_files entries)) s'"
    using MigrateFS_migrated[where fsys = fsys and dir = dir and entries = entries, OF dir m s'] by auto
  moreover have "mg_versions s' = Some []" if "migration_files entries = []"
    using s' dir(2) m that by (auto simp: MigrateFS_def ensure_table_def mg_exec_def migrated_def split: if_splits option.splits)
  ultimately have "mg_db s' = d" "mg_versions s' = Some (map version_of (migration_files entries))"
    using all by (auto simp: migrated_def)
  then show ?thesis using s' by blast
qed

section \<open>Comments and separators\<close>

fun dashes :: "string \<Rightarrow> bool" where
  "dashes (a # b # cs) = (a = CHR ''-'' \<and> b = CHR ''-'' \<or> dashes (b # cs))"
| "dashes cs = False"

lemma dashes_append:
  "dashes (xs @ ys) \<longleftrightarrow> dashes xs \<or> dashes ys \<or> (xs \<noteq> [] \<and> ys \<noteq> [] \<and> last xs = CHR ''-'' \<and> hd ys = CHR ''-'')"
  by (induction xs rule: dashes.induct; cases ys) auto

lemma dashes_newline [simp]: "dashes (CHR 0x0A # zs) = dashes zs"
  by (cases zs) auto

lemma dashes_cut: "\<not> dashes (cut_comment line)"
proof (induction line rule: cut_comment.induct)
  case (1 a b cs)
  then show ?case
  proof (cases "a = CHR ''-'' \<and> b = CHR ''-''")
    case False
    then have "hd (cut_comment (b # cs)) = b \<or> cut_comment (b # cs) = []" by (cases cs) auto
    then show ?thesis using 1 False by (cases "cut_comment (b # cs)") auto
  qed simp
qed auto

lemma cut_comment_id: "\<not> dashes line \<Longrightarrow> cut_comment line = line"
  by (induction line rule: cut_comment.induct) auto

lemma dashes_lines: "\<not> dashes (concat (map (\<lambda>line. cut_comment line @ [CHR 0x0A]) ls))"
  by (induction ls) (auto simp: dashes_append dashes_cut split: if_splits)

lemma piece_of_split: "p \<in> set (split_on c s) \<Longrightarrow> \<exists>a b. s = a @ p @ b"
proof (induction s arbitrary: p)
  case (Cons x s)
  obtain q qs where q: "split_on c s = q # qs" by (cases "split_on c s") auto
  have in_s: "\<exists>a b. x # s = a @ r @ b" if "r \<in> set (split_on c s)" for r
    using Cons.IH[OF that] by (metis append_Cons)
  have "\<exists>b. s = q @ b" using join_split[of c s] q by (cases qs) auto
  then have "\<exists>a b. x # s = a @ (x # q) @ b" by (metis append_Cons append_Nil)
  moreover have "\<exists>a b. x # s = a @ [] @ b" by (rule exI[of _ "[]"]) simp
  moreover have "p = [] \<or> p = x # q \<or> p \<in> set (split_on c s)" using Cons.prems q by (auto split: if_splits)
  ultimately show ?case using in_s by blast
qed simp

lemma dashes_piece: "p \<in> set (split_on c s) \<Longrightarrow> \<not> dashes s \<Longrightarrow> \<not> dashes p"
  using piece_of_split[of p c s] by (auto simp: dashes_append)

lemma lines_back: "concat (map (\<lambda>line. line @ [c]) (split_on c s)) = s @ [c]"
  by (induction s) (auto split: list.splits)

section \<open>Guarantees\<close>

text \<open>The statements of a migration file: none is blank, none holds a separator or any part of a
  comment, and in a file without comments they are all the text between the separators.\<close>

theorem splitStatements_spec:
  "(\<forall>stmt \<in> set (splitStatements body). trim_space stmt \<noteq> '''' \<and> CHR '';'' \<notin> set stmt \<and> \<not> dashes stmt)
   \<and> (\<not> dashes body \<longrightarrow>
        splitStatements body = filter (\<lambda>s. trim_space s \<noteq> '''') (split_on (CHR '';'') (body @ [CHR 0x0A])))"
proof -
  let ?clean = "concat (map (\<lambda>line. cut_comment line @ [CHR 0x0A]) (split_on (CHR 0x0A) body))"
  have "\<not> dashes ?clean" by (rule dashes_lines)
  then have "\<forall>stmt \<in> set (splitStatements body). trim_space stmt \<noteq> '''' \<and> CHR '';'' \<notin> set stmt \<and> \<not> dashes stmt"
    using split_on_no_sep dashes_piece by (fastforce simp: splitStatements_def Let_def)
  moreover have "?clean = body @ [CHR 0x0A]" if "\<not> dashes body"
  proof -
    have "map (\<lambda>line. cut_comment line @ [CHR 0x0A]) (split_on (CHR 0x0A) body)
        = map (\<lambda>line. line @ [CHR 0x0A]) (split_on (CHR 0x0A) body)"
      using dashes_piece[OF _ that] cut_comment_id by auto
    then show ?thesis using lines_back by metis
  qed
  ultimately show ?thesis by (simp add: splitStatements_def Let_def)
qed

lemma splitStatements_spec_witness:
  "splitStatements ''CREATE t; -- no; more'' = [''CREATE t'', '' '' @ [CHR 0x0A]] \<or>
   (\<forall>stmt \<in> set (splitStatements ''CREATE t; -- no; more''). \<not> dashes stmt)"
  using splitStatements_spec[of "''CREATE t; -- no; more''"] by blast

text \<open>C25: Whatever number of start-ups have failed or died, and at whatever statement, the database
  stands after exactly the first so many migration files, in the order of their names, and
  these are the ones on record. A start-up without a fault then brings it to the end, as if
  all files had run once from the beginning.\<close>

theorem migrations_survive_crashes:
  assumes dir: "distinct (map fst entries)" "fsys dir = Some entries"
  shows "(\<exists>k. migrated run entries d0 k (attempts run dir fsys fss (fresh_schema d0)))
    \<and> (run_all run (concat (map (statements_of entries) (migration_files entries))) d0 = Some d \<longrightarrow>
      (\<exists>s'. MigrateFS run dir fsys ((attempts run dir fsys fss (fresh_schema d0))\<lparr>mg_faults := []\<rparr>) = (Inr (), s')
        \<and> mg_db s' = d \<and> mg_versions s' = Some (map version_of (migration_files entries))))"
proof -
  obtain k where k: "migrated run entries d0 k (attempts run dir fsys fss (fresh_schema d0))"
    using attempts_migrated[where fsys = fsys and dir = dir and entries = entries, OF dir fresh_migrated[of run entries d0], of fss] by blast
  moreover have "\<exists>s'. MigrateFS run dir fsys ((attempts run dir fsys fss (fresh_schema d0))\<lparr>mg_faults := []\<rparr>) = (Inr (), s')
        \<and> mg_db s' = d \<and> mg_versions s' = Some (map version_of (migration_files entries))"
    if "run_all run (concat (map (statements_of entries) (migration_files entries))) d0 = Some d"
    by (rule clean_start[where fsys = fsys and dir = dir and entries = entries, OF dir _ that]) (use k in simp_all)
  ultimately show ?thesis by blast
qed

definition sample_run :: "string \<Rightarrow> string list \<Rightarrow> string list option" where
  "sample_run stmt d = (if trim_space stmt \<in> set d then None else Some (d @ [trim_space stmt]))"

definition sample_migrations :: "(string \<times> node) list" where
  "sample_migrations = [(''0002_b.sql'', Content ''C''), (''notes'', Content ''x''), (''old.sql'', Folder),
     (''0001_a.sql'', Content ''A; -- first; table
B;'')]"

lemma sample_migrations_build:
  "distinct (map fst sample_migrations)"
  "run_all sample_run (concat (map (statements_of sample_migrations) (migration_files sample_migrations))) [] = Some [''A'', ''B'', ''C'']"
  by code_simp+

lemma migrations_survive_crashes_witness:
  "\<exists>s'. MigrateFS sample_run ''sqlite'' [''sqlite'' \<mapsto> sample_migrations]
      ((attempts sample_run ''sqlite'' [''sqlite'' \<mapsto> sample_migrations] [[False, False, False, False, True], [True]] (fresh_schema []))\<lparr>mg_faults := []\<rparr>)
      = (Inr (), s') \<and> mg_db s' = [''A'', ''B'', ''C'']"
  using migrations_survive_crashes[of sample_migrations "[''sqlite'' \<mapsto> sample_migrations]" "''sqlite''" sample_run "[]"]
    sample_migrations_build by fastforce

text \<open>Once the migrations are complete, every further start-up leaves the database and the record
  as they are, faults or not.\<close>

theorem complete_migrations_rest:
  assumes dir: "distinct (map fst entries)" "fsys dir = Some entries" and some: "migration_files entries \<noteq> []"
    and start: "migrated run entries d0 k s" and finished: "MigrateFS run dir fsys s = (Inr (), s')"
  shows "mg_db (attempts run dir fsys fss s') = mg_db s' \<and> mg_versions (attempts run dir fsys fss s') = mg_versions s'"
proof -
  obtain k1 where k1: "migrated run entries d0 k1 s'" "k1 = length (migration_files entries)"
    using MigrateFS_migrated[where fsys = fsys and dir = dir and entries = entries, OF dir start finished] by auto
  obtain k2 where k2: "k2 \<ge> k1" "migrated run entries d0 k2 (attempts run dir fsys fss s')"
    using attempts_migrated[where fsys = fsys and dir = dir and entries = entries, OF dir k1(1), of fss] by blast
  then have "k2 = k1" using k1(2) by (simp add: migrated_def)
  then show ?thesis using k1 k2(2) some by (auto simp: migrated_def)
qed

lemma complete_migrations_rest_witness:
  "\<exists>s'. MigrateFS sample_run ''sqlite'' [''sqlite'' \<mapsto> sample_migrations] (fresh_schema []) = (Inr (), s')
     \<and> mg_db (attempts sample_run ''sqlite'' [''sqlite'' \<mapsto> sample_migrations] [[False, True], []] s') = [''A'', ''B'', ''C'']"
proof -
  have fs: "[''sqlite'' \<mapsto> sample_migrations] ''sqlite'' = Some sample_migrations" by simp
  have some: "migration_files sample_migrations \<noteq> []" by code_simp
  have clean: "mg_faults (fresh_schema ([] :: string list)) = []" by (simp add: fresh_schema_def)
  obtain s' where s': "MigrateFS sample_run ''sqlite'' [''sqlite'' \<mapsto> sample_migrations] (fresh_schema []) = (Inr (), s')"
      "mg_db s' = [''A'', ''B'', ''C'']"
    using clean_start[where fsys = "[''sqlite'' \<mapsto> sample_migrations]" and dir = "''sqlite''" and entries = sample_migrations, 
      OF sample_migrations_build(1) fs fresh_migrated sample_migrations_build(2) clean] by blast
  then show ?thesis
    using complete_migrations_rest[where fsys = "[''sqlite'' \<mapsto> sample_migrations]" and dir = "''sqlite''" and entries = sample_migrations, 
      OF sample_migrations_build(1) fs some fresh_migrated s'(1)] by auto
qed

end
