(* ===== verification/Lifecycle.thy ===== *)
theory Lifecycle
  imports Startup Migrate
begin

text \<open>
  The life of the process (\<open>run\<close> of \<open>cmd/issuer/main.go\<close>): from the environment through
  \<open>store.Open\<close>, the migrations and \<open>buildServices\<close> to the server and its workers, then the
  shutdown: the server drains, the workers see the cancelled context and are joined.

  \<^item> A worker's loop is a stage: before the check of the context, in a turn, asleep, or ended;
    the supervisor also waits for its bots. A turn is one move. \<open>fire\<close> says which moves the
    code can make in a state; a list of moves is one interleaving of all goroutines.
  \<^item> Go's \<open>select\<close> takes any of the ready cases, so a loop asleep may take another round after
    the context was cancelled. What opens and pings the database is a parameter.
\<close>

section \<open>Start-up\<close>

record 'h engine =
  en_open :: "string \<Rightarrow> string \<Rightarrow> string + 'h"
  en_ping :: "'h \<Rightarrow> string option"

record 'h store =
  st_db :: 'h
  st_driver :: string
  st_maxconns :: "nat option"

datatype open_error = UnknownDriver string | OpenFailed string string | PingFailed string string

definition Open :: "'h engine \<Rightarrow> string \<Rightarrow> string \<Rightarrow> open_error + 'h store" where
  "Open en drv dsn = (case sqlDriverName drv of
       None \<Rightarrow> Inl (UnknownDriver drv)
     | Some name \<Rightarrow> (case en_open en name dsn of
         Inl e \<Rightarrow> Inl (OpenFailed drv e)
       | Inr db \<Rightarrow> (case en_ping en db of
           Some e \<Rightarrow> Inl (PingFailed drv e)
         | None \<Rightarrow> Inr \<lparr>st_db = db, st_driver = drv, st_maxconns = (if drv = ''sqlite'' then Some 1 else None)\<rparr>)))"

datatype start_error =
  ConfigError config_error | StoreError open_error | MigrationError migrate_error | WiringError wiring_error

definition start_up :: "primitives \<Rightarrow> (string \<Rightarrow> string + duration) \<Rightarrow> 'h engine \<Rightarrow> (string \<Rightarrow> 'db \<Rightarrow> 'db option)
    \<Rightarrow> filesystem \<Rightarrow> environment \<Rightarrow> 'db schema \<Rightarrow> (start_error + config \<times> 'h store \<times> api) \<times> 'db schema" where
  "start_up P dur en engine_run fsys E s = (case snd (Load dur E) of
       Inl e \<Rightarrow> (Inl (ConfigError e), s)
     | Inr cfg \<Rightarrow> (case Open en (cf_driver cfg) (cf_dsn cfg) of
         Inl e \<Rightarrow> (Inl (StoreError e), s)
       | Inr st \<Rightarrow> (case MigrateFS engine_run (st_driver st) fsys s of
           (Inl e, s1) \<Rightarrow> (Inl (MigrationError e), s1)
         | (Inr _, s1) \<Rightarrow> (case buildServices P cfg of
             Inl e \<Rightarrow> (Inl (WiringError e), s1)
           | Inr A \<Rightarrow> (Inr (cfg, st, A), s1)))))"

section \<open>The process\<close>

datatype job = NonceCollector | BotSupervisor | PushWorker | ReconciliationWorker

datatype stage = Checking | Turning | Resting | Closing | Ended

datatype ending = ExitClean | ExitLate | ExitError

datatype phase = Listening | Draining | JoiningWorkers | Exited ending

text \<open>\<open>pc_bots\<close> has the stage and the offset of every worker of the fleet, in the same order; a
  job that was never started has no stage.\<close>

record 'l process =
  pc_run :: "'l running"
  pc_fleet :: "bot fleet"
  pc_bots :: "(stage \<times> int) list"
  pc_jobs :: "job \<rightharpoonup> stage"
  pc_cancelled :: bool
  pc_phase :: phase

record 'l site =
  si_platform :: "'l platform"
  si_ord1 :: visit
  si_ord2 :: visit
  si_ord3 :: visit

definition first_stage :: "job \<Rightarrow> stage" where
  "first_stage j = (case j of NonceCollector \<Rightarrow> Resting | BotSupervisor \<Rightarrow> Turning | _ \<Rightarrow> Checking)"

definition after_rest :: "job \<Rightarrow> stage" where
  "after_rest j = (case j of NonceCollector \<Rightarrow> Turning | BotSupervisor \<Rightarrow> Turning | _ \<Rightarrow> Checking)"

definition launch :: "'l site \<Rightarrow> world \<Rightarrow> 'l process" where
  "launch Q w = \<lparr>pc_run = \<lparr>rn_gateway = \<lparr>gw_clients = Map.empty, gw_cache = Map.empty\<rparr>, rn_cursor = Map.empty, rn_world = w\<rparr>,
     pc_fleet = \<lparr>fl_running = Map.empty, fl_workers = []\<rparr>, pc_bots = [],
     pc_jobs = (\<lambda>j. if j = NonceCollector \<or> ap_oauth (pf_api (si_platform Q)) then Some (first_stage j) else None),
     pc_cancelled = False, pc_phase = Listening\<rparr>"

text \<open>What \<open>sleep\<close> may return: once the context is cancelled both cases of its \<open>select\<close> can be ready.\<close>

definition sleep :: "bool \<Rightarrow> bool set" where
  "sleep cancelled = (if cancelled then {True, False} else {True})"

lemma sleep_simps [simp]: "True \<in> sleep c" "False \<in> sleep c \<longleftrightarrow> c"
  by (simp_all add: sleep_def)

text \<open>The bodies of the loops.\<close>

definition collector_turn :: "'l site \<Rightarrow> 'l process \<Rightarrow> 'l process" where
  "collector_turn Q s = s\<lparr>pc_run := occur (si_platform Q) NonceGC (pc_run s)\<rparr>"

definition supervise :: "'l site \<Rightarrow> 'l process \<Rightarrow> 'l process" where
  "supervise Q s = (let A = pf_api (si_platform Q) in
     case reconcile_fleet (bot_factory (ap_server A) (dp_cipher (ap_deps A)) (taped_api (pf_botapi (si_platform Q))) (dp_pool (ap_deps A)))
         (si_ord1 Q) (si_ord2 Q) (dp_pool (ap_deps A)) (pc_fleet s) (rn_world (pc_run s)) of
       (r, w') \<Rightarrow> let F = keep_or (pc_fleet s) r in
         s\<lparr>pc_fleet := F,
           pc_bots := pc_bots s @ replicate (length (fl_workers F) - length (pc_bots s)) (Checking, 0),
           pc_run := (pc_run s)\<lparr>rn_world := w'\<rparr>\<rparr>)"

fun job_turn :: "'l site \<Rightarrow> job \<Rightarrow> 'l process \<Rightarrow> 'l process" where
  "job_turn Q NonceCollector s = collector_turn Q s"
| "job_turn Q PushWorker s = s\<lparr>pc_run := occur (si_platform Q) Broadcasts (pc_run s)\<rparr>"
| "job_turn Q ReconciliationWorker s = s\<lparr>pc_run := occur (si_platform Q) Reconciliation (pc_run s)\<rparr>"
| "job_turn Q BotSupervisor s = supervise Q s"

text \<open>The context of a bot is a child of the process's context.\<close>

definition bot_cancelled :: "nat \<Rightarrow> 'l process \<Rightarrow> bool" where
  "bot_cancelled k s \<longleftrightarrow> pc_cancelled s \<or> wk_stopped (fl_workers (pc_fleet s) ! k)"

definition poll_bot :: "'l site \<Rightarrow> nat \<Rightarrow> 'l process \<Rightarrow> 'l process" where
  "poll_bot Q k s =
     (case bot_turn (ap_server (pf_api (si_platform Q))) (wk_runner (fl_workers (pc_fleet s) ! k)) (snd (pc_bots s ! k)) (rn_world (pc_run s)) of
        (r, w') \<Rightarrow> s\<lparr>pc_run := (pc_run s)\<lparr>rn_world := w'\<rparr>,
          pc_bots := (pc_bots s)[k := (case r of
              Inr (offset, None) \<Rightarrow> (Checking, offset)
            | Inr (offset, Some _) \<Rightarrow> (Resting, offset)
            | Inl _ \<Rightarrow> (Resting, snd (pc_bots s ! k)))]\<rparr>)"

datatype move =
    Request event | Elapse instant
  | JobCheck job | JobTurn job | JobWake job | JobLeave job | JobJoin
  | BotCheck nat | BotTurn nat | BotWake nat | BotLeave nat
  | Signal | ListenFails | Drained | DrainFails | WorkersStopped | Overdue

fun is_request :: "event \<Rightarrow> bool" where
  "is_request (HttpRequest _ _) = True"
| "is_request (Credentials _ _ _) = True"
| "is_request (Management _ _) = True"
| "is_request _ = False"

definition set_job :: "job \<Rightarrow> stage \<Rightarrow> 'l process \<Rightarrow> 'l process" where
  "set_job j x s = s\<lparr>pc_jobs := (pc_jobs s)(j \<mapsto> x)\<rparr>"

definition set_bot :: "nat \<Rightarrow> stage \<Rightarrow> 'l process \<Rightarrow> 'l process" where
  "set_bot k x s = s\<lparr>pc_bots := (pc_bots s)[k := (x, snd (pc_bots s ! k))]\<rparr>"

definition bot_at :: "nat \<Rightarrow> stage \<Rightarrow> 'l process \<Rightarrow> bool" where
  "bot_at k x s \<longleftrightarrow> k < length (pc_bots s) \<and> fst (pc_bots s ! k) = x"

text \<open>The end of the supervisor's \<open>Run\<close>: it cancels the running workers and waits for them.\<close>

definition close_fleet :: "'l site \<Rightarrow> 'l process \<Rightarrow> 'l process" where
  "close_fleet Q s = s\<lparr>pc_fleet := shutdown (si_ord3 Q (dom (fl_running (pc_fleet s)))) (pc_fleet s)\<rparr>"

fun act :: "'l site \<Rightarrow> move \<Rightarrow> 'l process \<Rightarrow> 'l process option" where
  "act Q (Request ev) s = (if is_request ev \<and> pc_phase s \<in> {Listening, Draining}
     then Some (s\<lparr>pc_run := occur (si_platform Q) ev (pc_run s)\<rparr>) else None)"
| "act Q (Elapse t) s = Some (s\<lparr>pc_run := occur (si_platform Q) (Tick t) (pc_run s)\<rparr>)"
| "act Q (JobCheck j) s = (if pc_jobs s j = Some Checking
     then Some (set_job j (if pc_cancelled s then Ended else Turning) s) else None)"
| "act Q (JobTurn j) s = (if pc_jobs s j = Some Turning then Some (set_job j Resting (job_turn Q j s)) else None)"
| "act Q (JobWake j) s = (if pc_jobs s j = Some Resting \<and> True \<in> sleep (pc_cancelled s)
     then Some (set_job j (after_rest j) s) else None)"
| "act Q (JobLeave j) s = (if pc_jobs s j = Some Resting \<and> False \<in> sleep (pc_cancelled s)
     then Some (if j = BotSupervisor then set_job j Closing (close_fleet Q s) else set_job j Ended s) else None)"
| "act Q JobJoin s = (if pc_jobs s BotSupervisor = Some Closing \<and> (\<forall>b \<in> set (pc_bots s). fst b = Ended)
     then Some (set_job BotSupervisor Ended s) else None)"
| "act Q (BotCheck k) s = (if bot_at k Checking s then Some (set_bot k (if bot_cancelled k s then Ended else Turning) s) else None)"
| "act Q (BotTurn k) s = (if bot_at k Turning s then Some (poll_bot Q k s) else None)"
| "act Q (BotWake k) s = (if bot_at k Resting s \<and> True \<in> sleep (bot_cancelled k s)
     then Some (set_bot k Checking s) else None)"
| "act Q (BotLeave k) s = (if bot_at k Resting s \<and> False \<in> sleep (bot_cancelled k s)
     then Some (set_bot k Ended s) else None)"
| "act Q Signal s = (if pc_phase s = Listening then Some (s\<lparr>pc_phase := Draining, pc_cancelled := True\<rparr>) else None)"
| "act Q ListenFails s = (if pc_phase s = Listening then Some (s\<lparr>pc_phase := Exited ExitError, pc_cancelled := True\<rparr>) else None)"
| "act Q Drained s = (if pc_phase s = Draining then Some (s\<lparr>pc_phase := JoiningWorkers\<rparr>) else None)"
| "act Q DrainFails s = (if pc_phase s = Draining then Some (s\<lparr>pc_phase := Exited ExitError\<rparr>) else None)"
| "act Q WorkersStopped s = (if pc_phase s = JoiningWorkers
       \<and> (\<forall>j \<in> {NonceCollector, BotSupervisor, PushWorker, ReconciliationWorker}. pc_jobs s j \<in> {None, Some Ended})
     then Some (s\<lparr>pc_phase := Exited ExitClean\<rparr>) else None)"
| "act Q Overdue s = (if pc_phase s = JoiningWorkers then Some (s\<lparr>pc_phase := Exited ExitLate\<rparr>) else None)"

text \<open>When \<open>main\<close> has returned, nothing moves.\<close>

definition fire :: "'l site \<Rightarrow> move \<Rightarrow> 'l process \<Rightarrow> 'l process option" where
  "fire Q m s = (case pc_phase s of Exited _ \<Rightarrow> None | _ \<Rightarrow> act Q m s)"

definition process_status :: "ending \<Rightarrow> nat" where
  "process_status e = (if e = ExitError then 1 else 0)"

inductive life :: "'l site \<Rightarrow> 'l process \<Rightarrow> move list \<Rightarrow> 'l process \<Rightarrow> bool" for Q s0 where
  born: "life Q s0 [] s0"
| moved: "life Q s0 ms s \<Longrightarrow> fire Q m s = Some s' \<Longrightarrow> life Q s0 (ms @ [m]) s'"

text \<open>The same as a function.\<close>

fun perform :: "'l site \<Rightarrow> move list \<Rightarrow> 'l process \<Rightarrow> 'l process option" where
  "perform Q [] s = Some s"
| "perform Q (m # ms) s = (case fire Q m s of None \<Rightarrow> None | Some s' \<Rightarrow> perform Q ms s')"

lemma perform_append: "perform Q (ms @ ms') s = (case perform Q ms s of None \<Rightarrow> None | Some s' \<Rightarrow> perform Q ms' s')"
  by (induction ms arbitrary: s) (auto split: option.splits)

lemma life_perform: "life Q s ms s' \<longleftrightarrow> perform Q ms s = Some s'"
proof
  show "life Q s ms s' \<Longrightarrow> perform Q ms s = Some s'"
    by (induction rule: life.induct) (simp_all add: perform_append)
  show "perform Q ms s = Some s' \<Longrightarrow> life Q s ms s'"
  proof (induction ms arbitrary: s' rule: rev_induct)
    case (snoc m ms)
    then show ?case by (auto simp: perform_append intro: life.moved split: option.splits)
  qed (simp add: life.born)
qed

text \<open>What every move keeps holds along a life.\<close>

locale process_invariant =
  fixes Q :: "'l site" and I :: "'l process \<Rightarrow> bool"
  assumes keeps: "I s \<Longrightarrow> fire Q m s = Some s' \<Longrightarrow> I s'"
begin

lemma along: "life Q s ms s' \<Longrightarrow> I s \<Longrightarrow> I s'"
  by (induction rule: life.induct) (auto intro: keeps)

end

section \<open>Lemmas\<close>

lemma fire_act: "fire Q m s = Some s' \<longleftrightarrow> (\<forall>e. pc_phase s \<noteq> Exited e) \<and> act Q m s = Some s'"
  by (auto simp: fire_def split: phase.splits)

lemma set_job_sel [simp]:
  "pc_run (set_job j x s) = pc_run s" "pc_fleet (set_job j x s) = pc_fleet s" "pc_bots (set_job j x s) = pc_bots s"
  "pc_jobs (set_job j x s) = (pc_jobs s)(j \<mapsto> x)" "pc_cancelled (set_job j x s) = pc_cancelled s"
  "pc_phase (set_job j x s) = pc_phase s"
  by (simp_all add: set_job_def)

lemma set_bot_sel [simp]:
  "pc_run (set_bot k x s) = pc_run s" "pc_fleet (set_bot k x s) = pc_fleet s"
  "pc_bots (set_bot k x s) = (pc_bots s)[k := (x, snd (pc_bots s ! k))]"
  "pc_jobs (set_bot k x s) = pc_jobs s" "pc_cancelled (set_bot k x s) = pc_cancelled s"
  "pc_phase (set_bot k x s) = pc_phase s"
  by (simp_all add: set_bot_def)

lemma close_fleet_sel [simp]:
  "pc_run (close_fleet Q s) = pc_run s" "pc_bots (close_fleet Q s) = pc_bots s" "pc_jobs (close_fleet Q s) = pc_jobs s"
  "pc_cancelled (close_fleet Q s) = pc_cancelled s" "pc_phase (close_fleet Q s) = pc_phase s"
  by (simp_all add: close_fleet_def)

lemma collector_turn_sel [simp]:
  "pc_jobs (collector_turn Q s) = pc_jobs s" "pc_cancelled (collector_turn Q s) = pc_cancelled s"
  "pc_phase (collector_turn Q s) = pc_phase s" "pc_fleet (collector_turn Q s) = pc_fleet s"
  "pc_bots (collector_turn Q s) = pc_bots s" "pc_run (collector_turn Q s) = occur (si_platform Q) NonceGC (pc_run s)"
  by (simp_all add: collector_turn_def)

lemma supervise_sel [simp]:
  "pc_jobs (supervise Q s) = pc_jobs s" "pc_cancelled (supervise Q s) = pc_cancelled s" "pc_phase (supervise Q s) = pc_phase s"
  by (simp_all add: supervise_def Let_def split: prod.splits)

lemma job_turn_sel [simp]:
  "pc_jobs (job_turn Q j s) = pc_jobs s" "pc_cancelled (job_turn Q j s) = pc_cancelled s" "pc_phase (job_turn Q j s) = pc_phase s"
  by (cases j; simp)+

lemma poll_bot_sel [simp]:
  "pc_fleet (poll_bot Q k s) = pc_fleet s" "pc_jobs (poll_bot Q k s) = pc_jobs s"
  "pc_cancelled (poll_bot Q k s) = pc_cancelled s" "pc_phase (poll_bot Q k s) = pc_phase s"
  "length (pc_bots (poll_bot Q k s)) = length (pc_bots s)"
  by (simp_all add: poll_bot_def split: prod.splits)

lemma poll_bot_stage: "k < length (pc_bots s) \<Longrightarrow>
    \<exists>x offset. x \<in> {Checking, Resting} \<and> pc_bots (poll_bot Q k s) = (pc_bots s)[k := (x, offset)]"
  unfolding poll_bot_def by (auto split: prod.splits sum.splits option.splits)

lemma supervise_bots: "\<exists>n. pc_bots (supervise Q s) = pc_bots s @ replicate n (Checking, 0)"
  by (auto simp: supervise_def Let_def split: prod.splits)

text \<open>A context stays cancelled.\<close>

lemma act_cancelled: "act Q m s = Some s' \<Longrightarrow> pc_cancelled s \<Longrightarrow> pc_cancelled s'"
  by (cases m) (auto split: if_splits)

text \<open>The turns a loop still has once the context is cancelled.\<close>

definition turns_left :: "job \<Rightarrow> 'l process \<Rightarrow> nat" where
  "turns_left j s = (if pc_jobs s j = Some Turning then 1 else 0)"

definition bot_turns_left :: "nat \<Rightarrow> 'l process \<Rightarrow> nat" where
  "bot_turns_left k s = (if bot_at k Turning s then 1 else 0)"

lemma turns_left_step:
  assumes "act Q m s = Some s'" "pc_cancelled s" "j \<in> {PushWorker, ReconciliationWorker}"
  shows "turns_left j s' + (if m = JobTurn j then 1 else 0) \<le> turns_left j s"
  using assms by (cases m) (auto simp: turns_left_def after_rest_def split: if_splits)

lemma bot_turns_left_step:
  assumes "act Q m s = Some s'" "pc_cancelled s"
  shows "bot_turns_left k s' + (if m = BotTurn k then 1 else 0) \<le> bot_turns_left k s"
proof (cases m)
  case (JobTurn j)
  obtain n where n: "pc_bots (job_turn Q j s) = pc_bots s @ replicate n (Checking, 0)"
    using supervise_bots[of Q s] by (cases j) (auto intro: that[of 0])
  show ?thesis using assms(1) JobTurn
    by (auto simp: bot_turns_left_def bot_at_def n nth_append split: if_splits)
next
  case (BotTurn i)
  then have i: "i < length (pc_bots s)" "fst (pc_bots s ! i) = Turning" "s' = poll_bot Q i s"
    using assms(1) by (auto simp: bot_at_def split: if_splits)
  show ?thesis using BotTurn i poll_bot_stage[OF i(1), of Q]
    by (auto simp: bot_turns_left_def bot_at_def nth_list_update split: if_splits)
qed (use assms in \<open>auto simp: bot_turns_left_def bot_at_def bot_cancelled_def nth_list_update split: if_splits\<close>)

interpretation cancellation: process_invariant Q pc_cancelled for Q :: "'l site"
  by unfold_locales (auto simp: fire_act dest: act_cancelled)

section \<open>Well-formed processes\<close>

lemma shutdown_sel [simp]: "fl_running (shutdown is F) = fl_running F" "length (fl_workers (shutdown is F)) = length (fl_workers F)"
  by (induction "is" arbitrary: F) (auto simp: cancel_worker_def split: option.splits)

lemma shutdown_stopped:
  "k < length (fl_workers F) \<Longrightarrow> wk_stopped (fl_workers (shutdown is F) ! k)
    \<longleftrightarrow> wk_stopped (fl_workers F ! k) \<or> (\<exists>i \<in> set is. \<exists>fp. fl_running F i = Some (k, fp))"
proof (induction "is" arbitrary: F)
  case (Cons i "is")
  show ?case
  proof (cases "fl_running F i")
    case None
    then show ?thesis using Cons by auto
  next
    case (Some p)
    obtain n fp where p: "p = (n, fp)" by force
    have F': "k < length (fl_workers (cancel_worker n F))" "fl_running (cancel_worker n F) = fl_running F"
      "wk_stopped (fl_workers (cancel_worker n F) ! k) \<longleftrightarrow> k = n \<or> wk_stopped (fl_workers F ! k)"
      using Cons.prems by (cases "k = n"; simp add: cancel_worker_def)+
    have "wk_stopped (fl_workers (shutdown is (cancel_worker n F)) ! k) \<longleftrightarrow>
        (k = n \<or> wk_stopped (fl_workers F ! k)) \<or> (\<exists>i \<in> set is. \<exists>fp. fl_running F i = Some (k, fp))"
      unfolding Cons.IH[OF F'(1)] F'(2,3) ..
    then show ?thesis using Some p by auto
  qed
qed simp

lemma shutdown_all:
  assumes ok: "fleet_ok F" and visit: "set is = dom (fl_running F)" and x: "x \<in> set (fl_workers (shutdown is F))"
  shows "wk_stopped x"
proof -
  obtain k where k: "k < length (fl_workers F)" "x = fl_workers (shutdown is F) ! k"
    using x by (auto simp: in_set_conv_nth)
  show ?thesis
  proof (cases "wk_stopped (fl_workers F ! k)")
    case False
    then obtain i fp where "fl_running F i = Some (k, fp)" using ok k(1) unfolding fleet_ok_def by blast
    then show ?thesis using k visit by (auto simp: shutdown_stopped)
  qed (simp add: k shutdown_stopped)
qed

lemma stop_stale_length [simp]: "length (fl_workers (stop_stale want is F)) = length (fl_workers F)"
  by (induction "is" arbitrary: F) (auto simp: cancel_worker_def split: option.splits)

lemma start_missing_dom: "dom (fl_running (start_missing factory want is F)) \<subseteq> dom (fl_running F) \<union> dom want"
proof (induction "is" arbitrary: F)
  case (Cons i "is")
  show ?case
  proof (cases "\<exists>inst r. fl_running F i = None \<and> want i = Some inst \<and> factory inst = Inr r")
    case True
    then obtain inst r where "fl_running F i = None" "want i = Some inst" "factory inst = Inr r" by blast
    moreover have "dom (fl_running (start_worker i (fingerprintOf inst) r F)) = insert i (dom (fl_running F))"
      by (simp add: start_worker_def)
    ultimately show ?thesis using Cons[of "start_worker i (fingerprintOf inst) r F"] by auto
  next
    case False
    then have "start_missing factory want (i # is) F = start_missing factory want is F"
      by (auto split: option.splits sum.splits)
    then show ?thesis using Cons by simp
  qed
qed simp

lemma stop_stale_dom: "dom (fl_running (stop_stale want is F)) \<subseteq> dom (fl_running F)"
proof (induction "is" arbitrary: F)
  case (Cons i "is")
  show ?case by (auto split: option.splits if_splits dest!: subsetD[OF Cons.IH])
qed simp

lemma reconcile_fleet_run:
  assumes ok: "fleet_ok F" "finite (dom (fl_running F))" and run: "reconcile_fleet factory ord1 ord2 pool F w = (r, w')"
  shows "\<exists>G. r = Inr G \<and> fleet_ok G \<and> finite (dom (fl_running G)) \<and> length (fl_workers F) \<le> length (fl_workers G)"
proof (cases "faulty w")
  case True
  then show ?thesis using run ok by (auto simp: reconcile_fleet_def bindE_def desired_run returnE_def)
next
  case False
  define want where "want = map_of (rev (map (\<lambda>c. (ch_id c, c))
      (sort_key ch_name (filter (live_channel pool ''telegram'') (channels w)))))"
  define H where "H = stop_stale want (ord1 (dom (fl_running F))) F"
  define G where "G = start_missing factory want (ord2 (dom want)) H"
  have r: "r = Inr G"
    using run False by (simp add: reconcile_fleet_def bindE_def desired_run returnE_def want_def G_def H_def)
  have H: "fleet_ok H" unfolding H_def using stop_stale_spec[OF ok(1)] by blast
  have G: "fleet_ok G" "\<exists>new. fl_workers G = fl_workers H @ new"
    unfolding G_def using start_missing_spec[OF H] by blast+
  have fw: "finite (dom want)" unfolding want_def by (rule finite_dom_map_of)
  have "finite (dom (fl_running H))" unfolding H_def by (rule finite_subset[OF stop_stale_dom ok(2)])
  then have "finite (dom (fl_running G))" unfolding G_def using fw by (intro finite_subset[OF start_missing_dom]) blast
  moreover have "length (fl_workers F) \<le> length (fl_workers G)" using G(2) by (auto simp: H_def)
  ultimately show ?thesis using r G(1) by blast
qed

definition all_stopped :: "bot fleet \<Rightarrow> bool" where
  "all_stopped F \<longleftrightarrow> (\<forall>x \<in> set (fl_workers F). wk_stopped x)"

definition bots_ended :: "'l process \<Rightarrow> bool" where
  "bots_ended s \<longleftrightarrow> (\<forall>b \<in> set (pc_bots s). fst b = Ended)"

definition fleet_state :: "stage option \<Rightarrow> 'l process \<Rightarrow> bool" where
  "fleet_state st s = (case st of
       None \<Rightarrow> fl_workers (pc_fleet s) = []
     | Some Closing \<Rightarrow> all_stopped (pc_fleet s)
     | Some Ended \<Rightarrow> all_stopped (pc_fleet s) \<and> bots_ended s
     | Some _ \<Rightarrow> fleet_ok (pc_fleet s) \<and> finite (dom (fl_running (pc_fleet s))))"

definition phase_state :: "'l process \<Rightarrow> bool" where
  "phase_state s \<longleftrightarrow> (pc_phase s = Listening \<longrightarrow> \<not> pc_cancelled s) \<and> (pc_phase s \<noteq> Listening \<longrightarrow> pc_cancelled s)
     \<and> (pc_phase s = Exited ExitClean \<longrightarrow> (\<forall>j. pc_jobs s j \<in> {None, Some Ended}))"

definition process_ok :: "'l process \<Rightarrow> bool" where
  "process_ok s \<longleftrightarrow> length (pc_bots s) = length (fl_workers (pc_fleet s))
     \<and> fleet_state (pc_jobs s BotSupervisor) s \<and> phase_state s
     \<and> (\<forall>j. pc_jobs s j \<noteq> Some (if j = BotSupervisor then Checking else Closing))
     \<and> (\<forall>b \<in> set (pc_bots s). fst b \<noteq> Closing)"

definition visits :: "'l site \<Rightarrow> bool" where
  "visits Q \<longleftrightarrow> (\<forall>A. finite A \<longrightarrow> set (si_ord3 Q A) = A)"

lemma process_ok_stages:
  assumes "process_ok s"
  shows "pc_jobs s BotSupervisor \<noteq> Some Checking" "j \<noteq> BotSupervisor \<Longrightarrow> pc_jobs s j \<noteq> Some Closing"
proof -
  have st: "\<And>j. pc_jobs s j \<noteq> Some (if j = BotSupervisor then Checking else Closing)"
    using assms by (simp add: process_ok_def)
  show "pc_jobs s BotSupervisor \<noteq> Some Checking" using st[of BotSupervisor] by simp
  show "j \<noteq> BotSupervisor \<Longrightarrow> pc_jobs s j \<noteq> Some Closing" using st[of j] by simp
qed

lemma fleet_state_cong:
  "pc_fleet s' = pc_fleet s \<Longrightarrow> pc_bots s' = pc_bots s \<Longrightarrow> fleet_state st s' = fleet_state st s"
  by (simp add: fleet_state_def bots_ended_def split: option.split stage.split)

lemma bot_not_ended: "bot_at k x s \<Longrightarrow> x \<noteq> Ended \<Longrightarrow> \<not> bots_ended s"
  by (auto simp: bot_at_def bots_ended_def)

text \<open>A move of one bot.\<close>

lemma process_ok_bot:
  assumes ok: "process_ok s" and at: "bot_at k x s" "x \<noteq> Ended" and to: "y \<noteq> Closing"
    and s': "pc_fleet s' = pc_fleet s" "pc_jobs s' = pc_jobs s" "pc_cancelled s' = pc_cancelled s" "pc_phase s' = pc_phase s"
      "pc_bots s' = (pc_bots s)[k := (y, n)]"
  shows "process_ok s'"
proof -
  have "pc_jobs s BotSupervisor \<noteq> Some Ended"
    using ok bot_not_ended[OF at] by (auto simp: process_ok_def fleet_state_def)
  then have "fleet_state (pc_jobs s BotSupervisor) s'"
    using ok s'(1) by (auto simp: process_ok_def fleet_state_def split: option.split stage.split)
  moreover have "phase_state s'" using ok s' by (simp add: process_ok_def phase_state_def)
  moreover have "\<forall>b \<in> set (pc_bots s'). fst b \<noteq> Closing"
    using ok to set_update_subset_insert[of "pc_bots s" k "(y, n)"] by (auto simp: s' process_ok_def)
  ultimately show ?thesis using ok s' by (simp add: process_ok_def)
qed

text \<open>A move of one loop that leaves the fleet as it is.\<close>

lemma process_ok_job:
  assumes ok: "process_ok s" and open_: "\<forall>e. pc_phase s \<noteq> Exited e"
    and st: "y \<noteq> (if j = BotSupervisor then Checking else Closing)" "j = BotSupervisor \<Longrightarrow> fleet_state (Some y) s"
  shows "process_ok (set_job j y s)"
proof -
  have "fleet_state (pc_jobs (set_job j y s) BotSupervisor) (set_job j y s)"
    using ok st by (auto simp: process_ok_def fleet_state_cong[of "set_job j y s" s])
  moreover have "phase_state (set_job j y s)"
    using ok open_ by (auto simp: process_ok_def phase_state_def)
  ultimately show ?thesis using ok st(1) by (auto simp: process_ok_def)
qed

lemma process_ok_quiet:
  "process_ok s \<Longrightarrow> pc_fleet s' = pc_fleet s \<Longrightarrow> pc_bots s' = pc_bots s \<Longrightarrow> pc_jobs s' = pc_jobs s \<Longrightarrow> phase_state s'
    \<Longrightarrow> process_ok s'"
  by (simp add: process_ok_def fleet_state_cong[of s' s])

lemma process_ok_turn:
  assumes ok: "process_ok s" and at: "pc_jobs s j = Some Turning"
  shows "process_ok (job_turn Q j s)"
proof (cases "j = BotSupervisor")
  case False
  have p: "phase_state (job_turn Q j s)" using ok by (simp add: process_ok_def phase_state_def)
  have "pc_fleet (job_turn Q j s) = pc_fleet s" "pc_bots (job_turn Q j s) = pc_bots s" using False by (cases j; simp)+
  then show ?thesis by (intro process_ok_quiet[OF ok] p) simp_all
next
  case True
  let ?A = "pc_fleet s" and ?B = "pc_fleet (supervise Q s)"
  have F: "fleet_ok ?A" "finite (dom (fl_running ?A))" using ok at True by (simp_all add: process_ok_def fleet_state_def)
  have "fleet_ok ?B \<and> finite (dom (fl_running ?B)) \<and> length (pc_bots (supervise Q s)) = length (fl_workers ?B)"
    using ok reconcile_fleet_run[OF F]
    by (fastforce simp: supervise_def Let_def keep_or_def process_ok_def split: prod.split)
  then have "fleet_state (Some Turning) (supervise Q s)" "length (pc_bots (supervise Q s)) = length (fl_workers ?B)"
    by (simp_all add: fleet_state_def)
  moreover have "\<forall>b \<in> set (pc_bots (supervise Q s)). fst b \<noteq> Closing"
    using ok supervise_bots[of Q s] by (auto simp: process_ok_def)
  moreover have "phase_state (supervise Q s)" using ok by (simp add: process_ok_def phase_state_def)
  ultimately show ?thesis using ok at True by (simp add: process_ok_def)
qed

lemma process_ok_close:
  assumes "visits Q" and ok: "process_ok s" and at: "pc_jobs s BotSupervisor = Some Resting"
  shows "process_ok (set_job BotSupervisor Closing (close_fleet Q s))"
proof -
  let ?F = "pc_fleet s"
  have F: "fleet_ok ?F" "finite (dom (fl_running ?F))" using ok at by (simp_all add: process_ok_def fleet_state_def)
  have "all_stopped (pc_fleet (close_fleet Q s))"
    using shutdown_all[OF F(1), of "si_ord3 Q (dom (fl_running ?F))"] assms(1) F(2)
    by (simp add: all_stopped_def close_fleet_def visits_def)
  then have "fleet_state (Some Closing) (set_job BotSupervisor Closing (close_fleet Q s))" by (simp add: fleet_state_def)
  moreover have "length (fl_workers (pc_fleet (close_fleet Q s))) = length (fl_workers ?F)" by (simp add: close_fleet_def)
  moreover have "phase_state (set_job BotSupervisor Closing (close_fleet Q s))"
  proof -
    have ph: "phase_state s" using ok by (simp add: process_ok_def)
    then have "pc_phase s \<noteq> Exited ExitClean" using at by (auto simp: phase_state_def dest!: spec[of _ BotSupervisor])
    then show ?thesis using ph by (simp add: phase_state_def)
  qed
  ultimately show ?thesis using ok process_ok_stages(2)[OF ok] unfolding process_ok_def
    by (simp add: set_job_sel)
qed

lemma process_ok_loop_move:
  assumes vis: "visits Q" and ok: "process_ok s" and al: "\<forall>e. pc_phase s \<noteq> Exited e" and a: "act Q m s = Some s'"
    and m: "m \<in> {JobCheck j, JobTurn j, JobWake j, JobLeave j, JobJoin}"
  shows "process_ok s'"
proof -
  consider "m = JobCheck j" | "m = JobTurn j" | "m = JobWake j" | "m = JobLeave j" | "m = JobJoin" using m by blast
  then show ?thesis
  proof cases
    case 1
    then have "pc_jobs s j = Some Checking" "s' = set_job j (if pc_cancelled s then Ended else Turning) s"
      using a by (simp_all split: if_splits)
    moreover have "j \<noteq> BotSupervisor" using process_ok_stages(1)[OF ok] calculation(1) by auto
    ultimately show ?thesis using al by (auto intro!: process_ok_job[OF ok])
  next
    case 2
    then have j: "pc_jobs s j = Some Turning" "s' = set_job j Resting (job_turn Q j s)" using a by (auto split: if_splits)
    have t: "process_ok (job_turn Q j s)" by (rule process_ok_turn[OF ok j(1)])
    have "j = BotSupervisor \<Longrightarrow> fleet_state (Some Resting) (job_turn Q j s)"
      using t j(1) by (simp add: process_ok_def fleet_state_def)
    then show ?thesis unfolding j(2) using al by (intro process_ok_job[OF t]) auto
  next
    case 3
    then have j: "pc_jobs s j = Some Resting" "s' = set_job j (after_rest j) s" using a by (auto split: if_splits)
    have "fleet_state (pc_jobs s BotSupervisor) s" using ok by (simp add: process_ok_def)
    then have "j = BotSupervisor \<Longrightarrow> fleet_state (Some (after_rest j)) s"
      using j(1) by (simp add: fleet_state_def after_rest_def)
    then show ?thesis unfolding j(2) using al by (intro process_ok_job[OF ok]) (auto simp: after_rest_def split: job.splits)
  next
    case 4
    then show ?thesis using a ok al process_ok_close[OF vis ok]
      by (auto intro!: process_ok_job[OF ok] split: if_splits)
  next
    case 5
    then have j: "pc_jobs s BotSupervisor = Some Closing" "bots_ended s" "s' = set_job BotSupervisor Ended s"
      using a by (auto simp: bots_ended_def split: if_splits)
    have "fleet_state (pc_jobs s BotSupervisor) s" using ok by (simp add: process_ok_def)
    then have "fleet_state (Some Ended) s" using j by (simp add: fleet_state_def)
    then show ?thesis unfolding j(3) using al by (intro process_ok_job[OF ok]) auto
  qed
qed

lemma process_ok_bot_move:
  assumes ok: "process_ok s" and a: "act Q m s = Some s'" and m: "m \<in> {BotCheck k, BotTurn k, BotWake k, BotLeave k}"
  shows "process_ok s'"
proof -
  consider "m = BotCheck k" | "m = BotTurn k" | "m = BotWake k" | "m = BotLeave k" using m by blast
  then show ?thesis
  proof cases
    case 1
    then have k: "bot_at k Checking s" "s' = set_bot k (if bot_cancelled k s then Ended else Turning) s"
      using a by (simp_all split: if_splits)
    then show ?thesis by (intro process_ok_bot[OF ok k(1), where y = "if bot_cancelled k s then Ended else Turning"]) simp_all
  next
    case 2
    then have k: "bot_at k Turning s" "s' = poll_bot Q k s" using a by (auto split: if_splits)
    then obtain y n where "y \<in> {Checking, Resting}" "pc_bots s' = (pc_bots s)[k := (y, n)]"
      using poll_bot_stage[of k s Q] by (auto simp: bot_at_def)
    then show ?thesis using k by (intro process_ok_bot[OF ok k(1), of y]) auto
  next
    case 3
    then have k: "bot_at k Resting s" "s' = set_bot k Checking s" using a by (auto split: if_splits)
    then show ?thesis by (intro process_ok_bot[OF ok k(1), where y = Checking]) simp_all
  next
    case 4
    then have k: "bot_at k Resting s" "s' = set_bot k Ended s" using a by (auto split: if_splits)
    then show ?thesis by (intro process_ok_bot[OF ok k(1), where y = Ended]) simp_all
  qed
qed

lemma process_ok_fire:
  assumes vis: "visits Q" and ok: "process_ok s" and f: "fire Q m s = Some s'"
  shows "process_ok s'"
proof -
  have al: "\<forall>e. pc_phase s \<noteq> Exited e" and a: "act Q m s = Some s'" using f by (simp_all add: fire_act)
  have ph: "phase_state s" using ok by (simp add: process_ok_def)
  then have quiet: "process_ok (s\<lparr>pc_run := r\<rparr>)" for r
    by (intro process_ok_quiet[OF ok]) (simp_all add: phase_state_def)
  show ?thesis
  proof (cases m)
    case WorkersStopped
    have every: "j \<in> {NonceCollector, BotSupervisor, PushWorker, ReconciliationWorker}" for j by (cases j) auto
    have w: "pc_phase s = JoiningWorkers" "s' = s\<lparr>pc_phase := Exited ExitClean\<rparr>" "pc_jobs s j \<in> {None, Some Ended}" for j
      using a WorkersStopped every[of j] by (simp_all split: if_splits) auto
    have "phase_state s'" using ph w by (simp add: phase_state_def)
    then show ?thesis by (intro process_ok_quiet[OF ok]) (simp_all add: w(2))
  next
    case (Request ev)
    then show ?thesis using a by (auto intro!: quiet split: if_splits)
  next
    case (Elapse t)
    then show ?thesis using a by (auto intro!: quiet)
  next
    case (JobCheck j)
    then show ?thesis using process_ok_loop_move[OF vis ok al a, of j] by simp
  next
    case (JobTurn j)
    then show ?thesis using process_ok_loop_move[OF vis ok al a, of j] by simp
  next
    case (JobWake j)
    then show ?thesis using process_ok_loop_move[OF vis ok al a, of j] by simp
  next
    case (JobLeave j)
    then show ?thesis using process_ok_loop_move[OF vis ok al a, of j] by simp
  next
    case JobJoin
    then show ?thesis using process_ok_loop_move[OF vis ok al a] by simp
  next
    case (BotCheck k)
    then show ?thesis using process_ok_bot_move[OF ok a, of k] by simp
  next
    case (BotTurn k)
    then show ?thesis using process_ok_bot_move[OF ok a, of k] by simp
  next
    case (BotWake k)
    then show ?thesis using process_ok_bot_move[OF ok a, of k] by simp
  next
    case (BotLeave k)
    then show ?thesis using process_ok_bot_move[OF ok a, of k] by simp
  qed (use a ph in \<open>auto intro!: process_ok_quiet[OF ok] simp: phase_state_def split: if_splits\<close>)
qed

lemma process_ok_launch: "process_ok (launch Q w)"
  by (auto simp: process_ok_def launch_def fleet_state_def fleet_ok_def phase_state_def first_stage_def split: job.split)

interpretation well_formed: process_invariant Q "\<lambda>s. visits Q \<and> process_ok s" for Q :: "'l site"
  by unfold_locales (blast intro: process_ok_fire)

text \<open>What is left to do when the process shuts down: the moves of each loop up to its end.\<close>

fun stage_rank :: "stage \<Rightarrow> nat" where
  "stage_rank Ended = 0"
| "stage_rank Closing = 1"
| "stage_rank Checking = 1"
| "stage_rank Resting = 2"
| "stage_rank Turning = 3"

definition job_rank :: "job \<Rightarrow> 'l process \<Rightarrow> nat" where
  "job_rank j s = (case pc_jobs s j of None \<Rightarrow> 0 | Some x \<Rightarrow> stage_rank x)"

definition bots_rank :: "'l process \<Rightarrow> nat" where
  "bots_rank s = sum_list (map (stage_rank \<circ> fst) (pc_bots s))"

definition winding_down :: "'l process \<Rightarrow> bool" where
  "winding_down s \<longleftrightarrow> pc_phase s = JoiningWorkers \<and> pc_cancelled s \<and> process_ok s"

lemma winding_fire:
  assumes "visits Q" "winding_down s" "act Q m s = Some s'" "pc_phase s' = JoiningWorkers"
  shows "winding_down s' \<and> perform Q [m] s = Some s'"
proof -
  have f: "fire Q m s = Some s'" using assms by (simp add: fire_act winding_down_def)
  then show ?thesis using process_ok_fire[OF assms(1) _ f] act_cancelled[OF assms(3)] assms(2,4)
    by (simp add: winding_down_def)
qed

text \<open>A loop whose context is cancelled can be brought to its end.\<close>

lemma job_ends:
  assumes vis: "visits Q" and j: "j \<noteq> BotSupervisor"
  shows "winding_down s \<Longrightarrow> \<exists>ms s'. perform Q ms s = Some s' \<and> winding_down s' \<and> pc_jobs s' j \<in> {None, Some Ended}
     \<and> (\<forall>i. i \<noteq> j \<longrightarrow> pc_jobs s' i = pc_jobs s i)"
proof (induction "job_rank j s" arbitrary: s rule: less_induct)
  case less
  show ?case
  proof (cases "pc_jobs s j \<in> {None, Some Ended}")
    case True
    then show ?thesis using less.prems by (auto intro!: exI[of _ "[]"])
  next
    case False
    then obtain x where x: "pc_jobs s j = Some x" "x \<noteq> Ended" by (cases "pc_jobs s j") auto
    have "x \<noteq> Closing" using process_ok_stages(2)[OF _ j, of s] less.prems x by (auto simp: winding_down_def)
    then have m: "\<exists>m s1. act Q m s = Some s1 \<and> pc_phase s1 = JoiningWorkers \<and> job_rank j s1 < job_rank j s
        \<and> (\<forall>i. i \<noteq> j \<longrightarrow> pc_jobs s1 i = pc_jobs s i)"
    proof (cases x)
      case Checking
      then show ?thesis using x less.prems
        by (intro exI[of _ "JobCheck j"] exI[of _ "set_job j Ended s"]) (auto simp: job_rank_def winding_down_def)
    next
      case Turning
      then show ?thesis using x less.prems
        by (intro exI[of _ "JobTurn j"] exI[of _ "set_job j Resting (job_turn Q j s)"]) (auto simp: job_rank_def winding_down_def)
    next
      case Resting
      then show ?thesis using x less.prems j
        by (intro exI[of _ "JobLeave j"] exI[of _ "set_job j Ended s"]) (auto simp: job_rank_def winding_down_def)
    qed (use x in auto)
    then obtain m s1 where m: "act Q m s = Some s1" "pc_phase s1 = JoiningWorkers" "job_rank j s1 < job_rank j s"
      "\<forall>i. i \<noteq> j \<longrightarrow> pc_jobs s1 i = pc_jobs s i" by blast
    note one = winding_fire[OF vis less.prems m(1,2)]
    obtain ms s2 where "perform Q ms s1 = Some s2" "winding_down s2" "pc_jobs s2 j \<in> {None, Some Ended}"
      "\<forall>i. i \<noteq> j \<longrightarrow> pc_jobs s2 i = pc_jobs s1 i" using less.hyps[OF m(3) conjunct1[OF one]] by blast
    then show ?thesis using one m(4) by (intro exI[of _ "m # ms"] exI[of _ s2]) (auto split: option.splits)
  qed
qed

lemma bot_move:
  assumes w: "winding_down s" and k: "k < length (pc_bots s)" "fst (pc_bots s ! k) \<noteq> Ended"
  shows "\<exists>m s1. act Q m s = Some s1 \<and> pc_phase s1 = JoiningWorkers \<and> pc_jobs s1 = pc_jobs s
    \<and> (\<exists>y n. stage_rank y < stage_rank (fst (pc_bots s ! k)) \<and> pc_bots s1 = (pc_bots s)[k := (y, n)])"
proof -
  have c: "pc_phase s = JoiningWorkers" "bot_cancelled k s" using w by (simp_all add: winding_down_def bot_cancelled_def)
  have "fst (pc_bots s ! k) \<noteq> Closing" using w nth_mem[OF k(1)] by (auto simp: winding_down_def process_ok_def)
  then consider "bot_at k Checking s" | "bot_at k Turning s" | "bot_at k Resting s"
    using k by (cases "fst (pc_bots s ! k)") (auto simp: bot_at_def)
  then show ?thesis
  proof cases
    case 1
    then have "act Q (BotCheck k) s = Some (set_bot k Ended s)" using c by simp
    then show ?thesis using 1 c(1) by (intro exI[of _ "BotCheck k"] exI[of _ "set_bot k Ended s"])
      (auto simp: bot_at_def intro!: exI[of _ Ended])
  next
    case 2
    then have a: "act Q (BotTurn k) s = Some (poll_bot Q k s)" by simp
    obtain y n where y: "y \<in> {Checking, Resting}" "pc_bots (poll_bot Q k s) = (pc_bots s)[k := (y, n)]"
      using poll_bot_stage[OF k(1), of Q] by blast
    have "stage_rank y < stage_rank (fst (pc_bots s ! k))" using y(1) 2 by (auto simp: bot_at_def)
    then show ?thesis using a y(2) c(1)
      by (intro exI[of _ "BotTurn k"] exI[of _ "poll_bot Q k s"] conjI exI[of _ y] exI[of _ n]) simp_all
  next
    case 3
    then have "act Q (BotLeave k) s = Some (set_bot k Ended s)" using c by simp
    then show ?thesis using 3 c(1) by (intro exI[of _ "BotLeave k"] exI[of _ "set_bot k Ended s"])
      (auto simp: bot_at_def intro!: exI[of _ Ended])
  qed
qed

lemma bots_rank_update:
  assumes "k < length (pc_bots s)" "pc_bots s1 = (pc_bots s)[k := (y, n)]" "stage_rank y < stage_rank (fst (pc_bots s ! k))"
  shows "bots_rank s1 < bots_rank s"
proof -
  let ?r = "map (stage_rank \<circ> fst) (pc_bots s)"
  have "sum_list (?r[k := stage_rank y]) = sum_list ?r + stage_rank y - ?r ! k"
    using assms(1) by (intro sum_list_update) simp
  moreover have "?r ! k \<le> sum_list ?r" using assms(1) by (intro elem_le_sum_list) simp
  ultimately show ?thesis using assms by (simp add: bots_rank_def map_update)
qed

lemma bots_end:
  assumes vis: "visits Q"
  shows "winding_down s \<Longrightarrow> \<exists>ms s'. perform Q ms s = Some s' \<and> winding_down s' \<and> bots_ended s' \<and> pc_jobs s' = pc_jobs s"
proof (induction "bots_rank s" arbitrary: s rule: less_induct)
  case less
  show ?case
  proof (cases "bots_ended s")
    case True
    then show ?thesis using less.prems by (auto intro!: exI[of _ "[]"])
  next
    case False
    then obtain k where k: "k < length (pc_bots s)" "fst (pc_bots s ! k) \<noteq> Ended"
      by (auto simp: bots_ended_def in_set_conv_nth)
    from bot_move[OF less.prems k, of Q] obtain m s1 y n where m: "act Q m s = Some s1" "pc_phase s1 = JoiningWorkers"
        "pc_jobs s1 = pc_jobs s" "stage_rank y < stage_rank (fst (pc_bots s ! k))" "pc_bots s1 = (pc_bots s)[k := (y, n)]" by blast
    note one = winding_fire[OF vis less.prems m(1,2)]
    obtain ms s2 where "perform Q ms s1 = Some s2" "winding_down s2" "bots_ended s2" "pc_jobs s2 = pc_jobs s1"
      using less.hyps[OF bots_rank_update[OF k(1) m(5,4)] conjunct1[OF one]] by blast
    then show ?thesis using one m(3) by (intro exI[of _ "m # ms"] exI[of _ s2]) (auto split: option.splits)
  qed
qed

lemma supervisor_closes:
  assumes vis: "visits Q" and w: "winding_down s"
  shows "\<exists>ms s'. perform Q ms s = Some s' \<and> winding_down s' \<and> pc_jobs s' BotSupervisor \<in> {None, Some Closing, Some Ended}
     \<and> (\<forall>i. i \<noteq> BotSupervisor \<longrightarrow> pc_jobs s' i = pc_jobs s i)"
proof -
  have leave: ?thesis if r: "winding_down t" "pc_jobs t BotSupervisor = Some Resting" "perform Q ms s = Some t"
      "\<forall>i. i \<noteq> BotSupervisor \<longrightarrow> pc_jobs t i = pc_jobs s i" for ms t
  proof -
    let ?u = "set_job BotSupervisor Closing (close_fleet Q t)"
    have a: "act Q (JobLeave BotSupervisor) t = Some ?u" using r by (simp add: winding_down_def)
    have "winding_down ?u \<and> perform Q [JobLeave BotSupervisor] t = Some ?u"
      by (rule winding_fire[OF vis r(1) a]) (use r(1) in \<open>simp add: winding_down_def\<close>)
    then show ?thesis using r(3,4) by (intro exI[of _ "ms @ [JobLeave BotSupervisor]"] exI[of _ ?u]) (auto simp: perform_append)
  qed
  show ?thesis
  proof (cases "pc_jobs s BotSupervisor \<in> {None, Some Closing, Some Ended}")
    case True
    then show ?thesis using w by (auto intro!: exI[of _ "[]"])
  next
    case False
    then obtain x where x: "pc_jobs s BotSupervisor = Some x" "x \<noteq> Closing" "x \<noteq> Ended" by auto
    have "x \<noteq> Checking" using process_ok_stages(1)[of s] w x(1) by (auto simp: winding_down_def)
    then consider "x = Resting" | "x = Turning" using x by (cases x) auto
    then show ?thesis
    proof cases
      case 1
      then show ?thesis using leave[of s "[]"] w x by simp
    next
      case 2
      let ?t = "set_job BotSupervisor Resting (supervise Q s)"
      have a: "act Q (JobTurn BotSupervisor) s = Some ?t" using x 2 by simp
      have "winding_down ?t \<and> perform Q [JobTurn BotSupervisor] s = Some ?t"
        by (rule winding_fire[OF vis w a]) (use w in \<open>simp add: winding_down_def\<close>)
      then show ?thesis using leave[of ?t "[JobTurn BotSupervisor]"] by simp
    qed
  qed
qed

lemma supervisor_ends:
  assumes vis: "visits Q" and w: "winding_down s"
  shows "\<exists>ms s'. perform Q ms s = Some s' \<and> winding_down s' \<and> pc_jobs s' BotSupervisor \<in> {None, Some Ended}
     \<and> (\<forall>i. i \<noteq> BotSupervisor \<longrightarrow> pc_jobs s' i = pc_jobs s i)"
proof -
  obtain ms t where t: "perform Q ms s = Some t" "winding_down t" "pc_jobs t BotSupervisor \<in> {None, Some Closing, Some Ended}"
      "\<forall>i. i \<noteq> BotSupervisor \<longrightarrow> pc_jobs t i = pc_jobs s i" using supervisor_closes[OF vis w] by blast
  obtain ms' u where u: "perform Q ms' t = Some u" "winding_down u" "bots_ended u" "pc_jobs u = pc_jobs t"
    using bots_end[OF vis t(2)] by blast
  have su: "perform Q (ms @ ms') s = Some u" using t(1) u(1) by (simp add: perform_append)
  show ?thesis
  proof (cases "pc_jobs u BotSupervisor = Some Closing")
    case False
    then show ?thesis using su u t(3,4) by (intro exI[of _ "ms @ ms'"] exI[of _ u]) auto
  next
    case True
    let ?v = "set_job BotSupervisor Ended u"
    have a: "act Q JobJoin u = Some ?v" using True u(3) by (simp add: bots_ended_def)
    have "winding_down ?v \<and> perform Q [JobJoin] u = Some ?v"
      by (rule winding_fire[OF vis u(2) a]) (use u(2) in \<open>simp add: winding_down_def\<close>)
    then show ?thesis using su u(4) t(4) by (intro exI[of _ "(ms @ ms') @ [JobJoin]"] exI[of _ ?v]) (simp only: perform_append, simp)
  qed
qed

lemma workers_stop:
  assumes vis: "visits Q" and w: "winding_down s"
  shows "\<exists>ms s'. perform Q ms s = Some s' \<and> pc_phase s' = Exited ExitClean"
proof -
  obtain m1 t where t: "perform Q m1 s = Some t" "winding_down t" "pc_jobs t BotSupervisor \<in> {None, Some Ended}"
    using supervisor_ends[OF vis w] by blast
  obtain m2 u where u: "perform Q m2 t = Some u" "winding_down u" "pc_jobs u NonceCollector \<in> {None, Some Ended}"
      "\<forall>i. i \<noteq> NonceCollector \<longrightarrow> pc_jobs u i = pc_jobs t i" using job_ends[OF vis, of NonceCollector, OF _ t(2)] by blast
  obtain m3 v where v: "perform Q m3 u = Some v" "winding_down v" "pc_jobs v PushWorker \<in> {None, Some Ended}"
      "\<forall>i. i \<noteq> PushWorker \<longrightarrow> pc_jobs v i = pc_jobs u i" using job_ends[OF vis, of PushWorker, OF _ u(2)] by blast
  obtain m4 x where x: "perform Q m4 v = Some x" "winding_down x" "pc_jobs x ReconciliationWorker \<in> {None, Some Ended}"
      "\<forall>i. i \<noteq> ReconciliationWorker \<longrightarrow> pc_jobs x i = pc_jobs v i"
    using job_ends[OF vis, of ReconciliationWorker, OF _ v(2)] by blast
  have "pc_jobs x BotSupervisor \<in> {None, Some Ended}" "pc_jobs x NonceCollector \<in> {None, Some Ended}"
    "pc_jobs x PushWorker \<in> {None, Some Ended}" using t(3) u(3,4) v(3,4) x(4) by simp_all
  then have "perform Q [WorkersStopped] x = Some (x\<lparr>pc_phase := Exited ExitClean\<rparr>)"
    using x(2,3) by (simp add: fire_def winding_down_def)
  then show ?thesis using t(1) u(1) v(1) x(1)
    by (intro exI[of _ "m1 @ m2 @ m3 @ m4 @ [WorkersStopped]"]) (simp add: perform_append del: perform.simps(2))
qed

section \<open>The process and the history of the service\<close>

lemma runners_cancel [simp]: "map wk_runner (fl_workers (cancel_worker k F)) = map wk_runner (fl_workers F)"
  by (cases "k < length (fl_workers F)") (simp_all add: cancel_worker_def map_update list_update_beyond list_update_same_conv)

lemma runners_shutdown [simp]: "map wk_runner (fl_workers (shutdown is F)) = map wk_runner (fl_workers F)"
  by (induction "is" arbitrary: F) (auto split: option.splits)

lemma runners_stop_stale [simp]: "map wk_runner (fl_workers (stop_stale want is F)) = map wk_runner (fl_workers F)"
proof (induction "is" arbitrary: F)
  case (Cons i "is")
  have "map wk_runner (fl_workers ((cancel_worker k F)\<lparr>fl_running := m\<rparr>)) = map wk_runner (fl_workers F)" for k m by simp
  then show ?case using Cons by (simp split: option.splits prod.splits)
qed simp

lemma runners_start_missing:
  "(\<And>inst r. factory inst = Inr r \<Longrightarrow> P r) \<Longrightarrow> \<forall>r \<in> set (map wk_runner (fl_workers F)). P r
    \<Longrightarrow> \<forall>r \<in> set (map wk_runner (fl_workers (start_missing factory want is F))). P r"
proof (induction "is" arbitrary: F)
  case (Cons i "is")
  show ?case
  proof (cases "\<exists>inst r. fl_running F i = None \<and> want i = Some inst \<and> factory inst = Inr r")
    case True
    then obtain inst r where new: "fl_running F i = None" "want i = Some inst" "factory inst = Inr r" by blast
    let ?G = "start_worker i (fingerprintOf inst) r F"
    have "\<forall>r \<in> set (map wk_runner (fl_workers ?G)). P r"
      using Cons.prems(1)[OF new(3)] Cons.prems(2) by (simp add: start_worker_def)
    from Cons.IH[OF Cons.prems(1) this] show ?thesis using new by simp
  next
    case False
    then have "start_missing factory want (i # is) F = start_missing factory want is F"
      by (auto split: option.splits sum.splits)
    then show ?thesis using Cons.IH[OF Cons.prems] by simp
  qed
qed simp

lemma start_missing_grows: "length (fl_workers F) \<le> length (fl_workers (start_missing factory want is F))"
proof (induction "is" arbitrary: F)
  case (Cons i "is")
  have "length (fl_workers F) \<le> length (fl_workers (start_worker i fp r F))" for fp r by (simp add: start_worker_def)
  then show ?case using Cons by (auto split: option.splits sum.splits intro: order_trans)
qed simp

definition wired_bot :: "'l site \<Rightarrow> bot \<Rightarrow> bool" where
  "wired_bot Q b \<longleftrightarrow> (\<exists>i tok. b = NewWorker (NewInstanceProcessor (Attest (ap_server (pf_api (si_platform Q))))
     (dp_pool (ap_deps (pf_api (si_platform Q)))) i) (taped_api (pf_botapi (si_platform Q))) tok)"

definition wired_fleet :: "'l site \<Rightarrow> bot fleet \<Rightarrow> bool" where
  "wired_fleet Q F \<longleftrightarrow> (\<forall>b \<in> set (map wk_runner (fl_workers F)). wired_bot Q b)"

lemma wired_supervise: "wired_fleet Q (pc_fleet s) \<Longrightarrow> wired_fleet Q (pc_fleet (supervise Q s))"
proof -
  assume wired: "wired_fleet Q (pc_fleet s)"
  let ?A = "pf_api (si_platform Q)"
  let ?f = "bot_factory (ap_server ?A) (dp_cipher (ap_deps ?A)) (taped_api (pf_botapi (si_platform Q))) (dp_pool (ap_deps ?A))"
  have made: "?f inst = Inr b \<Longrightarrow> wired_bot Q b" for inst b
    by (auto simp: bot_factory_def wired_bot_def split: sum.splits)
  have "wired_fleet Q (start_missing ?f want js (stop_stale want is (pc_fleet s)))" for want js "is"
    unfolding wired_fleet_def
    by (rule runners_start_missing) (use made wired in \<open>simp_all add: wired_fleet_def flip: set_map\<close>)
  then show ?thesis using wired
    by (auto simp: supervise_def Let_def reconcile_fleet_def bindE_def desired_run returnE_def keep_or_def split: prod.splits)
qed

lemma supervise_length: "length (pc_bots s) = length (fl_workers (pc_fleet s))
    \<Longrightarrow> length (pc_bots (supervise Q s)) = length (fl_workers (pc_fleet (supervise Q s)))"
proof -
  assume len: "length (pc_bots s) = length (fl_workers (pc_fleet s))"
  have "length (fl_workers (pc_fleet s)) \<le> length (fl_workers (start_missing factory want js (stop_stale want is (pc_fleet s))))"
    for factory :: "channel_config \<Rightarrow> bot result" and want js "is"
    using start_missing_grows[of "stop_stale want is (pc_fleet s)"] by simp
  then show ?thesis using len
    by (auto simp: supervise_def Let_def reconcile_fleet_def bindE_def desired_run returnE_def keep_or_def split: prod.splits)
qed

lemma tape_poll: "tape_only (GetUpdates (taped_api f) tok offset)"
proof -
  have "\<exists>d. snd (GetUpdates (taped_api f) tok offset w) = w\<lparr>draws := d, outbox := outbox w\<rparr>" for w
    by (cases "tok = ''''") (auto simp: GetUpdates_def api_call_def taped_api_def heard_def intro: exI[of _ "draws w"])
  then show ?thesis unfolding tape_only_def by blast
qed

lemma ledger_bot_turn:
  assumes api: "ap_server (pf_api (si_platform Q)) = wired S http key" and b: "wired_bot Q b"
  shows "moves same_ledger (bot_turn (wired S http key) b offset)"
proof -
  obtain i tok where b: "b = NewWorker (NewInstanceProcessor (Attest (wired S http key))
      (dp_pool (ap_deps (pf_api (si_platform Q)))) i) (taped_api (pf_botapi (si_platform Q))) tok"
    using b by (auto simp: wired_bot_def api)
  have h: "moves same_ledger (Handle (wired S http key) (bt_proc b) up)" for up
    using ledger_message by (simp add: b NewWorker_def)
  have snd: "moves same_ledger (ask (bt_send b chat t))" for chat t
    by (intro ask_moves ledger.unheard_axioms) (simp add: b NewWorker_def tape_call)
  have poll: "moves same_ledger (ask (bt_poll b n))" for n
    by (intro ask_moves ledger.unheard_axioms) (simp add: b NewWorker_def tape_poll)
  have "moves same_ledger (bot_batch (wired S http key) b n ups)" for n ups
    by (induction ups arbitrary: n) (auto simp: Let_def intro!: ledger_rules h snd)
  then show ?thesis unfolding bot_turn_def by (auto split: sum.splits intro!: ledger_rules poll)
qed

lemma ledger_fleet: "moves same_ledger (reconcile_fleet factory ord1 ord2 pool F)"
  unfolding reconcile_fleet_def desired_def Channel_ListActive_def
  by (auto split: sum.splits option.splits intro!: ledger_rules ledger.query)

text \<open>Every move of the process is part of a history of requests.\<close>

definition on_record :: "'l site \<Rightarrow> server \<Rightarrow> http \<Rightarrow> string \<Rightarrow> world \<Rightarrow> 'l process \<Rightarrow> bool" where
  "on_record Q S http key w s \<longleftrightarrow> ap_server (pf_api (si_platform Q)) = wired S http key
     \<and> wired_fleet Q (pc_fleet s) \<and> length (pc_bots s) = length (fl_workers (pc_fleet s))
     \<and> serves (wired S http key) w (rn_world (pc_run s))"

lemma on_record_turn:
  assumes "on_record Q S http key w s"
  shows "on_record Q S http key w (job_turn Q j s)"
proof -
  have api: "ap_server (pf_api (si_platform Q)) = wired S http key" and f: "wired_fleet Q (pc_fleet s)"
    and h: "serves (wired S http key) w (rn_world (pc_run s))" and len: "length (pc_bots s) = length (fl_workers (pc_fleet s))" using assms by (simp_all add: on_record_def)
  show ?thesis
  proof (cases "j = BotSupervisor")
    case True
    have "serves (wired S http key) w (rn_world (pc_run (supervise Q s)))"
      unfolding supervise_def Let_def
    proof (split prod.split, intro allI impI)
      fix r w' assume run: "reconcile_fleet (bot_factory (ap_server (pf_api (si_platform Q))) (dp_cipher (ap_deps (pf_api (si_platform Q))))
          (taped_api (pf_botapi (si_platform Q))) (dp_pool (ap_deps (pf_api (si_platform Q))))) (si_ord1 Q) (si_ord2 Q)
          (dp_pool (ap_deps (pf_api (si_platform Q)))) (pc_fleet s) (rn_world (pc_run s)) = (r, w')"
      have "same_ledger (rn_world (pc_run s)) w'"
        using ledger_fleet[unfolded moves_def, THEN spec, of "rn_world (pc_run s)"] run by (metis snd_conv)
      from serves.outside[OF h this] show "serves (wired S http key) w (rn_world (pc_run (s\<lparr>pc_fleet := keep_or (pc_fleet s) r,
           pc_bots := pc_bots s @ replicate (length (fl_workers (keep_or (pc_fleet s) r)) - length (pc_bots s)) (Checking, 0),
           pc_run := (pc_run s)\<lparr>rn_world := w'\<rparr>\<rparr>)))" by simp
    qed
    then show ?thesis using True wired_supervise[OF f] supervise_length[OF len] api by (simp add: on_record_def)
  next
    case False
    then show ?thesis using f api len occur_serves[OF api h] by (cases j) (simp_all add: on_record_def del: occur.simps)
  qed
qed

lemma on_record_fire:
  assumes rec: "on_record Q S http key w s" and f: "fire Q m s = Some s'"
  shows "on_record Q S http key w s'"
proof -
  have api: "ap_server (pf_api (si_platform Q)) = wired S http key" and fl: "wired_fleet Q (pc_fleet s)"
    and h: "serves (wired S http key) w (rn_world (pc_run s))" and len: "length (pc_bots s) = length (fl_workers (pc_fleet s))" using rec by (simp_all add: on_record_def)
  have a: "act Q m s = Some s'" using f by (simp add: fire_act)
  have same: "on_record Q S http key w t" if "pc_run t = pc_run s" "length (pc_bots t) = length (pc_bots s)"
      "map wk_runner (fl_workers (pc_fleet t)) = map wk_runner (fl_workers (pc_fleet s))" for t
    using rec that map_eq_imp_length_eq[OF that(3)] unfolding on_record_def wired_fleet_def by metis
  have event: "on_record Q S http key w (s\<lparr>pc_run := occur (si_platform Q) ev (pc_run s)\<rparr>)" for ev
    using occur_serves[OF api h] api fl len by (simp add: on_record_def)
  show ?thesis
  proof (cases m)
    case (JobTurn j)
    then show ?thesis using a on_record_turn[OF rec, of j] by (auto simp: on_record_def split: if_splits)
  next
    case (BotTurn k)
    then have k: "s' = poll_bot Q k s" "k < length (pc_bots s)" using a by (auto simp: bot_at_def split: if_splits)
    let ?b = "wk_runner (fl_workers (pc_fleet s) ! k)"
    have "wired_bot Q ?b" using fl k(2) len by (simp add: wired_fleet_def)
    then have "serves (wired S http key) w (snd (bot_turn (wired S http key) ?b (snd (pc_bots s ! k)) (rn_world (pc_run s))))"
      using serves.outside[OF h] ledger_bot_turn[OF api] by (simp add: moves_def)
    then have "serves (wired S http key) w (rn_world (pc_run s'))"
      unfolding k(1) poll_bot_def api by (simp split: prod.split) (metis snd_conv)
    then show ?thesis using api fl len by (simp add: on_record_def k(1))
  next
    case (JobLeave j)
    then show ?thesis using a by (auto intro!: same simp: close_fleet_def split: if_splits)
  next
    case (Request ev)
    then show ?thesis using a event[of ev] by (simp del: occur.simps split: if_splits)
  next
    case (Elapse t)
    then show ?thesis using a event[of "Tick t"] by (simp del: occur.simps)
  qed (use a in \<open>auto intro!: same split: if_splits\<close>)
qed

interpretation recorded: process_invariant Q "on_record Q S http key w" for Q :: "'l site" and S http key w
  by unfold_locales (rule on_record_fire)

lemma on_record_launch:
  "ap_server (pf_api (si_platform Q)) = wired S http key \<Longrightarrow> on_record Q S http key w (launch Q w)"
  by (simp add: on_record_def launch_def wired_fleet_def serves.start)

text \<open>No job is started later.\<close>

interpretation started: process_invariant Q "\<lambda>s. dom (pc_jobs s) = J" for Q :: "'l site" and J
proof (unfold_locales, goal_cases)
  case (1 s m s')
  then have "act Q m s = Some s'" by (simp add: fire_act)
  then show ?case using 1(1) by (cases m) (auto split: if_splits)
qed

section \<open>Guarantees of the process\<close>

text \<open>A start that succeeds.\<close>

definition sample_engine :: "unit engine" where
  "sample_engine = \<lparr>en_open = (\<lambda>_ _. Inr ()), en_ping = (\<lambda>_. None)\<rparr>"

definition sample_site :: "api \<Rightarrow> unit site" where
  "sample_site A = \<lparr>si_platform = sample_platform\<lparr>pf_api := A\<rparr>, si_ord1 = sorted_list_of_set, si_ord2 = sorted_list_of_set,
     si_ord3 = sorted_list_of_set\<rparr>"

lemma sample_site_sel [simp]: "pf_api (si_platform (sample_site A)) = A"
  by (simp add: sample_site_def)

lemma sample_visits: "visits (sample_site A)"
  by (simp add: visits_def sample_site_def)

definition sample_start :: "(start_error + config \<times> unit store \<times> api) \<times> string list schema" where
  "sample_start = start_up sample_primitives no_durations sample_engine sample_run [''sqlite'' \<mapsto> sample_migrations]
     sample_env (fresh_schema [])"

lemma sample_starts: "\<exists>st A s'. sample_start = (Inr (read_config sample_env, st, A), s') \<and> ap_oauth A"
proof -
  have cfg: "cf_driver (read_config sample_env) = ''sqlite''" by code_simp
  obtain A where A: "buildServices sample_primitives (read_config sample_env) = Inr A" "ap_oauth A"
    using sample_env_builds by blast
  have clean: "mg_faults (fresh_schema ([] :: string list)) = []" by (simp add: fresh_schema_def)
  have fs: "[''sqlite'' \<mapsto> sample_migrations] ''sqlite'' = Some sample_migrations" by simp
  obtain s' where "MigrateFS sample_run ''sqlite'' [''sqlite'' \<mapsto> sample_migrations] (fresh_schema []) = (Inr (), s')"
    using clean_start[where fsys = "[''sqlite'' \<mapsto> sample_migrations]" and dir = "''sqlite''" and entries = sample_migrations,
      OF sample_migrations_build(1) fs fresh_migrated sample_migrations_build(2) clean] by blast
  then show ?thesis using A cfg
    by (simp add: sample_start_def start_up_def sample_env_loads Open_def sqlDriverName_def sample_engine_def)
qed



text \<open>C21: The service only starts on a database that has every migration, with a configuration that
  was checked, over a connection that answers; a start that fails at any stage leaves the
  database after the first files of the migrations in order.\<close>

theorem starts_on_migrated_database:
  assumes dir: "distinct (map fst entries)" "fsys (cf_driver (read_config E)) = Some entries"
    and before: "migrated engine_run entries d0 k schema"
    and start: "start_up P dur en engine_run fsys E schema = (r, schema')"
  shows "(\<exists>k' \<ge> k. migrated engine_run entries d0 k' schema')
    \<and> (\<forall>cfg st A. r = Inr (cfg, st, A) \<longrightarrow>
         migrated engine_run entries d0 (length (migration_files entries)) schema'
         \<and> validate_config cfg = None \<and> en_ping en (st_db st) = None
         \<and> st_driver st = cf_driver cfg \<and> (st_maxconns st = Some 1 \<longleftrightarrow> cf_driver cfg = ''sqlite''))"
proof (cases "snd (Load dur E)")
  case (Inl e)
  then show ?thesis using start before by (auto simp: start_up_def)
next
  case (Inr cfg)
  note cfg = Load_Inr[OF Inr]
  have drv: "cf_driver cfg = cf_driver (read_config E)" using arg_cong[OF conjunct2[OF cfg], of cf_driver] by simp
  show ?thesis
  proof (cases "Open en (cf_driver cfg) (cf_dsn cfg)")
    case (Inl e)
    then show ?thesis using start before Inr by (auto simp: start_up_def)
  next
    case (Inr st)
    then have st: "st_driver st = cf_driver cfg" "en_ping en (st_db st) = None"
        "st_maxconns st = Some 1 \<longleftrightarrow> cf_driver cfg = ''sqlite''"
      by (auto simp: Open_def split: option.splits sum.splits if_splits)
    obtain q s1 where q: "MigrateFS engine_run (st_driver st) fsys schema = (q, s1)" by force
    obtain k' where k': "k' \<ge> k" "migrated engine_run entries d0 k' s1" "q = Inr () \<longrightarrow> k' = length (migration_files entries)"
      using MigrateFS_migrated[OF dir(1) _ before q] dir(2) by (auto simp: st drv)
    have r: "start_up P dur en engine_run fsys E schema = ((case q of Inl e \<Rightarrow> Inl (MigrationError e)
        | Inr _ \<Rightarrow> (case buildServices P cfg of Inl e \<Rightarrow> Inl (WiringError e) | Inr A \<Rightarrow> Inr (cfg, st, A))), s1)"
      using \<open>snd (Load dur E) = Inr cfg\<close> Inr q by (auto simp: start_up_def split: sum.splits)
    then have "schema' = s1" using start by simp
    moreover have "q = Inr () \<and> c = cfg \<and> t = st" if "r = Inr (c, t, A)" for c t A
      using that r start by (auto split: sum.splits)
    ultimately show ?thesis using k' st cfg by auto
  qed
qed

lemma starts_on_migrated_database_witness:
  "\<exists>st A s'. sample_start = (Inr (read_config sample_env, st, A), s')
     \<and> migrated sample_run sample_migrations [] 2 s' \<and> st_maxconns st = Some 1"
proof -
  obtain st A s' where start: "sample_start = (Inr (read_config sample_env, st, A), s')" using sample_starts by blast
  have drv: "cf_driver (read_config sample_env) = ''sqlite''" "length (migration_files sample_migrations) = 2" by code_simp+
  then have "[''sqlite'' \<mapsto> sample_migrations] (cf_driver (read_config sample_env)) = Some sample_migrations" by simp
  from starts_on_migrated_database[OF sample_migrations_build(1) this fresh_migrated start[unfolded sample_start_def]]
  show ?thesis using start drv by auto
qed

section \<open>Shutdown\<close>

text \<open>C24: Once the shutdown signal was received, every loop over the context makes at most the one
  turn it is in: the push worker, the reconciler and each bot, whatever else happens
  meanwhile and however long the process takes to end.\<close>

theorem one_turn_after_signal:
  assumes run: "life Q s ms s'" and signalled: "pc_cancelled s"
  shows "count_list ms (JobTurn PushWorker) \<le> 1 \<and> count_list ms (JobTurn ReconciliationWorker) \<le> 1
    \<and> count_list ms (BotTurn k) \<le> 1"
proof -
  have "turns_left j s' + count_list ms (JobTurn j) \<le> turns_left j s" if "j \<in> {PushWorker, ReconciliationWorker}" for j
    using run
  proof (induction rule: life.induct)
    case (moved ms t m t')
    then show ?case using turns_left_step[of Q m t t' j] that cancellation.along[OF moved(1) signalled]
      by (auto simp: fire_act split: if_splits)
  qed simp
  moreover have "bot_turns_left k s' + count_list ms (BotTurn k) \<le> bot_turns_left k s"
    using run
  proof (induction rule: life.induct)
    case (moved ms t m t')
    then show ?case using bot_turns_left_step[of Q m t t' k] cancellation.along[OF moved(1) signalled]
      by (auto simp: fire_act split: if_splits)
  qed simp
  moreover have "turns_left j s \<le> 1" for j by (simp add: turns_left_def)
  moreover have "bot_turns_left k s \<le> 1" by (simp add: bot_turns_left_def)
  ultimately show ?thesis by (meson add_leD2 insertI1 insertI2 order_trans)
qed

lemma one_turn_after_signal_witness:
  "\<exists>A s s'. ap_oauth A
     \<and> life (sample_site A) (launch (sample_site A) linking_world) [JobCheck PushWorker, Signal] s
     \<and> life (sample_site A) s [JobTurn PushWorker, JobWake PushWorker, JobCheck PushWorker] s'
     \<and> pc_jobs s' PushWorker = Some Ended
     \<and> count_list [JobTurn PushWorker, JobWake PushWorker, JobCheck PushWorker] (JobTurn PushWorker) \<le> 1"
proof -
  obtain A :: api where A: "ap_oauth A" using sample_starts by blast
  let ?Q = "sample_site A"
  obtain s where s: "perform ?Q [JobCheck PushWorker, Signal] (launch ?Q linking_world) = Some s"
      "pc_jobs s PushWorker = Some Turning" "pc_cancelled s" "pc_phase s = Draining"
    using A by (simp add: fire_def launch_def first_stage_def set_job_def)
  then obtain s' where "perform ?Q [JobTurn PushWorker, JobWake PushWorker, JobCheck PushWorker] s = Some s'"
      "pc_jobs s' PushWorker = Some Ended"
    by (simp add: fire_def after_rest_def del: job_turn.simps)
  then show ?thesis using A s(1) one_turn_after_signal[of ?Q s _ s', OF _ s(3)] unfolding life_perform by blast
qed

text \<open>C22: A process that reports a clean end has joined everything it started: each loop is over,
  every bot's loop is over, and every bot was told to stop. In particular no bot outlives
  the supervisor.\<close>

theorem clean_exit_joins_all:
  assumes vis: "visits Q" and run: "life Q (launch Q w) ms s" and over: "pc_phase s = Exited ExitClean"
  shows "(\<forall>j. pc_jobs s j \<in> {None, Some Ended})
    \<and> length (pc_bots s) = length (fl_workers (pc_fleet s))
    \<and> (\<forall>b \<in> set (pc_bots s). fst b = Ended) \<and> (\<forall>x \<in> set (fl_workers (pc_fleet s)). wk_stopped x)
    \<and> (\<forall>m. fire Q m s = None)"
proof -
  have ok: "process_ok s" using well_formed.along[OF run] vis process_ok_launch by blast
  then have jobs: "\<forall>j. pc_jobs s j \<in> {None, Some Ended}" and len: "length (pc_bots s) = length (fl_workers (pc_fleet s))"
    using over by (simp_all add: process_ok_def phase_state_def)
  have "fleet_state (pc_jobs s BotSupervisor) s" using ok by (simp add: process_ok_def)
  moreover have "pc_jobs s BotSupervisor = None \<or> pc_jobs s BotSupervisor = Some Ended" using jobs by auto
  ultimately have "bots_ended s \<and> all_stopped (pc_fleet s)"
    using len by (elim disjE) (simp_all add: fleet_state_def bots_ended_def all_stopped_def)
  then show ?thesis using jobs len over by (simp add: bots_ended_def all_stopped_def fire_def)
qed

lemma clean_exit_joins_all_witness:
  "\<exists>A ms s. ap_oauth A \<and> life (sample_site A) (launch (sample_site A) linking_world) ms s \<and> pc_phase s = Exited ExitClean
     \<and> (\<forall>j. pc_jobs s j \<in> {None, Some Ended})"
proof -
  obtain A :: api where A: "ap_oauth A" using sample_starts by blast
  let ?Q = "sample_site A"
  let ?s = "(launch ?Q linking_world)\<lparr>pc_phase := JoiningWorkers, pc_cancelled := True\<rparr>"
  have run: "perform ?Q [Signal, Drained] (launch ?Q linking_world) = Some ?s" by (simp add: fire_def launch_def)
  have "process_ok ?s" by (rule process_ok_quiet[OF process_ok_launch]) (auto simp: phase_state_def)
  then have "winding_down ?s" by (simp add: winding_down_def)
  from workers_stop[OF sample_visits this] obtain ms s where "perform ?Q ms ?s = Some s" "pc_phase s = Exited ExitClean" by blast
  then have "life ?Q (launch ?Q linking_world) ([Signal, Drained] @ ms) s" "pc_phase s = Exited ExitClean"
    using run unfolding life_perform by (simp_all only: perform_append option.case)
  then show ?thesis using A clean_exit_joins_all[OF sample_visits] by blast
qed

text \<open>C23: Shutdown never gets stuck: once the signal was received, from every state that any
  interleaving reaches before the process has ended, the server and the loops can still be
  brought to the clean end.\<close>

theorem shutdown_completes:
  assumes vis: "visits Q" and run: "life Q (launch Q w) ms s" and shutting: "pc_phase s \<in> {Draining, JoiningWorkers}"
  shows "\<exists>ms' s'. life Q s ms' s' \<and> pc_phase s' = Exited ExitClean"
proof -
  have ok: "process_ok s" using well_formed.along[OF run] vis process_ok_launch by blast
  then have cancelled: "pc_cancelled s" using shutting by (auto simp: process_ok_def phase_state_def)
  let ?t = "if pc_phase s = Draining then s\<lparr>pc_phase := JoiningWorkers\<rparr> else s"
  have t: "perform Q (if pc_phase s = Draining then [Drained] else []) s = Some ?t" by (simp add: fire_def)
  have "process_ok ?t"
    using ok cancelled by (auto intro!: process_ok_quiet[OF ok] simp: phase_state_def)
  then have "winding_down ?t" using shutting cancelled by (auto simp: winding_down_def)
  from workers_stop[OF vis this] obtain ms' s' where "perform Q ms' ?t = Some s'" "pc_phase s' = Exited ExitClean" by blast
  then have "perform Q ((if pc_phase s = Draining then [Drained] else []) @ ms') s = Some s'"
    using t by (simp only: perform_append option.case)
  then show ?thesis using \<open>pc_phase s' = Exited ExitClean\<close> unfolding life_perform by blast
qed

lemma shutdown_completes_witness:
  "\<exists>A ms s. ap_oauth A \<and> life (sample_site A) (launch (sample_site A) linking_world) ms s \<and> pc_phase s = Exited ExitClean"
proof -
  obtain A :: api where A: "ap_oauth A" using sample_starts by blast
  let ?Q = "sample_site A"
  have first: "\<exists>s. perform ?Q [JobCheck PushWorker, Signal] (launch ?Q linking_world) = Some s \<and> pc_phase s = Draining"
    using A by (simp add: fire_def launch_def first_stage_def set_job_def)
  then obtain s where s: "life ?Q (launch ?Q linking_world) [JobCheck PushWorker, Signal] s" "pc_phase s = Draining"
    unfolding life_perform by blast
  obtain ms s' where "life ?Q s ms s'" "pc_phase s' = Exited ExitClean"
    using shutdown_completes[OF sample_visits s(1)] s(2) by auto
  then have "life ?Q (launch ?Q linking_world) ([JobCheck PushWorker, Signal] @ ms) s'"
    using s(1) unfolding life_perform by (simp only: perform_append option.case)
  then show ?thesis using A \<open>pc_phase s' = Exited ExitClean\<close> by blast
qed

end
