(* ===== verification/JsonText.thy ===== *)
theory JsonText
  imports GoText
begin

text \<open>
  The text of a JSON column: what \<open>json.Marshal\<close> writes for a \<open>[]string\<close> and what
  \<open>json.Unmarshal\<close> makes of a text when the target is a \<open>[]string\<close>, as \<open>encodeStrings\<close> and
  \<open>decodeStrings\<close> of \<open>store/sqlhelpers.go\<close> use them.

  \<^item> A Go string is a list of bytes that need not be UTF-8. Both directions replace every
    byte that is not part of a well-formed sequence by the replacement character (U+FFFD).
  \<^item> The encoder escapes as \<open>encoding/json\<close> does by default: quotes, backslashes and control
    characters, and for HTML the signs \<open><\<close>, \<open>>\<close>, \<open>&\<close> and the separators U+2028 and U+2029.
  \<^item> The decoder accepts \<open>null\<close> and arrays of strings and \<open>null\<close>, with white space and every
    escape. Any other text is an error of Go as well, of the syntax or of the type.
\<close>

abbreviation byte_of :: "char \<Rightarrow> nat" where "byte_of c \<equiv> of_char c"

abbreviation dquote :: char where "dquote \<equiv> CHR 0x22"
abbreviation backslash :: char where "backslash \<equiv> CHR 0x5C"

section \<open>UTF-8\<close>

definition cont_byte :: "char \<Rightarrow> bool" where
  "cont_byte c \<longleftrightarrow> 128 \<le> byte_of c \<and> byte_of c \<le> 191"

text \<open>The second byte of a sequence of three or four is restricted further for some first bytes.\<close>

definition second_ok :: "char \<Rightarrow> char \<Rightarrow> bool" where
  "second_ok a b \<longleftrightarrow> cont_byte b
     \<and> (byte_of a = 224 \<longrightarrow> 160 \<le> byte_of b) \<and> (byte_of a = 237 \<longrightarrow> byte_of b \<le> 159)
     \<and> (byte_of a = 240 \<longrightarrow> 144 \<le> byte_of b) \<and> (byte_of a = 244 \<longrightarrow> byte_of b \<le> 143)"

text \<open>The length of the sequence of several bytes at the front, if there is a well-formed one.\<close>

fun multibyte :: "string \<Rightarrow> nat option" where
  "multibyte (a # b # s) =
     (if 194 \<le> byte_of a \<and> byte_of a \<le> 223 then (if cont_byte b then Some 2 else None)
      else if 224 \<le> byte_of a \<and> byte_of a \<le> 239 then
        (case s of c # _ \<Rightarrow> if second_ok a b \<and> cont_byte c then Some 3 else None | [] \<Rightarrow> None)
      else if 240 \<le> byte_of a \<and> byte_of a \<le> 244 then
        (case s of c # d # _ \<Rightarrow> if second_ok a b \<and> cont_byte c \<and> cont_byte d then Some 4 else None | _ \<Rightarrow> None)
      else None)"
| "multibyte _ = None"

definition replacement :: string where "replacement = map char_of [239, 191, 189 :: nat]"

text \<open>\<open>utf8.AppendRune\<close>\<close>

definition encode_rune :: "nat \<Rightarrow> string" where
  "encode_rune n =
     (if n < 128 then [char_of n]
      else if n < 2048 then map char_of [192 + n div 64, 128 + n mod 64]
      else if (55296 \<le> n \<and> n < 57344) \<or> 1114111 < n then replacement
      else if n < 65536 then map char_of [224 + n div 4096, 128 + n div 64 mod 64, 128 + n mod 64]
      else map char_of [240 + n div 262144, 128 + n div 4096 mod 64, 128 + n div 64 mod 64, 128 + n mod 64])"

lemma multibyte_size: "multibyte s = Some k \<Longrightarrow> 2 \<le> k \<and> k \<le> length s"
  by (induction s rule: multibyte.induct) (auto split: if_splits list.splits)

lemma multibyte_head: "multibyte (c # s) = Some k \<Longrightarrow> 128 \<le> byte_of c"
  by (cases s) (auto split: if_splits)

lemma multibyte_take: "multibyte s = Some k \<Longrightarrow> multibyte (take k s @ t) = Some k"
  by (induction s rule: multibyte.induct) (auto split: if_splits list.splits)

text \<open>A string with its malformed bytes replaced, and one that has none.\<close>

function coerce :: "string \<Rightarrow> string" where
  "coerce [] = []"
| "coerce (c # s) =
     (if byte_of c < 128 then c # coerce s
      else case multibyte (c # s) of
          None \<Rightarrow> replacement @ coerce s
        | Some k \<Rightarrow> take k (c # s) @ coerce (drop k (c # s)))"
  by pat_completeness auto
termination by (relation "measure length") (auto dest: multibyte_size)

function valid_utf8 :: "string \<Rightarrow> bool" where
  "valid_utf8 [] = True"
| "valid_utf8 (c # s) =
     (if byte_of c < 128 then valid_utf8 s
      else case multibyte (c # s) of None \<Rightarrow> False | Some k \<Rightarrow> valid_utf8 (drop k (c # s)))"
  by pat_completeness auto
termination by (relation "measure length") (auto dest: multibyte_size)

lemma coerce_valid: "valid_utf8 s \<Longrightarrow> coerce s = s"
  by (induction s rule: valid_utf8.induct) (auto split: if_splits option.splits simp: append_take_drop_id simp del: multibyte.simps)

lemma valid_ascii: "\<forall>c \<in> set s. byte_of c < 128 \<Longrightarrow> valid_utf8 s"
  by (induction s) auto

section \<open>The encoder\<close>

definition escape_char :: "char \<Rightarrow> string" where
  "escape_char c =
     (if c = dquote \<or> c = backslash then [backslash, c]
      else if byte_of c = 8 then [backslash, CHR ''b'']
      else if byte_of c = 12 then [backslash, CHR ''f'']
      else if byte_of c = 10 then [backslash, CHR ''n'']
      else if byte_of c = 13 then [backslash, CHR ''r'']
      else if byte_of c = 9 then [backslash, CHR ''t'']
      else if byte_of c < 32 \<or> c \<in> {CHR ''<'', CHR ''>'', CHR ''&''}
        then backslash # ''u00'' @ [hex_digit (byte_of c div 16), hex_digit (byte_of c mod 16)]
      else [c])"

definition line_sep :: string where "line_sep = map char_of [226, 128, 168 :: nat]"
definition par_sep :: string where "par_sep = map char_of [226, 128, 169 :: nat]"

definition quote_rune :: "string \<Rightarrow> string" where
  "quote_rune u = (if u = line_sep then backslash # ''u2028'' else if u = par_sep then backslash # ''u2029'' else u)"

function quote_body :: "string \<Rightarrow> string" where
  "quote_body [] = []"
| "quote_body (c # s) =
     (if byte_of c < 128 then escape_char c @ quote_body s
      else case multibyte (c # s) of
          None \<Rightarrow> backslash # ''ufffd'' @ quote_body s
        | Some k \<Rightarrow> quote_rune (take k (c # s)) @ quote_body (drop k (c # s)))"
  by pat_completeness auto
termination by (relation "measure length") (auto dest: multibyte_size)

definition quote :: "string \<Rightarrow> string" where "quote s = dquote # quote_body s @ [dquote]"

fun quote_list :: "string list \<Rightarrow> string" where
  "quote_list [] = []"
| "quote_list [x] = quote x"
| "quote_list (x # y # ys) = quote x @ CHR '','' # quote_list (y # ys)"

definition marshal_strings :: "string list \<Rightarrow> string" where
  "marshal_strings xs = CHR ''['' # quote_list xs @ [CHR '']'']"

section \<open>The decoder\<close>

fun getu4 :: "string \<Rightarrow> (nat \<times> string) option" where
  "getu4 (a # b # c # d # s) = (case (hex_val a, hex_val b, hex_val c, hex_val d) of
       (Some x, Some y, Some z, Some v) \<Rightarrow> Some (((x * 16 + y) * 16 + z) * 16 + v, s) | _ \<Rightarrow> None)"
| "getu4 _ = None"

text \<open>The second half of a surrogate pair: its value and what follows it.\<close>

definition low_half :: "string \<Rightarrow> (nat \<times> string) option" where
  "low_half s = (case s of
       a # b # r \<Rightarrow> if a = backslash \<and> b = CHR ''u'' then
         (case getu4 r of Some (m, q) \<Rightarrow> if 56320 \<le> m \<and> m < 57344 then Some (m, q) else None | None \<Rightarrow> None) else None
     | _ \<Rightarrow> None)"

definition decode_u :: "nat \<Rightarrow> string \<Rightarrow> string \<times> string" where
  "decode_u n r =
     (if 55296 \<le> n \<and> n < 57344 then
        (case (if n < 56320 then low_half r else None) of
           Some (m, q) \<Rightarrow> (encode_rune ((n - 55296) * 1024 + (m - 56320) + 65536), q)
         | None \<Rightarrow> (replacement, r))
      else (encode_rune n, r))"

definition simple_escapes :: "(char \<times> char) list" where
  "simple_escapes = [(dquote, dquote), (backslash, backslash), (CHR ''/'', CHR ''/''), (CHR ''b'', char_of (8 :: nat)),
     (CHR ''f'', char_of (12 :: nat)), (CHR ''n'', char_of (10 :: nat)), (CHR ''r'', char_of (13 :: nat)),
     (CHR ''t'', char_of (9 :: nat))]"

definition decode_escape :: "string \<Rightarrow> (string \<times> string) option" where
  "decode_escape s = (case s of [] \<Rightarrow> None
     | e # r \<Rightarrow> if e = CHR ''u'' then (case getu4 r of None \<Rightarrow> None | Some (n, q) \<Rightarrow> Some (decode_u n q))
                else map_option (\<lambda>x. ([x], r)) (map_of simple_escapes e))"

text \<open>The next character of a string literal, decoded, and what follows it.\<close>

definition string_step :: "char \<Rightarrow> string \<Rightarrow> (string \<times> string) option" where
  "string_step c s =
     (if c = backslash then decode_escape s
      else if byte_of c < 32 then None
      else if byte_of c < 128 then Some ([c], s)
      else case multibyte (c # s) of
          None \<Rightarrow> Some (replacement, s)
        | Some k \<Rightarrow> Some (take k (c # s), drop k (c # s)))"

lemma getu4_shorter: "getu4 s = Some (n, r) \<Longrightarrow> length r < length s"
  by (induction s rule: getu4.induct) (auto split: option.splits)

lemma low_half_shorter: "low_half s = Some (m, r) \<Longrightarrow> length r < length s"
  by (auto simp: low_half_def split: list.splits if_splits option.splits dest!: getu4_shorter)

lemma decode_u_shorter: "decode_u n s = (x, r) \<Longrightarrow> length r \<le> length s"
  by (auto simp: decode_u_def split: if_splits option.splits dest!: low_half_shorter)

lemma string_step_shorter: "string_step c s = Some (x, r) \<Longrightarrow> length r \<le> length s"
  unfolding string_step_def decode_escape_def
  by (auto simp del: multibyte.simps split: if_splits option.splits list.splits
      dest!: getu4_shorter decode_u_shorter dest: multibyte_size)

function unquote :: "string \<Rightarrow> (string \<times> string) option" where
  "unquote [] = None"
| "unquote (c # s) =
     (if c = dquote then Some ([], s)
      else case string_step c s of
          None \<Rightarrow> None
        | Some (x, r) \<Rightarrow> (case unquote r of None \<Rightarrow> None | Some (y, q) \<Rightarrow> Some (x @ y, q)))"
  by pat_completeness auto
termination by (relation "measure length") (auto dest!: string_step_shorter simp: le_imp_less_Suc)

lemma unquote_shorter: "unquote s = Some (x, r) \<Longrightarrow> length r < length s"
proof (induction s arbitrary: x r rule: unquote.induct)
  case (2 c s)
  show ?case
  proof (cases "c = dquote")
    case False
    then obtain y p z where st: "string_step c s = Some (y, p)" "unquote p = Some (z, r)"
      using "2.prems" by (auto split: option.splits)
    have "length r < length p" using "2.IH"[OF False st(1) refl st(2)] .
    then show ?thesis using string_step_shorter[OF st(1)] by simp
  qed (use "2.prems" in simp)
qed simp

definition json_space :: "char \<Rightarrow> bool" where
  "json_space c \<longleftrightarrow> byte_of c \<in> {32, 9, 10, 13}"

definition skip_space :: "string \<Rightarrow> string" where "skip_space s = dropWhile json_space s"

text \<open>An element of the array: a string, or \<open>null\<close>, which leaves the empty string.\<close>

definition parse_item :: "string \<Rightarrow> (string \<times> string) option" where
  "parse_item s = (case s of
       c # r \<Rightarrow> if c = dquote then unquote r
               else if take 4 s = ''null'' then Some ([], drop 4 s) else None
     | [] \<Rightarrow> None)"

lemma skip_space_shorter: "length (skip_space s) \<le> length s"
  by (simp add: skip_space_def length_dropWhile_le)

lemma parse_item_shorter: "parse_item s = Some (x, r) \<Longrightarrow> length r < length s"
  by (auto simp: parse_item_def split: list.splits if_splits dest: unquote_shorter)

function parse_items :: "string \<Rightarrow> (string list \<times> string) option" where
  "parse_items s = (case parse_item (skip_space s) of
       None \<Rightarrow> None
     | Some (x, r) \<Rightarrow> (case skip_space r of
           [] \<Rightarrow> None
         | c # q \<Rightarrow> if c = CHR '']'' then Some ([x], q)
             else if c = CHR '','' then (case parse_items q of None \<Rightarrow> None | Some (xs, p) \<Rightarrow> Some (x # xs, p))
             else None))"
  by pat_completeness auto
termination
proof (relation "measure length")
  fix s :: string and a and x r c q
  assume 1: "parse_item (skip_space s) = Some a" "(x, r) = a" "skip_space r = c # q"
  have "length q < length (skip_space r)" using 1(3) by simp
  also have "\<dots> \<le> length r" by (rule skip_space_shorter)
  also have "\<dots> < length (skip_space s)" using 1(1,2) by (auto dest: parse_item_shorter)
  also have "\<dots> \<le> length s" by (rule skip_space_shorter)
  finally show "(q, s) \<in> measure length" by simp
qed simp

declare parse_items.simps [simp del]

definition at_end :: "'a \<Rightarrow> string \<Rightarrow> 'a option" where
  "at_end x s = (if skip_space s = [] then Some x else None)"

definition unmarshal_strings :: "string \<Rightarrow> string list option" where
  "unmarshal_strings s0 = (let s = skip_space s0 in
     if take 4 s = ''null'' then at_end [] (drop 4 s)
     else (case s of
         c # r \<Rightarrow>
           if c \<noteq> CHR ''['' then None
           else if take 1 (skip_space r) = '']'' then at_end [] (drop 1 (skip_space r))
           else (case parse_items r of None \<Rightarrow> None | Some (xs, q) \<Rightarrow> at_end xs q)
       | [] \<Rightarrow> None))"

section \<open>The round trip\<close>

lemma unquote_step:
  assumes "u = c # v" "c \<noteq> dquote" "string_step c (v @ t) = Some (x, t)"
  shows "unquote (u @ t) = map_option (\<lambda>(y, q). (x @ y, q)) (unquote t)"
  using assms by (auto split: option.split)

lemma escape_cases:
  obtains (same) "escape_char c = [c]" "c \<noteq> backslash" "c \<noteq> dquote" "\<not> byte_of c < 32"
  | (short) e where "escape_char c = [backslash, e]" "e \<noteq> CHR ''u''" "map_of simple_escapes e = Some c"
  | (hex) "escape_char c = backslash # ''u00'' @ [hex_digit (byte_of c div 16), hex_digit (byte_of c mod 16)]"
proof -
  have num: "char_of n = c" if "byte_of c = n" for n using that by auto
  have plain: "c \<noteq> dquote \<and> c \<noteq> backslash" if "byte_of c \<in> {8, 12, 10, 13, 9}" using that by auto
  consider "c = dquote \<or> c = backslash" | "byte_of c \<in> {8, 12, 10, 13, 9}"
    | "c \<noteq> dquote" "c \<noteq> backslash" "byte_of c \<notin> {8, 12, 10, 13, 9}" by blast
  then show ?thesis
  proof cases
    case 1
    then show ?thesis by (intro short[of c]) (auto simp: escape_char_def simple_escapes_def)
  next
    case 2
    then have "c \<noteq> dquote \<and> c \<noteq> backslash" by (rule plain)
    then show ?thesis using 2 num
      by (elim insertE emptyE)
         (rule short[of "CHR ''b''"] short[of "CHR ''f''"] short[of "CHR ''n''"] short[of "CHR ''r''"] short[of "CHR ''t''"],
          simp_all add: escape_char_def simple_escapes_def; fail)+
  next
    case 3
    then show ?thesis using same hex by (cases "byte_of c < 32 \<or> c \<in> {CHR ''<'', CHR ''>'', CHR ''&''}") (auto simp: escape_char_def)
  qed
qed

lemma step_escape:
  assumes "byte_of c < 128"
  shows "unquote (escape_char c @ t) = map_option (\<lambda>(y, q). (c # y, q)) (unquote t)"
proof (cases c rule: escape_cases)
  case same
  then show ?thesis using unquote_step[of "[c]" c "[]" t "[c]"] assms by (simp add: string_step_def)
next
  case (short e)
  then show ?thesis using unquote_step[of "[backslash, e]" backslash "[e]" t "[c]"]
    by (simp add: string_step_def decode_escape_def)
next
  case hex
  let ?n = "byte_of c"
  have "hex_val (hex_digit (?n div 16)) = Some (?n div 16)" "hex_val (hex_digit (?n mod 16)) = Some (?n mod 16)"
      "hex_val (CHR ''0'') = Some 0"
    using assms by (simp_all add: hex_val_digit) (simp add: hex_val_def)
  then have "string_step backslash ((''u00'' @ [hex_digit (?n div 16), hex_digit (?n mod 16)]) @ t) = Some ([c], t)"
    using assms by (simp add: string_step_def decode_escape_def decode_u_def encode_rune_def)
  from unquote_step[OF hex _ this] show ?thesis by simp
qed

lemma step_u:
  assumes "getu4 (x @ t) = Some (n, t)" "n < 55296 \<or> 57344 \<le> n"
  shows "unquote (backslash # CHR ''u'' # x @ t) = map_option (\<lambda>(y, q). (encode_rune n @ y, q)) (unquote t)"
  using unquote_step[of "backslash # CHR ''u'' # x" backslash "CHR ''u'' # x" t "encode_rune n"] assms
  by (auto simp: string_step_def decode_escape_def decode_u_def)

lemma step_constants:
  "getu4 (''fffd'' @ t) = Some (65533, t)" "getu4 (''2028'' @ t) = Some (8232, t)" "getu4 (''2029'' @ t) = Some (8233, t)"
  "encode_rune 65533 = replacement" "encode_rune 8232 = line_sep" "encode_rune 8233 = par_sep"
  by (simp_all add: hex_val_def encode_rune_def replacement_def line_sep_def par_sep_def)

lemma step_rune:
  assumes "multibyte (c # s) = Some k"
  shows "unquote (quote_rune (take k (c # s)) @ t) = map_option (\<lambda>(y, q). (take k (c # s) @ y, q)) (unquote t)"
proof -
  let ?u = "take k (c # s)"
  obtain j where k: "k = Suc j" using multibyte_size[OF assms] by (cases k) auto
  have len: "length ?u = k" using multibyte_size[OF assms] by simp
  have "multibyte (?u @ t) = Some k" by (rule multibyte_take[OF assms])
  then have mb: "multibyte (c # take j s @ t) = Some k" by (simp add: k)
  have len': "length (take j s) = j" using len by (simp add: k)
  have big: "128 \<le> byte_of c" by (rule multibyte_head[OF assms])
  then have nq: "c \<noteq> dquote" "c \<noteq> backslash" by auto
  have "string_step c (take j s @ t) = Some (?u, t)"
    using mb big nq len' by (simp add: string_step_def k del: multibyte.simps)
  then have plain: "unquote (?u @ t) = map_option (\<lambda>(y, q). (?u @ y, q)) (unquote t)"
    by (intro unquote_step[where c = c and v = "take j s"]) (simp_all add: k nq)
  show ?thesis
    using plain step_u[OF step_constants(2), of t] step_u[OF step_constants(3), of t]
    by (auto simp: quote_rune_def step_constants)
qed

lemma unquote_quote: "unquote (quote_body s @ dquote # t) = Some (coerce s, t)"
proof (induction s rule: quote_body.induct)
  case (2 c s)
  consider "byte_of c < 128" | "\<not> byte_of c < 128" "multibyte (c # s) = None"
    | k where "\<not> byte_of c < 128" "multibyte (c # s) = Some k" by (cases "multibyte (c # s)") auto
  then show ?case
  proof cases
    case 1
    then show ?thesis using 2 step_escape[OF 1] by (simp del: multibyte.simps)
  next
    case 2
    then show ?thesis using "2.IH" step_u[OF step_constants(1), of "quote_body s @ dquote # t"]
      by (simp add: step_constants del: multibyte.simps unquote.simps)
  next
    case 3
    then show ?thesis using "2.IH" step_rune[OF 3(2), of "quote_body (drop k (c # s)) @ dquote # t"]
      by (simp del: multibyte.simps unquote.simps)
  qed
qed simp

lemma parse_quoted: "parse_item (quote x @ t) = Some (coerce x, t)"
  using unquote_quote[of x t] by (simp add: parse_item_def quote_def)

lemma skip_space_quote [simp]: "skip_space (quote x @ t) = quote x @ t" "skip_space (CHR '','' # t) = CHR '','' # t"
  "skip_space (CHR '']'' # t) = CHR '']'' # t" "skip_space (CHR ''['' # t) = CHR ''['' # t" "skip_space [] = []"
  by (simp_all add: skip_space_def quote_def json_space_def)

lemma parse_quote_list: "xs \<noteq> [] \<Longrightarrow> parse_items (quote_list xs @ CHR '']'' # t) = Some (map coerce xs, t)"
proof (induction xs rule: quote_list.induct)
  case (2 x)
  then show ?case by (subst parse_items.simps) (simp add: parse_quoted)
next
  case (3 x y ys)
  then show ?case by (subst parse_items.simps) (simp add: parse_quoted)
qed simp

theorem unmarshal_marshal: "unmarshal_strings (marshal_strings xs) = Some (map coerce xs)"
proof (cases xs)
  case Nil
  then show ?thesis by (simp add: unmarshal_strings_def marshal_strings_def at_end_def)
next
  case (Cons x ys)
  obtain r where "quote_list xs @ '']'' = dquote # r" using Cons by (cases ys) (simp_all add: quote_def)
  then show ?thesis using parse_quote_list[of xs "[]"] Cons
    by (simp add: unmarshal_strings_def marshal_strings_def at_end_def skip_space_def json_space_def)
qed

end
