(* ===== verification/Rows.thy ===== *)
theory Rows
  imports StoredTime Ledger JsonText "HOL-Library.Monad_Syntax"
begin

text \<open>
  The rows behind the tables of \<open>world\<close>: the arguments of each \<open>INSERT\<close> of \<open>internal/store\<close>
  and the \<open>Scan\<close> of each \<open>SELECT\<close>, with the encodings of \<open>sqlhelpers.go\<close>. The rest of the
  development keeps whole records in its tables; the theorem \<open>rows_read_back\<close> is what
  allows that: what a repository writes is what it reads.

  \<^item> A column holds NULL, a text, bytes or an integer; a row is the list of its columns in the
    order of the statement. A list of strings is stored as JSON text (\<open>JsonText\<close>). A
    \<open>json.RawMessage\<close> is stored and read as the bytes it is (\<open>string(raw)\<close>, \<open>json.RawMessage(s)\<close>),
    so its column holds the raw message itself (\<open>JsonCol\<close>).
  \<^item> \<open>None\<close> is the error of \<open>Scan\<close>, \<open>decodeStrings\<close> or \<open>parseTS\<close>. A status or role that is not
    one of the constants cannot be represented and counts as an error: no statement writes one.
  \<^item> The locale \<open>codec\<close> states what an encoding of one field promises.
\<close>

datatype column = NullCol | TextCol string | JsonCol raw_message | BlobCol bytes | IntCol int

type_synonym row = "column list"

section \<open>Encodings of \<open>sqlhelpers.go\<close>\<close>

fun scan_text :: "column \<Rightarrow> string option" where
  "scan_text (TextCol s) = Some s"
| "scan_text _ = None"

definition nullStr :: "string option \<Rightarrow> column" where
  "nullStr s = (case s of None \<Rightarrow> NullCol | Some v \<Rightarrow> TextCol v)"

fun strPtr :: "column \<Rightarrow> string option option" where
  "strPtr NullCol = Some None"
| "strPtr (TextCol s) = Some (Some s)"
| "strPtr _ = None"

definition ts_col :: "instant \<Rightarrow> column" where "ts_col t = TextCol (ts t)"

definition tsPtr :: "instant option \<Rightarrow> column" where
  "tsPtr t = (case t of None \<Rightarrow> NullCol | Some u \<Rightarrow> ts_col u)"

definition scan_time :: "column \<Rightarrow> instant option" where
  "scan_time c = do { s \<leftarrow> scan_text c; parseTS s }"

definition scanTS :: "column \<Rightarrow> instant option option" where
  "scanTS c = do { ns \<leftarrow> strPtr c;
     case ns of None \<Rightarrow> Some None | Some s \<Rightarrow> if s = '''' then Some None else map_option Some (parseTS s) }"

definition encodeStrings :: "string list \<Rightarrow> column" where
  "encodeStrings v = TextCol (marshal_strings v)"

definition decodeStrings :: "column \<Rightarrow> string list option" where
  "decodeStrings c = do { s \<leftarrow> scan_text c; if s = '''' then Some [] else unmarshal_strings s }"

fun scan_json :: "column \<Rightarrow> raw_message option" where
  "scan_json (JsonCol r) = Some r"
| "scan_json _ = None"

fun scan_blob :: "column \<Rightarrow> bytes option" where
  "scan_blob (BlobCol b) = Some b"
| "scan_blob NullCol = Some []"
| "scan_blob _ = None"

fun scan_int :: "column \<Rightarrow> int option" where
  "scan_int (IntCol n) = Some n"
| "scan_int _ = None"

section \<open>Constants as text\<close>

fun purpose_text :: "nonce_purpose \<Rightarrow> string" where
  "purpose_text NonceIssue = ''issue''" | "purpose_text NonceActivation = ''activation''"
| "purpose_text NonceAdminLogin = ''admin_login''" | "purpose_text NonceStepUp = ''step_up''"

fun activation_text :: "activation_status \<Rightarrow> string" where
  "activation_text ActivationActive = ''active''" | "activation_text ActivationConsumed = ''consumed''"
| "activation_text ActivationExpired = ''expired''"

fun client_text :: "client_type \<Rightarrow> string" where
  "client_text ClientPublic = ''public''" | "client_text ClientConfidential = ''confidential''"

fun grant_text :: "grant_status \<Rightarrow> string" where
  "grant_text GrantActive = ''active''" | "grant_text GrantRotated = ''rotated''"
| "grant_text GrantRevoked = ''revoked''" | "grant_text GrantExpired = ''expired''"

fun kind_text :: "token_kind \<Rightarrow> string" where
  "kind_text TokenAccess = ''access''" | "kind_text TokenActivation = ''activation''"

fun token_text :: "token_status \<Rightarrow> string" where
  "token_text TokenActive = ''active''" | "token_text TokenExpired = ''expired''"
| "token_text TokenRevoked = ''revoked''"

fun key_text :: "key_status \<Rightarrow> string" where
  "key_text KeyPending = ''pending''" | "key_text KeyActive = ''active''" | "key_text KeyRotating = ''rotating''"
| "key_text KeyRetired = ''retired''" | "key_text KeyRevoked = ''revoked''"

fun sub_text :: "sub_status \<Rightarrow> string" where
  "sub_text SubActive = ''active''" | "sub_text SubDowngraded = ''downgraded''"
| "sub_text SubCancelled = ''cancelled''" | "sub_text SubExpired = ''expired''"

fun admin_role_text :: "admin_role \<Rightarrow> string" where
  "admin_role_text RoleOwner = ''owner''" | "admin_role_text RoleOperator = ''operator''"
| "admin_role_text RoleViewer = ''viewer''"

fun push_text :: "push_status \<Rightarrow> string" where
  "push_text PushDraft = ''draft''" | "push_text PushScheduled = ''scheduled''" | "push_text PushRunning = ''running''"
| "push_text PushDone = ''done''" | "push_text PushCancelled = ''cancelled''" | "push_text PushFailed = ''failed''"

fun delivery_text :: "delivery_status \<Rightarrow> string" where
  "delivery_text DeliverySent = ''sent''" | "delivery_text DeliveryFailed = ''failed''"
| "delivery_text DeliverySkipped = ''skipped''"

text \<open>A constant is looked up by its text among all constants of its type.\<close>

definition scan_const :: "('a \<Rightarrow> string) \<Rightarrow> 'a list \<Rightarrow> column \<Rightarrow> 'a option" where
  "scan_const txt all c = do { s \<leftarrow> scan_text c; find (\<lambda>x. txt x = s) all }"

definition purposes :: "nonce_purpose list" where "purposes = [NonceIssue, NonceActivation, NonceAdminLogin, NonceStepUp]"
definition activation_statuses :: "activation_status list" where
  "activation_statuses = [ActivationActive, ActivationConsumed, ActivationExpired]"
definition client_types :: "client_type list" where "client_types = [ClientPublic, ClientConfidential]"
definition grant_statuses :: "grant_status list" where "grant_statuses = [GrantActive, GrantRotated, GrantRevoked, GrantExpired]"
definition token_kinds :: "token_kind list" where "token_kinds = [TokenAccess, TokenActivation]"
definition token_statuses :: "token_status list" where "token_statuses = [TokenActive, TokenExpired, TokenRevoked]"
definition key_statuses :: "key_status list" where
  "key_statuses = [KeyPending, KeyActive, KeyRotating, KeyRetired, KeyRevoked]"
definition sub_statuses :: "sub_status list" where "sub_statuses = [SubActive, SubDowngraded, SubCancelled, SubExpired]"
definition admin_roles :: "admin_role list" where "admin_roles = [RoleOwner, RoleOperator, RoleViewer]"
definition push_statuses :: "push_status list" where
  "push_statuses = [PushDraft, PushScheduled, PushRunning, PushDone, PushCancelled, PushFailed]"

section \<open>What an encoding promises\<close>

text \<open>The \<open>for rows.Next()\<close> loop of the list operations: the first row that cannot be read
  fails the whole list.\<close>

definition scan_many :: "('c \<Rightarrow> 'a option) \<Rightarrow> 'c list \<Rightarrow> 'a list option" where
  "scan_many dec rows = those (map dec rows)"

locale codec =
  fixes enc :: "'a \<Rightarrow> 'c" and dec :: "'c \<Rightarrow> 'a option" and good :: "'a \<Rightarrow> bool"
  assumes reads: "good x \<Longrightarrow> dec (enc x) = Some x"
begin

lemma same_column: "good x \<Longrightarrow> good y \<Longrightarrow> enc x = enc y \<longleftrightarrow> x = y"
  using reads by (metis option.inject)

lemma reads_list: "\<forall>x \<in> set xs. good x \<Longrightarrow> scan_many dec (map enc xs) = Some xs"
  unfolding scan_many_def by (induction xs) (simp_all add: reads)

end

section \<open>The tables\<close>

text \<open>Each \<open>_row\<close> lists the arguments of the \<open>INSERT\<close>, each \<open>scan_\<close> reads the columns of the
  \<open>SELECT\<close>. A consumed code is never handed out, so the readers of one-time credentials do not
  read \<open>consumed_at\<close> into the record.\<close>

definition nonce_row :: "auth_nonce \<Rightarrow> row" where
  "nonce_row n = [TextCol (n_nonce n), TextCol (purpose_text (n_purpose n)), nullStr (n_bound n), ts_col (n_expires n),
     tsPtr (n_consumed n), ts_col (n_created n)]"

definition scan_nonce :: "row \<Rightarrow> auth_nonce option" where
  "scan_nonce r = (case r of [c1, c2, c3, c4, c5, c6] \<Rightarrow> do {
       i \<leftarrow> scan_text c1; p \<leftarrow> scan_const purpose_text purposes c2; b \<leftarrow> strPtr c3; e \<leftarrow> scan_time c4; _ \<leftarrow> strPtr c5;
       t \<leftarrow> scan_time c6;
       Some \<lparr>n_nonce = i, n_purpose = p, n_bound = b, n_expires = e, n_consumed = None, n_created = t\<rparr> }
     | _ \<Rightarrow> None)"

definition code_row :: "auth_code \<Rightarrow> row" where
  "code_row c = [TextCol (c_code c), TextCol (c_client c), TextCol (c_sch c), TextCol (c_aud c), encodeStrings (c_scope c),
     TextCol (c_redirect c), nullStr (c_challenge c), ts_col (c_expires c), tsPtr (c_consumed c), ts_col (c_created c)]"

definition scan_code :: "row \<Rightarrow> auth_code option" where
  "scan_code r = (case r of [c1, c2, c3, c4, c5, c6, c7, c8, c9, c10] \<Rightarrow> do {
       i \<leftarrow> scan_text c1; cl \<leftarrow> scan_text c2; h \<leftarrow> scan_text c3; a \<leftarrow> scan_text c4; ss \<leftarrow> decodeStrings c5;
       u \<leftarrow> scan_text c6; ch \<leftarrow> strPtr c7; e \<leftarrow> scan_time c8; _ \<leftarrow> strPtr c9; t \<leftarrow> scan_time c10;
       Some \<lparr>c_code = i, c_client = cl, c_sch = h, c_aud = a, c_scope = ss, c_redirect = u, c_challenge = ch,
         c_expires = e, c_consumed = None, c_created = t\<rparr> }
     | _ \<Rightarrow> None)"

definition activation_row :: "activation_code \<Rightarrow> row" where
  "activation_row a = [TextCol (a_code a), TextCol (a_sch a), TextCol (a_channel a), TextCol (a_ctype a),
     TextCol (activation_text (a_status a)), ts_col (a_expires a), tsPtr (a_consumed a), ts_col (a_created a)]"

definition scan_activation :: "row \<Rightarrow> activation_code option" where
  "scan_activation r = (case r of [c1, c2, c3, c4, c5, c6, c7, c8] \<Rightarrow> do {
       i \<leftarrow> scan_text c1; h \<leftarrow> scan_text c2; ch \<leftarrow> scan_text c3; ct \<leftarrow> scan_text c4; _ \<leftarrow> scan_text c5;
       e \<leftarrow> scan_time c6; _ \<leftarrow> strPtr c7; t \<leftarrow> scan_time c8;
       Some \<lparr>a_code = i, a_sch = h, a_channel = ch, a_ctype = ct, a_status = ActivationConsumed,
         a_expires = e, a_consumed = None, a_created = t\<rparr> }
     | _ \<Rightarrow> None)"

definition client_row :: "oauth_client \<Rightarrow> row" where
  "client_row c = [TextCol (cl_id c), TextCol (cl_name c), TextCol (client_text (cl_type c)), nullStr (cl_secret c),
     encodeStrings (cl_redirects c), encodeStrings (cl_audiences c), TextCol (cl_status c), ts_col (cl_created c)]"

definition scan_client :: "row \<Rightarrow> oauth_client option" where
  "scan_client r = (case r of [c1, c2, c3, c4, c5, c6, c7, c8] \<Rightarrow> do {
       i \<leftarrow> scan_text c1; n \<leftarrow> scan_text c2; ty \<leftarrow> scan_const client_text client_types c3; s \<leftarrow> strPtr c4;
       us \<leftarrow> decodeStrings c5; as \<leftarrow> decodeStrings c6; st \<leftarrow> scan_text c7; t \<leftarrow> scan_time c8;
       Some \<lparr>cl_id = i, cl_name = n, cl_type = ty, cl_secret = s, cl_redirects = us, cl_audiences = as,
         cl_status = st, cl_created = t\<rparr> }
     | _ \<Rightarrow> None)"

definition grant_row :: "refresh_grant \<Rightarrow> row" where
  "grant_row g = [TextCol (g_id g), TextCol (g_sch g), TextCol (g_aud g), TextCol (client_text (g_ctype g)), BlobCol (g_device g),
     nullStr (g_client g), TextCol (grant_text (g_status g)), nullStr (g_from g), ts_col (g_created g),
     tsPtr (g_expires g), tsPtr (g_lastused g)]"

definition scan_grant :: "row \<Rightarrow> refresh_grant option" where
  "scan_grant r = (case r of [c1, c2, c3, c4, c5, c6, c7, c8, c9, c10, c11] \<Rightarrow> do {
       i \<leftarrow> scan_text c1; h \<leftarrow> scan_text c2; a \<leftarrow> scan_text c3; ty \<leftarrow> scan_const client_text client_types c4; d \<leftarrow> scan_blob c5;
       cl \<leftarrow> strPtr c6; st \<leftarrow> scan_const grant_text grant_statuses c7; f \<leftarrow> strPtr c8;
       t \<leftarrow> scan_time c9; e \<leftarrow> scanTS c10; u \<leftarrow> scanTS c11;
       Some \<lparr>g_id = i, g_sch = h, g_aud = a, g_ctype = ty, g_device = d, g_client = cl, g_status = st, g_from = f,
         g_created = t, g_expires = e, g_lastused = u\<rparr> }
     | _ \<Rightarrow> None)"

definition token_row :: "issued_token \<Rightarrow> row" where
  "token_row t = [TextCol (t_jti t), TextCol (t_sch t), TextCol (kind_text (t_kind t)), TextCol (t_aud t), TextCol (t_kid t),
     nullStr (t_client t), TextCol (token_text (t_status t)), ts_col (t_issued t), ts_col (t_expires t),
     tsPtr (t_redeemed t), tsPtr (t_revoked t)]"

definition scan_token :: "row \<Rightarrow> issued_token option" where
  "scan_token r = (case r of [c1, c2, c3, c4, c5, c6, c7, c8, c9, c10, c11] \<Rightarrow> do {
       i \<leftarrow> scan_text c1; h \<leftarrow> scan_text c2; k \<leftarrow> scan_const kind_text token_kinds c3; a \<leftarrow> scan_text c4; kid \<leftarrow> scan_text c5;
       cl \<leftarrow> strPtr c6; st \<leftarrow> scan_const token_text token_statuses c7; is \<leftarrow> scan_time c8; e \<leftarrow> scan_time c9;
       re \<leftarrow> scanTS c10; rv \<leftarrow> scanTS c11;
       Some \<lparr>t_jti = i, t_sch = h, t_kind = k, t_aud = a, t_kid = kid, t_client = cl, t_status = st, t_issued = is,
         t_expires = e, t_redeemed = re, t_revoked = rv\<rparr> }
     | _ \<Rightarrow> None)"

definition key_row :: "issuer_key \<Rightarrow> row" where
  "key_row k = [TextCol (k_kid k), BlobCol (k_public k), BlobCol (k_private k), TextCol (key_text (k_status k)),
     tsPtr (k_from k), tsPtr (k_until k), ts_col (k_created k), tsPtr (k_retired k)]"

definition scanIssuerKeyRows :: "row \<Rightarrow> issuer_key option" where
  "scanIssuerKeyRows r = (case r of [c1, c2, c3, c4, c5, c6, c7, c8] \<Rightarrow> do {
       i \<leftarrow> scan_text c1; pub \<leftarrow> scan_blob c2; prv \<leftarrow> scan_blob c3; st \<leftarrow> scan_const key_text key_statuses c4;
       t \<leftarrow> scan_time c7; f \<leftarrow> scanTS c5; u \<leftarrow> scanTS c6; re \<leftarrow> scanTS c8;
       Some \<lparr>k_kid = i, k_public = pub, k_private = prv, k_status = st, k_from = f, k_until = u, k_created = t, k_retired = re\<rparr> }
     | _ \<Rightarrow> None)"

definition subscription_row :: "subscription \<Rightarrow> row" where
  "subscription_row x = [TextCol (s_id x), TextCol (s_pool x), TextCol (s_sch x), TextCol (s_channel x), TextCol (s_ctype x),
     TextCol (s_user x), nullStr (s_account x), TextCol (sub_text (s_status x)), TextCol (s_tier x),
     encodeStrings (s_topics x), encodeStrings (s_ents x), ts_col (s_created x), ts_col (s_verified x), ts_col (s_expires x),
     tsPtr (s_grace x), tsPtr (s_cancelled x)]"

definition scanSubscription :: "row \<Rightarrow> subscription option" where
  "scanSubscription r = (case r of [c1, c2, c3, c4, c5, c6, c7, c8, c9, c10, c11, c12, c13, c14, c15, c16] \<Rightarrow> do {
       i \<leftarrow> scan_text c1; p \<leftarrow> scan_text c2; h \<leftarrow> scan_text c3; ch \<leftarrow> scan_text c4; ct \<leftarrow> scan_text c5; u \<leftarrow> scan_text c6;
       ac \<leftarrow> strPtr c7; st \<leftarrow> scan_const sub_text sub_statuses c8; ti \<leftarrow> scan_text c9;
       to \<leftarrow> decodeStrings c10; en \<leftarrow> decodeStrings c11; t \<leftarrow> scan_time c12; v \<leftarrow> scan_time c13; e \<leftarrow> scan_time c14;
       g \<leftarrow> scanTS c15; cc \<leftarrow> scanTS c16;
       Some \<lparr>s_id = i, s_pool = p, s_sch = h, s_channel = ch, s_ctype = ct, s_user = u, s_account = ac, s_status = st,
         s_tier = ti, s_topics = to, s_ents = en, s_created = t, s_verified = v, s_expires = e, s_grace = g, s_cancelled = cc\<rparr> }
     | _ \<Rightarrow> None)"

definition cache_row :: "stake_cache \<Rightarrow> row" where
  "cache_row c = [TextCol (sc_sch c), TextCol (sc_network c), IntCol (sc_epoch c), nullStr (sc_pool c), nullStr (sc_stake c),
     nullStr (sc_rewards c), IntCol (sc_epochs c), TextCol (sc_source c), ts_col (sc_fetched c)]"

definition scan_cache :: "row \<Rightarrow> stake_cache option" where
  "scan_cache r = (case r of [c1, c2, c3, c4, c5, c6, c7, c8, c9] \<Rightarrow> do {
       h \<leftarrow> scan_text c1; n \<leftarrow> scan_text c2; e \<leftarrow> scan_int c3; p \<leftarrow> strPtr c4; a \<leftarrow> strPtr c5; re \<leftarrow> strPtr c6;
       k \<leftarrow> scan_int c7; s \<leftarrow> scan_text c8; t \<leftarrow> scan_time c9;
       Some \<lparr>sc_sch = h, sc_network = n, sc_epoch = e, sc_pool = p, sc_stake = a, sc_rewards = re, sc_epochs = k,
         sc_source = s, sc_fetched = t\<rparr> }
     | _ \<Rightarrow> None)"

definition attestor_row :: "attestor_config \<Rightarrow> row" where
  "attestor_row a = [TextCol (ac_id a), TextCol (ac_kind a), TextCol (ac_label a), JsonCol (paramsOrEmpty (ac_params a)),
     TextCol (ac_status a), ts_col (ac_created a), ts_col (ac_updated a)]"

definition scanAttestorConfig :: "row \<Rightarrow> attestor_config option" where
  "scanAttestorConfig r = (case r of [c1, c2, c3, c4, c5, c6, c7] \<Rightarrow> do {
       i \<leftarrow> scan_text c1; k \<leftarrow> scan_text c2; l \<leftarrow> scan_text c3; p \<leftarrow> scan_json c4; s \<leftarrow> scan_text c5;
       t \<leftarrow> scan_time c6; u \<leftarrow> scan_time c7;
       Some \<lparr>ac_id = i, ac_kind = k, ac_label = l, ac_params = p, ac_status = s, ac_created = t, ac_updated = u\<rparr> }
     | _ \<Rightarrow> None)"

definition channel_row :: "channel_config \<Rightarrow> row" where
  "channel_row c = [TextCol (ch_id c), TextCol (ch_pool c), TextCol (ch_type c), TextCol (ch_name c), JsonCol (ch_config c),
     TextCol (ch_status c), ts_col (ch_created c), ts_col (ch_updated c)]"

definition scanChannel :: "row \<Rightarrow> channel_config option" where
  "scanChannel r = (case r of [c1, c2, c3, c4, c5, c6, c7, c8] \<Rightarrow> do {
       i \<leftarrow> scan_text c1; p \<leftarrow> scan_text c2; ty \<leftarrow> scan_text c3; n \<leftarrow> scan_text c4; cf \<leftarrow> scan_json c5; s \<leftarrow> scan_text c6;
       t \<leftarrow> scan_time c7; u \<leftarrow> scan_time c8;
       Some \<lparr>ch_id = i, ch_pool = p, ch_type = ty, ch_name = n, ch_config = cf, ch_status = s, ch_created = t, ch_updated = u\<rparr> }
     | _ \<Rightarrow> None)"

definition admin_row :: "admin_user \<Rightarrow> row" where
  "admin_row u = [TextCol (u_id u), TextCol (u_pool u), TextCol (u_key u), TextCol (admin_role_text (u_role u)),
     tsPtr (u_lastlogin u), ts_col (u_created u)]"

definition scanAdmin :: "row \<Rightarrow> admin_user option" where
  "scanAdmin r = (case r of [c1, c2, c3, c4, c5, c6] \<Rightarrow> do {
       i \<leftarrow> scan_text c1; p \<leftarrow> scan_text c2; k \<leftarrow> scan_text c3; ro \<leftarrow> scan_const admin_role_text admin_roles c4;
       l \<leftarrow> scanTS c5; t \<leftarrow> scan_time c6;
       Some \<lparr>u_id = i, u_pool = p, u_key = k, u_role = ro, u_lastlogin = l, u_created = t\<rparr> }
     | _ \<Rightarrow> None)"

definition session_row :: "admin_session \<Rightarrow> row" where
  "session_row s = [TextCol (as_token s), TextCol (as_admin s), ts_col (as_expires s), nullStr (as_ip s), ts_col (as_created s)]"

definition scan_session :: "row \<Rightarrow> admin_session option" where
  "scan_session r = (case r of [c1, c2, c3, c4, c5] \<Rightarrow> do {
       k \<leftarrow> scan_text c1; a \<leftarrow> scan_text c2; e \<leftarrow> scan_time c3; ip \<leftarrow> strPtr c4; t \<leftarrow> scan_time c5;
       Some \<lparr>as_token = k, as_admin = a, as_expires = e, as_ip = ip, as_created = t\<rparr> }
     | _ \<Rightarrow> None)"

definition audit_row :: "audit_log \<Rightarrow> row" where
  "audit_row a = [TextCol (au_id a), TextCol (au_actor a), TextCol (au_action a), TextCol (au_target a), nullStr (au_before a),
     nullStr (au_after a), nullStr (au_ip a), ts_col (au_created a)]"

definition scan_audit :: "row \<Rightarrow> audit_log option" where
  "scan_audit r = (case r of [c1, c2, c3, c4, c5, c6, c7, c8] \<Rightarrow> do {
       i \<leftarrow> scan_text c1; w \<leftarrow> scan_text c2; a \<leftarrow> scan_text c3; tg \<leftarrow> scan_text c4; b \<leftarrow> strPtr c5; af \<leftarrow> strPtr c6; ip \<leftarrow> strPtr c7;
       t \<leftarrow> scan_time c8;
       Some \<lparr>au_id = i, au_actor = w, au_action = a, au_target = tg, au_before = b, au_after = af, au_ip = ip, au_created = t\<rparr> }
     | _ \<Rightarrow> None)"

definition job_row :: "push_job \<Rightarrow> row" where
  "job_row j = [TextCol (j_id j), TextCol (j_pool j), TextCol (j_title j), TextCol (j_content j), nullStr (j_channel j),
     TextCol (j_ctype j), nullStr (j_topic j), nullStr (j_ent j), nullStr (j_tier j), TextCol (push_text (j_status j)),
     tsPtr (j_scheduled j), TextCol (j_by j), ts_col (j_created j)]"

definition scanPushJob :: "row \<Rightarrow> push_job option" where
  "scanPushJob r = (case r of [c1, c2, c3, c4, c5, c6, c7, c8, c9, c10, c11, c12, c13] \<Rightarrow> do {
       i \<leftarrow> scan_text c1; p \<leftarrow> scan_text c2; ti \<leftarrow> scan_text c3; co \<leftarrow> scan_text c4; ch \<leftarrow> strPtr c5; ct \<leftarrow> scan_text c6;
       to \<leftarrow> strPtr c7; en \<leftarrow> strPtr c8; tr \<leftarrow> strPtr c9; st \<leftarrow> scan_const push_text push_statuses c10;
       by' \<leftarrow> scan_text c12; sd \<leftarrow> scanTS c11; t \<leftarrow> scan_time c13;
       Some \<lparr>j_id = i, j_pool = p, j_title = ti, j_content = co, j_channel = ch, j_ctype = ct, j_topic = to, j_ent = en,
         j_tier = tr, j_status = st, j_scheduled = sd, j_by = by', j_created = t\<rparr> }
     | _ \<Rightarrow> None)"

text \<open>Deliveries are written and counted, never read back.\<close>

definition delivery_row :: "delivery \<Rightarrow> row" where
  "delivery_row d = [TextCol (d_id d), TextCol (d_job d), TextCol (d_session d), TextCol (d_ctype d), TextCol (d_user d),
     TextCol (delivery_text (d_status d)), IntCol (d_retry d), nullStr (d_error d), tsPtr (d_sent d)]"

definition Delivery_CountByStatus :: "string \<Rightarrow> delivery_status \<Rightarrow> row list \<Rightarrow> nat" where
  "Delivery_CountByStatus i st rows = length (filter (\<lambda>r. r ! 1 = TextCol i \<and> r ! 5 = TextCol (delivery_text st)) rows)"

text \<open>The deny list is only ever asked whether it has a key; the tier rules live in one row with a
  fixed key, and their time of change is not read.\<close>

definition blacklist_row :: "blacklisted \<Rightarrow> row" where
  "blacklist_row b = [TextCol (b_sch b), nullStr (b_reason b), ts_col (b_created b)]"

definition Blacklist_Has_rows :: "string \<Rightarrow> row list \<Rightarrow> bool" where
  "Blacklist_Has_rows sch rows \<longleftrightarrow> length (filter (\<lambda>r. r ! 0 = TextCol sch) rows) > 0"

definition issuerConfigID :: string where "issuerConfigID = ''default''"

definition issuer_config_row :: "raw_message \<Rightarrow> instant \<Rightarrow> row" where
  "issuer_config_row rules now = [TextCol issuerConfigID, JsonCol (if raw_is_empty rules then no_rules else rules), ts_col now]"

definition GetTierRules_rows :: "row list \<Rightarrow> raw_message option" where
  "GetTierRules_rows rows = (case find (\<lambda>r. r ! 0 = TextCol issuerConfigID) rows of
       None \<Rightarrow> Some no_rules
     | Some r \<Rightarrow> map_option (\<lambda>rules. if raw_is_empty rules then no_rules else rules) (scan_json (r ! 1)))"

text \<open>The pool's descriptive row, which no other component reads: \<open>network\<close> and the tier rules of
  earlier versions live in it.\<close>

record pool_config =
  pc_pool :: string
  pc_ticker :: string
  pc_name :: "string option"
  pc_url :: "string option"
  pc_network :: string
  pc_rules :: raw_message
  pc_created :: instant
  pc_updated :: instant

definition pool_row :: "pool_config \<Rightarrow> row" where
  "pool_row p = [TextCol (pc_pool p), TextCol (pc_ticker p), nullStr (pc_name p), nullStr (pc_url p), TextCol (pc_network p),
     JsonCol (if raw_is_empty (pc_rules p) then RawDoc (JArr []) else pc_rules p), ts_col (pc_created p), ts_col (pc_updated p)]"

definition scan_pool :: "row \<Rightarrow> pool_config option" where
  "scan_pool r = (case r of [c1, c2, c3, c4, c5, c6, c7, c8] \<Rightarrow> do {
       i \<leftarrow> scan_text c1; tk \<leftarrow> scan_text c2; n \<leftarrow> strPtr c3; m \<leftarrow> strPtr c4; nw \<leftarrow> scan_text c5; tr \<leftarrow> scan_json c6;
       t \<leftarrow> scan_time c7; u \<leftarrow> scan_time c8;
       Some \<lparr>pc_pool = i, pc_ticker = tk, pc_name = n, pc_url = m, pc_network = nw, pc_rules = tr, pc_created = t, pc_updated = u\<rparr> }
     | _ \<Rightarrow> None)"

definition PoolConfig_Upsert :: "pool_config \<Rightarrow> row list \<Rightarrow> row list" where
  "PoolConfig_Upsert p rows =
     (if \<exists>r \<in> set rows. r ! 0 = TextCol (pc_pool p)
      then map (\<lambda>r. if r ! 0 = TextCol (pc_pool p) then (pool_row p)[0 := r ! 0, 6 := r ! 6] else r) rows
      else rows @ [pool_row p])"

definition PoolConfig_Get :: "string \<Rightarrow> row list \<Rightarrow> pool_config result" where
  "PoolConfig_Get i rows = (case find (\<lambda>r. r ! 0 = TextCol i) rows of
       None \<Rightarrow> Inl ErrNotFound
     | Some r \<Rightarrow> (case scan_pool r of None \<Rightarrow> Inl ErrDB | Some p \<Rightarrow> Inr p))"

section \<open>The encodings keep their promise\<close>

definition good_opt :: "instant option \<Rightarrow> bool" where
  "good_opt t = (case t of None \<Rightarrow> True | Some u \<Rightarrow> four_digit_year u)"

interpretation text_column: codec TextCol scan_text "\<lambda>_. True"
  by unfold_locales simp

interpretation nullable_column: codec nullStr strPtr "\<lambda>_. True"
  by unfold_locales (simp add: nullStr_def split: option.split)

interpretation time_column: codec ts_col scan_time four_digit_year
  by unfold_locales (simp add: ts_col_def scan_time_def parse_ts)

interpretation nullable_time: codec tsPtr scanTS good_opt
  by unfold_locales (auto simp: tsPtr_def scanTS_def ts_col_def good_opt_def parse_ts ts_nonempty split: option.splits)

lemma marshal_nonempty [simp]: "marshal_strings v \<noteq> []"
  by (simp add: marshal_strings_def)

interpretation strings_column: codec encodeStrings decodeStrings "list_all valid_utf8"
proof
  fix v assume "list_all valid_utf8 v"
  then have "map coerce v = v" by (induction v) (simp_all add: coerce_valid)
  then show "decodeStrings (encodeStrings v) = Some v"
    by (simp add: encodeStrings_def decodeStrings_def unmarshal_marshal)
qed

interpretation blob_column: codec BlobCol scan_blob "\<lambda>_. True"
  by unfold_locales simp

lemma const_codec: "\<forall>x. x \<in> set all \<Longrightarrow> inj_on txt (set all) \<Longrightarrow> codec (\<lambda>x. TextCol (txt x)) (scan_const txt all) (\<lambda>_. True)"
proof
  fix x assume all: "\<forall>x. x \<in> set all" and inj: "inj_on txt (set all)"
  have "(\<lambda>y. txt y = txt x) = (\<lambda>y. y = x)" using all inj by (auto simp: inj_on_def)
  moreover have "x \<in> set ys \<Longrightarrow> find (\<lambda>y. y = x) ys = Some x" for ys by (induction ys) auto
  ultimately show "scan_const txt all (TextCol (txt x)) = Some x" using all by (simp add: scan_const_def)
qed

lemmas const_defs = purposes_def activation_statuses_def client_types_def grant_statuses_def token_kinds_def
  token_statuses_def key_statuses_def sub_statuses_def admin_roles_def push_statuses_def

interpretation purpose_column: codec "\<lambda>x. TextCol (purpose_text x)" "scan_const purpose_text purposes" "\<lambda>_. True"
  by (rule const_codec) (auto simp: const_defs intro: nonce_purpose.exhaust)
interpretation client_column: codec "\<lambda>x. TextCol (client_text x)" "scan_const client_text client_types" "\<lambda>_. True"
  by (rule const_codec) (auto simp: const_defs intro: client_type.exhaust)
interpretation grant_column: codec "\<lambda>x. TextCol (grant_text x)" "scan_const grant_text grant_statuses" "\<lambda>_. True"
  by (rule const_codec) (auto simp: const_defs intro: grant_status.exhaust)
interpretation kind_column: codec "\<lambda>x. TextCol (kind_text x)" "scan_const kind_text token_kinds" "\<lambda>_. True"
  by (rule const_codec) (auto simp: const_defs intro: token_kind.exhaust)
interpretation token_column: codec "\<lambda>x. TextCol (token_text x)" "scan_const token_text token_statuses" "\<lambda>_. True"
  by (rule const_codec) (auto simp: const_defs intro: token_status.exhaust)
interpretation key_column: codec "\<lambda>x. TextCol (key_text x)" "scan_const key_text key_statuses" "\<lambda>_. True"
  by (rule const_codec) (auto simp: const_defs intro: key_status.exhaust)
interpretation sub_column: codec "\<lambda>x. TextCol (sub_text x)" "scan_const sub_text sub_statuses" "\<lambda>_. True"
  by (rule const_codec) (auto simp: const_defs intro: sub_status.exhaust)
interpretation role_column: codec "\<lambda>x. TextCol (admin_role_text x)" "scan_const admin_role_text admin_roles" "\<lambda>_. True"
  by (rule const_codec) (auto simp: const_defs intro: admin_role.exhaust)
interpretation push_column: codec "\<lambda>x. TextCol (push_text x)" "scan_const push_text push_statuses" "\<lambda>_. True"
  by (rule const_codec) (auto simp: const_defs intro: push_status.exhaust)

lemmas columns_read =
  nullable_column.reads time_column.reads nullable_time.reads strings_column.reads
  purpose_column.reads client_column.reads grant_column.reads kind_column.reads token_column.reads
  key_column.reads sub_column.reads role_column.reads push_column.reads

section \<open>Rows\<close>

interpretation nonce_table: codec nonce_row scan_nonce
    "\<lambda>n. four_digit_year (n_expires n) \<and> four_digit_year (n_created n) \<and> n_consumed n = None"
  by unfold_locales (simp add: nonce_row_def scan_nonce_def columns_read tsPtr_def)

interpretation code_table: codec code_row scan_code
    "\<lambda>c. four_digit_year (c_expires c) \<and> four_digit_year (c_created c) \<and> list_all valid_utf8 (c_scope c) \<and> c_consumed c = None"
  by unfold_locales (simp add: code_row_def scan_code_def columns_read tsPtr_def)

interpretation client_table: codec client_row scan_client "\<lambda>c. four_digit_year (cl_created c)
    \<and> list_all valid_utf8 (cl_redirects c) \<and> list_all valid_utf8 (cl_audiences c)"
  by unfold_locales (simp add: client_row_def scan_client_def columns_read)

interpretation grant_table: codec grant_row scan_grant
    "\<lambda>g. four_digit_year (g_created g) \<and> good_opt (g_expires g) \<and> good_opt (g_lastused g)"
  by unfold_locales (simp add: grant_row_def scan_grant_def columns_read)

interpretation token_table: codec token_row scan_token
    "\<lambda>t. four_digit_year (t_issued t) \<and> four_digit_year (t_expires t) \<and> good_opt (t_redeemed t) \<and> good_opt (t_revoked t)"
  by unfold_locales (simp add: token_row_def scan_token_def columns_read)

interpretation key_table: codec key_row scanIssuerKeyRows
    "\<lambda>k. four_digit_year (k_created k) \<and> good_opt (k_from k) \<and> good_opt (k_until k) \<and> good_opt (k_retired k)"
  by unfold_locales (simp add: key_row_def scanIssuerKeyRows_def columns_read)

interpretation subscription_table: codec subscription_row scanSubscription
    "\<lambda>x. four_digit_year (s_created x) \<and> four_digit_year (s_verified x) \<and> four_digit_year (s_expires x)
       \<and> good_opt (s_grace x) \<and> good_opt (s_cancelled x) \<and> list_all valid_utf8 (s_topics x) \<and> list_all valid_utf8 (s_ents x)"
  by unfold_locales (simp add: subscription_row_def scanSubscription_def columns_read)

interpretation cache_table: codec cache_row scan_cache "\<lambda>c. four_digit_year (sc_fetched c)"
  by unfold_locales (simp add: cache_row_def scan_cache_def columns_read)

interpretation attestor_table: codec attestor_row scanAttestorConfig
    "\<lambda>a. four_digit_year (ac_created a) \<and> four_digit_year (ac_updated a) \<and> \<not> raw_is_empty (ac_params a)"
  by unfold_locales (simp add: attestor_row_def scanAttestorConfig_def columns_read paramsOrEmpty_def)

interpretation channel_table: codec channel_row scanChannel
    "\<lambda>c. four_digit_year (ch_created c) \<and> four_digit_year (ch_updated c)"
  by unfold_locales (simp add: channel_row_def scanChannel_def columns_read)

interpretation admin_table: codec admin_row scanAdmin
    "\<lambda>u. four_digit_year (u_created u) \<and> good_opt (u_lastlogin u)"
  by unfold_locales (simp add: admin_row_def scanAdmin_def columns_read)

interpretation session_table: codec session_row scan_session
    "\<lambda>s. four_digit_year (as_created s) \<and> four_digit_year (as_expires s)"
  by unfold_locales (simp add: session_row_def scan_session_def columns_read)

interpretation audit_table: codec audit_row scan_audit "\<lambda>a. four_digit_year (au_created a)"
  by unfold_locales (simp add: audit_row_def scan_audit_def columns_read)

interpretation job_table: codec job_row scanPushJob
    "\<lambda>j. four_digit_year (j_created j) \<and> good_opt (j_scheduled j)"
  by unfold_locales (simp add: job_row_def scanPushJob_def columns_read)

interpretation pool_table: codec pool_row scan_pool
    "\<lambda>p. four_digit_year (pc_created p) \<and> four_digit_year (pc_updated p) \<and> \<not> raw_is_empty (pc_rules p)"
  by unfold_locales (simp add: pool_row_def scan_pool_def columns_read)

text \<open>\<open>ORDER BY\<close> a time column, over the rows.\<close>

definition col_text :: "column \<Rightarrow> string" where
  "col_text c = (case c of TextCol s \<Rightarrow> s | _ \<Rightarrow> '''')"

definition order_rows :: "nat \<Rightarrow> row list \<Rightarrow> row list" where
  "order_rows i = sort_key (\<lambda>r. col_text (r ! i))"

lemma insort_key_cong:
  "\<forall>y \<in> set ys. f x \<le> f y \<longleftrightarrow> g x \<le> g y \<Longrightarrow> insort_key f x ys = insort_key g x ys"
  by (induction ys) auto

lemma sort_key_cong:
  assumes "\<forall>x \<in> set xs. \<forall>y \<in> set xs. f x \<le> f y \<longleftrightarrow> g x \<le> g y"
  shows "sort_key f xs = sort_key g xs"
  using assms
proof (induction xs)
  case (Cons x xs)
  then have "sort_key f xs = sort_key g xs" by simp
  moreover have "insort_key f x (sort_key g xs) = insort_key g x (sort_key g xs)"
    using Cons.prems by (intro insort_key_cong) simp
  ultimately show ?case by (simp add: sort_key_def)
qed (simp add: sort_key_def)

lemma insort_key_map: "insort_key f (h x) (map h ys) = map h (insort_key (\<lambda>x. f (h x)) x ys)"
  by (induction ys) auto

lemma sort_key_map: "sort_key f (map h xs) = map h (sort_key (\<lambda>x. f (h x)) xs)"
  by (induction xs) (simp_all add: sort_key_def insort_key_map)

lemma order_rows_time:
  assumes "\<forall>x \<in> set xs. enc x ! i = ts_col (f x) \<and> four_digit_year (f x)"
  shows "order_rows i (map enc xs) = map enc (order_by f xs)"
proof -
  have "sort_key (\<lambda>x. col_text (enc x ! i)) xs = sort_key (\<lambda>x. ts_key (f x)) xs"
  proof (intro sort_key_cong ballI)
    fix x y assume "x \<in> set xs" "y \<in> set xs"
    then show "(col_text (enc x ! i) \<le> col_text (enc y ! i)) = (ts_key (f x) \<le> ts_key (f y))"
      using assms ts_less_text[of "f y" "f x"] by (simp add: col_text_def ts_col_def ts_less_def linorder_not_less[symmetric])
  qed
  then show ?thesis by (simp add: order_rows_def order_by_def sort_key_map)
qed

text \<open>An activation code is read after it has been consumed, and reports itself so.\<close>

lemma activation_reads:
  "four_digit_year (a_expires a) \<Longrightarrow> four_digit_year (a_created a) \<Longrightarrow> a_consumed a = None \<Longrightarrow>
     scan_activation (activation_row a) = Some (a\<lparr>a_status := ActivationConsumed\<rparr>)"
  by (simp add: activation_row_def scan_activation_def columns_read tsPtr_def)

lemma activations_read:
  "\<forall>a \<in> set as. four_digit_year (a_expires a) \<and> four_digit_year (a_created a) \<and> a_consumed a = None \<Longrightarrow>
     scan_many scan_activation (map activation_row as) = Some (map (\<lambda>a. a\<lparr>a_status := ActivationConsumed\<rparr>) as)"
  unfolding scan_many_def by (induction as) (simp_all add: activation_reads)

lemma deny_list_read: "Blacklist_Has_rows sch (map blacklist_row bs) \<longleftrightarrow> sch \<in> b_sch ` set bs"
  by (auto simp: Blacklist_Has_rows_def blacklist_row_def filter_empty_conv)

lemma tier_rules_read:
  "GetTierRules_rows [] = Some no_rules"
  "GetTierRules_rows [issuer_config_row rules now] = Some (if raw_is_empty rules then no_rules else rules)"
  by (simp_all add: GetTierRules_rows_def issuer_config_row_def no_rules_def)

lemma deliveries_counted:
  "Delivery_CountByStatus i st (map delivery_row ds) = length (filter (\<lambda>d. d_job d = i \<and> d_status d = st) ds)"
proof -
  have "delivery_text a = delivery_text b \<longleftrightarrow> a = b" for a b by (cases a; cases b) simp_all
  then show ?thesis
    by (simp add: Delivery_CountByStatus_def delivery_row_def filter_map comp_def)
qed

text \<open>What a world must be like: times that fit into the text of a column, lists of strings in
  UTF-8, and no empty document where the reader of another one would stand in for it.\<close>

definition storable :: "world \<Rightarrow> bool" where
  "storable w \<longleftrightarrow>
     (\<forall>n \<in> set (nonces w). four_digit_year (n_expires n) \<and> four_digit_year (n_created n))
   \<and> (\<forall>c \<in> set (codes w). four_digit_year (c_expires c) \<and> four_digit_year (c_created c) \<and> list_all valid_utf8 (c_scope c))
   \<and> (\<forall>a \<in> set (activations w). four_digit_year (a_expires a) \<and> four_digit_year (a_created a))
   \<and> (\<forall>c \<in> set (clients w). four_digit_year (cl_created c)
        \<and> list_all valid_utf8 (cl_redirects c) \<and> list_all valid_utf8 (cl_audiences c))
   \<and> (\<forall>g \<in> set (grants w). four_digit_year (g_created g) \<and> good_opt (g_expires g) \<and> good_opt (g_lastused g))
   \<and> (\<forall>t \<in> set (tokens w). four_digit_year (t_issued t) \<and> four_digit_year (t_expires t) \<and> good_opt (t_redeemed t) \<and> good_opt (t_revoked t))
   \<and> (\<forall>k \<in> set (ikeys w). four_digit_year (k_created k) \<and> good_opt (k_from k) \<and> good_opt (k_until k) \<and> good_opt (k_retired k))
   \<and> (\<forall>x \<in> set (subs w). four_digit_year (s_created x) \<and> four_digit_year (s_verified x) \<and> four_digit_year (s_expires x)
        \<and> good_opt (s_grace x) \<and> good_opt (s_cancelled x) \<and> list_all valid_utf8 (s_topics x) \<and> list_all valid_utf8 (s_ents x))
   \<and> (\<forall>c \<in> set (scache w). four_digit_year (sc_fetched c))
   \<and> (\<forall>a \<in> set (attestors w). four_digit_year (ac_created a) \<and> four_digit_year (ac_updated a) \<and> \<not> raw_is_empty (ac_params a))
   \<and> (\<forall>c \<in> set (channels w). four_digit_year (ch_created c) \<and> four_digit_year (ch_updated c))
   \<and> (\<forall>u \<in> set (admins w). four_digit_year (u_created u) \<and> good_opt (u_lastlogin u))
   \<and> (\<forall>s \<in> set (asessions w). four_digit_year (as_created s) \<and> four_digit_year (as_expires s))
   \<and> (\<forall>a \<in> set (audits w). four_digit_year (au_created a))
   \<and> (\<forall>j \<in> set (jobs w). four_digit_year (j_created j) \<and> good_opt (j_scheduled j))"

definition storable_pool :: "pool_config \<Rightarrow> bool" where
  "storable_pool p \<longleftrightarrow> four_digit_year (pc_created p) \<and> four_digit_year (pc_updated p) \<and> \<not> raw_is_empty (pc_rules p)"

section \<open>Guarantees\<close>

text \<open>C27: The tables of records stand for tables of rows. Whatever the repositories have written, in
  every table, their readers make of the rows what the model reads from the records: of each
  list the list itself, of one-time credentials those not yet consumed (an activation code as
  consumed, which it is when it is handed out), whether the deny list has a key, the tier
  rules in force, the number of deliveries of a job with a status, and the description of a
  pool. What it takes is that times lie in the years 0 to 9999, that strings within a JSON
  text are UTF-8 and that an attestor's parameters and a pool's rules are not empty.\<close>

theorem rows_read_back:
  assumes "storable w"
  shows "scan_many scan_nonce (map nonce_row (filter (\<lambda>n. n_consumed n = None) (nonces w))) = Some (filter (\<lambda>n. n_consumed n = None) (nonces w))
    \<and> scan_many scan_code (map code_row (filter (\<lambda>c. c_consumed c = None) (codes w))) = Some (filter (\<lambda>c. c_consumed c = None) (codes w))
    \<and> scan_many scan_activation (map activation_row (filter (\<lambda>a. a_consumed a = None) (activations w)))
        = Some (map (\<lambda>a. a\<lparr>a_status := ActivationConsumed\<rparr>) (filter (\<lambda>a. a_consumed a = None) (activations w)))
    \<and> scan_many scan_client (map client_row (clients w)) = Some (clients w)
    \<and> scan_many scan_grant (map grant_row (grants w)) = Some (grants w)
    \<and> scan_many scan_token (map token_row (tokens w)) = Some (tokens w)
    \<and> scan_many scanIssuerKeyRows (map key_row (ikeys w)) = Some (ikeys w)
    \<and> scan_many scanSubscription (map subscription_row (subs w)) = Some (subs w)
    \<and> scan_many scan_cache (map cache_row (scache w)) = Some (scache w)
    \<and> scan_many scanAttestorConfig (map attestor_row (attestors w)) = Some (attestors w)
    \<and> scan_many scanChannel (map channel_row (channels w)) = Some (channels w)
    \<and> scan_many scanAdmin (map admin_row (admins w)) = Some (admins w)
    \<and> scan_many scan_session (map session_row (asessions w)) = Some (asessions w)
    \<and> scan_many scan_audit (map audit_row (audits w)) = Some (audits w)
    \<and> scan_many scanPushJob (map job_row (jobs w)) = Some (jobs w)
    \<and> (\<forall>sch. Blacklist_Has_rows sch (map blacklist_row (banned w)) = (sch \<in> b_sch ` set (banned w)))
    \<and> (\<forall>now. GetTierRules_rows (case tier_rules w of None \<Rightarrow> [] | Some rules \<Rightarrow> [issuer_config_row rules now])
        = Some (case tier_rules w of None \<Rightarrow> no_rules | Some rules \<Rightarrow> if raw_is_empty rules then no_rules else rules))
    \<and> (\<forall>i st. Delivery_CountByStatus i st (map delivery_row (deliveries w))
        = length (filter (\<lambda>d. d_job d = i \<and> d_status d = st) (deliveries w)))
    \<and> (\<forall>p. storable_pool p \<longrightarrow> scan_pool (pool_row p) = Some p)"
  using assms unfolding storable_def
  by (intro conjI allI impI nonce_table.reads_list code_table.reads_list client_table.reads_list grant_table.reads_list
      token_table.reads_list key_table.reads_list subscription_table.reads_list cache_table.reads_list
      attestor_table.reads_list channel_table.reads_list admin_table.reads_list session_table.reads_list
      audit_table.reads_list job_table.reads_list activations_read deny_list_read deliveries_counted pool_table.reads)
     (auto simp: tier_rules_read storable_pool_def split: option.split)

text \<open>And in order: sorting the rows by the text of their creation time and reading them is sorting
  the records as the model does.\<close>

theorem rows_read_in_order:
  assumes "storable w"
  shows "scan_many scan_client (order_rows 7 (map client_row (clients w))) = Some (order_by cl_created (clients w))
    \<and> scan_many scanIssuerKeyRows (order_rows 6 (map key_row (ikeys w))) = Some (order_by k_created (ikeys w))
    \<and> scan_many scan_audit (order_rows 7 (map audit_row (audits w))) = Some (order_by au_created (audits w))
    \<and> scan_many scanPushJob (order_rows 12 (map job_row (jobs w))) = Some (order_by j_created (jobs w))"
proof -
  have "order_rows 7 (map client_row (clients w)) = map client_row (order_by cl_created (clients w))"
      "order_rows 6 (map key_row (ikeys w)) = map key_row (order_by k_created (ikeys w))"
      "order_rows 7 (map audit_row (audits w)) = map audit_row (order_by au_created (audits w))"
      "order_rows 12 (map job_row (jobs w)) = map job_row (order_by j_created (jobs w))"
    using assms by (intro order_rows_time; simp add: storable_def client_row_def key_row_def audit_row_def job_row_def)+
  then show ?thesis
    using assms unfolding storable_def
    by (simp add: client_table.reads_list key_table.reads_list audit_table.reads_list job_table.reads_list)
qed

definition sample_entry :: "string \<Rightarrow> instant \<Rightarrow> audit_log" where
  "sample_entry i t = \<lparr>au_id = i, au_actor = ''a'', au_action = ''login'', au_target = '''', au_before = None, au_after = None,
     au_ip = Some ''::1'', au_created = t\<rparr>"

text \<open>A world with rows in several tables; one text needs every kind of escape.\<close>

definition sample_scope :: "string list" where
  "sample_scope = [''openid'', [dquote, backslash, CHR ''<'', CHR 0x0A, CHR 0x01, CHR 0xE2, CHR 0x80, CHR 0xA8, CHR 0xC3, CHR 0xA9]]"

definition stored_world :: world where
  "stored_world = empty_world\<lparr>
     nonces := [\<lparr>n_nonce = ''n'', n_purpose = NonceStepUp, n_bound = Some ''aa'', n_expires = 1700000000 * second,
       n_consumed = None, n_created = 1700000000 * second\<rparr>],
     codes := [\<lparr>c_code = ''c'', c_client = ''app'', c_sch = ''aa'', c_aud = ''rp'', c_scope = sample_scope,
       c_redirect = ''https://rp'', c_challenge = None, c_expires = 1700000000 * second, c_consumed = None,
       c_created = 1700000000 * second\<rparr>],
     activations := [\<lparr>a_code = ''x'', a_sch = ''aa'', a_channel = ''c1'', a_ctype = ''telegram'', a_status = ActivationActive,
       a_expires = 1700000000 * second, a_consumed = None, a_created = 1700000000 * second\<rparr>],
     banned := [\<lparr>b_sch = ''bb'', b_reason = Some ''admin revoke'', b_created = 1700000000 * second\<rparr>],
     tier_rules := Some (RawDoc (JArr [JStr ''gold''])),
     audits := [sample_entry ''2'' (1700000001 * second), sample_entry ''1'' (1700000000 * second)]\<rparr>"

lemma storable_sample: "storable stored_world"
proof -
  have "four_digit_year (1700000000 * second)" "four_digit_year (1700000001 * second)" "list_all valid_utf8 sample_scope"
    by code_simp+
  then show ?thesis by (simp add: storable_def stored_world_def sample_entry_def empty_world_def)
qed

lemma rows_read_back_witness:
  "(\<exists>c. scan_many scan_code (map code_row (codes stored_world)) = Some [c] \<and> c_scope c = sample_scope)
    \<and> (\<exists>a. scan_many scan_activation (map activation_row (activations stored_world)) = Some [a] \<and> a_sch a = ''aa'')
    \<and> Blacklist_Has_rows ''bb'' (map blacklist_row (banned stored_world))
    \<and> scan_many scan_audit (map audit_row (audits stored_world)) = Some (audits stored_world)"
proof -
  note all = rows_read_back[OF storable_sample]
  have "filter (\<lambda>c. c_consumed c = None) (codes stored_world) = codes stored_world"
    "filter (\<lambda>a. a_consumed a = None) (activations stored_world) = activations stored_world" by (simp_all add: stored_world_def)
  then have "scan_many scan_code (map code_row (codes stored_world)) = Some (codes stored_world)"
    "scan_many scan_activation (map activation_row (activations stored_world))
        = Some (map (\<lambda>a. a\<lparr>a_status := ActivationConsumed\<rparr>) (activations stored_world))" using all by simp_all
  moreover have "\<exists>c. codes stored_world = [c] \<and> c_scope c = sample_scope" "''bb'' \<in> b_sch ` set (banned stored_world)"
    "\<exists>a. activations stored_world = [a] \<and> a_sch a = ''aa''" by (simp_all add: stored_world_def)
  ultimately show ?thesis using all by auto
qed

lemma rows_read_in_order_witness:
  "scan_many scan_audit (order_rows 7 (map audit_row (audits stored_world)))
     = Some [sample_entry ''1'' (1700000000 * second), sample_entry ''2'' (1700000001 * second)]"
proof -
  have "scan_many scan_audit (order_rows 7 (map audit_row (audits stored_world))) = Some (order_by au_created (audits stored_world))"
    using rows_read_in_order[OF storable_sample] by blast
  also have "order_by au_created (audits stored_world)
      = [sample_entry ''1'' (1700000000 * second), sample_entry ''2'' (1700000001 * second)]"
    by (simp add: stored_world_def sample_entry_def order_by_def ts_key_def unix_sec_def second_def)
  finally show "scan_many scan_audit (order_rows 7 (map audit_row (audits stored_world)))
     = Some [sample_entry ''1'' (1700000000 * second), sample_entry ''2'' (1700000001 * second)]" .
qed

text \<open>The pool's row after an upsert: the new values, with the first creation time.\<close>

lemma PoolConfig_Get_Upsert:
  assumes "four_digit_year (pc_created p)" "four_digit_year (pc_updated p)" "\<not> raw_is_empty (pc_rules p)"
    and "\<forall>r \<in> set rows. r ! 0 \<noteq> TextCol (pc_pool p)"
  shows "PoolConfig_Get (pc_pool p) (PoolConfig_Upsert p rows) = Inr p"
proof -
  have "find (\<lambda>r. r ! 0 = TextCol (pc_pool p)) rows = None" using assms(4) by (simp add: find_None_iff)
  moreover have "pool_row p ! 0 = TextCol (pc_pool p)" by (simp add: pool_row_def)
  ultimately have "find (\<lambda>r. r ! 0 = TextCol (pc_pool p)) (PoolConfig_Upsert p rows) = Some (pool_row p)"
    using assms(4) by (auto simp: PoolConfig_Upsert_def find_append)
  then show ?thesis using pool_table.reads[of p] assms(1-3) by (simp add: PoolConfig_Get_def)
qed

end
